(* ===== verification/Prelude.thy ===== *)
theory Prelude
  imports Main "HOL-Library.Word" "HOL-Library.Sublist"
begin

text \<open>
  What every component theory shares: names for the machine types of the C sources, the
  reading of C strings and byte arrays, the theorem collections the component proofs are
  driven by, and generic lemmas on lists, options and decimal digits.

  Conventions.
  \<^item> An octet of memory is a HOL \<open>char\<close> (exactly eight bits). A byte buffer is a
    \<open>char list\<close>; a C string is the \<open>char list\<close> of the octets before its terminator.
  \<^item> Unsigned integers whose wrap-around matters are words (\<open>u8\<close>, \<open>u16\<close>, \<open>u32\<close>);
    sizes, counts and indices (\<open>size_t\<close>) that stay far from \<open>2 ^ 64\<close> are \<open>nat\<close>.
  \<^item> Behaviour the C standard leaves undefined (signed overflow, a write outside an array)
    is the value \<open>None\<close> of an option result, never a value made up for it.
\<close>

section \<open>Machine types\<close>

type_synonym u8 = "8 word"
type_synonym u16 = "16 word"
type_synonym u32 = "32 word"
type_synonym bytes = "char list"

abbreviation NUL :: char where "NUL \<equiv> CHR 0x00"
abbreviation TAB :: char where "TAB \<equiv> CHR 0x09"
abbreviation LF :: char where "LF \<equiv> CHR 0x0A"
abbreviation CR :: char where "CR \<equiv> CHR 0x0D"

text \<open>A string that C code can hold in a \<open>char\<close> array: no terminator inside.\<close>

definition cstr_ok :: "string \<Rightarrow> bool" where
  "cstr_ok s \<longleftrightarrow> NUL \<notin> set s"

text \<open>Reading \<open>s[i]\<close> for an index up to and including the terminator.\<close>

definition cchar :: "string \<Rightarrow> nat \<Rightarrow> char" where
  "cchar s i = (if i < length s then s ! i else NUL)"

text \<open>The range of \<open>int\<close> (32 bits on both targets).\<close>

definition int32_ok :: "int \<Rightarrow> bool" where
  "int32_ok v \<longleftrightarrow> - (2 ^ 31) \<le> v \<and> v < 2 ^ 31"

section \<open>Results of code that may recurse without end\<close>

text \<open>
  The result of a function that is given fuel: a value, behaviour undefined in C, or no result yet.
  No result is the least one: more fuel may turn it into any other, and changes no other.
\<close>

datatype 'a outcome = Done 'a | Undefined | OutOfFuel

instantiation outcome :: (type) order_bot
begin

definition bot_outcome :: "'a outcome" where
  "bot_outcome = OutOfFuel"

definition less_eq_outcome :: "'a outcome \<Rightarrow> 'a outcome \<Rightarrow> bool" where
  "less_eq_outcome r s \<longleftrightarrow> r = OutOfFuel \<or> r = s"

definition less_outcome :: "'a outcome \<Rightarrow> 'a outcome \<Rightarrow> bool" where
  "less_outcome r s \<longleftrightarrow> r = OutOfFuel \<and> s \<noteq> OutOfFuel"

instance
  by standard (auto simp: bot_outcome_def less_eq_outcome_def less_outcome_def)

end

lemma outcome_leI: "(r \<noteq> OutOfFuel \<Longrightarrow> s = r) \<Longrightarrow> r \<le> s"
  by (auto simp: less_eq_outcome_def)

text \<open>A function that only gains results with more fuel keeps the result it has.\<close>

lemma more_fuel_stable:
  assumes "\<And>n. f n \<le> f (Suc n)" and "f n \<noteq> OutOfFuel" and "n \<le> m"
  shows "f m = (f n :: 'a outcome)"
  using lift_Suc_mono_le [of f n m, OF assms(1,3)] assms(2) by (simp add: less_eq_outcome_def)

section \<open>Theorem collections\<close>

named_theorems fs_simps \<open>unfolding rules of the file-system operations\<close>
named_theorems net_simps \<open>unfolding rules of the network encoders and decoders\<close>
named_theorems inv_intros \<open>an operation preserves its component's invariant\<close>

section \<open>Lists and strings\<close>

lemma cstr_ok_simps [simp]:
  "cstr_ok []"
  "cstr_ok (c # s) \<longleftrightarrow> c \<noteq> NUL \<and> cstr_ok s"
  "cstr_ok (s @ t) \<longleftrightarrow> cstr_ok s \<and> cstr_ok t"
  by (auto simp: cstr_ok_def)

lemma cstr_ok_take [intro]: "cstr_ok s \<Longrightarrow> cstr_ok (take n s)"
  by (auto simp: cstr_ok_def dest: in_set_takeD)

lemma cstr_ok_drop [intro]: "cstr_ok s \<Longrightarrow> cstr_ok (drop n s)"
  by (auto simp: cstr_ok_def dest: in_set_dropD)

lemma cstr_ok_nth: "cstr_ok s \<Longrightarrow> i < length s \<Longrightarrow> s ! i \<noteq> NUL"
  by (auto simp: cstr_ok_def in_set_conv_nth)

lemma cchar_in [simp]: "i < length s \<Longrightarrow> cchar s i = s ! i"
  by (simp add: cchar_def)

lemma cchar_end [simp]: "cchar s (length s) = NUL"
  by (simp add: cchar_def)

lemma cchar_append_slash: "cchar (p @ c # t) (length p) = c"
  by (simp add: cchar_def)

text \<open>
  The test \<open>strncmp(p, d, strlen(d)) == 0 && p[strlen(d)] == '/'\<close> of both file systems:
  \<open>p\<close> lies below \<open>d\<close>.
\<close>

definition below :: "string \<Rightarrow> string \<Rightarrow> bool" where
  "below d p \<longleftrightarrow> take (length d) p = d \<and> cchar p (length d) = CHR ''/''"

lemma below_iff: "below d p \<longleftrightarrow> (\<exists>t. p = d @ CHR ''/'' # t)"
proof
  assume *: "below d p"
  then have "length d < length p"
    by (auto simp: below_def cchar_def split: if_splits)
  moreover have "take (length d) p = d" "p ! length d = CHR ''/''"
    using * calculation by (auto simp: below_def)
  ultimately have "p = d @ CHR ''/'' # drop (Suc (length d)) p"
    by (metis id_take_nth_drop)
  then show "\<exists>t. p = d @ CHR ''/'' # t" ..
qed (auto simp: below_def cchar_def)

lemma belowE: "below d p \<Longrightarrow> (\<And>t. p = d @ CHR ''/'' # t \<Longrightarrow> P) \<Longrightarrow> P"
  by (auto simp: below_iff)

lemma below_irrefl [simp]: "\<not> below d d"
  by (auto simp: below_iff)

lemma below_trans: "below a b \<Longrightarrow> below b c \<Longrightarrow> below a c"
  by (auto simp: below_iff)

lemma below_longer: "below d p \<Longrightarrow> length d < length p"
  by (auto simp: below_iff)

lemma below_drop: "below d p \<Longrightarrow> p = d @ drop (length d) p"
  by (auto simp: below_iff)

lemma below_prefix: "below d p \<Longrightarrow> prefix d p"
  by (auto simp: below_iff prefix_def)

text \<open>Moving a subtree: the old prefix is replaced by the new one.\<close>

lemma below_replace: "below s p \<Longrightarrow> below d (d @ drop (length s) p)"
  by (auto simp: below_iff)

text \<open>\<open>strchr\<close> on the list reading of a string: the suffix from the first occurrence.\<close>

definition strchr_s :: "string \<Rightarrow> char \<Rightarrow> string option" where
  "strchr_s s c = (case dropWhile (\<lambda>x. x \<noteq> c) s of [] \<Rightarrow> None | x # xs \<Rightarrow> Some (x # xs))"

lemma strchr_s_None: "strchr_s s c = None \<longleftrightarrow> c \<notin> set s"
  by (auto simp: strchr_s_def dropWhile_eq_Nil_conv split: list.splits)
     (metis (full_types) dropWhile_eq_Nil_conv list.distinct(1))

lemma strchr_s_Some:
  "strchr_s s c = Some t \<longleftrightarrow> (\<exists>u v. s = u @ c # v \<and> c \<notin> set u \<and> t = c # v)"
proof
  assume *: "strchr_s s c = Some t"
  let ?u = "takeWhile (\<lambda>x. x \<noteq> c) s"
  from * have d: "dropWhile (\<lambda>x. x \<noteq> c) s = t" "t \<noteq> []"
    by (auto simp: strchr_s_def split: list.splits)
  then have "hd t = c"
    by (metis (mono_tags, lifting) hd_dropWhile)
  with d have "t = c # tl t"
    by (metis list.collapse)
  moreover have "s = ?u @ t"
    using d by (metis takeWhile_dropWhile_id)
  moreover have "c \<notin> set ?u"
    by (auto dest: set_takeWhileD)
  ultimately show "\<exists>u v. s = u @ c # v \<and> c \<notin> set u \<and> t = c # v"
    by metis
next
  assume "\<exists>u v. s = u @ c # v \<and> c \<notin> set u \<and> t = c # v"
  then obtain u v where s: "s = u @ c # v" "c \<notin> set u" "t = c # v"
    by blast
  then have "dropWhile (\<lambda>x. x \<noteq> c) s = c # v"
    unfolding s(1) by (subst dropWhile_append2) auto
  with s show "strchr_s s c = Some t"
    by (simp add: strchr_s_def)
qed

lemma strchr_s_append [simp]: "c \<notin> set u \<Longrightarrow> strchr_s (u @ c # v) c = Some (c # v)"
  by (auto simp: strchr_s_Some)

lemma strchr_s_notin [simp]: "c \<notin> set u \<Longrightarrow> strchr_s u c = None"
  by (simp add: strchr_s_None)

text \<open>Splitting a list at the first, or the last, occurrence of an element is unique.\<close>

lemma split_first_unique:
  "u @ c # v = u' @ c # v' \<Longrightarrow> c \<notin> set u \<Longrightarrow> c \<notin> set u' \<Longrightarrow> u = u' \<and> v = v'"
proof (induction u arbitrary: u')
  case Nil
  then show ?case by (cases u') auto
next
  case (Cons x u)
  then show ?case by (cases u') auto
qed

lemma split_last_unique:
  assumes "u @ c # v = u' @ c # v'" and "c \<notin> set v" and "c \<notin> set v'"
  shows "u = u' \<and> v = v'"
proof -
  have "rev v @ c # rev u = rev v' @ c # rev u'"
    using arg_cong [OF assms(1), of rev] by simp
  moreover have "c \<notin> set (rev v)" "c \<notin> set (rev v')"
    using assms by auto
  ultimately have "rev v = rev v' \<and> rev u = rev u'"
    by (rule split_first_unique)
  then show ?thesis by simp
qed

lemma take_drop_chunk: "take n (drop k (xs @ ys)) = take n (drop k xs)"
  if "k + n \<le> length xs" for xs ys :: "'a list"
  using that by (simp add: drop_append take_append)

section \<open>Machine words\<close>

lemma unat_u8: "unat (v :: u8) < 256"
  by (rule order_less_le_trans [OF unsigned_less]) simp

lemma unat_u16: "unat (v :: u16) < 65536"
  by (rule order_less_le_trans [OF unsigned_less]) simp

lemma unat_u32: "unat (v :: u32) < 4294967296"
  by (rule order_less_le_trans [OF unsigned_less]) simp

lemma unat_drop_bit: "unat (drop_bit k v) = unat v div 2 ^ k"
proof -
  have "unat (drop_bit k v) = drop_bit k (unat v)"
    by (simp only: unsigned_drop_bit_eq take_bit_nat_eq_self unsigned_less)
  then show ?thesis by (simp only: drop_bit_eq_div)
qed

lemma unat_and_mask: "unat (and v (mask k)) = unat v mod 2 ^ k"
proof -
  have "unat (and v (mask k)) = take_bit k (unat v)"
    by (simp only: unsigned_take_bit_eq flip: take_bit_eq_mask)
  then show ?thesis by (simp only: take_bit_eq_mod)
qed

lemma unat_and_15: "unat (and v (15 :: 'a::len word)) = unat v mod 16"
  using unat_and_mask [of v 4] by (simp add: mask_eq_exp_minus_1)

lemma unat_and_255: "unat (and v (255 :: 'a::len word)) = unat v mod 256"
  using unat_and_mask [of v 8] by (simp add: mask_eq_exp_minus_1)

end
