(* ===== verification/CString.thy ===== *)
theory CString
  imports Prelude
begin

text \<open>
  \<open>src/lib/string.c\<close>, the freestanding C library both kernels link. The memory routines are
  modelled on an address space \<open>mem\<close> (addresses are \<open>nat\<close>; no object straddles the end of the
  address space), each loop as the recursion it is; a loop that scans for a terminator has no
  bound of its own, so it is a \<open>partial_function\<close> and returns \<open>None\<close> where it does not stop.
  The lemmas relate every routine to the list reading of strings (\<open>cstr_at\<close>), which is what
  the other components use. The conversions at the end (\<open>atoi\<close>, \<open>u32_to_dec\<close>, \<open>u32_to_hex\<close>)
  work on that list reading.
\<close>

section \<open>Memory\<close>

type_synonym mem = "nat \<Rightarrow> char"

definition uchar :: "char \<Rightarrow> int" where
  "uchar c = int (of_char c)"

lemma uchar_eq_iff [simp]: "uchar a = uchar b \<longleftrightarrow> a = b"
  by (simp add: uchar_def)

text \<open>The octets of the string \<open>s\<close>, followed by its terminator, stand at address \<open>p\<close>.\<close>

definition cstr_at :: "mem \<Rightarrow> nat \<Rightarrow> string \<Rightarrow> bool" where
  "cstr_at m p s \<longleftrightarrow> cstr_ok s \<and> (\<forall>i<length s. m (p + i) = s ! i) \<and> m (p + length s) = NUL"

definition bytes_at :: "mem \<Rightarrow> nat \<Rightarrow> nat \<Rightarrow> bytes" where
  "bytes_at m p n = map m [p ..< p + n]"

section \<open>Block routines\<close>

fun memcpy :: "mem \<Rightarrow> nat \<Rightarrow> nat \<Rightarrow> nat \<Rightarrow> mem" where
  "memcpy m d s 0 = m"
| "memcpy m d s (Suc n) = memcpy (m(d := m s)) (Suc d) (Suc s) n"

text \<open>The descending loop of \<open>memmove\<close>: \<open>for (i = n; i > 0; --i) d[i-1] = s[i-1]\<close>.\<close>

fun memcpy_down :: "mem \<Rightarrow> nat \<Rightarrow> nat \<Rightarrow> nat \<Rightarrow> mem" where
  "memcpy_down m d s 0 = m"
| "memcpy_down m d s (Suc n) = memcpy_down (m(d + n := m (s + n))) d s n"

definition memmove :: "mem \<Rightarrow> nat \<Rightarrow> nat \<Rightarrow> nat \<Rightarrow> mem" where
  "memmove m d s n =
     (if d = s \<or> n = 0 then m
      else if d < s then memcpy m d s n
      else memcpy_down m d s n)"

fun memset :: "mem \<Rightarrow> nat \<Rightarrow> int \<Rightarrow> nat \<Rightarrow> mem" where
  "memset m d v 0 = m"
| "memset m d v (Suc n) = memset (m(d := char_of (v mod 256))) (Suc d) v n"

fun memcmp :: "mem \<Rightarrow> nat \<Rightarrow> nat \<Rightarrow> nat \<Rightarrow> int" where
  "memcmp m a b 0 = 0"
| "memcmp m a b (Suc n) =
     (if m a \<noteq> m b then uchar (m a) - uchar (m b) else memcmp m (Suc a) (Suc b) n)"

section \<open>String routines\<close>

partial_function (option) strlen_from :: "mem \<Rightarrow> nat \<Rightarrow> nat \<Rightarrow> nat option" where
  "strlen_from m str len = (if m (str + len) \<noteq> NUL then strlen_from m str (Suc len) else Some len)"

definition strlen :: "mem \<Rightarrow> nat \<Rightarrow> nat option" where
  "strlen m str = strlen_from m str 0"

function strnlen_from :: "mem \<Rightarrow> nat \<Rightarrow> nat \<Rightarrow> nat \<Rightarrow> nat" where
  "strnlen_from m str max_len len =
     (if len < max_len \<and> m (str + len) \<noteq> NUL then strnlen_from m str max_len (Suc len) else len)"
  by pat_completeness auto
termination by (relation "measure (\<lambda>(m, str, max_len, len). max_len - len)") auto

declare strnlen_from.simps [simp del]

definition strnlen :: "mem \<Rightarrow> nat \<Rightarrow> nat \<Rightarrow> nat" where
  "strnlen m str max_len = strnlen_from m str max_len 0"

partial_function (option) strcmp :: "mem \<Rightarrow> nat \<Rightarrow> nat \<Rightarrow> int option" where
  "strcmp m lhs rhs =
     (if m lhs \<noteq> NUL \<and> m lhs = m rhs then strcmp m (Suc lhs) (Suc rhs)
      else Some (uchar (m lhs) - uchar (m rhs)))"

fun strncmp :: "mem \<Rightarrow> nat \<Rightarrow> nat \<Rightarrow> nat \<Rightarrow> int" where
  "strncmp m lhs rhs 0 = 0"
| "strncmp m lhs rhs (Suc n) =
     (let a = m lhs; b = m rhs
      in if a \<noteq> b \<or> a = NUL \<or> b = NUL then uchar a - uchar b
         else strncmp m (Suc lhs) (Suc rhs) n)"

partial_function (option) strcpy_from :: "mem \<Rightarrow> nat \<Rightarrow> nat \<Rightarrow> nat \<Rightarrow> mem option" where
  "strcpy_from m dest src i =
     (if m (src + i) \<noteq> NUL
      then strcpy_from (m(dest + i := m (src + i))) dest src (Suc i)
      else Some (m(dest + i := NUL)))"

definition strcpy :: "mem \<Rightarrow> nat \<Rightarrow> nat \<Rightarrow> mem option" where
  "strcpy m dest src = strcpy_from m dest src 0"

text \<open>The two loops of \<open>strncpy\<close>: copy up to the terminator, then pad up to \<open>n\<close>.\<close>

fun strncpy_pad :: "mem \<Rightarrow> nat \<Rightarrow> nat \<Rightarrow> mem" where
  "strncpy_pad m dest 0 = m"
| "strncpy_pad m dest (Suc k) = strncpy_pad (m(dest := NUL)) (Suc dest) k"

fun strncpy :: "mem \<Rightarrow> nat \<Rightarrow> nat \<Rightarrow> nat \<Rightarrow> mem" where
  "strncpy m dest src 0 = m"
| "strncpy m dest src (Suc n) =
     (if m src \<noteq> NUL then strncpy (m(dest := m src)) (Suc dest) (Suc src) n
      else strncpy_pad m dest (Suc n))"

definition strcat :: "mem \<Rightarrow> nat \<Rightarrow> nat \<Rightarrow> mem option" where
  "strcat m dest src =
     (case strlen m dest of None \<Rightarrow> None | Some len \<Rightarrow> strcpy_from m (dest + len) src 0)"

partial_function (option) strchr_loop :: "mem \<Rightarrow> nat \<Rightarrow> char \<Rightarrow> nat option option" where
  "strchr_loop m str ch =
     (if m str \<noteq> NUL
      then (if m str = ch then Some (Some str) else strchr_loop m (Suc str) ch)
      else Some (if ch = NUL then Some str else None))"

text \<open>The inner option is the returned pointer (\<open>None\<close> for a null pointer).\<close>

definition strchr :: "mem \<Rightarrow> nat \<Rightarrow> char \<Rightarrow> nat option option" where
  "strchr m str ch = strchr_loop m str ch"

partial_function (option) strrchr_loop ::
    "mem \<Rightarrow> nat \<Rightarrow> char \<Rightarrow> nat option \<Rightarrow> nat option option" where
  "strrchr_loop m str ch result =
     (if m str \<noteq> NUL
      then strrchr_loop m (Suc str) ch (if m str = ch then Some str else result)
      else Some (if ch = NUL then Some str else result))"

definition strrchr :: "mem \<Rightarrow> nat \<Rightarrow> char \<Rightarrow> nat option option" where
  "strrchr m str ch = strrchr_loop m str ch None"

section \<open>Character classes and number conversion\<close>

definition isspace :: "char \<Rightarrow> bool" where
  "isspace ch \<longleftrightarrow> ch = CHR '' '' \<or> ch = TAB \<or> ch = LF \<or> ch = CR"

definition isprint :: "char \<Rightarrow> bool" where
  "isprint ch \<longleftrightarrow> 32 \<le> uchar ch \<and> uchar ch \<le> 126"

definition isdigit :: "char \<Rightarrow> bool" where
  "isdigit ch \<longleftrightarrow> uchar (CHR ''0'') \<le> uchar ch \<and> uchar ch \<le> uchar (CHR ''9'')"

definition digit_val :: "char \<Rightarrow> int" where
  "digit_val ch = uchar ch - uchar (CHR ''0'')"

text \<open>
  \<open>value = value * 10 + (*str - '0')\<close> in \<open>int\<close>: signed overflow is undefined behaviour,
  the result \<open>None\<close>. The list is the rest of the string.
\<close>

definition acc_digit :: "int \<Rightarrow> char \<Rightarrow> int option" where
  "acc_digit value ch =
     (if int32_ok (value * 10) \<and> int32_ok (value * 10 + digit_val ch)
      then Some (value * 10 + digit_val ch) else None)"

fun atoi_digits :: "string \<Rightarrow> int \<Rightarrow> int option" where
  "atoi_digits [] value = Some value"
| "atoi_digits (c # cs) value =
     (if isdigit c
      then (case acc_digit value c of None \<Rightarrow> None | Some v \<Rightarrow> atoi_digits cs v)
      else Some value)"

definition atoi :: "string \<Rightarrow> int option" where
  "atoi str =
     (let s = dropWhile isspace str
      in if s \<noteq> [] \<and> hd s = CHR ''-'' then map_option uminus (atoi_digits (tl s) 0)
         else atoi_digits s 0)"

text \<open>\<open>temp[len++] = '0' + value % 10; value /= 10\<close>: least significant digit first.\<close>

fun dec_digits :: "nat \<Rightarrow> string" where
  "dec_digits value =
     (if value > 0 then char_of (48 + value mod 10) # dec_digits (value div 10) else [])"

declare dec_digits.simps [simp del]

definition u32_to_dec :: "u32 \<Rightarrow> string" where
  "u32_to_dec value = (if value = 0 then ''0'' else rev (dec_digits (unat value)))"

definition hex_digits :: string where
  "hex_digits = ''0123456789ABCDEF''"

definition u32_to_hex :: "u32 \<Rightarrow> string" where
  "u32_to_hex value =
     ''0x'' @ map (\<lambda>i. hex_digits ! unat (and (drop_bit ((7 - i) * 4) value) 0xF)) [0..<8]"


section \<open>The block routines\<close>

lemma memcpy_below: "s + n \<le> d \<or> d \<le> s \<Longrightarrow>
  memcpy m d s n a = (if d \<le> a \<and> a < d + n then m (s + (a - d)) else m a)"
proof (induction n arbitrary: m d s)
  case 0
  show ?case by auto
next
  case (Suc n)
  have "Suc s + n \<le> Suc d \<or> Suc d \<le> Suc s"
    using Suc.prems by auto
  note IH = Suc.IH [OF this, of "m(d := m s)"]
  show ?case
    unfolding memcpy.simps IH using Suc.prems
    by (auto simp: le_eq_less_or_eq Suc_diff_Suc)
qed

lemma memcpy_down_above: "s \<le> d \<Longrightarrow>
  memcpy_down m d s n a = (if d \<le> a \<and> a < d + n then m (s + (a - d)) else m a)"
proof (induction n arbitrary: m)
  case 0
  show ?case by auto
next
  case (Suc n)
  note IH = Suc.IH [OF Suc.prems, of "m(d + n := m (s + n))"]
  show ?case
    unfolding memcpy_down.simps IH using Suc.prems by (auto simp: less_Suc_eq)
qed

text \<open>\<open>memmove\<close> copies the old contents of the source, however the two ranges overlap.\<close>

lemma memmove_eq:
  "memmove m d s n a = (if d \<le> a \<and> a < d + n then m (s + (a - d)) else m a)"
  by (auto simp: memmove_def memcpy_below memcpy_down_above)

lemma bytes_at_memmove: "bytes_at (memmove m d s n) d n = bytes_at m s n"
  by (rule nth_equalityI) (auto simp: bytes_at_def memmove_eq)

lemma memset_eq:
  "memset m d v n a = (if d \<le> a \<and> a < d + n then char_of (v mod 256) else m a)"
  by (induction n arbitrary: m d) auto

lemma memcmp_zero: "memcmp m a b n = 0 \<longleftrightarrow> bytes_at m a n = bytes_at m b n"
proof (induction n arbitrary: a b)
  case 0
  then show ?case by (simp add: bytes_at_def)
next
  case (Suc n)
  have "\<And>p. bytes_at m p (Suc n) = m p # bytes_at m (Suc p) n"
    by (simp add: bytes_at_def upt_rec)
  with Suc show ?case by auto
qed

section \<open>The string routines on terminated strings\<close>

lemma cstr_at_nth: "cstr_at m p s \<Longrightarrow> i \<le> length s \<Longrightarrow> m (p + i) = cchar s i"
  by (auto simp: cstr_at_def cchar_def)

lemma cstr_at_ok: "cstr_at m p s \<Longrightarrow> cstr_ok s"
  by (simp add: cstr_at_def)

lemma cstr_at_Nil [simp]: "cstr_at m p [] \<longleftrightarrow> m p = NUL"
  by (simp add: cstr_at_def)

lemma cstr_at_Cons [simp]:
  "cstr_at m p (c # s) \<longleftrightarrow> c \<noteq> NUL \<and> m p = c \<and> cstr_at m (Suc p) s"
  by (auto simp: cstr_at_def nth_Cons all_conj_distrib less_Suc_eq_0_disj split: nat.splits)

lemma cstr_at_append:
  "cstr_at m p (s @ t) \<longleftrightarrow> cstr_ok s \<and> bytes_at m p (length s) = s \<and> cstr_at m (p + length s) t"
proof (induction s arbitrary: p)
  case Nil
  then show ?case by (auto simp: bytes_at_def)
next
  case (Cons c s)
  have "bytes_at m p (Suc (length s)) = m p # bytes_at m (Suc p) (length s)"
    by (simp add: bytes_at_def upt_rec)
  with Cons show ?case by auto
qed

lemma strlen_from_at: "cstr_at m (p + k) s \<Longrightarrow> strlen_from m p k = Some (k + length s)"
proof (induction s arbitrary: k)
  case Nil
  then show ?case by (simp add: strlen_from.simps)
next
  case (Cons c s)
  then have "strlen_from m p (Suc k) = Some (Suc k + length s)" by simp
  with Cons.prems show ?case by (simp add: strlen_from.simps [of m p k])
qed

lemma strlen_at: "cstr_at m p s \<Longrightarrow> strlen m p = Some (length s)"
  using strlen_from_at [of m p 0 s] by (simp add: strlen_def)

lemma strnlen_from_at:
  "cstr_at m (p + k) s \<Longrightarrow> k \<le> n \<Longrightarrow> strnlen_from m p n k = min n (k + length s)"
proof (induction s arbitrary: k)
  case Nil
  then show ?case by (subst strnlen_from.simps) simp
next
  case (Cons c s)
  show ?case
  proof (cases "k < n")
    case True
    with Cons have "strnlen_from m p n (Suc k) = min n (Suc k + length s)" by simp
    with True Cons.prems show ?thesis by (subst strnlen_from.simps) simp
  next
    case False
    with Cons.prems show ?thesis by (subst strnlen_from.simps) simp
  qed
qed

lemma strnlen_at: "cstr_at m p s \<Longrightarrow> strnlen m p n = min n (length s)"
  using strnlen_from_at [of m p 0 s n] by (simp add: strnlen_def)

lemma strcmp_at:
  "cstr_at m p s \<Longrightarrow> cstr_at m q t \<Longrightarrow> \<exists>r. strcmp m p q = Some r \<and> (r = 0 \<longleftrightarrow> s = t)"
proof (induction s arbitrary: p q t)
  case Nil
  then show ?case by (cases t) (auto simp: strcmp.simps [of m p q])
next
  case (Cons c s)
  show ?case
  proof (cases t)
    case Nil
    with Cons.prems show ?thesis by (auto simp: strcmp.simps [of m p q])
  next
    case (Cons c' t')
    with Cons.prems Cons.IH [of "Suc p" "Suc q" t'] show ?thesis
      by (auto simp: strcmp.simps [of m p q])
  qed
qed

lemma strncmp_at:
  "cstr_at m p s \<Longrightarrow> cstr_at m q t \<Longrightarrow> strncmp m p q n = 0 \<longleftrightarrow> take n s = take n t"
proof (induction n arbitrary: p q s t)
  case 0
  then show ?case by simp
next
  case (Suc n)
  then show ?case
    by (cases s; cases t) (auto simp: Let_def)
qed

lemma cstr_at_cong:
  "(\<And>a. p \<le> a \<Longrightarrow> a \<le> p + length s \<Longrightarrow> m a = m' a) \<Longrightarrow> cstr_at m p s \<longleftrightarrow> cstr_at m' p s"
  by (auto simp: cstr_at_def)

text \<open>Two address ranges that share no octet.\<close>

definition apart :: "nat \<Rightarrow> nat \<Rightarrow> nat \<Rightarrow> nat \<Rightarrow> bool" where
  "apart p n q k \<longleftrightarrow> p + n \<le> q \<or> q + k \<le> p"

lemma strcpy_from_at:
  assumes "cstr_at m (src + i) s" and "apart (src + i) (Suc (length s)) (dest + i) (Suc (length s))"
  shows "\<exists>m'. strcpy_from m dest src i = Some m' \<and> cstr_at m' (dest + i) s \<and>
    (\<forall>a. a < dest + i \<or> dest + i + length s < a \<longrightarrow> m' a = m a)"
  using assms
proof (induction s arbitrary: m i)
  case Nil
  then show ?case by (auto simp: strcpy_from.simps)
next
  case (Cons c s)
  let ?m = "m(dest + i := m (src + i))"
  have c: "c \<noteq> NUL" "m (src + i) = c" and s: "cstr_at m (src + Suc i) s"
    using Cons.prems(1) by auto
  have "cstr_at ?m (src + Suc i) s"
    using s Cons.prems(2) cstr_at_cong [of "src + Suc i" s ?m m] by (auto simp: apart_def)
  moreover have "apart (src + Suc i) (Suc (length s)) (dest + Suc i) (Suc (length s))"
    using Cons.prems(2) by (auto simp: apart_def)
  ultimately obtain m' where m': "strcpy_from ?m dest src (Suc i) = Some m'"
      "cstr_at m' (dest + Suc i) s"
      "\<forall>a. a < dest + Suc i \<or> dest + Suc i + length s < a \<longrightarrow> m' a = ?m a"
    using Cons.IH by blast
  then have "m' (dest + i) = c" using c by simp
  with m' c show ?case
    by (intro exI [of _ m']) (auto simp: strcpy_from.simps [of m dest src i])
qed

lemma strcpy_at:
  assumes "cstr_at m src s" and "apart src (Suc (length s)) dest (Suc (length s))"
  shows "\<exists>m'. strcpy m dest src = Some m' \<and> cstr_at m' dest s \<and>
    (\<forall>a. a < dest \<or> dest + length s < a \<longrightarrow> m' a = m a)"
  using strcpy_from_at [of m src 0 s dest] assms by (simp add: strcpy_def)

text \<open>
  \<open>strcat\<close> appends in place. The source must not overlap the octets it writes: those
  from the old terminator of the destination on.
\<close>

lemma strcat_at:
  assumes d: "cstr_at m dest s" and t: "cstr_at m src t"
    and apart: "apart src (Suc (length t)) (dest + length s) (Suc (length t))"
  shows "\<exists>m'. strcat m dest src = Some m' \<and> cstr_at m' dest (s @ t) \<and>
    (\<forall>a. a < dest \<or> dest + length s + length t < a \<longrightarrow> m' a = m a)"
proof -
  obtain m' where m': "strcpy_from m (dest + length s) src 0 = Some m'"
      "cstr_at m' (dest + length s) t"
      "\<forall>a. a < dest + length s \<or> dest + length s + length t < a \<longrightarrow> m' a = m a"
    using strcpy_from_at [of m src 0 t "dest + length s"] t apart by auto
  have "bytes_at m' dest (length s) = s"
    using d m'(3) by (intro nth_equalityI) (auto simp: bytes_at_def cstr_at_def)
  then have "cstr_at m' dest (s @ t)"
    using m'(2) cstr_at_ok [OF d] by (simp add: cstr_at_append)
  with m' d show ?thesis
    by (simp add: strcat_def strlen_at)
qed

lemma strncpy_pad_eq: "strncpy_pad m d k a = (if d \<le> a \<and> a < d + k then NUL else m a)"
  by (induction k arbitrary: m d) auto

text \<open>
  \<open>strncpy\<close> fills exactly \<open>n\<close> octets: the string cut to \<open>n\<close>, then zeros; with
  \<open>n \<le> strlen(src)\<close> no terminator is written.
\<close>

lemma strncpy_at:
  assumes "cstr_at m src s" and "apart src (Suc (length s)) dest n"
  shows "strncpy m dest src n a =
    (if dest \<le> a \<and> a < dest + n then cchar (take n s) (a - dest) else m a)"
  using assms
proof (induction n arbitrary: m dest src s)
  case 0
  show ?case by auto
next
  case (Suc n)
  show ?case
  proof (cases s)
    case Nil
    with Suc.prems show ?thesis
      by (auto simp: strncpy_pad_eq cchar_def)
  next
    case (Cons c s')
    let ?m = "m(dest := m src)"
    have c: "c \<noteq> NUL" "m src = c" "cstr_at m (Suc src) s'"
      using Suc.prems(1) Cons by auto
    have "cstr_at ?m (Suc src) s'"
      using c(3) Suc.prems(2) cstr_at_cong [of "Suc src" s' ?m m] Cons
      by (auto simp: apart_def)
    moreover have "apart (Suc src) (Suc (length s')) (Suc dest) n"
      using Suc.prems(2) Cons by (auto simp: apart_def)
    ultimately have IH: "strncpy ?m (Suc dest) (Suc src) n a =
        (if Suc dest \<le> a \<and> a < Suc dest + n then cchar (take n s') (a - Suc dest) else ?m a)"
      by (rule Suc.IH)
    consider "a = dest" | "a < dest" | "dest < a" by linarith
    then show ?thesis
    proof cases
      case 1
      with IH c Cons show ?thesis by (simp add: cchar_def)
    next
      case 2
      with IH c Cons show ?thesis by simp
    next
      case 3
      then obtain k where "a = Suc dest + k" by (auto dest: less_imp_Suc_add)
      with IH c Cons show ?thesis by (auto simp: cchar_def)
    qed
  qed
qed

lemma strchr_at:
  assumes "cstr_at m p s" and "ch \<noteq> NUL"
  shows "strchr m p ch = Some (map_option (\<lambda>t. p + (length s - length t)) (strchr_s s ch))"
  using assms(1) unfolding strchr_def
proof (induction s arbitrary: p)
  case Nil
  with assms(2) show ?case by (simp add: strchr_loop.simps [of m p] strchr_s_def)
next
  case (Cons c s)
  show ?case
  proof (cases "c = ch")
    case True
    with Cons.prems show ?thesis
      by (simp add: strchr_loop.simps [of m p] strchr_s_def)
  next
    case False
    have *: "\<And>t. strchr_s s ch = Some t \<Longrightarrow> length t \<le> length s"
      by (auto simp: strchr_s_Some)
    have "strchr_s (c # s) ch = strchr_s s ch"
      using False by (simp add: strchr_s_def)
    then show ?thesis
      using Cons False
      by (cases "strchr_s s ch") (auto simp: strchr_loop.simps [of m p] Suc_diff_le dest: *)
  qed
qed

text \<open>The offset of the last occurrence, counted in the list reading.\<close>

lemma strrchr_loop_at:
  assumes "cstr_at m p s" and "ch \<noteq> NUL"
  shows "strrchr_loop m p ch r =
    Some (if ch \<in> set s then Some (p + length s - Suc (length (takeWhile (\<lambda>x. x \<noteq> ch) (rev s))))
          else r)"
  using assms(1)
proof (induction s arbitrary: p r)
  case Nil
  with assms(2) show ?case by (simp add: strrchr_loop.simps [of m p])
next
  case (Cons c s)
  then have "strrchr_loop m (Suc p) ch (if c = ch then Some p else r) =
    Some (if ch \<in> set s then Some (Suc p + length s - Suc (length (takeWhile (\<lambda>x. x \<noteq> ch) (rev s))))
          else (if c = ch then Some p else r))"
    by auto
  moreover have "ch \<notin> set s \<Longrightarrow> takeWhile (\<lambda>x. x \<noteq> ch) (rev s @ [c]) =
      rev s @ (if c = ch then [] else [c])"
    by (subst takeWhile_append2) auto
  moreover have "ch \<in> set s \<Longrightarrow> takeWhile (\<lambda>x. x \<noteq> ch) (rev s @ [c]) = takeWhile (\<lambda>x. x \<noteq> ch) (rev s)"
    by (subst takeWhile_append1 [of ch]) auto
  ultimately show ?case
    using Cons.prems by (auto simp: strrchr_loop.simps [of m p])
qed

section \<open>Decimal numbers\<close>

lemma of_char_digit: "d < 10 \<Longrightarrow> of_char (char_of (48 + d) :: char) = (48 + d :: nat)"
  by simp

lemma isdigit_digit [simp]: "(d::nat) < 10 \<Longrightarrow> isdigit (char_of (48 + d))"
  by (simp add: isdigit_def uchar_def)

lemma digit_val_digit [simp]: "(d::nat) < 10 \<Longrightarrow> digit_val (char_of (48 + d)) = int d"
  by (simp add: digit_val_def uchar_def)

lemma dec_digits_isdigit: "c \<in> set (dec_digits v) \<Longrightarrow> isdigit c"
proof (induction v rule: dec_digits.induct)
  case (1 v)
  then show ?case
    by (cases "v > 0") (auto simp: dec_digits.simps [of v])
qed

lemma isdigit_not_NUL: "isdigit c \<Longrightarrow> c \<noteq> NUL \<and> c \<noteq> LF \<and> c \<noteq> CHR ''|'' \<and> c \<noteq> CHR ''.'' \<and>
    c \<noteq> CHR ''-'' \<and> \<not> isspace c"
  by (auto simp: isdigit_def uchar_def isspace_def)

lemma length_dec_digits: "v < 10 ^ k \<Longrightarrow> length (dec_digits v) \<le> k"
proof (induction k arbitrary: v)
  case 0
  then show ?case by (simp add: dec_digits.simps)
next
  case (Suc k)
  then have "v div 10 < 10 ^ k" by (simp add: less_mult_imp_div_less mult.commute)
  with Suc.IH have "length (dec_digits (v div 10)) \<le> k" by blast
  then show ?case by (subst dec_digits.simps) simp
qed

lemma atoi_digits_append:
  "atoi_digits s v = Some w \<Longrightarrow> \<forall>c\<in>set s. isdigit c \<Longrightarrow> atoi_digits (s @ t) v = atoi_digits t w"
  by (induction s arbitrary: v) (auto split: option.splits)

lemma atoi_dec_digits: "v < 2 ^ 31 \<Longrightarrow> atoi_digits (rev (dec_digits v)) 0 = Some (int v)"
proof (induction v rule: dec_digits.induct)
  case (1 v)
  show ?case
  proof (cases "v > 0")
    case False
    then show ?thesis by (simp add: dec_digits.simps)
  next
    case True
    have e: "int (v div 10) * 10 + int (v mod 10) = int v"
      by presburger
    have d: "v mod 10 < 10" by simp
    have "atoi_digits (rev (dec_digits (v div 10))) 0 = Some (int (v div 10))"
      using 1 True by simp
    then have "atoi_digits (rev (dec_digits (v div 10)) @ [char_of (48 + v mod 10)]) 0 =
        atoi_digits [char_of (48 + v mod 10)] (int (v div 10))"
      by (rule atoi_digits_append) (auto dest: dec_digits_isdigit)
    also have "\<dots> = acc_digit (int (v div 10)) (char_of (48 + v mod 10))"
      by (simp split: option.split)
    also have "\<dots> = Some (int v)"
      using "1.prems" e unfolding acc_digit_def int32_ok_def digit_val_digit [OF d] by auto
    finally show ?thesis
      using True by (subst dec_digits.simps) simp
  qed
qed

lemma u32_to_dec_isdigit: "c \<in> set (u32_to_dec v) \<Longrightarrow> isdigit c"
  by (auto simp: u32_to_dec_def isdigit_def uchar_def dest: dec_digits_isdigit split: if_splits)

lemma u32_to_dec_ok [simp]: "cstr_ok (u32_to_dec v)"
  unfolding cstr_ok_def using u32_to_dec_isdigit isdigit_not_NUL by blast

lemma u32_to_dec_length: "length (u32_to_dec v) \<le> 10"
proof -
  have "unat v < 10 ^ 10"
    using unat_u32 [of v] by simp
  then show ?thesis
    using length_dec_digits [of "unat v" 10] by (auto simp: u32_to_dec_def)
qed

lemma u32_to_dec_nonempty: "u32_to_dec v \<noteq> []"
  using unat_gt_0 [of v] by (auto simp: u32_to_dec_def dec_digits.simps [of "unat v"])

lemma atoi_no_prefix:
  "s \<noteq> [] \<Longrightarrow> \<forall>c\<in>set s. isdigit c \<Longrightarrow> atoi s = atoi_digits s 0"
  by (cases s) (simp_all add: atoi_def isdigit_not_NUL)

lemma atoi_u32_to_dec: "unat v < 2 ^ 31 \<Longrightarrow> atoi (u32_to_dec v) = Some (int (unat v))"
proof -
  assume *: "unat v < 2 ^ 31"
  have "atoi (u32_to_dec v) = atoi_digits (u32_to_dec v) 0"
    by (intro atoi_no_prefix u32_to_dec_nonempty) (auto dest: u32_to_dec_isdigit)
  also have "\<dots> = Some (int (unat v))"
    using atoi_dec_digits [OF *]
    by (auto simp: u32_to_dec_def acc_digit_def isdigit_def uchar_def digit_val_def int32_ok_def)
  finally show ?thesis .
qed

section \<open>Hexadecimal numbers\<close>

text \<open>Reading the digits back, most significant first.\<close>

definition hex_digit_val :: "char \<Rightarrow> nat" where
  "hex_digit_val c = length (takeWhile (\<lambda>x. x \<noteq> c) hex_digits)"

definition hex_value :: "string \<Rightarrow> nat" where
  "hex_value s = foldl (\<lambda>n c. n * 16 + hex_digit_val c) 0 s"

lemma hex_digit_val_nth: "i < 16 \<Longrightarrow> hex_digit_val (hex_digits ! i) = i"
proof -
  have "\<forall>i\<in>{0..<16}. hex_digit_val (hex_digits ! i) = i"
    by (simp add: hex_digit_val_def hex_digits_def atLeastLessThan_nat_numeral)
  then show "i < 16 \<Longrightarrow> hex_digit_val (hex_digits ! i) = i" by simp
qed

lemma unat_nibble: "unat (and (drop_bit k (v :: u32)) 0xF) = unat v div 2 ^ k mod 16"
  by (simp only: unat_and_15 unat_drop_bit)

lemma nibble_step: "n div (16 * k) * 16 + n div k mod 16 = n div (k :: nat)"
  by (metis div_mult2_eq div_mult_mod_eq mult.commute)

lemma u32_to_hex_value: "hex_value (drop 2 (u32_to_hex v)) = unat v"
proof -
  let ?d = "\<lambda>k. hex_digit_val (hex_digits ! unat (and (drop_bit k v) 0xF))"
  have d: "?d k = unat v div 2 ^ k mod 16" for k
    by (simp add: unat_nibble hex_digit_val_nth)
  have "unat v div 2 ^ 28 mod 16 = unat v div 2 ^ 28"
    using unat_u32 [of v] by simp
  then show ?thesis
    using nibble_step [of "unat v" "2 ^ 24"] nibble_step [of "unat v" "2 ^ 20"]
      nibble_step [of "unat v" "2 ^ 16"] nibble_step [of "unat v" "2 ^ 12"]
      nibble_step [of "unat v" "2 ^ 8"] nibble_step [of "unat v" "2 ^ 4"]
      nibble_step [of "unat v" 1]
      d [of 0]
    by (simp add: u32_to_hex_def hex_value_def upt_rec d)
qed

section \<open>Properties\<close>

text \<open>Whatever the overlap of the two ranges, \<open>memmove\<close> leaves in the destination the octets the
  source held before the call and changes no other octet.\<close>

theorem memmove_correct:
  "bytes_at (memmove m d s n) d n = bytes_at m s n \<and>
   memmove m d s n = (\<lambda>a. if d \<le> a \<and> a < d + n then m (s + (a - d)) else m a)"
  by (simp add: bytes_at_memmove memmove_eq fun_eq_iff)

text \<open>With the destination string, the source string and room for both apart in memory, \<open>strcat\<close>
  returns, leaves the concatenation terminated at the destination, and writes nothing outside it.\<close>

theorem strcat_correct:
  assumes "cstr_at m dest s" and "cstr_at m src t"
    and "apart src (Suc (length t)) (dest + length s) (Suc (length t))"
  shows "\<exists>m'. strcat m dest src = Some m' \<and> cstr_at m' dest (s @ t) \<and>
    (\<forall>a. a < dest \<or> dest + length s + length t < a \<longrightarrow> m' a = m a)"
  using assms by (rule strcat_at)

theorem strcat_correct_witness:
  "\<exists>m'. strcat (\<lambda>a. if a < 20 then cchar ''/usr'' a else cchar ''/bin'' (a - 20)) 0 20 = Some m' \<and>
     cstr_at m' 0 ''/usr/bin''"
proof -
  let ?m = "\<lambda>a. if a < 20 then cchar ''/usr'' a else cchar ''/bin'' (a - 20)"
  have "cstr_at ?m 0 ''/usr''" "cstr_at ?m 20 ''/bin''"
    by (simp_all add: cchar_def)
  moreover have "apart 20 (Suc (length ''/bin'')) (0 + length ''/usr'') (Suc (length ''/bin''))"
    by (simp add: apart_def)
  ultimately show ?thesis using strcat_correct [of ?m 0 "''/usr''" 20 "''/bin''"] by auto
qed

lemma atoi_digits_big:
  assumes "2 ^ 31 \<le> v" and "v < 2 ^ 32"
  shows "atoi_digits (rev (dec_digits v)) 0 = None"
proof -
  have d: "v mod 10 < 10" by simp
  have "int (v div 10) * 10 + int (v mod 10) = int v" by presburger
  then have over: "acc_digit (int (v div 10)) (char_of (48 + v mod 10)) = None"
    using assms unfolding acc_digit_def int32_ok_def digit_val_digit [OF d] by auto
  have "atoi_digits (rev (dec_digits (v div 10))) 0 = Some (int (v div 10))"
    using assms by (intro atoi_dec_digits) simp
  then have "atoi_digits (rev (dec_digits (v div 10)) @ [char_of (48 + v mod 10)]) 0 =
      atoi_digits [char_of (48 + v mod 10)] (int (v div 10))"
    by (rule atoi_digits_append) (auto dest: dec_digits_isdigit)
  also have "\<dots> = None" using over by simp
  finally show ?thesis using assms(1) by (subst dec_digits.simps) simp
qed

lemma u32_to_dec_reads:
  "length (u32_to_dec v) \<le> 10 \<and>
   atoi (u32_to_dec v) = (if unat v < 2 ^ 31 then Some (int (unat v)) else None)"
proof (cases "unat v < 2 ^ 31")
  case True
  then show ?thesis by (simp add: atoi_u32_to_dec u32_to_dec_length)
next
  case False
  have dec: "u32_to_dec v = rev (dec_digits (unat v))"
    using False by (auto simp: u32_to_dec_def)
  have "atoi (u32_to_dec v) = atoi_digits (u32_to_dec v) 0"
    by (intro atoi_no_prefix u32_to_dec_nonempty) (auto dest: u32_to_dec_isdigit)
  also have "\<dots> = None"
    unfolding dec using False unat_u32 [of v] by (intro atoi_digits_big) simp_all
  finally show ?thesis using False by (simp add: u32_to_dec_length)
qed

text \<open>The decimal text the kernel prints for a 32-bit value has at most ten digits and reads back
  with \<open>atoi\<close> as that value when it fits an \<open>int\<close>; from 2147483648 on reading it back overflows,
  which is undefined in C.\<close>

theorem atoi_of_printed:
  "length (u32_to_dec v) \<le> 10 \<and>
   atoi (u32_to_dec v) = (if unat v < 2 ^ 31 then Some (int (unat v)) else None)"
  by (rule u32_to_dec_reads)

end
