(* ===== verification/Interfaces.thy ===== *)
theory Interfaces
  imports Prelude
begin

text \<open>
  The contracts between the components. Each locale fixes the operations a client calls
  and assumes the laws the provider promises; the theory of the provider interprets it on
  its own definitions.
\<close>

section \<open>A table of named files\<close>

text \<open>
  A store whose observable content is a finite map, and whose operations either take their
  full effect on that map or report failure and leave the store alone.
\<close>

fun run_ops :: "('s \<Rightarrow> 'op \<Rightarrow> 's \<times> bool) \<Rightarrow> 's \<Rightarrow> 'op list \<Rightarrow> 's \<times> bool list" where
  "run_ops step s [] = (s, [])"
| "run_ops step s (op # ops) =
     (let (s', b) = step s op; (s'', bs) = run_ops step s' ops in (s'', b # bs))"

fun abs_run :: "('m \<Rightarrow> 'op \<Rightarrow> 'm) \<Rightarrow> 'm \<Rightarrow> 'op list \<Rightarrow> bool list \<Rightarrow> 'm" where
  "abs_run abs_step m (op # ops) (b # bs) = abs_run abs_step (if b then abs_step m op else m) ops bs"
| "abs_run abs_step m [] bs = m"
| "abs_run abs_step m ops [] = m"

locale file_table =
  fixes inv :: "'s \<Rightarrow> bool"
    and read :: "'s \<Rightarrow> ('k \<rightharpoonup> 'v)"
    and step :: "'s \<Rightarrow> 'op \<Rightarrow> 's \<times> bool"
    and abs_step :: "('k \<rightharpoonup> 'v) \<Rightarrow> 'op \<Rightarrow> ('k \<rightharpoonup> 'v)"
  assumes step_inv: "inv s \<Longrightarrow> step s op = (s', b) \<Longrightarrow> inv s'"
    and step_done: "inv s \<Longrightarrow> step s op = (s', True) \<Longrightarrow> read s' = abs_step (read s) op"
    and step_refused: "inv s \<Longrightarrow> step s op = (s', False) \<Longrightarrow> s' = s"
begin

lemma run_inv: "inv s \<Longrightarrow> run_ops step s ops = (s', bs) \<Longrightarrow> inv s'"
  by (induction ops arbitrary: s bs) (auto split: prod.splits dest: step_inv)

lemma run_refines:
  assumes "inv s" and "run_ops step s ops = (s', bs)"
  shows "read s' = abs_run abs_step (read s) ops bs"
  using assms
proof (induction ops arbitrary: s bs)
  case (Cons op ops)
  obtain s1 b where s1: "step s op = (s1, b)" by (cases "step s op")
  obtain bs' where run: "run_ops step s1 ops = (s', bs')" "bs = b # bs'"
    using Cons.prems s1 by (auto split: prod.splits)
  have "read s1 = (if b then abs_step (read s) op else read s)"
    using step_done [OF Cons.prems(1)] step_refused [OF Cons.prems(1)] s1 by (cases b) auto
  with Cons.IH [OF step_inv [OF Cons.prems(1) s1] run(1)] run(2) show ?case by simp
qed simp

lemma all_refused_nothing_changes:
  "inv s \<Longrightarrow> run_ops step s ops = (s', bs) \<Longrightarrow> True \<notin> set bs \<Longrightarrow> s' = s"
proof (induction ops arbitrary: s bs)
  case (Cons op ops)
  obtain s1 b where s1: "step s op = (s1, b)" by (cases "step s op")
  obtain bs' where run: "run_ops step s1 ops = (s', bs')" "bs = b # bs'"
    using Cons.prems s1 by (auto split: prod.splits)
  with Cons.prems(3) have "\<not> b" "True \<notin> set bs'" by auto
  then have "s1 = s" using step_refused [OF Cons.prems(1), of op s1] s1 by simp
  then show ?case using Cons.IH [of s bs'] Cons.prems(1) run \<open>True \<notin> set bs'\<close> by simp
qed simp

end

section \<open>Fields of a byte buffer\<close>

text \<open>Storing octets at an offset of a buffer, and a fixed-width field codec: what a component
  that builds headers writes and what one that parses them reads.\<close>

definition put_at :: "'b list \<Rightarrow> nat \<Rightarrow> 'b list \<Rightarrow> 'b list" where
  "put_at buf off bs =
     map (\<lambda>i. if off \<le> i \<and> i < off + length bs then bs ! (i - off) else buf ! i) [0 ..< length buf]"

lemma length_put_at [simp]: "length (put_at buf off bs) = length buf"
  by (simp add: put_at_def)

lemma nth_put_at [simp]:
  "i < length buf \<Longrightarrow>
   put_at buf off bs ! i = (if off \<le> i \<and> i < off + length bs then bs ! (i - off) else buf ! i)"
  by (simp add: put_at_def)

lemma put_at_append:
  "off + length bs \<le> length buf \<Longrightarrow> put_at buf off bs = take off buf @ bs @ drop (off + length bs) buf"
  by (rule nth_equalityI) (auto simp: nth_append min_def not_less add.commute)

locale field_codec =
  fixes enc :: "'a \<Rightarrow> 'b list"
    and dec :: "'b list \<Rightarrow> nat \<Rightarrow> 'a"
    and width :: nat
    and wf :: "'a \<Rightarrow> bool"
  assumes length_enc: "length (enc x) = width"
    and dec_enc: "wf x \<Longrightarrow> off + width \<le> length buf \<Longrightarrow> (\<And>i. i < width \<Longrightarrow> buf ! (off + i) = enc x ! i) \<Longrightarrow> dec buf off = x"
    and dec_local: "off + width \<le> length buf \<Longrightarrow> length buf' = length buf \<Longrightarrow>
      (\<And>i. i < width \<Longrightarrow> buf ! (off + i) = buf' ! (off + i)) \<Longrightarrow> dec buf off = dec buf' off"
begin

lemma dec_put: "wf x \<Longrightarrow> off + width \<le> length buf \<Longrightarrow> dec (put_at buf off (enc x)) off = x"
  by (rule dec_enc) (simp_all add: nth_put_at length_enc)

lemma dec_put_other:
  assumes "off + width \<le> length buf" and "off' + length bs \<le> length buf"
    and "off' + length bs \<le> off \<or> off + width \<le> off'"
  shows "dec (put_at buf off' bs) off = dec buf off"
  using assms by (intro dec_local) (auto simp: nth_put_at)

lemma dec_append: "wf x \<Longrightarrow> dec (pre @ enc x @ post) (length pre) = x"
  by (rule dec_enc) (auto simp: length_enc nth_append)

lemma enc_inj: "wf x \<Longrightarrow> wf y \<Longrightarrow> enc x = enc y \<Longrightarrow> x = y"
  using dec_append [of x "[]" "[]"] dec_append [of y "[]" "[]"] by simp

end

section \<open>A bounded queue\<close>

text \<open>A first-in first-out buffer that keeps what it holds and refuses what does not fit.\<close>

fun drain :: "('s \<Rightarrow> ('a \<times> 's) option) \<Rightarrow> nat \<Rightarrow> 's \<Rightarrow> 'a list \<times> 's" where
  "drain pop 0 s = ([], s)"
| "drain pop (Suc n) s =
     (case pop s of None \<Rightarrow> ([], s) | Some (x, s) \<Rightarrow> (case drain pop n s of (xs, s) \<Rightarrow> (x # xs, s)))"

locale bounded_queue =
  fixes inv :: "'s \<Rightarrow> bool"
    and contents :: "'s \<Rightarrow> 'a list"
    and push :: "'a \<Rightarrow> 's \<Rightarrow> 's"
    and pop :: "'s \<Rightarrow> ('a \<times> 's) option"
    and capacity :: nat
  assumes push_inv: "inv s \<Longrightarrow> inv (push x s)"
    and pop_inv: "inv s \<Longrightarrow> pop s = Some (x, s') \<Longrightarrow> inv s'"
    and push_room: "inv s \<Longrightarrow> length (contents s) < capacity \<Longrightarrow> contents (push x s) = contents s @ [x]"
    and push_full: "inv s \<Longrightarrow> capacity \<le> length (contents s) \<Longrightarrow> push x s = s"
    and pop_empty: "inv s \<Longrightarrow> pop s = None \<longleftrightarrow> contents s = []"
    and pop_first: "inv s \<Longrightarrow> pop s = Some (x, s') \<Longrightarrow> contents s = x # contents s'"
    and room: "inv s \<Longrightarrow> length (contents s) \<le> capacity"
begin

lemma push_keeps: "inv s \<Longrightarrow> contents (push x s) = take capacity (contents s @ [x])"
  using push_room [of s x] push_full [of s x] room [of s] by (cases "length (contents s) < capacity") simp_all

lemma pushes_keep: "inv s \<Longrightarrow> inv (fold push xs s) \<and> contents (fold push xs s) = take capacity (contents s @ xs)"
proof (induction xs arbitrary: s)
  case Nil
  then show ?case using room [OF Nil] by simp
next
  case (Cons x xs)
  have "take capacity (take capacity (contents s @ [x]) @ xs) = take capacity (contents s @ x # xs)"
    using room [OF Cons.prems] by (cases "length (contents s) < capacity") (simp_all add: min_def)
  then show ?case using Cons.IH [OF push_inv [OF Cons.prems]] push_keeps [OF Cons.prems, of x] by simp
qed

lemma drain_upto:
  "inv s \<Longrightarrow> length (contents s) \<le> n \<Longrightarrow> \<exists>s'. drain pop n s = (contents s, s') \<and> inv s' \<and> contents s' = []"
proof (induction n arbitrary: s)
  case (Suc n)
  show ?case
  proof (cases "pop s")
    case None
    then show ?thesis using pop_empty [OF Suc.prems(1)] Suc.prems(1) by simp
  next
    case (Some p)
    then obtain x s1 where p: "pop s = Some (x, s1)" by (cases p) auto
    with Suc pop_inv [OF Suc.prems(1) p] pop_first [OF Suc.prems(1) p] show ?thesis by fastforce
  qed
qed simp

end

end
