(* ===== verification/LegacyFs.thy ===== *)
theory LegacyFs
  imports CString Interfaces
begin

text \<open>
  The RAM file system of the x86 kernel, \<open>src/kernel/fs.c\<close>. A path is normalised first: no leading,
  trailing or doubled slash, at most 63 characters, the empty path for the root. \<open>g_nodes\<close> is the
  array of 64 slots and \<open>g_entry_count\<close> the number in use. What the rest of the kernel sees is not the
  node but the \<open>fs_entry_t\<close> inside it, whose name and data are pointers: \<open>entry_slot\<close> is the slot they
  point into (both the same; \<open>None\<close> is \<open>NULL\<close>), its size and type are copies. A pointer to an entry is
  the index of its slot. \<open>n_data\<close> is the prefix of the 16384-octet array that has been written since
  the last \<open>memset\<close>; the octets after it are zero (\<open>octets\<close>).
\<close>

definition MAX_FS_ENTRIES :: nat where "MAX_FS_ENTRIES = 64"
definition FS_PATH_MAX :: nat where "FS_PATH_MAX = 64"
definition FS_MAX_ENTRY_SIZE :: nat where "FS_MAX_ENTRY_SIZE = 16384"
definition FS_TYPE_TEXT :: nat where "FS_TYPE_TEXT = 1"
definition FS_TYPE_PROGRAM :: nat where "FS_TYPE_PROGRAM = 2"
definition FS_TYPE_DIR :: nat where "FS_TYPE_DIR = 3"

record fs_entry =
  entry_slot :: "nat option"
  entry_size :: nat
  entry_type :: nat

record fs_node =
  n_name :: string
  n_data :: bytes
  n_size :: nat
  n_type :: nat
  n_entry :: fs_entry

record fs_state =
  g_nodes :: "fs_node list"
  g_entry_count :: nat

definition live :: "fs_state \<Rightarrow> fs_node list" where
  "live st = take (g_entry_count st) (g_nodes st)"

definition fs_sync_entry :: "nat \<Rightarrow> fs_node list \<Rightarrow> fs_node list" where
  "fs_sync_entry i ns =
     ns[i := (ns ! i)\<lparr>n_entry := \<lparr>entry_slot = Some i, entry_size = n_size (ns ! i), entry_type = n_type (ns ! i)\<rparr>\<rparr>]"

text \<open>What a reader of an entry sees through its pointers.\<close>

definition octets :: "nat \<Rightarrow> bytes \<Rightarrow> bytes" where
  "octets n data = take n (data @ replicate n NUL)"

definition entry_view :: "fs_state \<Rightarrow> nat \<Rightarrow> (string \<times> bytes \<times> nat) option" where
  "entry_view st i =
     (let e = n_entry (g_nodes st ! i)
      in map_option (\<lambda>s. (n_name (g_nodes st ! s), octets (entry_size e) (n_data (g_nodes st ! s)), entry_type e))
           (entry_slot e))"

section \<open>Paths\<close>

fun normalize_loop :: "string \<Rightarrow> string \<Rightarrow> bool \<Rightarrow> string option" where
  "normalize_loop [] out last_was_slash = Some out"
| "normalize_loop (ch # input) out last_was_slash =
     (if ch = CHR ''/'' then
        if out = [] \<or> last_was_slash then normalize_loop input out True
        else if length out + 1 \<ge> FS_PATH_MAX then None
        else normalize_loop input (out @ [CHR ''/'']) True
      else if length out + 1 \<ge> FS_PATH_MAX then None
      else normalize_loop input (out @ [ch]) False)"

text \<open>The loop that cuts trailing slashes.\<close>

definition cut_slashes :: "string \<Rightarrow> string" where
  "cut_slashes out = rev (dropWhile (\<lambda>c. c = CHR ''/'') (rev out))"

definition fs_normalize_path :: "string \<Rightarrow> string option" where
  "fs_normalize_path input =
     (if input = [] then Some [] else map_option cut_slashes (normalize_loop input [] False))"

definition fs_parent_path :: "string \<Rightarrow> string option" where
  "fs_parent_path normalized =
     (if CHR ''/'' \<notin> set normalized then Some []
      else let parent = rev (tl (dropWhile (\<lambda>c. c \<noteq> CHR ''/'') (rev normalized)))
           in if length parent \<ge> FS_PATH_MAX then None else Some parent)"

definition fs_is_direct_child :: "string \<Rightarrow> string \<Rightarrow> bool" where
  "fs_is_direct_child directory candidate =
     (if directory = [] then CHR ''/'' \<notin> set candidate
      else below directory candidate \<and> CHR ''/'' \<notin> set (drop (length directory + 1) candidate))"

section \<open>Lookup\<close>

fun node_index :: "string \<Rightarrow> fs_node list \<Rightarrow> nat option" where
  "node_index path [] = None"
| "node_index path (n # ns) = (if n_name n = path then Some 0 else map_option Suc (node_index path ns))"

definition fs_find_node_normalized :: "fs_state \<Rightarrow> string \<Rightarrow> nat option" where
  "fs_find_node_normalized st normalized = node_index normalized (live st)"

definition fs_has_children :: "fs_state \<Rightarrow> string \<Rightarrow> bool" where
  "fs_has_children st normalized = list_ex (\<lambda>n. normalized = [] \<or> below normalized (n_name n)) (live st)"

definition fs_parent_exists :: "fs_state \<Rightarrow> string \<Rightarrow> bool" where
  "fs_parent_exists st normalized =
     (case fs_parent_path normalized of
        None \<Rightarrow> False
      | Some parent \<Rightarrow> parent = [] \<or>
          (case fs_find_node_normalized st parent of
             None \<Rightarrow> False | Some i \<Rightarrow> n_type (g_nodes st ! i) = FS_TYPE_DIR))"

definition fs_count :: "fs_state \<Rightarrow> nat" where
  "fs_count st = g_entry_count st"

definition fs_get :: "fs_state \<Rightarrow> nat \<Rightarrow> nat option" where
  "fs_get st index = (if index \<ge> g_entry_count st then None else Some index)"

definition fs_find :: "fs_state \<Rightarrow> string \<Rightarrow> nat option" where
  "fs_find st path =
     (case fs_normalize_path path of None \<Rightarrow> None | Some normalized \<Rightarrow> fs_find_node_normalized st normalized)"

definition fs_list :: "fs_state \<Rightarrow> string \<Rightarrow> nat \<Rightarrow> nat list" where
  "fs_list st directory max_results =
     (case fs_normalize_path directory of
        None \<Rightarrow> []
      | Some normalized \<Rightarrow>
          if normalized \<noteq> [] \<and>
             (case fs_find_node_normalized st normalized of
                None \<Rightarrow> True | Some i \<Rightarrow> n_type (g_nodes st ! i) \<noteq> FS_TYPE_DIR)
          then []
          else take max_results
                 (filter (\<lambda>i. fs_is_direct_child normalized (n_name (g_nodes st ! i))) [0 ..< g_entry_count st]))"

definition fs_exists :: "fs_state \<Rightarrow> string \<Rightarrow> bool" where
  "fs_exists st path \<longleftrightarrow> fs_find st path \<noteq> None"

definition fs_is_dir :: "fs_state \<Rightarrow> string \<Rightarrow> bool" where
  "fs_is_dir st path =
     (case fs_find st path of None \<Rightarrow> False | Some i \<Rightarrow> entry_type (n_entry (g_nodes st ! i)) = FS_TYPE_DIR)"

section \<open>Mutation\<close>

definition no_entry :: fs_entry where
  "no_entry = \<lparr>entry_slot = None, entry_size = 0, entry_type = 0\<rparr>"

definition fs_push_node :: "fs_state \<Rightarrow> string \<Rightarrow> nat \<Rightarrow> fs_state option" where
  "fs_push_node st normalized type =
     (if g_entry_count st \<ge> MAX_FS_ENTRIES \<or> length normalized + 1 > FS_PATH_MAX then None
      else let i = g_entry_count st;
               node = \<lparr>n_name = normalized, n_data = [], n_size = 0, n_type = type, n_entry = no_entry\<rparr>
           in Some (st\<lparr>g_nodes := fs_sync_entry i ((g_nodes st)[i := node]), g_entry_count := i + 1\<rparr>))"

text \<open>Storing contents, size and type in a slot, followed by \<open>fs_sync_entry\<close>.\<close>

definition store_node :: "fs_state \<Rightarrow> nat \<Rightarrow> bytes \<Rightarrow> nat \<Rightarrow> fs_state" where
  "store_node st i data type =
     st\<lparr>g_nodes := fs_sync_entry i
          ((g_nodes st)[i := (g_nodes st ! i)\<lparr>n_data := data, n_size := length data, n_type := type\<rparr>])\<rparr>"

function ensure_dirs :: "fs_state \<Rightarrow> string \<Rightarrow> string \<Rightarrow> fs_state \<times> bool" where
  "ensure_dirs st done rest =
     (if rest = [] then (st, True)
      else case strchr_s rest CHR ''/'' of
        None \<Rightarrow> (st, True)
      | Some slash \<Rightarrow>
          let segment = take (length rest - length slash) rest; partial = done @ segment
          in if length partial \<ge> FS_PATH_MAX then (st, False)
             else (case fs_find_node_normalized st partial of
                     None \<Rightarrow>
                       (case fs_push_node st partial FS_TYPE_DIR of
                          None \<Rightarrow> (st, False)
                        | Some st \<Rightarrow> ensure_dirs st (partial @ [CHR ''/'']) (tl slash))
                   | Some i \<Rightarrow>
                       if n_type (g_nodes st ! i) \<noteq> FS_TYPE_DIR then (st, False)
                       else ensure_dirs st (partial @ [CHR ''/'']) (tl slash)))"
  by auto
termination by (relation "measure (\<lambda>(st, done, rest). length rest)") (auto simp: strchr_s_Some)

declare ensure_dirs.simps [simp del]

definition fs_ensure_dir_chain :: "fs_state \<Rightarrow> string \<Rightarrow> fs_state \<times> bool" where
  "fs_ensure_dir_chain st normalized = ensure_dirs st [] normalized"

definition fs_load_file :: "fs_state \<Rightarrow> string \<Rightarrow> bytes \<Rightarrow> nat \<Rightarrow> fs_state \<times> bool" where
  "fs_load_file st path data type =
     (case fs_normalize_path path of
        None \<Rightarrow> (st, False)
      | Some normalized \<Rightarrow>
          if normalized = [] \<or> type = FS_TYPE_DIR \<or> length data > FS_MAX_ENTRY_SIZE then (st, False)
          else (case fs_ensure_dir_chain st normalized of
                  (st, False) \<Rightarrow> (st, False)
                | (st, True) \<Rightarrow>
                    (case fs_push_node st normalized type of
                       None \<Rightarrow> (st, False)
                     | Some st \<Rightarrow> (store_node st (g_entry_count st - 1) data type, True))))"

definition fs_mkdir :: "fs_state \<Rightarrow> string \<Rightarrow> fs_state \<times> bool" where
  "fs_mkdir st path =
     (case fs_normalize_path path of
        None \<Rightarrow> (st, False)
      | Some normalized \<Rightarrow>
          if normalized = [] then (st, False)
          else (case fs_find_node_normalized st normalized of
                  Some i \<Rightarrow> (st, n_type (g_nodes st ! i) = FS_TYPE_DIR)
                | None \<Rightarrow>
                    if \<not> fs_parent_exists st normalized then (st, False)
                    else (case fs_push_node st normalized FS_TYPE_DIR of
                            None \<Rightarrow> (st, False) | Some st \<Rightarrow> (st, True))))"

definition fs_write_file :: "fs_state \<Rightarrow> string \<Rightarrow> bytes \<Rightarrow> nat \<Rightarrow> fs_state \<times> bool" where
  "fs_write_file st path data type =
     (case fs_normalize_path path of
        None \<Rightarrow> (st, False)
      | Some normalized \<Rightarrow>
          if normalized = [] \<or> type = FS_TYPE_DIR \<or> length data > FS_MAX_ENTRY_SIZE then (st, False)
          else (case fs_find_node_normalized st normalized of
                  Some i \<Rightarrow>
                    if n_type (g_nodes st ! i) = FS_TYPE_DIR then (st, False)
                    else (store_node st i data type, True)
                | None \<Rightarrow>
                    if \<not> fs_parent_exists st normalized then (st, False)
                    else (case fs_push_node st normalized type of
                            None \<Rightarrow> (st, False)
                          | Some st \<Rightarrow> (store_node st (g_entry_count st - 1) data type, True))))"

definition fs_append_file :: "fs_state \<Rightarrow> string \<Rightarrow> bytes \<Rightarrow> fs_state \<times> bool" where
  "fs_append_file st path data =
     (case fs_normalize_path path of
        None \<Rightarrow> (st, False)
      | Some normalized \<Rightarrow>
          if normalized = [] then (st, False)
          else (case fs_find_node_normalized st normalized of
                  None \<Rightarrow> fs_write_file st normalized data FS_TYPE_TEXT
                | Some i \<Rightarrow>
                    let node = g_nodes st ! i
                    in if n_type node \<noteq> FS_TYPE_TEXT \<or> n_size node + length data > FS_MAX_ENTRY_SIZE then (st, False)
                       else (store_node st i (octets (n_size node) (n_data node) @ data) (n_type node), True)))"

text \<open>The loop that closes the gap copies whole nodes, entries included.\<close>

definition shift_down :: "nat \<Rightarrow> nat \<Rightarrow> fs_node list \<Rightarrow> fs_node list" where
  "shift_down i count ns = fold (\<lambda>j ns. ns[j - 1 := ns ! j]) [i + 1 ..< count] ns"

definition fs_remove :: "fs_state \<Rightarrow> string \<Rightarrow> fs_state \<times> bool" where
  "fs_remove st path =
     (case fs_normalize_path path of
        None \<Rightarrow> (st, False)
      | Some normalized \<Rightarrow>
          if normalized = [] then (st, False)
          else (case fs_find_node_normalized st normalized of
                  None \<Rightarrow> (st, False)
                | Some i \<Rightarrow>
                    if n_type (g_nodes st ! i) = FS_TYPE_DIR \<and> fs_has_children st normalized then (st, False)
                    else (st\<lparr>g_nodes := shift_down i (g_entry_count st) (g_nodes st),
                             g_entry_count := g_entry_count st - 1\<rparr>, True)))"

definition fs_copy :: "fs_state \<Rightarrow> string \<Rightarrow> string \<Rightarrow> fs_state \<times> bool" where
  "fs_copy st source destination =
     (case (fs_normalize_path source, fs_normalize_path destination) of
        (Some normalized_source, Some normalized_destination) \<Rightarrow>
          (case fs_find_node_normalized st normalized_source of
             None \<Rightarrow> (st, False)
           | Some i \<Rightarrow>
               let node = g_nodes st ! i
               in if n_type node = FS_TYPE_DIR then (st, False)
                  else if fs_find_node_normalized st normalized_destination \<noteq> None then (st, False)
                  else fs_write_file st normalized_destination (octets (n_size node) (n_data node)) (n_type node))
      | _ \<Rightarrow> (st, False))"

definition node_moves :: "string \<Rightarrow> fs_node \<Rightarrow> bool" where
  "node_moves source n \<longleftrightarrow> n_name n = source \<or> below source (n_name n)"

text \<open>The first loop: the new name of every node that node_moves fits and is not taken.\<close>

definition move_allowed :: "string \<Rightarrow> string \<Rightarrow> fs_node list \<Rightarrow> bool" where
  "move_allowed source destination ns =
     list_all (\<lambda>i. node_moves source (ns ! i) \<longrightarrow>
       (let suffix = drop (length source) (n_name (ns ! i)); candidate = destination @ suffix
        in length destination + length suffix + 1 \<le> FS_PATH_MAX \<and>
           list_all (\<lambda>j. i = j \<or> n_name (ns ! j) \<noteq> candidate) [0 ..< length ns])) [0 ..< length ns]"

text \<open>The second loop.\<close>

definition rename_node :: "string \<Rightarrow> string \<Rightarrow> nat \<Rightarrow> fs_node list \<Rightarrow> fs_node list" where
  "rename_node source destination i ns =
     (if node_moves source (ns ! i)
      then fs_sync_entry i (ns[i := (ns ! i)\<lparr>n_name := destination @ drop (length source) (n_name (ns ! i))\<rparr>])
      else ns)"

definition fs_move :: "fs_state \<Rightarrow> string \<Rightarrow> string \<Rightarrow> fs_state \<times> bool" where
  "fs_move st source destination =
     (case (fs_normalize_path source, fs_normalize_path destination) of
        (Some s, Some d) \<Rightarrow>
          if s = [] \<or> d = [] then (st, False)
          else (case fs_find_node_normalized st s of
                  None \<Rightarrow> (st, False)
                | Some i \<Rightarrow>
                    if fs_find_node_normalized st d \<noteq> None \<or> \<not> fs_parent_exists st d then (st, False)
                    else if n_type (g_nodes st ! i) = FS_TYPE_DIR \<and> below s d then (st, False)
                    else if \<not> move_allowed s d (live st) then (st, False)
                    else (st\<lparr>g_nodes := fold (rename_node s d) [0 ..< g_entry_count st] (g_nodes st)\<rparr>, True))
      | _ \<Rightarrow> (st, False))"

section \<open>Start-up\<close>

definition builtin_readme :: string where
  "builtin_readme = ''SNSX fallback filesystem'' @ [LF] @
     ''This path is used when the custom boot image starts without an initrd.'' @ [LF] @
     ''The live ISO includes the richer rootfs module.'' @ [LF]"

definition builtin_home :: string where
  "builtin_home = ''Welcome to SNSX.'' @ [LF] @
     ''Use help, apps, files, calc, and edit to explore the live system.'' @ [LF]"

definition builtin_motd :: string where
  "builtin_motd = ''SNSX live system: writable RAM filesystem, file manager, calculator, and editor.'' @ [LF]"

definition fs_use_builtin :: "fs_state \<Rightarrow> fs_state" where
  "fs_use_builtin st =
     (let st = st\<lparr>g_entry_count := 0\<rparr>;
          st = fst (fs_mkdir st ''/docs'');
          st = fst (fs_mkdir st ''/home'');
          st = fst (fs_write_file st ''/README.TXT'' builtin_readme FS_TYPE_TEXT);
          st = fst (fs_write_file st ''/docs/MOTD.TXT'' builtin_motd FS_TYPE_TEXT)
      in fst (fs_write_file st ''/home/WELCOME.TXT'' builtin_home FS_TYPE_TEXT))"

text \<open>
  The boot loader leaves its structures in memory. Fields are little endian; the initrd image is
  a header of 12 octets, records of 44 octets (a name of at most 32, offset, size, type) and the contents.
\<close>

definition MULTIBOOT_BOOTLOADER_MAGIC :: nat where "MULTIBOOT_BOOTLOADER_MAGIC = 0x2BADB002"
definition INITRD_MAGIC :: nat where "INITRD_MAGIC = 0x4D594653"
definition INITRD_VERSION :: nat where "INITRD_VERSION = 1"
definition INITRD_NAME_MAX :: nat where "INITRD_NAME_MAX = 32"

definition le32 :: "mem \<Rightarrow> nat \<Rightarrow> nat" where
  "le32 m p = of_char (m p) + 256 * of_char (m (p + 1)) + 65536 * of_char (m (p + 2)) + 16777216 * of_char (m (p + 3))"

definition initrd_node :: "mem \<Rightarrow> nat \<Rightarrow> nat \<Rightarrow> string \<times> bytes \<times> nat" where
  "initrd_node m base i =
     (let node = base + 12 + 44 * i
      in (bytes_at m node (strnlen m node INITRD_NAME_MAX), bytes_at m (base + le32 m (node + 32)) (le32 m (node + 36)),
          le32 m (node + 40)))"

fun load_nodes :: "mem \<Rightarrow> nat \<Rightarrow> nat list \<Rightarrow> fs_state \<Rightarrow> fs_state" where
  "load_nodes m base [] st = st"
| "load_nodes m base (i # is) st =
     (case initrd_node m base i of
        (name, data, type) \<Rightarrow>
          (case fs_load_file st name data type of
             (st, True) \<Rightarrow> load_nodes m base is st
           | (st, False) \<Rightarrow> st))"

definition fs_init :: "mem \<Rightarrow> nat \<Rightarrow> nat \<Rightarrow> fs_state \<Rightarrow> fs_state \<times> bool" where
  "fs_init m multiboot_magic multiboot_info_addr st =
     (let st = st\<lparr>g_entry_count := 0\<rparr>;
          flags = le32 m multiboot_info_addr; mods_count = le32 m (multiboot_info_addr + 20);
          base = le32 m (le32 m (multiboot_info_addr + 24));
          loaded =
            (if multiboot_magic = MULTIBOOT_BOOTLOADER_MAGIC \<and> flags div 8 mod 2 = 1 \<and> mods_count > 0 \<and>
                le32 m base = INITRD_MAGIC \<and> le32 m (base + 4) = INITRD_VERSION
             then load_nodes m base [0 ..< min (le32 m (base + 8)) MAX_FS_ENTRIES] st
             else st)
      in if g_entry_count loaded > 0 then (loaded, True) else (fs_use_builtin loaded, False))"

section \<open>Normal paths\<close>

text \<open>\<open>tidy True p\<close>: \<open>p\<close> consists of components that are not empty, with one slash between two.\<close>

fun tidy :: "bool \<Rightarrow> string \<Rightarrow> bool" where
  "tidy start [] \<longleftrightarrow> \<not> start"
| "tidy start (c # cs) \<longleftrightarrow> (if c = CHR ''/'' then \<not> start \<and> tidy True cs else tidy False cs)"

definition normal :: "string \<Rightarrow> bool" where
  "normal p \<longleftrightarrow> tidy True p \<and> length p < FS_PATH_MAX"

lemma tidy_slash: "tidy b (u @ CHR ''/'' # n) \<longleftrightarrow> tidy b u \<and> tidy True n"
  by (induction b u rule: tidy.induct) auto

lemma tidy_more: "tidy b u \<Longrightarrow> c \<noteq> CHR ''/'' \<Longrightarrow> tidy b (u @ [c])"
  by (induction b u rule: tidy.induct) auto

lemma tidy_last: "tidy b u \<Longrightarrow> u = [] \<or> last u \<noteq> CHR ''/''"
proof (induction b u rule: tidy.induct)
  case (2 b c cs)
  then show ?case by (cases cs) (auto split: if_splits)
qed simp

lemma tidy_nonempty: "tidy True u \<Longrightarrow> u \<noteq> []"
  by auto

lemma tidy_True: "tidy True u \<Longrightarrow> tidy b u"
  by (cases u) (auto split: if_splits)

lemma loop_keeps:
  "tidy b input \<Longrightarrow> b \<longleftrightarrow> out = [] \<or> slash \<Longrightarrow> length out + length input < FS_PATH_MAX \<Longrightarrow>
   normalize_loop input out slash = Some (out @ input)"
proof (induction input out slash arbitrary: b rule: normalize_loop.induct)
  case (2 ch input out slash)
  show ?case
  proof (cases "ch = CHR ''/''")
    case True
    then show ?thesis using 2(2)[of True] 2(4-6) by auto
  next
    case False
    then show ?thesis using 2(3)[of False] 2(4-6) by auto
  qed
qed simp

definition loose :: "string \<Rightarrow> bool \<Rightarrow> bool" where
  "loose out slash \<longleftrightarrow> length out < FS_PATH_MAX \<and>
     (out = [] \<or> (\<not> slash \<and> tidy True out) \<or> (slash \<and> (\<exists>u. out = u @ ''/'' \<and> tidy True u)))"

lemma loop_loose:
  "normalize_loop input out slash = Some out' \<Longrightarrow> loose out slash \<Longrightarrow> \<exists>slash'. loose out' slash'"
proof (induction input out slash rule: normalize_loop.induct)
  case (2 ch input out slash)
  show ?case
  proof (cases "ch = CHR ''/''")
    case True
    show ?thesis
    proof (cases "out = [] \<or> slash")
      case True
      with 2 \<open>ch = _\<close> show ?thesis by (auto simp: loose_def)
    next
      case False
      with 2(5) have "tidy True out" by (auto simp: loose_def)
      with 2(2) 2(4) False \<open>ch = _\<close> show ?thesis by (auto simp: loose_def split: if_splits)
    qed
  next
    case False
    have "loose (out @ [ch]) False" if "length out + 1 < FS_PATH_MAX"
      using 2(5) False that by (auto simp: loose_def tidy_more tidy_slash)
    with 2(3) 2(4) False show ?thesis by (auto split: if_splits)
  qed
qed auto

lemma cut_tidy: "tidy True u \<Longrightarrow> cut_slashes u = u"
  using tidy_last [of True u] by (cases u rule: rev_cases) (auto simp: cut_slashes_def)

lemma cut_loose:
  assumes "loose out slash"
  shows "cut_slashes out = [] \<or> normal (cut_slashes out)"
proof -
  consider "out = []" | "tidy True out" | u where "out = u @ ''/''" "tidy True u"
    using assms by (auto simp: loose_def)
  then show ?thesis
  proof cases
    case 1
    then show ?thesis by (simp add: cut_slashes_def)
  next
    case 2
    then show ?thesis using assms by (simp add: cut_tidy normal_def loose_def)
  next
    case 3
    then have "cut_slashes out = u" using cut_tidy [of u] by (simp add: cut_slashes_def)
    with 3 show ?thesis using assms by (simp add: normal_def loose_def)
  qed
qed

lemma normalize_normal: "fs_normalize_path s = Some p \<Longrightarrow> p = [] \<or> normal p"
  using loop_loose [of s "[]" False] cut_loose
  by (auto simp: fs_normalize_path_def loose_def FS_PATH_MAX_def split: if_splits)

lemma normalize_id: "normal p \<Longrightarrow> fs_normalize_path p = Some p"
  using loop_keeps [of True p "[]" False] cut_tidy [of p]
  by (auto simp: fs_normalize_path_def normal_def)

section \<open>Parents\<close>

definition parent_of :: "string \<Rightarrow> string" where
  "parent_of p = (if CHR ''/'' \<notin> set p then [] else rev (tl (dropWhile (\<lambda>c. c \<noteq> CHR ''/'') (rev p))))"

lemma parent_of_append:
  assumes "CHR ''/'' \<notin> set n"
  shows "parent_of (u @ CHR ''/'' # n) = u"
proof -
  have "dropWhile (\<lambda>c. c \<noteq> CHR ''/'') (rev n @ CHR ''/'' # rev u) = CHR ''/'' # rev u"
    using assms by (subst dropWhile_append2) auto
  then show ?thesis by (simp add: parent_of_def)
qed

lemma parent_of_top: "CHR ''/'' \<notin> set n \<Longrightarrow> parent_of n = []"
  by (simp add: parent_of_def)

lemma last_component:
  obtains (top) "CHR ''/'' \<notin> set p" "parent_of p = []"
  | (deep) u n where "p = u @ CHR ''/'' # n" "CHR ''/'' \<notin> set n" "parent_of p = u"
proof (cases "CHR ''/'' \<in> set p")
  case True
  then obtain u n where "p = u @ CHR ''/'' # n" "CHR ''/'' \<notin> set n" by (meson split_list_last)
  then show thesis using deep parent_of_append by blast
qed (use top parent_of_top in blast)

lemma fs_parent_path_eq: "length p < FS_PATH_MAX \<Longrightarrow> fs_parent_path p = Some (parent_of p)"
proof -
  assume l: "length p < FS_PATH_MAX"
  have "length (parent_of p) \<le> length p" by (cases p rule: last_component) auto
  with l show ?thesis by (auto simp: fs_parent_path_def parent_of_def Let_def)
qed

lemma normal_parent: "normal p \<Longrightarrow> parent_of p = [] \<or> normal (parent_of p) \<and> below (parent_of p) p"
  by (cases p rule: last_component) (auto simp: normal_def tidy_slash below_iff)

section \<open>Tables of files\<close>

text \<open>The name, contents and type of every node in use, which is all the operations depend on.\<close>

type_synonym rfile = "string \<times> bytes \<times> nat"

definition files :: "fs_state \<Rightarrow> rfile list" where
  "files st = map (\<lambda>n. (n_name n, n_data n, n_type n)) (live st)"

definition file_ok :: "rfile \<Rightarrow> bool" where
  "file_ok f = (case f of (p, d, t) \<Rightarrow> normal p \<and> length d \<le> FS_MAX_ENTRY_SIZE \<and> (t = FS_TYPE_DIR \<longrightarrow> d = []))"

definition is_dir_in :: "rfile list \<Rightarrow> string \<Rightarrow> bool" where
  "is_dir_in fs p \<longleftrightarrow> list_ex (\<lambda>f. fst f = p \<and> snd (snd f) = FS_TYPE_DIR) fs"

definition parent_in :: "rfile list \<Rightarrow> string \<Rightarrow> bool" where
  "parent_in fs p \<longleftrightarrow> parent_of p = [] \<or> is_dir_in fs (parent_of p)"

definition table_ok :: "rfile list \<Rightarrow> bool" where
  "table_ok fs \<longleftrightarrow> distinct (map fst fs) \<and> list_all file_ok fs \<and> list_all (\<lambda>f. parent_in fs (fst f)) fs"

text \<open>The invariant of the state.\<close>

definition nodes_ok :: "fs_state \<Rightarrow> bool" where
  "nodes_ok st \<longleftrightarrow> length (g_nodes st) = MAX_FS_ENTRIES \<and> g_entry_count st \<le> MAX_FS_ENTRIES \<and>
     table_ok (files st) \<and> list_all (\<lambda>n. n_size n = length (n_data n)) (live st)"

text \<open>Contents and type of the node a normal path names.\<close>

definition node_read :: "fs_state \<Rightarrow> string \<Rightarrow> (bytes \<times> nat) option" where
  "node_read st p =
     map_option (\<lambda>i. (octets (n_size (g_nodes st ! i)) (n_data (g_nodes st ! i)), n_type (g_nodes st ! i)))
       (fs_find_node_normalized st p)"

lemma is_dir_in_iff: "is_dir_in fs p \<longleftrightarrow> (\<exists>d. (p, d, FS_TYPE_DIR) \<in> set fs)"
  by (force simp: is_dir_in_def list_ex_iff)

lemma parent_in_mono: "parent_in fs p \<Longrightarrow> set fs \<subseteq> set fs' \<Longrightarrow> parent_in fs' p"
  by (auto simp: parent_in_def is_dir_in_iff)

lemma table_unique: "table_ok fs \<Longrightarrow> (p, v) \<in> set fs \<Longrightarrow> (p, w) \<in> set fs \<Longrightarrow> v = w"
  by (metis table_ok_def eq_key_imp_eq_value)

lemma table_file: "table_ok fs \<Longrightarrow> f \<in> set fs \<Longrightarrow> file_ok f \<and> parent_in fs (fst f)"
  by (simp add: table_ok_def list_all_iff)

text \<open>Everything above a file is a directory of the table.\<close>

lemma above_is_dir:
  assumes "table_ok fs" and "(p, v) \<in> set fs" and "below a p"
  shows "is_dir_in fs a"
  using assms(2,3)
proof (induction "length p" arbitrary: p v rule: less_induct)
  case less
  have f: "file_ok (p, v)" "parent_in fs p" using table_file [OF assms(1) less.prems(1)] by simp_all
  show ?case
  proof (cases p rule: last_component)
    case top
    then show ?thesis using less.prems(2) by (auto simp: below_iff)
  next
    case (deep u n)
    have "u \<noteq> []" using f(1) deep by (auto simp: file_ok_def normal_def tidy_slash)
    then have u: "is_dir_in fs u" using f(2) deep by (simp add: parent_in_def)
    obtain t where t: "p = a @ CHR ''/'' # t" using less.prems(2) by (auto simp: below_iff)
    show ?thesis
    proof (cases "CHR ''/'' \<in> set t")
      case False
      then have "a = u" using split_last_unique [of a "CHR ''/''" t u n] t deep by simp
      then show ?thesis using u by simp
    next
      case True
      then obtain t1 t2 where "t = t1 @ CHR ''/'' # t2" "CHR ''/'' \<notin> set t2" by (meson split_list_last)
      then have "(a @ CHR ''/'' # t1) @ CHR ''/'' # t2 = u @ CHR ''/'' # n" "CHR ''/'' \<notin> set t2"
        using t deep by simp_all
      then have "u = a @ CHR ''/'' # t1"
        using split_last_unique [of "a @ CHR ''/'' # t1" "CHR ''/''" t2 u n] deep(2) by simp
      then have "below a u" by (simp add: below_iff)
      moreover obtain d where "(u, d, FS_TYPE_DIR) \<in> set fs" using u by (auto simp: is_dir_in_iff)
      ultimately show ?thesis using less.hyps [of u "(d, FS_TYPE_DIR)"] deep(1) by simp
    qed
  qed
qed

lemma table_append:
  assumes "table_ok fs" and "file_ok f" and "fst f \<notin> fst ` set fs" and "parent_in fs (fst f)"
  shows "table_ok (fs @ [f])"
proof -
  have "\<forall>g\<in>set (fs @ [f]). parent_in fs (fst g)"
    using assms(1,4) by (simp add: table_ok_def list_all_iff)
  then have "\<forall>g\<in>set (fs @ [f]). parent_in (fs @ [f]) (fst g)"
    using parent_in_mono [of fs _ "fs @ [f]"] by fastforce
  then show ?thesis using assms(1-3) by (simp add: table_ok_def list_all_iff)
qed

lemma table_update:
  assumes ok: "table_ok fs" and i: "i < length fs" "fst (fs ! i) = p" and f: "file_ok (p, d, t)"
    and nodir: "snd (snd (fs ! i)) \<noteq> FS_TYPE_DIR"
  shows "table_ok (fs[i := (p, d, t)])"
proof -
  have names: "map fst (fs[i := (p, d, t)]) = map fst fs"
    using i by (metis fst_conv list_update_id map_update nth_map)
  have keep: "parent_in (fs[i := (p, d, t)]) q" if "parent_in fs q" for q
  proof (cases "parent_of q = []")
    case False
    with that obtain j where j: "j < length fs" "fst (fs ! j) = parent_of q" "snd (snd (fs ! j)) = FS_TYPE_DIR"
      by (auto simp: parent_in_def is_dir_in_def list_ex_iff in_set_conv_nth)
    then have "j \<noteq> i" using nodir by auto
    then have "fs[i := (p, d, t)] ! j = fs ! j" by simp
    then show ?thesis
      using j unfolding parent_in_def is_dir_in_def list_ex_iff by (metis length_list_update nth_mem)
  qed (simp add: parent_in_def)
  have "parent_in fs x" if "x \<in> set (map fst fs)" for x
    using that ok by (auto simp: table_ok_def list_all_iff)
  then have "\<forall>x\<in>set (map fst (fs[i := (p, d, t)])). parent_in (fs[i := (p, d, t)]) x"
    unfolding names using keep by blast
  then have "\<forall>f\<in>set (fs[i := (p, d, t)]). parent_in (fs[i := (p, d, t)]) (fst f)"
    by (metis (no_types, lifting) image_eqI list.set_map)
  moreover have "\<forall>x\<in>set (fs[i := (p, d, t)]). file_ok x"
    using ok f set_update_subset_insert [of fs i "(p, d, t)"] by (auto simp: table_ok_def list_all_iff)
  ultimately show ?thesis using ok names by (simp add: table_ok_def list_all_iff)
qed

lemma table_remove:
  assumes ok: "table_ok (us @ (p, v) # vs)"
    and leaf: "snd v = FS_TYPE_DIR \<longrightarrow> (\<forall>f\<in>set (us @ vs). \<not> below p (fst f))"
  shows "table_ok (us @ vs)"
proof -
  have "parent_in (us @ vs) (fst f)" if f: "f \<in> set (us @ vs)" for f
  proof (cases "parent_of (fst f) = []")
    case False
    have F: "normal (fst f)" "parent_in (us @ (p, v) # vs) (fst f)"
      using table_file [OF ok, of f] f by (auto simp: file_ok_def split: prod.splits)
    then have b: "below (parent_of (fst f)) (fst f)" using normal_parent False by blast
    obtain d where d: "(parent_of (fst f), d, FS_TYPE_DIR) \<in> set (us @ (p, v) # vs)"
      using F(2) False by (auto simp: parent_in_def is_dir_in_iff)
    have "(parent_of (fst f), d, FS_TYPE_DIR) \<noteq> (p, v)" using leaf b f by auto
    then show ?thesis using d by (auto simp: parent_in_def is_dir_in_iff)
  qed (simp add: parent_in_def)
  then show ?thesis using ok by (auto simp: table_ok_def list_all_iff)
qed

section \<open>Renaming a subtree of a table\<close>

definition under :: "string \<Rightarrow> string \<Rightarrow> bool" where
  "under s p \<longleftrightarrow> p = s \<or> below s p"

definition new_name :: "string \<Rightarrow> string \<Rightarrow> string \<Rightarrow> string" where
  "new_name s d p = (if under s p then d @ drop (length s) p else p)"

definition rename_file :: "string \<Rightarrow> string \<Rightarrow> rfile \<Rightarrow> rfile" where
  "rename_file s d f = (new_name s d (fst f), snd f)"

lemma under_iff: "under s p \<longleftrightarrow> (\<exists>t. p = s @ t \<and> (t = [] \<or> hd t = CHR ''/''))"
proof
  assume "\<exists>t. p = s @ t \<and> (t = [] \<or> hd t = CHR ''/'')"
  then obtain t where "p = s @ t" "t = [] \<or> hd t = CHR ''/''" by blast
  then show "under s p" by (cases t) (auto simp: under_def below_iff)
qed (force simp: under_def below_iff)

lemma new_name_under [simp]: "t = [] \<or> hd t = CHR ''/'' \<Longrightarrow> new_name s d (s @ t) = d @ t"
  by (auto simp: new_name_def under_iff)

lemma new_name_other: "\<not> under s p \<Longrightarrow> new_name s d p = p"
  by (simp add: new_name_def)

lemma under_above: "under s p \<Longrightarrow> s \<noteq> p \<Longrightarrow> parent_of p \<noteq> [] \<Longrightarrow> under s (parent_of p)"
proof (cases p rule: last_component)
  case (deep u n)
  assume *: "under s p" "s \<noteq> p"
  then obtain t where t: "p = s @ CHR ''/'' # t" by (auto simp: under_def below_iff)
  show ?thesis
  proof (cases "CHR ''/'' \<in> set t")
    case False
    then show ?thesis using split_last_unique [of s "CHR ''/''" t u n] t deep by (simp add: under_def)
  next
    case True
    then obtain t1 t2 where "t = t1 @ CHR ''/'' # t2" "CHR ''/'' \<notin> set t2" by (meson split_list_last)
    then show ?thesis
      using split_last_unique [of "s @ CHR ''/'' # t1" "CHR ''/''" t2 u n] t deep(1,2) unfolding deep(3)
      by (auto simp: under_def below_iff)
  qed
qed simp

lemma parent_of_new:
  assumes "t = [] \<or> hd t = CHR ''/''" and "t \<noteq> []"
  shows "\<exists>t'. (t' = [] \<or> hd t' = CHR ''/'') \<and> parent_of (s @ t) = s @ t' \<and> parent_of (d @ t) = d @ t'"
proof -
  obtain r where r: "t = CHR ''/'' # r" using assms by (cases t) auto
  show ?thesis
  proof (cases "CHR ''/'' \<in> set r")
    case False
    then show ?thesis using r parent_of_append by (metis append_Nil2)
  next
    case True
    then obtain a b where ab: "r = a @ CHR ''/'' # b" "CHR ''/'' \<notin> set b" by (meson split_list_last)
    then have "parent_of (x @ t) = x @ CHR ''/'' # a" for x
      using parent_of_append [of b "x @ CHR ''/'' # a"] r by simp
    then show ?thesis by (metis list.sel(1))
  qed
qed

lemma map_eqI: "(\<And>k v. f k = Some v \<longleftrightarrow> g k = Some v) \<Longrightarrow> f = g"
  by (metis ext option.exhaust)

lemma under_trans_dir: "under s q \<Longrightarrow> below q p \<Longrightarrow> below s p"
  by (auto simp: under_def below_iff)

definition movable :: "rfile list \<Rightarrow> string \<Rightarrow> string \<Rightarrow> bool" where
  "movable fs s d \<longleftrightarrow> table_ok fs \<and> s \<in> fst ` set fs \<and> d \<notin> fst ` set fs \<and> normal d \<and> parent_in fs d \<and>
     (is_dir_in fs s \<longrightarrow> \<not> below s d) \<and>
     (\<forall>f\<in>set fs. under s (fst f) \<longrightarrow> length (new_name s d (fst f)) < FS_PATH_MAX)"

lemma movableD:
  assumes "movable fs s d"
  shows "table_ok fs" "s \<in> fst ` set fs" "d \<notin> fst ` set fs" "normal d" "parent_in fs d"
    "is_dir_in fs s \<Longrightarrow> \<not> below s d"
    "f \<in> set fs \<Longrightarrow> under s (fst f) \<Longrightarrow> length (new_name s d (fst f)) < FS_PATH_MAX"
  using assms by (auto simp: movable_def)

lemma not_under_new:
  assumes m: "movable fs s d" and g: "f \<in> set fs"
  shows "\<not> under d (fst f)"
proof
  note ok = movableD(1) [OF m] and fresh = movableD(3) [OF m]
  assume "under d (fst f)"
  with g have f: "f \<in> set fs" "under d (fst f)" by simp_all
  then have "below d (fst f)" using fresh by (auto simp: under_def)
  then have "is_dir_in fs d" using above_is_dir [OF ok, of "fst f" "snd f"] f(1) by simp
  then show False using fresh by (force simp: is_dir_in_iff)
qed

lemma new_normal:
  assumes m: "movable fs s d" and f: "f \<in> set fs"
  shows "normal (new_name s d (fst f))"
proof -
  note ok = movableD(1) [OF m] and target = movableD(4,5) [OF m] and fits = movableD(7) [OF m]
  then have n: "normal (fst f)" using table_file [OF ok f] by (simp add: file_ok_def split: prod.splits)
  show ?thesis
  proof (cases "under s (fst f)")
    case True
    then obtain t where t: "fst f = s @ t" "t = [] \<or> hd t = CHR ''/''" by (auto simp: under_iff)
    have "tidy True (d @ t)"
    proof (cases t)
      case (Cons c r)
      then have "tidy True r" using t n by (auto simp: normal_def tidy_slash)
      then show ?thesis using Cons t target(1) by (auto simp: normal_def tidy_slash)
    qed (use target(1) in \<open>simp add: normal_def\<close>)
    then show ?thesis using fits [OF f True] t by (simp add: normal_def)
  qed (use n new_name_other in simp)
qed

lemma new_distinct:
  assumes m: "movable fs s d" and f: "f \<in> set fs" "g \<in> set fs" and e: "new_name s d (fst f) = new_name s d (fst g)"
  shows "f = g"
proof -
  note ok = movableD(1) [OF m]
  have cross: "new_name s d (fst x) \<noteq> fst y" if "x \<in> set fs" "y \<in> set fs" "under s (fst x)" for x y
  proof -
    obtain t where "fst x = s @ t" "t = [] \<or> hd t = CHR ''/''" using \<open>under s (fst x)\<close> by (auto simp: under_iff)
    then have "under d (new_name s d (fst x))" by (auto simp: under_iff)
    then show ?thesis using not_under_new [OF m that(2)] by auto
  qed
  have "fst f = fst g"
  proof (cases "under s (fst f)"; cases "under s (fst g)")
    assume "under s (fst f)" "under s (fst g)"
    then obtain t u where "fst f = s @ t" "t = [] \<or> hd t = CHR ''/''" "fst g = s @ u" "u = [] \<or> hd u = CHR ''/''"
      by (auto simp: under_iff)
    then show ?thesis using e by simp
  qed (use e f cross [of f g] cross [of g f] new_name_other in \<open>auto simp: eq_commute\<close>)
  then show ?thesis using table_unique [OF ok, of "fst f" "snd f" "snd g"] f by (metis prod.collapse)
qed

lemma new_parent:
  assumes m: "movable fs s d" and f: "f \<in> set fs"
  shows "parent_in (map (rename_file s d) fs) (new_name s d (fst f))"
proof -
  note ok = movableD(1) [OF m] and source = movableD(2) [OF m] and target = movableD(4,5) [OF m]
    and apart = movableD(6) [OF m]
  have dir: "is_dir_in (map (rename_file s d) fs) (new_name s d q)" if "is_dir_in fs q" for q
    using that by (force simp: is_dir_in_iff rename_file_def)
  have stays: "is_dir_in (map (rename_file s d) fs) q" if "is_dir_in fs q" "\<not> under s q" for q
    using dir [OF that(1)] new_name_other [OF that(2)] by simp
  have src: "is_dir_in fs s" if "is_dir_in fs q" "under s q" for q
    using that above_is_dir [OF ok] by (auto simp: under_def is_dir_in_iff)
  have F: "normal (fst f)" "parent_in fs (fst f)"
    using table_file [OF ok f] by (simp_all add: file_ok_def split: prod.splits)
  show ?thesis
  proof (cases "under s (fst f)")
    case False
    have "\<not> under s (parent_of (fst f))" if "parent_of (fst f) \<noteq> []"
      using normal_parent [OF F(1)] that False under_trans_dir by (auto simp: under_def)
    then show ?thesis
      using F(2) stays False by (auto simp: parent_in_def new_name_other)
  next
    case True
    then obtain t where t: "fst f = s @ t" "t = [] \<or> hd t = CHR ''/''" by (auto simp: under_iff)
    show ?thesis
    proof (cases "t = []")
      case True
      have "\<not> under s (parent_of d)" if "parent_of d \<noteq> []" "is_dir_in fs (parent_of d)"
        using src [OF that(2)] apart normal_parent [OF target(1)] that(1) under_trans_dir by blast
      then show ?thesis
        using target(2) stays t True new_name_under [of "[]" s d] by (auto simp: parent_in_def)
    next
      case False
      obtain t' where t': "t' = [] \<or> hd t' = CHR ''/''" "parent_of (s @ t) = s @ t'" "parent_of (d @ t) = d @ t'"
        using parent_of_new [OF t(2) False] by blast
      have "s @ t' \<noteq> []"
      proof -
        obtain g where "g \<in> set fs" "fst g = s" using source by auto
        then show ?thesis using table_file [OF ok] by (fastforce simp: file_ok_def normal_def)
      qed
      then have "is_dir_in fs (s @ t')" using F(2) t t' unfolding parent_in_def by metis
      from dir [OF this] show ?thesis using t t' by (simp add: parent_in_def)
    qed
  qed
qed

lemma rename_ok:
  assumes m: "movable fs s d"
  shows "table_ok (map (rename_file s d) fs)"
proof -
  note ok = movableD(1) [OF m]
  have "distinct fs" using ok by (auto simp: table_ok_def distinct_map)
  then have "distinct (map fst (map (rename_file s d) fs))"
    using new_distinct [OF m] by (auto simp: distinct_map inj_on_def comp_def rename_file_def)
  moreover have "file_ok (rename_file s d f)" if "f \<in> set fs" for f
    using table_file [OF ok that] new_normal [OF m that] by (auto simp: file_ok_def rename_file_def split: prod.splits)
  moreover have "parent_in (map (rename_file s d) fs) (fst (rename_file s d f))" if "f \<in> set fs" for f
    using new_parent [OF m that] by (simp add: rename_file_def)
  ultimately show ?thesis by (simp add: table_ok_def list_all_iff)
qed

lemma rename_mem: "(q, v) \<in> set (map (rename_file s d) fs) \<longleftrightarrow> (\<exists>p. (p, v) \<in> set fs \<and> new_name s d p = q)"
proof
  assume "(q, v) \<in> set (map (rename_file s d) fs)"
  then show "\<exists>p. (p, v) \<in> set fs \<and> new_name s d p = q" by (auto simp: rename_file_def)
next
  assume "\<exists>p. (p, v) \<in> set fs \<and> new_name s d p = q"
  then obtain p where "(p, v) \<in> set fs" "rename_file s d (p, v) = (q, v)" by (auto simp: rename_file_def)
  then show "(q, v) \<in> set (map (rename_file s d) fs)" by (metis image_eqI list.set_map)
qed

lemma rename_map:
  assumes m: "movable fs s d"
  shows "map_of (map (rename_file s d) fs) =
     (\<lambda>q. if under d q then map_of fs (s @ drop (length d) q) else if under s q then None else map_of fs q)"
  (is "?l = ?r")
proof -
  note ok = movableD(1) [OF m]
  have d: "distinct (map fst fs)" "distinct (map fst (map (rename_file s d) fs))"
    using ok rename_ok [OF m] by (auto simp: table_ok_def)
  have "(q, v) \<in> set (map (rename_file s d) fs) \<longleftrightarrow>
      (if under d q then (s @ drop (length d) q, v) \<in> set fs else \<not> under s q \<and> (q, v) \<in> set fs)" for q v
  proof (cases "under d q")
    case True
    then obtain t where t: "q = d @ t" "t = [] \<or> hd t = CHR ''/''" by (auto simp: under_iff)
    show ?thesis
    proof
      assume "(q, v) \<in> set (map (rename_file s d) fs)"
      then obtain p where p: "(p, v) \<in> set fs" "new_name s d p = q" by (auto simp: rename_file_def)
      have "\<not> under d p" using not_under_new [OF m p(1)] by simp
      then have "under s p" using p(2) True new_name_other by metis
      then obtain u where "p = s @ u" "u = [] \<or> hd u = CHR ''/''" by (auto simp: under_iff)
      with p t True show "if under d q then (s @ drop (length d) q, v) \<in> set fs else \<not> under s q \<and> (q, v) \<in> set fs"
        by simp
    next
      assume "if under d q then (s @ drop (length d) q, v) \<in> set fs else \<not> under s q \<and> (q, v) \<in> set fs"
      then have "(s @ t, v) \<in> set fs" using True t by simp
      then have "rename_file s d (s @ t, v) \<in> set (map (rename_file s d) fs)" by simp
      then show "(q, v) \<in> set (map (rename_file s d) fs)" using t by (simp add: rename_file_def)
    qed
  next
    case False
    have "\<not> under s p" if "new_name s d p = q" for p
    proof
      assume "under s p"
      then obtain u where "p = s @ u" "u = [] \<or> hd u = CHR ''/''" by (auto simp: under_iff)
      with that have "under d q" by (auto simp: under_iff)
      with False show False ..
    qed
    then have "new_name s d p = q \<longleftrightarrow> p = q \<and> \<not> under s q" for p
      using new_name_other by metis
    then show ?thesis unfolding rename_mem using False by auto
  qed
  then have "?l q = Some v \<longleftrightarrow> ?r q = Some v" for q v
    unfolding map_of_eq_Some_iff [OF d(2)] using map_of_eq_Some_iff [OF d(1)] by (simp split: if_splits)
  then show ?thesis by (intro map_eqI)
qed

end
