(* ===== verification/LegacyFsOps.thy ===== *)
theory LegacyFsOps
  imports LegacyFs
begin

text \<open>
  What the operations of \<open>src/kernel/fs.c\<close> do. Their effect on the table of names, contents and types
  (\<open>files\<close>) is that of a finite map (\<open>x86_table\<close>, an interpretation of the contract \<open>file_table\<close> both
  file systems meet); \<open>synced\<close> says that every entry shows its own node, which all operations but
  \<open>fs_remove\<close> keep.
\<close>

section \<open>The nodes and the table\<close>

abbreviation row :: "fs_node \<Rightarrow> rfile" where
  "row n \<equiv> (n_name n, n_data n, n_type n)"

lemma node_index_None: "node_index p ns = None \<longleftrightarrow> p \<notin> n_name ` set ns"
  by (induction ns) auto

lemma node_index_Some:
  "node_index p ns = Some i \<Longrightarrow> i < length ns \<and> n_name (ns ! i) = p \<and> map_of (map row ns) p = Some (snd (row (ns ! i)))"
  by (induction ns arbitrary: i) (auto split: if_splits)

lemma octets_exact [simp]: "octets (length d) d = d"
  by (simp add: octets_def)

lemma live_nth: "i < g_entry_count st \<Longrightarrow> g_entry_count st \<le> length (g_nodes st) \<Longrightarrow> live st ! i = g_nodes st ! i"
  by (simp add: live_def)

definition shape :: "fs_state \<Rightarrow> bool" where
  "shape st \<longleftrightarrow> length (g_nodes st) = MAX_FS_ENTRIES \<and> g_entry_count st \<le> MAX_FS_ENTRIES \<and>
     (\<forall>i<g_entry_count st. n_size (g_nodes st ! i) = length (n_data (g_nodes st ! i)))"

lemma nodes_ok_iff: "nodes_ok st \<longleftrightarrow> shape st \<and> table_ok (files st)"
  by (auto simp: nodes_ok_def shape_def list_all_length live_def)

lemma shape_live:
  "shape st \<longleftrightarrow> length (g_nodes st) = MAX_FS_ENTRIES \<and> g_entry_count st \<le> MAX_FS_ENTRIES \<and>
     list_all (\<lambda>n. n_size n = length (n_data n)) (live st)"
  by (auto simp: shape_def list_all_length live_def)

lemma length_files: "shape st \<Longrightarrow> length (files st) = g_entry_count st"
  by (simp add: files_def live_def shape_def)

lemma files_nth: "shape st \<Longrightarrow> i < g_entry_count st \<Longrightarrow> files st ! i = row (g_nodes st ! i)"
  by (simp add: files_def live_def shape_def)

lemma found:
  assumes "shape st" and "fs_find_node_normalized st p = Some i"
  shows "i < g_entry_count st" "n_name (g_nodes st ! i) = p"
    "map_of (files st) p = Some (n_data (g_nodes st ! i), n_type (g_nodes st ! i))"
    "octets (n_size (g_nodes st ! i)) (n_data (g_nodes st ! i)) = n_data (g_nodes st ! i)"
    "files st ! i = row (g_nodes st ! i)"
  using node_index_Some [of p "live st" i] assms
  by (auto simp: fs_find_node_normalized_def files_def live_def shape_def)

lemma not_found: "fs_find_node_normalized st p = None \<longleftrightarrow> p \<notin> fst ` set (files st)"
  by (simp add: fs_find_node_normalized_def node_index_None files_def image_image)

lemma node_read_map: "shape st \<Longrightarrow> node_read st = map_of (files st)"
proof (rule ext)
  fix p
  assume st: "shape st"
  show "node_read st p = map_of (files st) p"
  proof (cases "fs_find_node_normalized st p")
    case None
    then have "map_of (files st) p = None" by (simp add: not_found map_of_eq_None_iff)
    with None show ?thesis by (simp add: node_read_def)
  next
    case (Some i)
    with found [OF st Some] show ?thesis by (simp add: node_read_def)
  qed
qed

lemma x86_parent_exists_iff:
  assumes "shape st" and "table_ok (files st)" and "length p < FS_PATH_MAX"
  shows "fs_parent_exists st p \<longleftrightarrow> parent_in (files st) p"
proof (cases "fs_find_node_normalized st (parent_of p)")
  case None
  then have "\<not> is_dir_in (files st) (parent_of p)" by (force simp: is_dir_in_iff not_found)
  then show ?thesis
    using assms(3) None by (simp add: fs_parent_exists_def fs_parent_path_eq parent_in_def)
next
  case (Some i)
  note f = found [OF assms(1) Some]
  have "is_dir_in (files st) (parent_of p) \<longleftrightarrow> n_type (g_nodes st ! i) = FS_TYPE_DIR"
    using f(3) table_unique [OF assms(2)] by (auto simp: is_dir_in_iff dest!: map_of_SomeD)
  then show ?thesis
    using assms(3) Some by (simp add: fs_parent_exists_def fs_parent_path_eq parent_in_def)
qed

lemma sync_length [simp]: "length (fs_sync_entry i ns) = length ns"
  by (simp add: fs_sync_entry_def)

lemma sync_row: "j < length ns \<Longrightarrow> row (fs_sync_entry i ns ! j) = row (ns ! j) \<and> n_size (fs_sync_entry i ns ! j) = n_size (ns ! j)"
  by (cases "i = j") (simp_all add: fs_sync_entry_def)

lemma files_eqI:
  assumes "shape st" and "length fs = g_entry_count st" and "\<And>i. i < length fs \<Longrightarrow> row (g_nodes st ! i) = fs ! i"
  shows "files st = fs"
  using assms length_files [OF assms(1)] files_nth [OF assms(1)] by (intro nth_equalityI) simp_all

lemma push_Some:
  assumes sh: "shape st" and p: "fs_push_node st p t = Some st'"
  shows "shape st'" "files st' = files st @ [(p, [], t)]" "length (files st) < MAX_FS_ENTRIES" "length p < FS_PATH_MAX"
    "g_entry_count st' = Suc (g_entry_count st)" "n_name (g_nodes st' ! g_entry_count st) = p"
proof -
  let ?i = "g_entry_count st"
  let ?ns = "(g_nodes st)[?i := \<lparr>n_name = p, n_data = [], n_size = 0, n_type = t, n_entry = no_entry\<rparr>]"
  have st': "?i < MAX_FS_ENTRIES" "length p < FS_PATH_MAX" "st' = st\<lparr>g_nodes := fs_sync_entry ?i ?ns, g_entry_count := ?i + 1\<rparr>"
    using p by (auto simp: fs_push_node_def Let_def split: if_splits)
  have len: "length (g_nodes st) = MAX_FS_ENTRIES" using sh by (simp add: shape_def)
  have rows: "row (g_nodes st' ! j) = row (?ns ! j) \<and> n_size (g_nodes st' ! j) = n_size (?ns ! j)" if "j < MAX_FS_ENTRIES" for j
    using sync_row [of j ?ns ?i] st' len that by simp
  show "shape st'"
    using sh rows st' len by (auto simp: shape_def less_Suc_eq nth_list_update)
  show "files st' = files st @ [(p, [], t)]"
  proof (rule files_eqI)
    show "shape st'" by fact
    show "length (files st @ [(p, [], t)]) = g_entry_count st'" using length_files [OF sh] st' by simp
    fix j assume "j < length (files st @ [(p, [], t)])"
    then have "j < Suc ?i" using length_files [OF sh] by simp
    then show "row (g_nodes st' ! j) = (files st @ [(p, [], t)]) ! j"
      using rows [of j] st' len files_nth [OF sh, of j] length_files [OF sh]
      by (auto simp: nth_append less_Suc_eq nth_list_update)
  qed
  show "length (files st) < MAX_FS_ENTRIES" using st' length_files [OF sh] by simp
  show "length p < FS_PATH_MAX" "g_entry_count st' = Suc ?i" using st' by simp_all
  show "n_name (g_nodes st' ! ?i) = p" using rows [of ?i] st' len by simp
qed

lemma store_node_files:
  assumes sh: "shape st" and i: "i < g_entry_count st"
  shows "shape (store_node st i d t)"
    "files (store_node st i d t) = (files st)[i := (n_name (g_nodes st ! i), d, t)]"
proof -
  let ?ns = "(g_nodes st)[i := (g_nodes st ! i)\<lparr>n_data := d, n_size := length d, n_type := t\<rparr>]"
  have len: "length (g_nodes st) = MAX_FS_ENTRIES" "g_entry_count st \<le> MAX_FS_ENTRIES" using sh by (simp_all add: shape_def)
  have rows: "row (g_nodes (store_node st i d t) ! j) = row (?ns ! j) \<and>
      n_size (g_nodes (store_node st i d t) ! j) = n_size (?ns ! j)" if "j < MAX_FS_ENTRIES" for j
    using sync_row [of j ?ns i] len that by (simp add: store_node_def)
  show sh': "shape (store_node st i d t)"
    using sh rows len i unfolding shape_def by (auto simp: store_node_def nth_list_update)
  show "files (store_node st i d t) = (files st)[i := (n_name (g_nodes st ! i), d, t)]"
  proof (rule files_eqI [OF sh'])
    show "length ((files st)[i := (n_name (g_nodes st ! i), d, t)]) = g_entry_count (store_node st i d t)"
      using length_files [OF sh] by (simp add: store_node_def)
    fix j assume "j < length ((files st)[i := (n_name (g_nodes st ! i), d, t)])"
    then have "j < g_entry_count st" using length_files [OF sh] by simp
    then show "row (g_nodes (store_node st i d t) ! j) = (files st)[i := (n_name (g_nodes st ! i), d, t)] ! j"
      using rows [of j] len i files_nth [OF sh, of j] length_files [OF sh] by (auto simp: nth_list_update)
  qed
qed

text \<open>Pushing a node and storing in it.\<close>

lemma push_store:
  assumes sh: "shape st" and p: "fs_push_node st p t' = Some st1"
  shows "shape (store_node st1 (g_entry_count st1 - 1) d t)"
    "files (store_node st1 (g_entry_count st1 - 1) d t) = files st @ [(p, d, t)]"
proof -
  note ps = push_Some [OF sh p]
  have i: "g_entry_count st1 - 1 = g_entry_count st" "g_entry_count st < g_entry_count st1" using ps(5) by simp_all
  show "shape (store_node st1 (g_entry_count st1 - 1) d t)"
    using store_node_files(1) [OF ps(1) i(2)] i(1) by simp
  show "files (store_node st1 (g_entry_count st1 - 1) d t) = files st @ [(p, d, t)]"
    using store_node_files(2) [OF ps(1) i(2), of d t] i(1) ps(2,6) length_files [OF sh] by (simp add: list_update_append)
qed

lemma shift_down_eq:
  assumes "i < count" and "count \<le> length ns"
  shows "shift_down i count ns = take i ns @ drop (Suc i) (take count ns) @ drop (count - 1) ns"
proof -
  have "fold (\<lambda>j ns. ns[j - 1 := ns ! j]) [Suc i ..< Suc i + k] ns =
      take i ns @ take k (drop (Suc i) ns) @ drop (i + k) ns" if "Suc i + k \<le> length ns" for k
    using that
  proof (induction k)
    case (Suc k)
    let ?ms = "take i ns @ take k (drop (Suc i) ns) @ drop (i + k) ns"
    have x: "(drop (i + k) ns)[0 := a] = a # drop (Suc (i + k)) ns" for a
      using Suc.prems by (subst Cons_nth_drop_Suc [symmetric]) simp_all
    have l: "length (take i ns) = i" "length (take k (drop (Suc i) ns)) = k" using Suc.prems by simp_all
    have m: "?ms ! (i + Suc k) = ns ! Suc (i + k)"
      using Suc.prems by (simp add: nth_append min_def)
    have "fold (\<lambda>j ns. ns[j - 1 := ns ! j]) [Suc i ..< Suc i + Suc k] ns = ?ms[i + k := ns ! Suc (i + k)]"
      using Suc m by simp
    also have "\<dots> = take i ns @ take k (drop (Suc i) ns) @ ns ! Suc (i + k) # drop (Suc (i + k)) ns"
      using l Suc.prems x by (simp add: list_update_append)
    also have "\<dots> = take i ns @ take (Suc k) (drop (Suc i) ns) @ drop (i + Suc k) ns"
      using Suc.prems by (simp add: take_Suc_conv_app_nth)
    finally show ?case .
  qed (simp add: drop_Suc_Cons)
  from this [of "count - Suc i"] assms show ?thesis
    by (simp add: shift_down_def drop_take)
qed

section \<open>What the operations do to the table\<close>

lemma map_of_update:
  "distinct (map fst fs) \<Longrightarrow> i < length fs \<Longrightarrow> fst (fs ! i) = p \<Longrightarrow> map_of (fs[i := (p, v)]) = (map_of fs)(p \<mapsto> v)"
proof (induction fs arbitrary: i)
  case (Cons f fs)
  show ?case
  proof (cases i)
    case 0
    with Cons.prems show ?thesis by (cases f) auto
  next
    case (Suc j)
    then have "p \<in> fst ` set fs" using Cons.prems by force
    with Suc Cons show ?thesis by (cases f) (auto simp: fun_eq_iff)
  qed
qed simp

lemma map_of_snoc: "p \<notin> fst ` set fs \<Longrightarrow> map_of (fs @ [(p, v)]) = (map_of fs)(p \<mapsto> v)"
  by (induction fs) (auto simp: fun_upd_twist)

lemma map_of_without:
  "distinct (map fst (us @ (p, v) # vs)) \<Longrightarrow> map_of (us @ vs) = (map_of (us @ (p, v) # vs))(p := None)"
proof (induction us)
  case Nil
  then have "map_of vs p = None" by (simp add: map_of_eq_None_iff)
  then show ?case by auto
next
  case (Cons u us)
  then show ?case by (cases u) (auto simp: fun_upd_twist)
qed

lemma table_distinct: "table_ok fs \<Longrightarrow> distinct (map fst fs)"
  by (simp add: table_ok_def)

text \<open>The two ways a file comes to be stored.\<close>

lemma stored_old:
  assumes ok: "nodes_ok st" and f: "fs_find_node_normalized st p = Some i" and n: "n_type (g_nodes st ! i) \<noteq> FS_TYPE_DIR"
    and d: "length d \<le> FS_MAX_ENTRY_SIZE" and t: "t \<noteq> FS_TYPE_DIR"
  shows "nodes_ok (store_node st i d t) \<and> node_read (store_node st i d t) = (node_read st)(p \<mapsto> (d, t))"
proof -
  have sh: "shape st" "table_ok (files st)" using ok by (simp_all add: nodes_ok_iff)
  note fd = found [OF sh(1) f]
  note sn = store_node_files [OF sh(1) fd(1), of d t]
  have i: "i < length (files st)" "fst (files st ! i) = p" using fd length_files [OF sh(1)] by simp_all
  have "(p, n_data (g_nodes st ! i), n_type (g_nodes st ! i)) \<in> set (files st)" using fd(3) by (rule map_of_SomeD)
  then have "file_ok (p, d, t)" using table_file [OF sh(2)] d t by (force simp: file_ok_def)
  then have "table_ok ((files st)[i := (p, d, t)])" using i fd n by (intro table_update [OF sh(2)]) simp_all
  then show ?thesis
    using sn fd(2) map_of_update [OF table_distinct [OF sh(2)] i] by (simp add: nodes_ok_iff node_read_map sh(1))
qed

lemma stored_new:
  assumes ok: "nodes_ok st" and f: "fs_find_node_normalized st p = None" and p: "normal p" "fs_parent_exists st p"
    and push: "fs_push_node st p t' = Some st1" and d: "length d \<le> FS_MAX_ENTRY_SIZE" "t = FS_TYPE_DIR \<longrightarrow> d = []"
    and st': "shape st'" "files st' = files st @ [(p, d, t)]"
  shows "nodes_ok st' \<and> node_read st' = (node_read st)(p \<mapsto> (d, t))"
proof -
  have sh: "shape st" "table_ok (files st)" using ok by (simp_all add: nodes_ok_iff)
  have np: "p \<notin> fst ` set (files st)" using f by (simp add: not_found)
  have "parent_in (files st) p" using x86_parent_exists_iff [OF sh] p by (simp add: normal_def)
  then have "table_ok (files st @ [(p, d, t)])"
    using np p d by (intro table_append [OF sh(2)]) (auto simp: file_ok_def)
  then show ?thesis
    using st' sh unfolding nodes_ok_iff node_read_map [OF st'(1)] node_read_map [OF sh(1)] st'(2) map_of_snoc [OF np] by simp
qed

definition effect :: "fs_state \<Rightarrow> string \<Rightarrow> (bytes \<times> nat) option \<Rightarrow> fs_state \<times> bool \<Rightarrow> bool" where
  "effect st path v r \<longleftrightarrow> (case r of (st', b) \<Rightarrow> nodes_ok st' \<and>
     (if b then \<exists>p. fs_normalize_path path = Some p \<and> node_read st' = (node_read st)(p := v) else st' = st))"

lemma effect_refused: "nodes_ok st \<Longrightarrow> effect st path v (st, False)"
  by (simp add: effect_def)

lemma write_effect:
  assumes ok: "nodes_ok st"
  shows "effect st path (Some (d, t)) (fs_write_file st path d t)"
proof (cases "fs_normalize_path path")
  case (Some p)
  show ?thesis
  proof (cases "p = [] \<or> t = FS_TYPE_DIR \<or> length d > FS_MAX_ENTRY_SIZE")
    case False
    then have p: "normal p" "t \<noteq> FS_TYPE_DIR" "length d \<le> FS_MAX_ENTRY_SIZE" using normalize_normal [OF Some] by auto
    show ?thesis
    proof (cases "fs_find_node_normalized st p")
      case None
      show ?thesis
      proof (cases "fs_parent_exists st p \<and> fs_push_node st p t \<noteq> None")
        case True
        then obtain st1 where pu: "fs_push_node st p t = Some st1" by auto
        have sh: "shape st" using ok by (simp add: nodes_ok_iff)
        have "nodes_ok (store_node st1 (g_entry_count st1 - 1) d t) \<and>
            node_read (store_node st1 (g_entry_count st1 - 1) d t) = (node_read st)(p \<mapsto> (d, t))"
          using True p push_store [OF sh pu] by (intro stored_new [OF ok None _ _ pu]) simp_all
        then show ?thesis using Some False None True pu by (simp add: effect_def fs_write_file_def)
      qed (use Some False None ok in \<open>auto simp: effect_def fs_write_file_def\<close>)
    next
      case (Some i)
      show ?thesis
      proof (cases "n_type (g_nodes st ! i) = FS_TYPE_DIR")
        case False
        with stored_old [OF ok Some False p(3,2)] \<open>fs_normalize_path path = Some p\<close> Some \<open>\<not> (p = [] \<or> _)\<close>
        show ?thesis by (simp add: effect_def fs_write_file_def)
      qed (use Some \<open>fs_normalize_path path = Some p\<close> ok in \<open>simp add: effect_def fs_write_file_def\<close>)
    qed
  qed (use Some ok in \<open>simp add: effect_def fs_write_file_def\<close>)
qed (use ok in \<open>simp add: effect_def fs_write_file_def\<close>)

lemma mkdir_effect:
  assumes ok: "nodes_ok st"
  shows "effect st path (Some ([], FS_TYPE_DIR)) (fs_mkdir st path)"
proof (cases "fs_normalize_path path")
  case n: (Some p)
  have sh: "shape st" "table_ok (files st)" using ok by (simp_all add: nodes_ok_iff)
  show ?thesis
  proof (cases "p = []")
    case False
    then have p: "normal p" using normalize_normal [OF n] by auto
    show ?thesis
    proof (cases "fs_find_node_normalized st p")
      case None
      show ?thesis
      proof (cases "fs_parent_exists st p \<and> fs_push_node st p FS_TYPE_DIR \<noteq> None")
        case True
        then obtain st1 where pu: "fs_push_node st p FS_TYPE_DIR = Some st1" by auto
        have "nodes_ok st1 \<and> node_read st1 = (node_read st)(p \<mapsto> ([], FS_TYPE_DIR))"
          using True p push_Some [OF sh(1) pu] by (intro stored_new [OF ok None _ _ pu]) simp_all
        then show ?thesis using n False None True pu by (simp add: effect_def fs_mkdir_def)
      qed (use n False None ok in \<open>auto simp: effect_def fs_mkdir_def\<close>)
    next
      case (Some i)
      note fd = found [OF sh(1) Some]
      have "n_data (g_nodes st ! i) = []" if "n_type (g_nodes st ! i) = FS_TYPE_DIR"
        using table_file [OF sh(2) map_of_SomeD [OF fd(3)]] that by (simp add: file_ok_def)
      then show ?thesis
        using n False Some ok fd(3) sh(1) by (auto simp: effect_def fs_mkdir_def node_read_map fun_upd_idem)
    qed
  qed (use n ok in \<open>simp add: effect_def fs_mkdir_def\<close>)
qed (use ok in \<open>simp add: effect_def fs_mkdir_def\<close>)

definition old_text :: "fs_state \<Rightarrow> string \<Rightarrow> bytes" where
  "old_text st path = (case node_read st (the (fs_normalize_path path)) of None \<Rightarrow> [] | Some (d, t) \<Rightarrow> d)"

lemma append_effect:
  assumes ok: "nodes_ok st"
  shows "effect st path (Some (old_text st path @ d, FS_TYPE_TEXT)) (fs_append_file st path d)"
proof (cases "fs_normalize_path path")
  case n: (Some p)
  have sh: "shape st" "table_ok (files st)" using ok by (simp_all add: nodes_ok_iff)
  show ?thesis
  proof (cases "p = []")
    case False
    then have p: "normal p" using normalize_normal [OF n] by auto
    show ?thesis
    proof (cases "fs_find_node_normalized st p")
      case None
      then have "old_text st path = []" using n by (simp add: old_text_def node_read_def)
      with write_effect [OF ok, of p d FS_TYPE_TEXT] normalize_id [OF p] n False None show ?thesis
        by (auto simp: effect_def fs_append_file_def split: prod.splits)
    next
      case (Some i)
      note fd = found [OF sh(1) Some]
      have sz: "n_size (g_nodes st ! i) = length (n_data (g_nodes st ! i))" using sh(1) fd(1) by (simp add: shape_def)
      have o: "old_text st path = n_data (g_nodes st ! i)" using n fd(3) sh(1) by (simp add: old_text_def node_read_map)
      show ?thesis
      proof (cases "n_type (g_nodes st ! i) \<noteq> FS_TYPE_TEXT \<or> n_size (g_nodes st ! i) + length d > FS_MAX_ENTRY_SIZE")
        case True
        with n False Some ok show ?thesis by (auto simp: effect_def fs_append_file_def)
      next
        case g: False
        have "nodes_ok (store_node st i (n_data (g_nodes st ! i) @ d) FS_TYPE_TEXT) \<and>
          node_read (store_node st i (n_data (g_nodes st ! i) @ d) FS_TYPE_TEXT) =
            (node_read st)(p \<mapsto> (n_data (g_nodes st ! i) @ d, FS_TYPE_TEXT))"
          using g sz by (intro stored_old [OF ok Some]) (auto simp: FS_TYPE_TEXT_def FS_TYPE_DIR_def)
        then show ?thesis using n False Some g o fd(4) by (simp add: effect_def fs_append_file_def)
      qed
    qed
  qed (use n ok in \<open>simp add: effect_def fs_append_file_def\<close>)
qed (use ok in \<open>simp add: effect_def fs_append_file_def\<close>)

lemma copy_effect:
  assumes ok: "nodes_ok st"
  shows "effect st destination (node_read st (the (fs_normalize_path source))) (fs_copy st source destination)"
proof (cases "fs_normalize_path source"; cases "fs_normalize_path destination")
  fix s d
  assume n: "fs_normalize_path source = Some s" "fs_normalize_path destination = Some d"
  show ?thesis
  proof (cases "fs_find_node_normalized st s")
    case (Some i)
    have sh: "shape st" using ok by (simp add: nodes_ok_iff)
    note fd = found [OF sh Some]
    show ?thesis
    proof (cases "n_type (g_nodes st ! i) = FS_TYPE_DIR \<or> fs_find_node_normalized st d \<noteq> None")
      case False
      have "fs_normalize_path d = Some d"
        using normalize_normal [OF n(2)] normalize_id [of d] by (cases "d = []") (auto simp: fs_normalize_path_def [of "[]"])
      with write_effect [OF ok, of d "n_data (g_nodes st ! i)" "n_type (g_nodes st ! i)"] n Some False fd
      show ?thesis by (auto simp: effect_def fs_copy_def Let_def node_read_map [OF sh] split: prod.splits)
    qed (use n Some ok in \<open>auto simp: effect_def fs_copy_def Let_def\<close>)
  qed (use n ok in \<open>simp add: effect_def fs_copy_def\<close>)
qed (use ok in \<open>simp_all add: effect_def fs_copy_def\<close>)

lemma remove_effect:
  assumes ok: "nodes_ok st"
  shows "effect st path None (fs_remove st path)"
proof (cases "fs_normalize_path path")
  case n: (Some p)
  have sh: "shape st" "table_ok (files st)" using ok by (simp_all add: nodes_ok_iff)
  show ?thesis
  proof (cases "fs_find_node_normalized st p")
    case (Some i)
    note fd = found [OF sh(1) Some]
    show ?thesis
    proof (cases "p = [] \<or> n_type (g_nodes st ! i) = FS_TYPE_DIR \<and> fs_has_children st p")
      case False
      let ?c = "g_entry_count st" and ?st = "st\<lparr>g_nodes := shift_down i (g_entry_count st) (g_nodes st), g_entry_count := g_entry_count st - 1\<rparr>"
      have c: "?c \<le> length (g_nodes st)" "length (g_nodes st) = MAX_FS_ENTRIES" using sh(1) by (simp_all add: shape_def)
      have l: "live ?st = take i (live st) @ drop (Suc i) (live st)"
      proof -
        have "length (take i (g_nodes st) @ drop (Suc i) (take ?c (g_nodes st))) = ?c - 1" using fd(1) c by simp
        then have "take (?c - 1) (shift_down i ?c (g_nodes st)) = take i (g_nodes st) @ drop (Suc i) (take ?c (g_nodes st))"
          using shift_down_eq [OF fd(1) c(1)] by (metis append.assoc append_eq_conv_conj)
        moreover have "take i (live st) = take i (g_nodes st)" using fd(1) by (simp add: live_def min_def)
        ultimately show ?thesis by (simp add: live_def)
      qed
      have "length (g_nodes ?st) = MAX_FS_ENTRIES" using shift_down_eq [OF fd(1) c(1)] fd(1) c by simp
      moreover have "\<forall>n\<in>set (live st). n_size n = length (n_data n)" using ok by (simp add: nodes_ok_def list_all_iff)
      then have "\<forall>n\<in>set (live ?st). n_size n = length (n_data n)"
        unfolding l by (auto dest: in_set_takeD in_set_dropD)
      ultimately have sh': "shape ?st"
        using c by (auto simp: shape_live list_all_iff)
      have i: "i < length (files st)" using fd(1) length_files [OF sh(1)] by simp
      have split: "files st = take i (files st) @ (p, snd (files st ! i)) # drop (Suc i) (files st)"
        using id_take_nth_drop [OF i] fd(2,5) by simp
      have f': "files ?st = take i (files st) @ drop (Suc i) (files st)"
        using l by (simp add: files_def take_map drop_map)
      have leaf: "\<forall>f\<in>set (take i (files st) @ drop (Suc i) (files st)). \<not> below p (fst f)" if "n_type (g_nodes st ! i) = FS_TYPE_DIR"
      proof -
        have "\<forall>n\<in>set (live st). \<not> below p (n_name n)" using False that by (auto simp: fs_has_children_def list_ex_iff)
        then have "\<forall>f\<in>set (files st). \<not> below p (fst f)" by (auto simp: files_def)
        then show ?thesis by (auto dest: in_set_takeD in_set_dropD)
      qed
      have "table_ok (take i (files st) @ (p, snd (files st ! i)) # drop (Suc i) (files st))"
        using sh(2) split by argo
      then have "table_ok (take i (files st) @ drop (Suc i) (files st))"
        by (rule table_remove) (use leaf fd(5) in auto)
      moreover have "map_of (take i (files st) @ drop (Suc i) (files st)) = (map_of (files st))(p := None)"
        using map_of_without [of "take i (files st)" p "snd (files st ! i)" "drop (Suc i) (files st)"]
          table_distinct [OF sh(2)] split by simp
      ultimately have "nodes_ok ?st \<and> node_read ?st = (node_read st)(p := None)"
        using sh' f' by (simp add: nodes_ok_iff node_read_map sh(1))
      then show ?thesis using n Some False by (auto simp: effect_def fs_remove_def)
    qed (use n Some ok in \<open>auto simp: effect_def fs_remove_def\<close>)
  qed (use n ok in \<open>simp add: effect_def fs_remove_def\<close>)
qed (use ok in \<open>simp add: effect_def fs_remove_def\<close>)

section \<open>Renaming\<close>

lemma moves_under: "node_moves s n = under s (n_name n)"
  by (simp add: node_moves_def under_def)

lemma rename_nodes:
  "k \<le> length ns \<Longrightarrow> length (fold (rename_node s d) [0 ..< k] ns) = length ns \<and>
   (\<forall>j<length ns. row (fold (rename_node s d) [0 ..< k] ns ! j) =
      (if j < k then rename_file s d (row (ns ! j)) else row (ns ! j)) \<and>
      n_size (fold (rename_node s d) [0 ..< k] ns ! j) = n_size (ns ! j))"
proof (induction k)
  case (Suc k)
  let ?ms = "fold (rename_node s d) [0 ..< k] ns"
  have IH: "length ?ms = length ns" "\<And>j. j < length ns \<Longrightarrow> n_size (?ms ! j) = n_size (ns ! j) \<and>
      row (?ms ! j) = (if j < k then rename_file s d (row (ns ! j)) else row (ns ! j))"
    using Suc by simp_all
  have k: "row (?ms ! k) = row (ns ! k)" using IH(2) [of k] Suc.prems by simp
  have step: "row (rename_node s d k ?ms ! j) = (if j = k then rename_file s d (row (ns ! j)) else row (?ms ! j)) \<and>
      n_size (rename_node s d k ?ms ! j) = n_size (?ms ! j)" if "j < length ns" for j
    using k that IH(1) sync_row [of j "?ms[k := (?ms ! k)\<lparr>n_name := d @ drop (length s) (n_name (?ms ! k))\<rparr>]" k]
    by (auto simp: rename_node_def rename_file_def new_name_def moves_under nth_list_update)
  have "length (rename_node s d k ?ms) = length ns" using IH(1) by (simp add: rename_node_def)
  then show ?case using step IH(2) by (auto simp: less_Suc_eq)
qed simp

text \<open>What \<open>fs_move\<close> does to the map of names.\<close>

definition moved :: "string \<Rightarrow> string \<Rightarrow> (string \<rightharpoonup> 'v) \<Rightarrow> (string \<rightharpoonup> 'v)" where
  "moved s d m = (\<lambda>q. if under d q then m (s @ drop (length d) q) else if under s q then None else m q)"

lemma move_effect:
  assumes ok: "nodes_ok st" and r: "fs_move st source destination = (st', b)"
  shows "nodes_ok st' \<and> (if b then node_read st' =
      moved (the (fs_normalize_path source)) (the (fs_normalize_path destination)) (node_read st) else st' = st)"
proof (cases b)
  case False
  with r ok show ?thesis by (auto simp: fs_move_def split: option.splits if_splits)
next
  case True
  with r obtain s d i where n: "fs_normalize_path source = Some s" "fs_normalize_path destination = Some d"
      "fs_find_node_normalized st s = Some i" "d \<noteq> []" "fs_find_node_normalized st d = None" "fs_parent_exists st d"
      "\<not> (n_type (g_nodes st ! i) = FS_TYPE_DIR \<and> below s d)" "move_allowed s d (live st)"
      "st' = st\<lparr>g_nodes := fold (rename_node s d) [0 ..< g_entry_count st] (g_nodes st)\<rparr>"
    by (auto simp: fs_move_def split: option.splits if_splits)
  have sh: "shape st" "table_ok (files st)" using ok by (simp_all add: nodes_ok_iff)
  note fd = found [OF sh(1) n(3)]
  have d: "normal d" using normalize_normal [OF n(2)] n(4) by simp
  have le: "g_entry_count st \<le> length (g_nodes st)" using sh(1) by (simp add: shape_def)
  have dirs: "is_dir_in (files st) s \<longleftrightarrow> n_type (g_nodes st ! i) = FS_TYPE_DIR"
    using fd(3) table_unique [OF sh(2)] by (auto simp: is_dir_in_iff dest!: map_of_SomeD)
  have len: "length (new_name s d (fst f)) < FS_PATH_MAX" if f: "f \<in> set (files st)" "under s (fst f)" for f
  proof -
    obtain j where j: "j < length (live st)" "f = row (live st ! j)" using f(1) by (auto simp: files_def in_set_conv_nth)
    then have "length d + length (drop (length s) (n_name (live st ! j))) + 1 \<le> FS_PATH_MAX"
      using n(8) f(2) by (auto simp: move_allowed_def list_all_iff Let_def moves_under)
    then show ?thesis using j f(2) by (simp add: new_name_def)
  qed
  have m: "movable (files st) s d"
    unfolding movable_def
  proof (intro conjI ballI impI)
    show "s \<in> fst ` set (files st)" using map_of_SomeD [OF fd(3)] by force
    show "d \<notin> fst ` set (files st)" using n(5) by (simp add: not_found)
    show "parent_in (files st) d" using x86_parent_exists_iff [OF sh] d n(6) by (simp add: normal_def)
    show "\<not> below s d" if "is_dir_in (files st) s" using that dirs n(7) by simp
  qed (use sh(2) d len in simp_all)
  note rn = rename_nodes [OF le, of s d]
  have dat: "n_data (fold (rename_node s d) [0 ..< g_entry_count st] (g_nodes st) ! j) = n_data (g_nodes st ! j)"
    if "j < length (g_nodes st)" for j
    using rn that by (auto simp: rename_file_def split: if_splits)
  have sh': "shape st'" using sh(1) rn dat n(9) le by (auto simp: shape_def)
  have f': "files st' = map (rename_file s d) (files st)"
    using rn n(9) length_files [OF sh(1)] files_nth [OF sh(1)] le by (intro files_eqI [OF sh']) auto
  show ?thesis
    using True rename_ok [OF m] rename_map [OF m] sh' f' n(1,2)
    by (simp add: nodes_ok_iff node_read_map sh(1) moved_def)
qed

section \<open>The table as a finite map\<close>

datatype x86_op =
    XMkdir string
  | XWrite string bytes nat
  | XAppend string bytes
  | XRemove string
  | XCopy string string
  | XMove string string

fun x86_step :: "fs_state \<Rightarrow> x86_op \<Rightarrow> fs_state \<times> bool" where
  "x86_step st (XMkdir path) = fs_mkdir st path"
| "x86_step st (XWrite path d t) = fs_write_file st path d t"
| "x86_step st (XAppend path d) = fs_append_file st path d"
| "x86_step st (XRemove path) = fs_remove st path"
| "x86_step st (XCopy source destination) = fs_copy st source destination"
| "x86_step st (XMove source destination) = fs_move st source destination"

abbreviation norm :: "string \<Rightarrow> string" where
  "norm path \<equiv> the (fs_normalize_path path)"

text \<open>What each operation means on a finite map from normal paths to contents and types.\<close>

fun x86_abs_step :: "(string \<rightharpoonup> bytes \<times> nat) \<Rightarrow> x86_op \<Rightarrow> (string \<rightharpoonup> bytes \<times> nat)" where
  "x86_abs_step m (XMkdir path) = m(norm path \<mapsto> ([], FS_TYPE_DIR))"
| "x86_abs_step m (XWrite path d t) = m(norm path \<mapsto> (d, t))"
| "x86_abs_step m (XAppend path d) = m(norm path \<mapsto> ((case m (norm path) of None \<Rightarrow> [] | Some (old, t) \<Rightarrow> old) @ d, FS_TYPE_TEXT))"
| "x86_abs_step m (XRemove path) = m(norm path := None)"
| "x86_abs_step m (XCopy source destination) = m(norm destination := m (norm source))"
| "x86_abs_step m (XMove source destination) = moved (norm source) (norm destination) m"

lemma effectD:
  assumes "effect st path v r" and "r = (st', b)"
  shows "nodes_ok st'" "b \<Longrightarrow> node_read st' = (node_read st)(norm path := v)" "\<not> b \<Longrightarrow> st' = st"
  using assms by (auto simp: effect_def split: if_splits)

lemma step_effect:
  assumes ok: "nodes_ok st" and s: "x86_step st op = (st', b)"
  shows "nodes_ok st' \<and> (if b then node_read st' = x86_abs_step (node_read st) op else st' = st)"
proof (cases op)
  case (XMove source destination)
  then show ?thesis using move_effect [OF ok] s by simp
next
  case (XMkdir path)
  then show ?thesis using s effectD [OF mkdir_effect [OF ok], of path st' b] by simp
next
  case (XWrite path d t)
  then show ?thesis using s effectD [OF write_effect [OF ok], of path d t st' b] by simp
next
  case (XAppend path d)
  then show ?thesis using s effectD [OF append_effect [OF ok], of path d st' b] by (simp add: old_text_def)
next
  case (XRemove path)
  then show ?thesis using s effectD [OF remove_effect [OF ok], of path st' b] by simp
next
  case (XCopy source destination)
  then show ?thesis using s effectD [OF copy_effect [OF ok], of source destination st' b] by simp
qed

interpretation x86_table: file_table nodes_ok node_read x86_step x86_abs_step
  by unfold_locales (auto dest: step_effect)

section \<open>What the rest of the kernel sees\<close>

text \<open>An entry shows its own node.\<close>

definition shows_itself :: "fs_state \<Rightarrow> nat \<Rightarrow> bool" where
  "shows_itself st i \<longleftrightarrow> n_entry (g_nodes st ! i) =
     \<lparr>entry_slot = Some i, entry_size = n_size (g_nodes st ! i), entry_type = n_type (g_nodes st ! i)\<rparr>"

definition entries_synced :: "fs_state \<Rightarrow> bool" where
  "entries_synced st \<longleftrightarrow> (\<forall>i<g_entry_count st. shows_itself st i)"

lemma synced_view:
  "shape st \<Longrightarrow> entries_synced st \<Longrightarrow> i < g_entry_count st \<Longrightarrow>
   entry_view st i = Some (n_name (g_nodes st ! i), n_data (g_nodes st ! i), n_type (g_nodes st ! i))"
  by (auto simp: entry_view_def entries_synced_def shows_itself_def shape_def Let_def)

lemma sync_shows: "i < length ns \<Longrightarrow> n_entry (fs_sync_entry i ns ! i) =
    \<lparr>entry_slot = Some i, entry_size = n_size (fs_sync_entry i ns ! i), entry_type = n_type (fs_sync_entry i ns ! i)\<rparr>"
  by (simp add: fs_sync_entry_def)

lemma sync_other: "j \<noteq> i \<Longrightarrow> fs_sync_entry i ns ! j = ns ! j"
  by (simp add: fs_sync_entry_def)

lemma synced_push:
  assumes sh: "shape st" and sy: "entries_synced st" and p: "fs_push_node st q t = Some st'"
  shows "entries_synced st'"
proof -
  let ?i = "g_entry_count st"
  let ?ns = "(g_nodes st)[?i := \<lparr>n_name = q, n_data = [], n_size = 0, n_type = t, n_entry = no_entry\<rparr>]"
  have st': "?i < MAX_FS_ENTRIES" "st' = st\<lparr>g_nodes := fs_sync_entry ?i ?ns, g_entry_count := ?i + 1\<rparr>"
    using p by (auto simp: fs_push_node_def Let_def split: if_splits)
  then show ?thesis
    using sy sync_shows [of ?i ?ns] sync_other [of _ ?i ?ns] sh
    by (auto simp: entries_synced_def shows_itself_def shape_def less_Suc_eq)
qed

lemma synced_store:
  assumes sh: "shape st" and sy: "\<And>j. j < g_entry_count st \<Longrightarrow> j \<noteq> i \<Longrightarrow> shows_itself st j" and i: "i < g_entry_count st"
  shows "entries_synced (store_node st i d t)"
proof -
  let ?ns = "(g_nodes st)[i := (g_nodes st ! i)\<lparr>n_data := d, n_size := length d, n_type := t\<rparr>]"
  have "i < length ?ns" using i sh by (simp add: shape_def)
  from sync_shows [OF this] show ?thesis
    using sy sync_other [of _ i ?ns] i unfolding entries_synced_def shows_itself_def store_node_def
    by (metis (no_types, lifting) fs_state.select_convs(1,2) fs_state.update_convs(1) nth_list_update_neq fs_state.surjective)
qed

definition self_entry :: "fs_node list \<Rightarrow> nat \<Rightarrow> bool" where
  "self_entry ns i \<longleftrightarrow> n_entry (ns ! i) = \<lparr>entry_slot = Some i, entry_size = n_size (ns ! i), entry_type = n_type (ns ! i)\<rparr>"

lemma rename_shows:
  "k \<le> length ns \<Longrightarrow> \<forall>j<length ns. self_entry ns j \<longrightarrow> self_entry (fold (rename_node s d) [0 ..< k] ns) j"
proof (induction k)
  case (Suc k)
  let ?ms = "fold (rename_node s d) [0 ..< k] ns"
  have l: "length ?ms = length ns" using rename_nodes [of k ns s d] Suc.prems by simp
  have "self_entry (rename_node s d k ?ms) j" if "j < length ns" "self_entry ?ms j" for j
    using that l Suc.prems by (cases "j = k") (simp_all add: rename_node_def self_entry_def fs_sync_entry_def)
  then show ?case using Suc by simp
qed simp

lemma synced_write:
  assumes "shape st" and "entries_synced st" and "fs_write_file st path d t = (st', b)"
  shows "entries_synced st'"
proof (cases b)
  case True
  then obtain p where n: "fs_normalize_path path = Some p" using assms(3) by (auto simp: fs_write_file_def split: option.splits)
  show ?thesis
  proof (cases "fs_find_node_normalized st p")
    case None
    then obtain st1 where "fs_push_node st p t = Some st1" "st' = store_node st1 (g_entry_count st1 - 1) d t"
      using assms(3) True n by (auto simp: fs_write_file_def split: option.splits if_splits)
    moreover from this synced_push [OF assms(1,2)] push_Some [OF assms(1)] have "entries_synced st1" "shape st1" "g_entry_count st1 > 0"
      by auto
    ultimately show ?thesis using synced_store [of st1 "g_entry_count st1 - 1" d t] by (simp add: entries_synced_def)
  next
    case (Some i)
    then have "st' = store_node st i d t" using assms(3) True n by (auto simp: fs_write_file_def split: if_splits)
    then show ?thesis using synced_store [OF assms(1) _ found(1) [OF assms(1) Some]] assms(2) by (simp add: entries_synced_def)
  qed
next
  case False
  then have "st' = st" using assms(3) by (auto simp: fs_write_file_def split: option.splits if_splits)
  then show ?thesis using assms(2) by simp
qed

lemma synced_step:
  assumes ok: "nodes_ok st" and sy: "entries_synced st" and s: "x86_step st op = (st', b)" and nr: "\<And>p. op \<noteq> XRemove p"
  shows "entries_synced st'"
proof -
  have sh: "shape st" using ok by (simp add: nodes_ok_iff)
  show ?thesis
  proof (cases op)
    case (XMkdir path)
    then show ?thesis
      using s sy synced_push [OF sh sy] by (auto simp: fs_mkdir_def split: option.splits if_splits)
  next
    case (XWrite path d t)
    then show ?thesis using s synced_write [OF sh sy] by simp
  next
    case (XAppend path d)
    show ?thesis
    proof (cases "fs_normalize_path path")
      case (Some p)
      show ?thesis
      proof (cases "fs_find_node_normalized st p")
        case None
        then show ?thesis using XAppend Some s sy synced_write [OF sh sy] by (auto simp: fs_append_file_def split: if_splits)
      next
        case (Some i)
        have "entries_synced (store_node st i e u)" for e u
          using synced_store [OF sh _ found(1) [OF sh Some]] sy by (simp add: entries_synced_def)
        then show ?thesis
          using XAppend Some \<open>fs_normalize_path path = Some p\<close> s sy
          by (auto simp: fs_append_file_def Let_def split: if_splits)
      qed
    qed (use XAppend s sy in \<open>simp add: fs_append_file_def\<close>)
  next
    case (XCopy source destination)
    then show ?thesis
      using s sy synced_write [OF sh sy] by (auto simp: fs_copy_def Let_def split: option.splits if_splits)
  next
    case (XMove source destination)
    have "entries_synced (st\<lparr>g_nodes := fold (rename_node x y) [0 ..< g_entry_count st] (g_nodes st)\<rparr>)" for x y
      using sh sy rename_shows [of "g_entry_count st" "g_nodes st" x y]
      by (auto simp: entries_synced_def shows_itself_def self_entry_def shape_def)
    then show ?thesis using XMove s sy by (auto simp: fs_move_def split: option.splits if_splits)
  qed (use nr in simp)
qed

text \<open>What \<open>fs_find\<close> shows of the node a path names.\<close>

definition seen :: "fs_state \<Rightarrow> string \<Rightarrow> (string \<times> bytes \<times> nat) option" where
  "seen st path = Option.bind (fs_find st path) (entry_view st)"

lemma seen_exact:
  assumes "shape st" and "entries_synced st" and "fs_normalize_path path = Some p"
  shows "seen st path = map_option (Pair p) (node_read st p)"
proof (cases "fs_find_node_normalized st p")
  case None
  then show ?thesis using assms(3) by (simp add: seen_def fs_find_def node_read_def)
next
  case (Some i)
  then show ?thesis
    using assms synced_view [OF assms(1,2) found(1) [OF assms(1) Some]] found [OF assms(1) Some]
    by (simp add: seen_def fs_find_def node_read_map)
qed

lemma synced_run:
  assumes "nodes_ok st" and "entries_synced st" and "run_ops x86_step st ops = (st', bs)" and "\<forall>p. XRemove p \<notin> set ops"
  shows "entries_synced st'"
  using assms
proof (induction ops arbitrary: st bs)
  case (Cons op ops)
  obtain st1 b where s1: "x86_step st op = (st1, b)" by (cases "x86_step st op")
  then obtain bs' where run: "run_ops x86_step st1 ops = (st', bs')" using Cons.prems(3) by (auto split: prod.splits)
  have "nodes_ok st1" using x86_table.step_inv [OF Cons.prems(1) s1] .
  moreover have "entries_synced st1" using Cons.prems s1 by (intro synced_step [OF Cons.prems(1,2) s1]) auto
  ultimately show ?case using Cons.IH run Cons.prems(4) by auto
qed simp

text \<open>After a removal.\<close>

lemma removal_view:
  assumes ok: "nodes_ok st" and sy: "entries_synced st" and f: "fs_find_node_normalized st p = Some i" and j: "i \<le> j" "j + 1 < g_entry_count st"
  shows "entry_view (st\<lparr>g_nodes := shift_down i (g_entry_count st) (g_nodes st), g_entry_count := g_entry_count st - 1\<rparr>) j =
    (let x = g_nodes st ! min (j + 2) (g_entry_count st - 1); y = g_nodes st ! (j + 1)
     in Some (n_name x, octets (n_size y) (n_data x), n_type y))"
proof -
  let ?c = "g_entry_count st" and ?ns = "g_nodes st"
  have sh: "shape st" using ok by (simp add: nodes_ok_iff)
  have i: "i < ?c" "?c \<le> length ?ns" using found(1) [OF sh f] sh by (simp_all add: shape_def)
  note eq = shift_down_eq [OF i]
  have inner: "shift_down i ?c ?ns ! k = ?ns ! Suc k" if "i \<le> k" "k + 1 < ?c" for k
    unfolding eq using that i by (auto simp: nth_append)
  have outer: "shift_down i ?c ?ns ! (?c - 1) = ?ns ! (?c - 1)"
    unfolding eq using i by (auto simp: nth_append)
  have "shift_down i ?c ?ns ! (j + 1) = ?ns ! min (j + 2) (?c - 1)"
  proof (cases "j + 2 < ?c")
    case True
    then show ?thesis using inner [of "j + 1"] j by (simp add: min_def)
  next
    case False
    then have "?c - 1 = j + 1" using j by simp
    then show ?thesis using outer False by (simp add: min_def)
  qed
  moreover have "n_entry (?ns ! (j + 1)) = \<lparr>entry_slot = Some (j + 1), entry_size = n_size (?ns ! (j + 1)), entry_type = n_type (?ns ! (j + 1))\<rparr>"
    using sy j(2) by (simp add: entries_synced_def shows_itself_def)
  ultimately show ?thesis using inner [of j] j by (simp add: entry_view_def Let_def)
qed

section \<open>Components of a path\<close>

fun pieces :: "string \<Rightarrow> string \<Rightarrow> string list" where
  "pieces cur [] = (if cur = [] then [] else [cur])"
| "pieces cur (c # cs) =
     (if c = CHR ''/'' then (if cur = [] then pieces [] cs else cur # pieces [] cs) else pieces (cur @ [c]) cs)"

lemma pieces_slash: "pieces cur (u @ CHR ''/'' # v) = pieces cur u @ pieces [] v"
  by (induction cur u rule: pieces.induct) auto

lemma loop_pieces:
  "normalize_loop input out slash = Some out' \<Longrightarrow> out = [] \<or> (slash \<longrightarrow> last out = CHR ''/'') \<Longrightarrow>
   pieces [] out' = pieces [] (out @ input)"
proof (induction input out slash rule: normalize_loop.induct)
  case (2 ch input out slash)
  show ?case
  proof (cases "ch = CHR ''/''")
    case c: True
    show ?thesis
    proof (cases "out = [] \<or> slash")
      case True
      have "pieces [] (out @ CHR ''/'' # input) = pieces [] (out @ input)"
      proof (cases out rule: rev_cases)
        case (snoc u x)
        then have "x = CHR ''/''" using 2(5) True by auto
        then show ?thesis using snoc pieces_slash [of "[]" u "CHR ''/'' # input"] pieces_slash [of "[]" u input] by simp
      qed simp
      then show ?thesis using 2(1) 2(4,5) True c by auto
    next
      case False
      then show ?thesis using 2(2) 2(4) c by (auto split: if_splits)
    qed
  next
    case False
    then show ?thesis using 2(3) 2(4) by (auto split: if_splits)
  qed
qed simp

lemma cut_pieces: "pieces [] (cut_slashes out) = pieces [] out"
proof (induction out rule: rev_induct)
  case (snoc c out)
  then show ?case
    using pieces_slash [of "[]" out "[]"] by (cases "c = CHR ''/''") (auto simp: cut_slashes_def)
qed (simp add: cut_slashes_def)

lemma normalize_pieces: "fs_normalize_path s = Some p \<Longrightarrow> pieces [] p = pieces [] s"
  using loop_pieces [of s "[]" False] cut_pieces by (auto simp: fs_normalize_path_def split: if_splits)

section \<open>The table at start-up\<close>

definition blank_node :: fs_node where
  "blank_node = \<lparr>n_name = [], n_data = [], n_size = 0, n_type = 0, n_entry = no_entry\<rparr>"

definition empty_fs :: fs_state where
  "empty_fs = \<lparr>g_nodes = replicate MAX_FS_ENTRIES blank_node, g_entry_count = 0\<rparr>"

lemma none_ok: "length (g_nodes st) = MAX_FS_ENTRIES \<Longrightarrow> nodes_ok (st\<lparr>g_entry_count := 0\<rparr>) \<and> entries_synced (st\<lparr>g_entry_count := 0\<rparr>)"
  by (simp add: nodes_ok_iff shape_def files_def live_def table_ok_def entries_synced_def)

definition builtin_ops :: "x86_op list" where
  "builtin_ops = [XMkdir ''/docs'', XMkdir ''/home'', XWrite ''/README.TXT'' builtin_readme FS_TYPE_TEXT,
     XWrite ''/docs/MOTD.TXT'' builtin_motd FS_TYPE_TEXT, XWrite ''/home/WELCOME.TXT'' builtin_home FS_TYPE_TEXT]"

lemma builtin_run: "fs_use_builtin st = fst (run_ops x86_step (st\<lparr>g_entry_count := 0\<rparr>) builtin_ops)"
  by (simp add: fs_use_builtin_def builtin_ops_def split_beta)

lemma builtin_ok:
  assumes "length (g_nodes st) = MAX_FS_ENTRIES"
  shows "nodes_ok (fs_use_builtin st) \<and> entries_synced (fs_use_builtin st)"
proof -
  obtain bs where run: "run_ops x86_step (st\<lparr>g_entry_count := 0\<rparr>) builtin_ops = (fs_use_builtin st, bs)"
    unfolding builtin_run by (metis prod.collapse)
  show ?thesis
    using none_ok [OF assms] x86_table.run_inv [OF _ run] synced_run [OF _ _ run] by (auto simp: builtin_ops_def)
qed

section \<open>Properties\<close>

text \<open>A path the normaliser accepts keeps its components: the result has the same ones in the same
  order, with one slash between two and none at the ends, is shorter than 64 characters, and is
  accepted unchanged.\<close>

theorem x86_normalize_canonical:
  assumes "fs_normalize_path s = Some p"
  shows "pieces [] p = pieces [] s \<and> (p = [] \<or> normal p) \<and> fs_normalize_path p = Some p"
  using normalize_pieces [OF assms] normalize_normal [OF assms] normalize_id [of p]
  by (cases "p = []") (auto simp: fs_normalize_path_def [of "[]"])

theorem x86_normalize_canonical_witness:
  "fs_normalize_path ''//home///docs/'' = Some ''home/docs'' \<and> pieces [] ''home/docs'' = [''home'', ''docs''] \<and> normal ''home/docs''"
proof -
  have "fs_normalize_path ''//home///docs/'' = Some ''home/docs''" by code_simp
  from x86_normalize_canonical [OF this] this show ?thesis by simp
qed

text \<open>The bound counts a slash that is cut afterwards: a path of 63 characters is accepted, the same
  path with a slash behind it is refused.\<close>

lemma x86_normalize_boundary:
  "fs_normalize_path (replicate 63 (CHR ''a'')) = Some (replicate 63 (CHR ''a'')) \<and>
   fs_normalize_path (replicate 63 (CHR ''a'') @ ''/'') = None"
  by code_simp

text \<open>C3: From any well-formed table of the x86 kernel, a sequence of mkdir, write, append, remove, copy
  and move calls acts on the nodes as the same sequence acts on a finite map from normal paths to contents and
  types, a move renaming the whole subtree: a call that reports success has its full effect, a call that reports
  failure has none. The table stays well formed.\<close>

theorem x86_run_refines_map:
  assumes "nodes_ok st" and "run_ops x86_step st ops = (st', bs)"
  shows "nodes_ok st' \<and> node_read st' = abs_run x86_abs_step (node_read st) ops bs"
  using x86_table.run_inv [OF assms] x86_table.run_refines [OF assms] by blast

definition x86_demo_ops :: "x86_op list" where
  "x86_demo_ops = [XMkdir ''/a/'', XWrite ''a/f'' ''one'' FS_TYPE_TEXT, XAppend ''/a//f'' ''two'', XCopy ''/a/f'' ''g'',
     XMove ''/a'' ''/b'', XMkdir ''/b/f/x'', XRemove ''/b'']"

lemma x86_demo_run:
  "run_ops x86_step empty_fs x86_demo_ops =
     (fst (run_ops x86_step empty_fs x86_demo_ops), [True, True, True, True, True, False, False])"
proof -
  have "snd (run_ops x86_step empty_fs x86_demo_ops) = [True, True, True, True, True, False, False]" by code_simp
  then show ?thesis by (metis prod.collapse)
qed

lemma empty_ok: "nodes_ok empty_fs \<and> entries_synced empty_fs"
  using none_ok [of empty_fs] by (simp add: empty_fs_def)

theorem x86_run_refines_map_witness:
  "node_read (fst (run_ops x86_step empty_fs x86_demo_ops)) ''b/f'' = Some (''onetwo'', FS_TYPE_TEXT) \<and>
   node_read (fst (run_ops x86_step empty_fs x86_demo_ops)) ''a/f'' = None"
proof -
  have m: "node_read (fst (run_ops x86_step empty_fs x86_demo_ops)) =
      abs_run x86_abs_step (node_read empty_fs) x86_demo_ops [True, True, True, True, True, False, False]"
    using x86_run_refines_map [OF conjunct1 [OF empty_ok] x86_demo_run] by blast
  have "abs_run x86_abs_step (node_read empty_fs) x86_demo_ops [True, True, True, True, True, False, False] ''b/f'' = Some (''onetwo'', FS_TYPE_TEXT)"
    "abs_run x86_abs_step (node_read empty_fs) x86_demo_ops [True, True, True, True, True, False, False] ''a/f'' = None"
    by code_simp+
  then show ?thesis unfolding m by simp
qed

text \<open>As long as nothing has been removed, what the kernel sees through the entries is the table:
  after any sequence of the other operations \<open>fs_find\<close> on a path shows the name, contents and type of the node
  that path names.\<close>

theorem x86_entries_exact:
  assumes "nodes_ok st" and "entries_synced st" and "run_ops x86_step st ops = (st', bs)" and "\<forall>p. XRemove p \<notin> set ops"
    and "fs_normalize_path path = Some p"
  shows "seen st' path = map_option (Pair p) (abs_run x86_abs_step (node_read st) ops bs p)"
  using seen_exact [OF _ synced_run [OF assms(1-4)] assms(5)] x86_table.run_inv [OF assms(1,3)]
    x86_table.run_refines [OF assms(1,3)] by (simp add: nodes_ok_iff)

lemma builtin_bits:
  "snd (run_ops x86_step empty_fs builtin_ops) = [True, True, True, True, True]"
  by code_simp

theorem x86_entries_exact_witness:
  "seen (fs_use_builtin empty_fs) ''/docs/MOTD.TXT'' = Some (''docs/MOTD.TXT'', builtin_motd, FS_TYPE_TEXT)"
proof -
  have e: "empty_fs\<lparr>g_entry_count := 0\<rparr> = empty_fs" by (simp add: empty_fs_def)
  have run: "run_ops x86_step empty_fs builtin_ops = (fs_use_builtin empty_fs, [True, True, True, True, True])"
    unfolding builtin_run e using builtin_bits by (metis prod.collapse)
  have nr: "\<forall>p. XRemove p \<notin> set builtin_ops" by (simp add: builtin_ops_def)
  have p: "fs_normalize_path ''/docs/MOTD.TXT'' = Some ''docs/MOTD.TXT''" by code_simp
  have "norm ''/docs/MOTD.TXT'' = ''docs/MOTD.TXT''" "norm ''/home/WELCOME.TXT'' \<noteq> ''docs/MOTD.TXT''" by code_simp+
  then show ?thesis
    using x86_entries_exact [OF conjunct1 [OF empty_ok] conjunct2 [OF empty_ok] run nr p]
    by (simp add: builtin_ops_def)
qed

text \<open>\<open>fs_remove\<close> closes the gap by copying whole nodes and does not call \<open>fs_sync_entry\<close>: the entry
  pointers of a shifted node keep pointing to its old slot. So right after a removal every entry behind the
  removed one shows the name and contents of the node after it (cut or padded to its own size and type), and
  the first of them can no longer be seen at all.\<close>

theorem x86_removal_confuses_entries:
  assumes "nodes_ok st" and "entries_synced st" and "fs_remove st path = (st', True)" and "fs_normalize_path path = Some p"
    and "fs_find_node_normalized st p = Some i" and "i \<le> j" "j + 1 < g_entry_count st"
  shows "n_name (g_nodes st' ! j) = n_name (g_nodes st ! (j + 1)) \<and>
    entry_view st' j =
      (let x = g_nodes st ! min (j + 2) (g_entry_count st - 1); y = g_nodes st ! (j + 1)
       in Some (n_name x, octets (n_size y) (n_data x), n_type y))"
proof -
  have st': "st' = st\<lparr>g_nodes := shift_down i (g_entry_count st) (g_nodes st), g_entry_count := g_entry_count st - 1\<rparr>"
    using assms(3-5) by (auto simp: fs_remove_def split: if_splits)
  have sh: "shape st" using assms(1) by (simp add: nodes_ok_iff)
  have i: "i < g_entry_count st" "g_entry_count st \<le> length (g_nodes st)"
    using found(1) [OF sh assms(5)] sh by (simp_all add: shape_def)
  have "g_nodes st' ! j = g_nodes st ! (j + 1)"
    unfolding st' using shift_down_eq [OF i] i assms(6,7) by (auto simp: nth_append)
  then show ?thesis using removal_view [OF assms(1,2,5-7)] st' by simp
qed

definition three_files :: fs_state where
  "three_files = fst (run_ops x86_step empty_fs [XWrite ''a'' ''AAA'' FS_TYPE_TEXT, XWrite ''b'' ''B'' FS_TYPE_TEXT, XWrite ''c'' ''CCCC'' FS_TYPE_TEXT])"

text \<open>What the witnesses need of this table and of the removal of its first file, computed once.\<close>

definition three_view :: "fs_state \<Rightarrow> nat option \<times> nat option \<times> bool \<times> nat option \<times> nat \<times> string \<times> string \<times> nat \<times> nat" where
  "three_view st =
     (case fs_remove st ''/a'' of (st', removed) \<Rightarrow>
        (fs_find st ''/a'', fs_find st ''/b'', removed, fs_find st' ''/b'', g_entry_count st,
         n_name (g_nodes st ! 2), n_data (g_nodes st ! 2), n_size (g_nodes st ! 1), n_type (g_nodes st ! 1)))"

lemma three_view: "three_view three_files = (Some 0, Some 1, True, Some 0, 3, ''c'', ''CCCC'', 1, FS_TYPE_TEXT)"
  by code_simp

lemma three_files_facts:
  "fs_find three_files ''/a'' = Some 0" "fs_find three_files ''/b'' = Some 1" "snd (fs_remove three_files ''/a'')"
  "fs_find (fst (fs_remove three_files ''/a'')) ''/b'' = Some 0" "g_entry_count three_files = 3"
  "n_name (g_nodes three_files ! Suc (Suc 0)) = ''c''" "n_data (g_nodes three_files ! Suc (Suc 0)) = ''CCCC''"
  "n_size (g_nodes three_files ! Suc 0) = Suc 0" "n_type (g_nodes three_files ! Suc 0) = FS_TYPE_TEXT"
  using three_view by (simp_all add: three_view_def split_beta numeral_2_eq_2)

theorem x86_removal_confuses_entries_witness:
  "\<exists>st'. fs_remove three_files ''/a'' = (st', True) \<and> seen st' ''/b'' = Some (''c'', ''C'', FS_TYPE_TEXT)"
proof -
  let ?ops = "[XWrite ''a'' ''AAA'' FS_TYPE_TEXT, XWrite ''b'' ''B'' FS_TYPE_TEXT, XWrite ''c'' ''CCCC'' FS_TYPE_TEXT]"
  have run: "run_ops x86_step empty_fs ?ops = (three_files, snd (run_ops x86_step empty_fs ?ops))"
    unfolding three_files_def by simp
  have ok: "nodes_ok three_files" "entries_synced three_files"
    using x86_table.run_inv [OF conjunct1 [OF empty_ok] run] synced_run [OF conjunct1 [OF empty_ok] conjunct2 [OF empty_ok] run]
    by simp_all
  obtain st' where r: "fs_remove three_files ''/a'' = (st', True)" "st' = fst (fs_remove three_files ''/a'')"
    using three_files_facts(3) by (cases "fs_remove three_files ''/a''") auto
  have a: "fs_normalize_path ''/a'' = Some ''a''" by code_simp
  then have facts: "fs_normalize_path ''/a'' = Some ''a''" "fs_find_node_normalized three_files ''a'' = Some 0"
    "g_entry_count three_files = 3" "fs_find st' ''/b'' = Some 0"
    unfolding r(2) using three_files_facts(1,4,5) by (simp_all add: fs_find_def)
  note nodes = three_files_facts(6-9)
  have "entry_view st' 0 = Some (''c'', octets (Suc 0) ''CCCC'', FS_TYPE_TEXT)"
    using x86_removal_confuses_entries [OF ok r(1) facts(1,2), of 0] facts(3) nodes by (simp add: Let_def numeral_2_eq_2)
  moreover have "octets (Suc 0) ''CCCC'' = ''C''" by code_simp
  ultimately show ?thesis using r(1) facts(4) by (auto simp: seen_def)
qed

end
