(* ===== verification/LegacyText.thy ===== *)
theory LegacyText
  imports LegacyFsOps
begin

text \<open>
  The text helpers of the x86 shell, \<open>src/kernel/shell.c\<close>: bounded copy, words of a line, the join of
  words, and the resolution of a path against the working directory. The arrays of the source are the
  strings they hold; every write is guarded by the size of its array there and here.
\<close>

definition SHELL_INPUT_MAX :: nat where "SHELL_INPUT_MAX = 256"
definition SHELL_ARG_MAX :: nat where "SHELL_ARG_MAX = 16"
definition FILE_MANAGER_VIEW_MAX :: nat where "FILE_MANAGER_VIEW_MAX = 32"
definition COMPONENTS_MAX :: nat where "COMPONENTS_MAX = 16"

definition shell_copy_string :: "string \<Rightarrow> string \<Rightarrow> nat \<Rightarrow> string" where
  "shell_copy_string destination source limit = (if limit = 0 then destination else take (limit - 1) source)"

section \<open>Words\<close>

function shell_tokenize :: "string \<Rightarrow> nat \<Rightarrow> string list" where
  "shell_tokenize cursor max_args =
     (if cursor = [] \<or> max_args = 0 then []
      else let c = dropWhile isspace cursor
           in if c = [] then []
              else let word = takeWhile (\<lambda>x. \<not> isspace x) c; rest = dropWhile (\<lambda>x. \<not> isspace x) c
                   in if rest = [] then [word] else word # shell_tokenize (tl rest) (max_args - 1))"
  by pat_completeness auto
termination by (relation "measure snd") auto

declare shell_tokenize.simps [simp del]

text \<open>Appending while an octet is left for the terminator.\<close>

definition put_limit :: "nat \<Rightarrow> string \<Rightarrow> string \<Rightarrow> string" where
  "put_limit limit out s = out @ take (limit - 1 - length out) s"

fun join_from :: "bool \<Rightarrow> string list \<Rightarrow> nat \<Rightarrow> string \<Rightarrow> string" where
  "join_from first [] limit out = out"
| "join_from first (arg # args) limit out =
     join_from False args limit (put_limit limit (if first then out else put_limit limit out '' '') arg)"

definition shell_join_args :: "nat \<Rightarrow> string list \<Rightarrow> nat \<Rightarrow> string" where
  "shell_join_args start argv limit = join_from True (drop start argv) limit []"

section \<open>Paths\<close>

definition last_slash :: "string \<Rightarrow> nat option" where
  "last_slash p =
     (if CHR ''/'' \<in> set p then Some (length p - 1 - length (takeWhile (\<lambda>c. c \<noteq> CHR ''/'') (rev p))) else None)"

definition shell_parent_directory :: "string \<Rightarrow> string" where
  "shell_parent_directory path =
     (if path = ''/'' then path
      else case last_slash path of None \<Rightarrow> path | Some 0 \<Rightarrow> take 1 path | Some i \<Rightarrow> take i path)"

definition shell_basename :: "string \<Rightarrow> string" where
  "shell_basename path = (case last_slash path of None \<Rightarrow> path | Some i \<Rightarrow> drop (i + 1) path)"

definition shell_entry_absolute_path :: "string \<Rightarrow> string" where
  "shell_entry_absolute_path name = CHR ''/'' # shell_copy_string [] name (FS_PATH_MAX - 1)"

definition resolve_raw :: "string \<Rightarrow> string \<Rightarrow> string" where
  "resolve_raw current_directory input =
     (if take 1 input = ''/'' then shell_copy_string [] input FS_PATH_MAX
      else if current_directory = ''/'' then ''/'' @ shell_copy_string [] input (FS_PATH_MAX - 1)
      else let raw = shell_copy_string [] current_directory FS_PATH_MAX;
               raw = (if length raw + 1 < FS_PATH_MAX then raw @ ''/'' else raw)
           in raw @ shell_copy_string [] input (FS_PATH_MAX - length raw))"

text \<open>The components array up to \<open>depth\<close>.\<close>

definition push_component :: "string \<Rightarrow> string list \<Rightarrow> string list" where
  "push_component token components =
     (if token = ''.'' \<or> token = [] then components
      else if token = ''..'' then butlast components
      else if length components < COMPONENTS_MAX then components @ [shell_copy_string [] token FS_PATH_MAX]
      else components)"

function split_components :: "string \<Rightarrow> string list \<Rightarrow> string list" where
  "split_components raw components =
     (let r = dropWhile (\<lambda>c. c = CHR ''/'') raw
      in if r = [] then components
         else let token = take (FS_PATH_MAX - 1) (takeWhile (\<lambda>c. c \<noteq> CHR ''/'') r)
              in split_components (drop (length token) r) (push_component token components))"
  by pat_completeness auto
termination
proof (relation "measure (\<lambda>(raw, components). length raw)", goal_cases)
  case (2 raw components r token)
  then obtain a t where r: "r = a # t" "a \<noteq> CHR ''/''"
    by (metis (mono_tags) hd_dropWhile list.collapse)
  then have "token \<noteq> []" unfolding 2(3) by (simp add: FS_PATH_MAX_def)
  moreover have "length r \<le> length raw" unfolding 2(1) by (rule length_dropWhile_le)
  ultimately have "length (drop (length token) r) < length raw" using r by (cases token) auto
  then show ?case by simp
qed simp

declare split_components.simps [simp del]

text \<open>Writing the components back.\<close>

fun emit_components :: "string list \<Rightarrow> string \<Rightarrow> string" where
  "emit_components [] out = out"
| "emit_components (c # cs) out =
     emit_components cs
       (if cs = [] then put_limit FS_PATH_MAX out c else put_limit FS_PATH_MAX (put_limit FS_PATH_MAX out c) ''/'')"

definition shell_resolve_path_from :: "string \<Rightarrow> string \<Rightarrow> string" where
  "shell_resolve_path_from current_directory input =
     (if input = [] then shell_copy_string [] current_directory FS_PATH_MAX
      else emit_components (split_components (resolve_raw current_directory input) []) ''/'')"

section \<open>What a resolved path is\<close>

fun slashed :: "string list \<Rightarrow> string" where
  "slashed [] = []"
| "slashed [c] = c"
| "slashed (c # cs) = c @ CHR ''/'' # slashed cs"

definition name_ok :: "string \<Rightarrow> bool" where
  "name_ok c \<longleftrightarrow> c \<noteq> [] \<and> c \<noteq> ''.'' \<and> c \<noteq> ''..'' \<and> CHR ''/'' \<notin> set c"

lemma name_okD: "name_ok c \<Longrightarrow> c \<noteq> []" "name_ok c \<Longrightarrow> x \<in> set c \<Longrightarrow> x \<noteq> CHR ''/''"
  by (auto simp: name_ok_def)

lemma slashed_Cons: "slashed (c # cs) = (if cs = [] then c else c @ CHR ''/'' # slashed cs)"
  by (cases cs) simp_all

lemma slashed_length: "length (slashed cs) + 1 = sum_list (map (\<lambda>c. length c + 1) cs)" if "cs \<noteq> []"
  using that by (induction cs) (auto simp: slashed_Cons)

lemma sum_butlast: "sum_list (map f (butlast cs)) \<le> sum_list (map f cs)" for f :: "'a \<Rightarrow> nat"
  by (induction cs) auto

lemma emit_all:
  "length out + length (slashed cs) < FS_PATH_MAX \<Longrightarrow> emit_components cs out = out @ slashed cs"
proof (induction cs out rule: emit_components.induct)
  case (2 c cs out)
  show ?case
  proof (cases "cs = []")
    case False
    then have "length out + length c + 1 + length (slashed cs) < FS_PATH_MAX" using 2(2) by (simp add: slashed_Cons)
    then show ?thesis using 2(1) False by (simp add: put_limit_def slashed_Cons)
  qed (use 2 in \<open>simp add: put_limit_def slashed_Cons\<close>)
qed simp

text \<open>A raw path fits its array, so no token is cut, and the loop works through the pieces between slashes.\<close>

lemma pieces_word: "CHR ''/'' \<notin> set t \<Longrightarrow> pieces cur t = (if cur @ t = [] then [] else [cur @ t])"
  by (induction cur t rule: pieces.induct) auto

lemma pieces_drop: "pieces [] (dropWhile (\<lambda>c. c = CHR ''/'') s) = pieces [] s"
  by (induction s) auto

lemma pieces_first:
  assumes "r \<noteq> []" "hd r \<noteq> CHR ''/''"
  defines "t \<equiv> takeWhile (\<lambda>c. c \<noteq> CHR ''/'') r"
  shows "pieces [] r = t # pieces [] (drop (length t) r)"
proof -
  have t: "CHR ''/'' \<notin> set t" "t \<noteq> []" using assms by (cases r; auto simp: t_def dest: set_takeWhileD)+
  have r: "r = t @ drop (length t) r" by (metis append_take_drop_id t_def takeWhile_eq_take)
  show ?thesis
  proof (cases "drop (length t) r")
    case Nil
    then have "r = t" using r by simp
    then show ?thesis using pieces_word [OF t(1), of "[]"] t Nil by simp
  next
    case (Cons c v)
    then have "c = CHR ''/''" using hd_dropWhile [of "\<lambda>c. c \<noteq> CHR ''/''" r]
      by (simp add: t_def dropWhile_eq_drop)
    then have "pieces [] r = pieces [] t @ pieces [] v" using r Cons pieces_slash by metis
    then show ?thesis using pieces_word [OF t(1), of "[]"] t Cons \<open>c = _\<close> by simp
  qed
qed

lemma split_pieces: "length raw < FS_PATH_MAX \<Longrightarrow> split_components raw cs = fold push_component (pieces [] raw) cs"
proof (induction raw cs rule: split_components.induct)
  case (1 raw cs)
  define r where "r = dropWhile (\<lambda>c. c = CHR ''/'') raw"
  define t where "t = takeWhile (\<lambda>c. c \<noteq> CHR ''/'') r"
  have len: "length r < FS_PATH_MAX" "length t < FS_PATH_MAX"
    using "1.prems" length_dropWhile_le [of "\<lambda>c. c = CHR ''/''" raw] length_takeWhile_le [of "\<lambda>c. c \<noteq> CHR ''/''" r]
    by (simp_all add: r_def t_def)
  then have token: "take (FS_PATH_MAX - 1) t = t" by simp
  have p: "pieces [] raw = pieces [] r" by (simp add: r_def pieces_drop)
  show ?case
  proof (cases "r = []")
    case True
    then show ?thesis by (subst split_components.simps) (simp add: p flip: r_def)
  next
    case False
    then have "hd r \<noteq> CHR ''/''" unfolding r_def by (rule hd_dropWhile)
    then have "pieces [] raw = t # pieces [] (drop (length t) r)" unfolding p t_def by (rule pieces_first [OF False])
    moreover have "split_components raw cs = split_components (drop (length t) r) (push_component t cs)"
      by (subst split_components.simps, unfold Let_def, fold r_def, fold t_def, unfold token) (simp add: False)
    moreover have "split_components (drop (length t) r) (push_component t cs) =
        fold push_component (pieces [] (drop (length t) r)) (push_component t cs)"
      using "1.IH" [OF r_def False refl, folded t_def, unfolded token] len by simp
    ultimately show ?thesis by simp
  qed
qed

lemma pieces_names: "CHR ''/'' \<notin> set cur \<Longrightarrow> c \<in> set (pieces cur s) \<Longrightarrow> c \<noteq> [] \<and> CHR ''/'' \<notin> set c"
  by (induction cur s rule: pieces.induct) (auto split: if_splits)

lemma pieces_size: "sum_list (map (\<lambda>c. length c + 1) (pieces cur s)) \<le> length cur + length s + 1"
  by (induction cur s rule: pieces.induct) auto

lemma push_ok:
  assumes "list_all name_ok cs" "length cs \<le> COMPONENTS_MAX" "t \<noteq> []" "CHR ''/'' \<notin> set t" "length t < FS_PATH_MAX"
  shows "list_all name_ok (push_component t cs) \<and> length (push_component t cs) \<le> COMPONENTS_MAX"
proof -
  have "shell_copy_string [] t FS_PATH_MAX = t" using assms(5) by (simp add: shell_copy_string_def FS_PATH_MAX_def)
  moreover have "list_all name_ok (butlast cs)" using assms(1) by (auto simp: list_all_iff dest: in_set_butlastD)
  ultimately show ?thesis using assms(1-4) by (auto simp: push_component_def name_ok_def)
qed

lemma pushes_ok:
  "list_all name_ok cs \<Longrightarrow> length cs \<le> COMPONENTS_MAX \<Longrightarrow> (\<forall>t\<in>set ts. t \<noteq> [] \<and> CHR ''/'' \<notin> set t \<and> length t < FS_PATH_MAX) \<Longrightarrow>
   list_all name_ok (fold push_component ts cs) \<and> length (fold push_component ts cs) \<le> COMPONENTS_MAX"
  by (induction ts arbitrary: cs) (simp_all add: push_ok)

lemma push_size: "sum_list (map (\<lambda>c. length c + 1) (push_component t cs)) \<le> sum_list (map (\<lambda>c. length c + 1) cs) + length t + 1"
  using sum_butlast [of "\<lambda>c. length c + 1" cs] by (auto simp: push_component_def shell_copy_string_def)

lemma pushes_size:
  "sum_list (map (\<lambda>c. length c + 1) (fold push_component ts cs)) \<le> sum_list (map (\<lambda>c. length c + 1) cs) + sum_list (map (\<lambda>c. length c + 1) ts)"
proof (induction ts arbitrary: cs)
  case (Cons t ts)
  show ?case using Cons.IH [of "push_component t cs"] push_size [of t cs] by simp
qed simp


text \<open>A working directory: an absolute path that fits its array.\<close>

definition directory_ok :: "string \<Rightarrow> bool" where
  "directory_ok d \<longleftrightarrow> take 1 d = ''/'' \<and> length d < FS_PATH_MAX"

definition resolved :: "string \<Rightarrow> string \<Rightarrow> string list" where
  "resolved current_directory input = fold push_component (pieces [] (resolve_raw current_directory input)) []"

lemma resolve_raw_fits: "length (resolve_raw d s) < FS_PATH_MAX"
  by (auto simp: resolve_raw_def shell_copy_string_def FS_PATH_MAX_def Let_def)

lemma x86_raw_absolute: "directory_ok d \<Longrightarrow> \<exists>t. resolve_raw d s = CHR ''/'' # t"
  by (cases d; cases s) (auto simp: directory_ok_def resolve_raw_def shell_copy_string_def FS_PATH_MAX_def Let_def)

lemma resolved_ok:
  assumes "directory_ok d"
  shows "list_all name_ok (resolved d s) \<and> length (resolved d s) \<le> COMPONENTS_MAX \<and> 1 + length (slashed (resolved d s)) < FS_PATH_MAX"
proof -
  let ?raw = "resolve_raw d s"
  obtain t where t: "?raw = CHR ''/'' # t" using x86_raw_absolute [OF assms] by blast
  have len: "length t + 1 < FS_PATH_MAX" using resolve_raw_fits [of d s] t by simp
  have size: "sum_list (map (\<lambda>c. length c + 1) (pieces [] ?raw)) \<le> length t + 1" using pieces_size [of "[]" t] t by simp
  have each: "length c < FS_PATH_MAX" if "c \<in> set (pieces [] ?raw)" for c
    using member_le_sum_list [of "length c + 1" "map (\<lambda>c. length c + 1) (pieces [] ?raw)"] that size len by force
  have "list_all name_ok (resolved d s) \<and> length (resolved d s) \<le> COMPONENTS_MAX"
    unfolding resolved_def by (rule pushes_ok) (use pieces_names [of "[]"] each in auto)
  moreover have "1 + length (slashed (resolved d s)) < FS_PATH_MAX"
    using pushes_size [of "pieces [] ?raw" "[]"] size len slashed_length [of "resolved d s"]
    by (cases "resolved d s = []") (auto simp: resolved_def FS_PATH_MAX_def)
  ultimately show ?thesis by simp
qed

lemma resolve_eq:
  assumes "directory_ok d" "s \<noteq> []"
  shows "shell_resolve_path_from d s = CHR ''/'' # slashed (resolved d s)"
  using resolved_ok [OF assms(1), of s] emit_all [of "''/''" "resolved d s"] assms(2) resolve_raw_fits [of d s]
  by (simp add: shell_resolve_path_from_def split_pieces resolved_def)

lemma tidy_name: "c \<noteq> [] \<Longrightarrow> CHR ''/'' \<notin> set c \<Longrightarrow> tidy b c"
proof (induction b c rule: tidy.induct)
  case (2 b c cs)
  then show ?case by (cases cs) auto
qed simp

lemma tidy_slashed: "list_all name_ok cs \<Longrightarrow> cs \<noteq> [] \<Longrightarrow> tidy True (slashed cs)"
  by (induction cs) (auto simp: slashed_Cons tidy_slash name_ok_def tidy_name)

lemma normalize_absolute:
  assumes "normal p"
  shows "fs_normalize_path (CHR ''/'' # p) = Some p"
  using loop_keeps [of True p "[]" True] assms cut_tidy [of p] by (simp add: fs_normalize_path_def normal_def)

lemma normalize_resolved:
  assumes "list_all name_ok cs" "1 + length (slashed cs) < FS_PATH_MAX"
  shows "fs_normalize_path (CHR ''/'' # slashed cs) = Some (slashed cs)"
proof (cases "cs = []")
  case False
  then have "normal (slashed cs)" using tidy_slashed [OF assms(1)] assms(2) by (simp add: normal_def)
  then show ?thesis by (rule normalize_absolute)
qed (simp add: fs_normalize_path_def cut_slashes_def)

lemma pieces_slashed: "list_all name_ok cs \<Longrightarrow> pieces [] (slashed cs) = cs"
proof (induction cs)
  case (Cons c cs)
  then have c: "c \<noteq> []" "CHR ''/'' \<notin> set c" by (simp_all add: name_ok_def)
  then show ?case using Cons pieces_word [OF c(2), of "[]"] pieces_slash [of "[]" c "slashed cs"] by (simp add: slashed_Cons)
qed simp

lemma push_names:
  "list_all name_ok cs \<Longrightarrow> \<forall>c\<in>set cs. length c < FS_PATH_MAX \<Longrightarrow> length ds + length cs \<le> COMPONENTS_MAX \<Longrightarrow>
   fold push_component cs ds = ds @ cs"
  by (induction cs arbitrary: ds) (auto simp: push_component_def name_ok_def shell_copy_string_def FS_PATH_MAX_def)

lemma resolved_again:
  assumes "list_all name_ok cs" "length cs \<le> COMPONENTS_MAX" "1 + length (slashed cs) < FS_PATH_MAX"
  shows "resolved d (CHR ''/'' # slashed cs) = cs"
proof -
  have "resolve_raw d (CHR ''/'' # slashed cs) = CHR ''/'' # slashed cs"
    using assms(3) by (simp add: resolve_raw_def shell_copy_string_def FS_PATH_MAX_def)
  moreover have "length c < FS_PATH_MAX" if "c \<in> set cs" for c
    using that assms(3) slashed_length [of cs] member_le_sum_list [of "length c + 1" "map (\<lambda>c. length c + 1) cs"] by force
  ultimately show ?thesis using assms push_names [of cs "[]"] by (simp add: resolved_def pieces_slashed)
qed

text \<open>C7: 
  C0: the x86 shell resolves every argument to a path the file system takes as it is. With an absolute working
  directory, whatever is typed becomes a slash and at most sixteen names, none empty, dot or dot-dot, in
  less than 64 octets; the file system's own normaliser finds these names in it, and resolving the result again, from
  anywhere, gives it back.
\<close>

theorem x86_resolve_canonical:
  assumes "directory_ok d" "s \<noteq> []" "directory_ok e"
  defines "p \<equiv> shell_resolve_path_from d s"
  shows "\<exists>cs. p = CHR ''/'' # slashed cs \<and> list_all name_ok cs \<and> length cs \<le> COMPONENTS_MAX \<and> length p < FS_PATH_MAX \<and>
    fs_normalize_path p = Some (slashed cs) \<and> shell_resolve_path_from e p = p"
proof -
  let ?cs = "resolved d s"
  have p: "p = CHR ''/'' # slashed ?cs" using resolve_eq [OF assms(1,2)] by (simp add: p_def)
  have ok: "list_all name_ok ?cs" "length ?cs \<le> COMPONENTS_MAX" "1 + length (slashed ?cs) < FS_PATH_MAX"
    using resolved_ok [OF assms(1), of s] by simp_all
  have "shell_resolve_path_from e p = p"
    using resolve_eq [OF assms(3), of p] resolved_again [OF ok, of e] by (simp add: p)
  then show ?thesis using p ok normalize_resolved [OF ok(1,3)] by (intro exI [of _ ?cs]) simp
qed

theorem x86_resolve_canonical_witness:
  "shell_resolve_path_from ''/home'' ''..//docs/./a'' = ''/docs/a'' \<and> shell_resolve_path_from ''/'' ''/docs/a'' = ''/docs/a''"
proof -
  have "directory_ok ''/home''" "directory_ok ''/''" by code_simp+
  moreover have "shell_resolve_path_from ''/home'' ''..//docs/./a'' = ''/docs/a''" by code_simp
  ultimately show ?thesis using x86_resolve_canonical [of "''/home''" "''..//docs/./a''" "''/''"] by auto
qed

text \<open>The arrays cut without a word: of an absolute path only the first 63 octets are read, and of
  more than sixteen components only sixteen.\<close>

lemma x86_resolve_cuts: "take 1 p = ''/'' \<Longrightarrow> length p = 63 \<Longrightarrow> shell_resolve_path_from d (p @ q) = shell_resolve_path_from d p"
  by (cases p) (auto simp: shell_resolve_path_from_def resolve_raw_def shell_copy_string_def FS_PATH_MAX_def)

lemma x86_resolve_sixteen:
  "shell_resolve_path_from ''/'' (concat (replicate 17 ''/a'')) = concat (replicate 16 ''/a'')"
  by code_simp

end
