(* ===== verification/Calc.thy ===== *)
theory Calc
  imports CString "HOL-Library.Signed_Division"
begin

text \<open>
  The calculator of \<open>src/arm64/kernel/main.c\<close>: a recursive-descent parser that evaluates while it
  reads. The cursor is the rest of the text and the flag \<open>ok\<close> is returned with the value. The
  values are \<open>int32_t\<close>: a sum, product or negation that leaves its range, \<open>INT_MIN / -1\<close> and a
  literal too long are undefined in C and \<open>Undefined\<close> here. The parser calls itself on a rest of the
  text, so its recursion is counted by fuel; four units a character are enough
  (\<open>enough_fuel\<close>), and \<open>calc_eval\<close> takes that much.
\<close>

type_synonym parsed = "(int \<times> string \<times> bool) outcome"

definition calc_skip :: "string \<Rightarrow> string" where
  "calc_skip cursor = dropWhile isspace cursor"

definition int32 :: "int \<Rightarrow> int option" where
  "int32 v = (if int32_ok v then Some v else None)"

text \<open>\<open>return negative ? -value : value\<close>, and the four operations; \<open>None\<close> is undefined.\<close>

definition signed :: "bool \<Rightarrow> int \<Rightarrow> int option" where
  "signed negative value = (if negative then int32 (- value) else Some value)"

definition calc_op :: "char \<Rightarrow> int \<Rightarrow> int \<Rightarrow> int option" where
  "calc_op op a b =
     (if op = CHR ''+'' then int32 (a + b)
      else if op = CHR ''-'' then int32 (a - b)
      else if op = CHR ''*'' then int32 (a * b)
      else int32 (a sdiv b))"

lemma calc_skip_length: "length (calc_skip s) \<le> length s"
  by (simp add: calc_skip_def length_dropWhile_le)

text \<open>The loop over the signs.\<close>

function calc_signs :: "string \<Rightarrow> bool \<Rightarrow> bool \<times> string" where
  "calc_signs cursor negative =
     (let s = calc_skip cursor
      in if s \<noteq> [] \<and> (hd s = CHR ''+'' \<or> hd s = CHR ''-'')
         then calc_signs (tl s) (if hd s = CHR ''-'' then \<not> negative else negative)
         else (negative, s))"
  by auto

termination
proof (relation "measure (\<lambda>(cursor, negative). length cursor)", goal_cases)
  case (2 cursor negative s)
  then have "0 < length s" "length s \<le> length cursor" using calc_skip_length by auto
  then have "length s - 1 < length cursor" by linarith
  then show ?case by simp
qed simp

declare calc_signs.simps [simp del]

text \<open>A value with the sign put to it, the cursor and the flag.\<close>

definition give :: "bool \<Rightarrow> int \<Rightarrow> string \<Rightarrow> bool \<Rightarrow> parsed" where
  "give negative value cursor ok =
     (case signed negative value of None \<Rightarrow> Undefined | Some v \<Rightarrow> Done (v, cursor, ok))"

fun calc_parse_factor :: "nat \<Rightarrow> string \<Rightarrow> parsed"
  and calc_parse_term :: "nat \<Rightarrow> string \<Rightarrow> parsed"
  and term_loop :: "nat \<Rightarrow> int \<Rightarrow> string \<Rightarrow> bool \<Rightarrow> parsed"
  and calc_parse_expr :: "nat \<Rightarrow> string \<Rightarrow> parsed"
  and expr_loop :: "nat \<Rightarrow> int \<Rightarrow> string \<Rightarrow> bool \<Rightarrow> parsed" where
  "calc_parse_factor 0 cursor = OutOfFuel"
| "calc_parse_factor (Suc n) cursor =
     (case calc_signs cursor False of
        (negative, s) \<Rightarrow>
          if s \<noteq> [] \<and> hd s = CHR ''('' then
            (case calc_parse_expr n (tl s) of
               Done (value, s, ok) \<Rightarrow>
                 let s = calc_skip s
                 in if s = [] \<or> hd s \<noteq> CHR '')'' then Done (0, s, False) else give negative value (tl s) ok
             | r \<Rightarrow> r)
          else if s = [] \<or> \<not> isdigit (hd s) then Done (0, s, False)
          else (case atoi_digits s 0 of
                  None \<Rightarrow> Undefined | Some value \<Rightarrow> give negative value (dropWhile isdigit s) True))"
| "calc_parse_term 0 cursor = OutOfFuel"
| "calc_parse_term (Suc n) cursor =
     (case calc_parse_factor n cursor of Done (value, s, ok) \<Rightarrow> term_loop n value s ok | r \<Rightarrow> r)"
| "term_loop 0 value cursor ok = OutOfFuel"
| "term_loop (Suc n) value cursor ok =
     (if \<not> ok then Done (value, cursor, False)
      else let s = calc_skip cursor
      in if s = [] \<or> (hd s \<noteq> CHR ''*'' \<and> hd s \<noteq> CHR ''/'') then Done (value, s, True)
      else (case calc_parse_factor n (tl s) of
              Done (rhs, s', ok) \<Rightarrow>
                if \<not> ok then Done (0, s', False)
                else if hd s = CHR ''/'' \<and> rhs = 0 then Done (0, s', False)
                else (case calc_op (hd s) value rhs of None \<Rightarrow> Undefined | Some v \<Rightarrow> term_loop n v s' True)
            | r \<Rightarrow> r))"
| "calc_parse_expr 0 cursor = OutOfFuel"
| "calc_parse_expr (Suc n) cursor =
     (case calc_parse_term n cursor of Done (value, s, ok) \<Rightarrow> expr_loop n value s ok | r \<Rightarrow> r)"
| "expr_loop 0 value cursor ok = OutOfFuel"
| "expr_loop (Suc n) value cursor ok =
     (if \<not> ok then Done (value, cursor, False)
      else let s = calc_skip cursor
      in if s = [] \<or> (hd s \<noteq> CHR ''+'' \<and> hd s \<noteq> CHR ''-'') then Done (value, s, True)
      else (case calc_parse_term n (tl s) of
              Done (rhs, s', ok) \<Rightarrow>
                if \<not> ok then Done (0, s', False)
                else (case calc_op (hd s) value rhs of None \<Rightarrow> Undefined | Some v \<Rightarrow> expr_loop n v s' True)
            | r \<Rightarrow> r))"

text \<open>The result and whether the expression is valid.\<close>

definition calc_eval :: "string \<Rightarrow> (int \<times> bool) outcome" where
  "calc_eval expr =
     (case calc_parse_expr (4 * length expr + 3) expr of
        Done (result, cursor, ok) \<Rightarrow> Done (result, ok \<and> calc_skip cursor = [])
      | Undefined \<Rightarrow> Undefined
      | OutOfFuel \<Rightarrow> OutOfFuel)"

section \<open>Fuel\<close>

lemma calc_signs_length: "calc_signs s neg = (neg', s') \<Longrightarrow> length s' \<le> length s"
proof (induction s neg rule: calc_signs.induct)
  case (1 s neg)
  let ?s = "calc_skip s"
  show ?case
  proof (cases "?s \<noteq> [] \<and> (hd ?s = CHR ''+'' \<or> hd ?s = CHR ''-'')")
    case True
    then have "length s' \<le> length (tl ?s)"
      using "1.IH" [OF refl True] "1.prems" by (subst (asm) calc_signs.simps) (simp add: Let_def)
    then show ?thesis using calc_skip_length [of s] by simp
  next
    case False
    then have "s' = ?s" using "1.prems" by (subst (asm) calc_signs.simps) (auto simp: Let_def split: if_splits)
    then show ?thesis using calc_skip_length by simp
  qed
qed

lemma give_Done: "give neg v s ok = Done (v', s', ok') \<Longrightarrow> s' = s \<and> ok' = ok"
  by (auto simp: give_def split: option.splits)

lemma give_fuel [simp]: "give neg v s ok \<noteq> OutOfFuel"
  by (simp add: give_def split: option.split)

text \<open>A parser never moves back, and moves on when it succeeds.\<close>

definition shorter :: "string \<Rightarrow> bool \<Rightarrow> string \<Rightarrow> bool" where
  "shorter s' ok s \<longleftrightarrow> length s' \<le> length s \<and> (ok \<longrightarrow> length s' < length s)"

lemma skip_tl: "calc_skip s \<noteq> [] \<Longrightarrow> length (tl (calc_skip s)) < length s"
  using calc_skip_length [of s] by (cases "calc_skip s") auto

lemma drop_digits_shorter: "s \<noteq> [] \<Longrightarrow> isdigit (hd s) \<Longrightarrow> length (dropWhile isdigit s) < length s"
  using length_dropWhile_le [of isdigit "tl s"] by (cases s) auto

lemma parse_shorter:
  "calc_parse_factor n s = Done (v, s', ok) \<Longrightarrow> shorter s' ok s"
  "calc_parse_term n s = Done (v, s', ok) \<Longrightarrow> shorter s' ok s"
  "term_loop n w s b = Done (v, s', ok) \<Longrightarrow> length s' \<le> length s"
  "calc_parse_expr n s = Done (v, s', ok) \<Longrightarrow> shorter s' ok s"
  "expr_loop n w s b = Done (v, s', ok) \<Longrightarrow> length s' \<le> length s"
proof (induction n arbitrary: s v s' ok w b)
  case (Suc n)
  case 1
  obtain neg t where sg: "calc_signs s False = (neg, t)" by force
  have t: "length t \<le> length s" by (rule calc_signs_length [OF sg])
  show ?case
  proof (cases "t \<noteq> [] \<and> hd t = CHR ''(''")
    case True
    then obtain w t' ok' where e: "calc_parse_expr n (tl t) = Done (w, t', ok')"
      using 1 sg by (auto split: outcome.splits)
    have "length t' \<le> length (tl t)" using Suc.IH(4) [OF e] by (simp add: shorter_def)
    moreover have "length (calc_skip t') \<le> length t'" by (rule calc_skip_length)
    moreover have "length (tl t) < length t" "0 < length t" using True by simp_all
    ultimately have lt: "length (calc_skip t') < length s" using t by linarith
    then have "length (tl (calc_skip t')) < length s" by (cases "calc_skip t'") auto
    then show ?thesis
      using lt 1 sg True e by (auto simp: shorter_def Let_def split: if_splits dest!: give_Done)
  next
    case False
    then show ?thesis
      using 1 sg t drop_digits_shorter [of t] by (auto simp: shorter_def split: if_splits option.splits dest!: give_Done)
  qed
next
  case (Suc n)
  case 2
  then obtain w t k where f: "calc_parse_factor n s = Done (w, t, k)" "term_loop n w t k = Done (v, s', ok)"
    by (auto split: outcome.splits)
  show ?case
  proof (cases k)
    case True
    then show ?thesis using Suc.IH(1) [OF f(1)] Suc.IH(3) [OF f(2)] by (simp add: shorter_def)
  next
    case False
    then have "\<not> ok \<and> s' = t" using f(2) by (cases n) auto
    then show ?thesis using Suc.IH(1) [OF f(1)] by (simp add: shorter_def)
  qed
next
  case (Suc n)
  case 3
  show ?case
  proof (cases "\<not> b \<or> calc_skip s = [] \<or> (hd (calc_skip s) \<noteq> CHR ''*'' \<and> hd (calc_skip s) \<noteq> CHR ''/'')")
    case True
    then show ?thesis using 3 calc_skip_length [of s] by (auto simp: Let_def split: if_splits)
  next
    case False
    then obtain r t k where f: "calc_parse_factor n (tl (calc_skip s)) = Done (r, t, k)"
      using 3 by (auto simp: Let_def split: outcome.splits)
    have l: "length t \<le> length s" using Suc.IH(1) [OF f] skip_tl [of s] False by (simp add: shorter_def)
    show ?thesis
      using 3 False f l Suc.IH(3) by (fastforce simp: Let_def split: if_splits option.splits)
  qed
next
  case (Suc n)
  case 4
  then obtain w t k where f: "calc_parse_term n s = Done (w, t, k)" "expr_loop n w t k = Done (v, s', ok)"
    by (auto split: outcome.splits)
  show ?case
  proof (cases k)
    case True
    then show ?thesis using Suc.IH(2) [OF f(1)] Suc.IH(5) [OF f(2)] by (simp add: shorter_def)
  next
    case False
    then have "\<not> ok \<and> s' = t" using f(2) by (cases n) auto
    then show ?thesis using Suc.IH(2) [OF f(1)] by (simp add: shorter_def)
  qed
next
  case (Suc n)
  case 5
  show ?case
  proof (cases "\<not> b \<or> calc_skip s = [] \<or> (hd (calc_skip s) \<noteq> CHR ''+'' \<and> hd (calc_skip s) \<noteq> CHR ''-'')")
    case True
    then show ?thesis using 5 calc_skip_length [of s] by (auto simp: Let_def split: if_splits)
  next
    case False
    then obtain r t k where f: "calc_parse_term n (tl (calc_skip s)) = Done (r, t, k)"
      using 5 by (auto simp: Let_def split: outcome.splits)
    have l: "length t \<le> length s" using Suc.IH(2) [OF f] skip_tl [of s] False by (simp add: shorter_def)
    show ?thesis
      using 5 False f l Suc.IH(5) by (fastforce simp: Let_def split: if_splits option.splits)
  qed
qed simp_all

text \<open>More fuel changes nothing once there is a result.\<close>

lemma more_fuel:
  "calc_parse_factor n s \<noteq> OutOfFuel \<Longrightarrow> calc_parse_factor (Suc n) s = calc_parse_factor n s"
  "calc_parse_term n s \<noteq> OutOfFuel \<Longrightarrow> calc_parse_term (Suc n) s = calc_parse_term n s"
  "term_loop n v s b \<noteq> OutOfFuel \<Longrightarrow> term_loop (Suc n) v s b = term_loop n v s b"
  "calc_parse_expr n s \<noteq> OutOfFuel \<Longrightarrow> calc_parse_expr (Suc n) s = calc_parse_expr n s"
  "expr_loop n v s b \<noteq> OutOfFuel \<Longrightarrow> expr_loop (Suc n) v s b = expr_loop n v s b"
proof (induction n arbitrary: s v b)
  case (Suc n)
  note unfold = calc_parse_factor.simps(2) [of "Suc n"] calc_parse_factor.simps(2) [of n]
  case 1
  obtain neg t where sg: "calc_signs s False = (neg, t)" by force
  have "calc_parse_expr n (tl t) = OutOfFuel \<longrightarrow> \<not> (t \<noteq> [] \<and> hd t = CHR ''('')" using 1 sg by auto
  then show ?case unfolding unfold using Suc.IH(4) [of "tl t"] sg by auto
next
  case (Suc n)
  case 2
  then have f: "calc_parse_factor n s \<noteq> OutOfFuel" by auto
  show ?case
  proof (cases "calc_parse_factor n s")
    case (Done x)
    obtain w t k where x: "x = (w, t, k)" by (cases x) auto
    have "term_loop n w t k \<noteq> OutOfFuel" using 2 Done x by simp
    then show ?thesis
      unfolding calc_parse_term.simps(2) [of "Suc n"] calc_parse_term.simps(2) [of n]
      using Suc.IH(1) [OF f] Suc.IH(3) [of w t k] Done x by simp
  next
    case Undefined
    then show ?thesis
      unfolding calc_parse_term.simps(2) [of "Suc n"] calc_parse_term.simps(2) [of n] using Suc.IH(1) [OF f] by simp
  qed (use f in simp)
next
  case (Suc n)
  case 3
  let ?s = "calc_skip s"
  show ?case
  proof (cases "\<not> b \<or> ?s = [] \<or> (hd ?s \<noteq> CHR ''*'' \<and> hd ?s \<noteq> CHR ''/'')")
    case True
    then show ?thesis unfolding term_loop.simps(2) [of "Suc n"] term_loop.simps(2) [of n] by (auto simp: Let_def)
  next
    case False
    then have f: "calc_parse_factor n (tl ?s) \<noteq> OutOfFuel" using 3 by (auto simp: Let_def)
    have eq: "term_loop (Suc m) v s b = (if \<not> j then Done (0, t, False)
        else if hd ?s = CHR ''/'' \<and> r = 0 then Done (0, t, False)
        else (case calc_op (hd ?s) v r of None \<Rightarrow> Undefined | Some w \<Rightarrow> term_loop m w t True))"
      if "calc_parse_factor m (tl ?s) = Done (r, t, j)" for m r t j
      using False that by (auto simp: Let_def)
    show ?thesis
    proof (cases "calc_parse_factor n (tl ?s)")
      case (Done x)
      obtain r t j where x: "x = (r, t, j)" by (cases x) auto
      have d: "calc_parse_factor n (tl ?s) = Done (r, t, j)" "calc_parse_factor (Suc n) (tl ?s) = Done (r, t, j)"
        using Done x Suc.IH(1) [OF f] by simp_all
      show ?thesis
        using 3 unfolding eq [OF d(1)] eq [OF d(2)] by (auto intro: Suc.IH(3) simp del: term_loop.simps split: option.splits)
    next
      case Undefined
      then have "calc_parse_factor (Suc n) (tl ?s) = Undefined" using Suc.IH(1) [OF f] by simp
      with Undefined False show ?thesis
        unfolding term_loop.simps(2) [of "Suc n"] term_loop.simps(2) [of n] by (simp add: Let_def del: calc_parse_factor.simps)
    qed (use f in simp)
  qed
next
  case (Suc n)
  case 4
  then have f: "calc_parse_term n s \<noteq> OutOfFuel" by auto
  show ?case
  proof (cases "calc_parse_term n s")
    case (Done x)
    obtain w t k where x: "x = (w, t, k)" by (cases x) auto
    have "expr_loop n w t k \<noteq> OutOfFuel" using 4 Done x by simp
    then show ?thesis
      unfolding calc_parse_expr.simps(2) [of "Suc n"] calc_parse_expr.simps(2) [of n]
      using Suc.IH(2) [OF f] Suc.IH(5) [of w t k] Done x by simp
  next
    case Undefined
    then show ?thesis
      unfolding calc_parse_expr.simps(2) [of "Suc n"] calc_parse_expr.simps(2) [of n] using Suc.IH(2) [OF f] by simp
  qed (use f in simp)
next
  case (Suc n)
  case 5
  let ?s = "calc_skip s"
  show ?case
  proof (cases "\<not> b \<or> ?s = [] \<or> (hd ?s \<noteq> CHR ''+'' \<and> hd ?s \<noteq> CHR ''-'')")
    case True
    then show ?thesis unfolding expr_loop.simps(2) [of "Suc n"] expr_loop.simps(2) [of n] by (auto simp: Let_def)
  next
    case False
    then have f: "calc_parse_term n (tl ?s) \<noteq> OutOfFuel" using 5 by (auto simp: Let_def)
    have eq: "expr_loop (Suc m) v s b = (if \<not> j then Done (0, t, False)
        else (case calc_op (hd ?s) v r of None \<Rightarrow> Undefined | Some w \<Rightarrow> expr_loop m w t True))"
      if "calc_parse_term m (tl ?s) = Done (r, t, j)" for m r t j
      using False that by (auto simp: Let_def)
    show ?thesis
    proof (cases "calc_parse_term n (tl ?s)")
      case (Done x)
      obtain r t j where x: "x = (r, t, j)" by (cases x) auto
      have d: "calc_parse_term n (tl ?s) = Done (r, t, j)" "calc_parse_term (Suc n) (tl ?s) = Done (r, t, j)"
        using Done x Suc.IH(2) [OF f] by simp_all
      show ?thesis
        using 5 unfolding eq [OF d(1)] eq [OF d(2)] by (auto intro: Suc.IH(5) simp del: expr_loop.simps split: option.splits)
    next
      case Undefined
      then have "calc_parse_term (Suc n) (tl ?s) = Undefined" using Suc.IH(2) [OF f] by simp
      with Undefined False show ?thesis
        unfolding expr_loop.simps(2) [of "Suc n"] expr_loop.simps(2) [of n] by (simp add: Let_def del: calc_parse_term.simps)
    qed (use f in simp)
  qed
qed simp_all

lemma enough_fuel:
  "4 * length s + 1 \<le> n \<Longrightarrow> calc_parse_factor n s \<noteq> OutOfFuel"
  "4 * length s + 2 \<le> n \<Longrightarrow> calc_parse_term n s \<noteq> OutOfFuel"
  "(if b then 4 * length s + 2 else 1) \<le> n \<Longrightarrow> term_loop n v s b \<noteq> OutOfFuel"
  "4 * length s + 3 \<le> n \<Longrightarrow> calc_parse_expr n s \<noteq> OutOfFuel"
  "(if b then 4 * length s + 3 else 1) \<le> n \<Longrightarrow> expr_loop n v s b \<noteq> OutOfFuel"
proof (induction n arbitrary: s v b)
  case (Suc n)
  case 1
  obtain neg t where sg: "calc_signs s False = (neg, t)" by force
  have "calc_parse_expr n (tl t) \<noteq> OutOfFuel" if "t \<noteq> []"
  proof (rule Suc.IH(4))
    have "length (tl t) = length t - 1" "0 < length t" using that by simp_all
    then show "4 * length (tl t) + 3 \<le> n" using calc_signs_length [OF sg] 1 by linarith
  qed
  then show ?case using sg by (auto simp: Let_def split: outcome.split option.split prod.split)
next
  case (Suc n)
  case 2
  have f: "calc_parse_factor n s \<noteq> OutOfFuel" using 2 by (intro Suc.IH(1)) simp
  have "term_loop n w t k \<noteq> OutOfFuel" if "calc_parse_factor n s = Done (w, t, k)" for w t k
    using parse_shorter(1) [OF that] 2 by (intro Suc.IH(3)) (auto simp: shorter_def)
  then show ?case using f by (auto split: outcome.split prod.split)
next
  case (Suc n)
  case 3
  let ?s = "calc_skip s"
  have f: "calc_parse_factor n (tl ?s) \<noteq> OutOfFuel" if "b" "?s \<noteq> []"
    using skip_tl [OF that(2)] 3 that(1) by (intro Suc.IH(1)) simp
  have "term_loop n x t True \<noteq> OutOfFuel" if "b" "?s \<noteq> []" "calc_parse_factor n (tl ?s) = Done (w, t, True)" for x w t
    using parse_shorter(1) [OF that(3)] skip_tl [OF that(2)] 3 that(1) by (intro Suc.IH(3)) (auto simp: shorter_def)
  then show ?case using f by (auto simp: Let_def split: outcome.split prod.split option.split)
next
  case (Suc n)
  case 4
  have f: "calc_parse_term n s \<noteq> OutOfFuel" using 4 by (intro Suc.IH(2)) simp
  have "expr_loop n w t k \<noteq> OutOfFuel" if "calc_parse_term n s = Done (w, t, k)" for w t k
    using parse_shorter(2) [OF that] 4 by (intro Suc.IH(5)) (auto simp: shorter_def)
  then show ?case using f by (auto split: outcome.split prod.split)
next
  case (Suc n)
  case 5
  let ?s = "calc_skip s"
  have f: "calc_parse_term n (tl ?s) \<noteq> OutOfFuel" if "b" "?s \<noteq> []"
    using skip_tl [OF that(2)] 5 that(1) by (intro Suc.IH(2)) simp
  have "expr_loop n x t True \<noteq> OutOfFuel" if "b" "?s \<noteq> []" "calc_parse_term n (tl ?s) = Done (w, t, True)" for x w t
    using parse_shorter(2) [OF that(3)] skip_tl [OF that(2)] 5 that(1) by (intro Suc.IH(5)) (auto simp: shorter_def)
  then show ?case using f by (auto simp: Let_def split: outcome.split prod.split option.split)
qed (auto split: if_splits)

text \<open>The parsers with as much fuel as they need, and what they compute then.\<close>

definition the_factor :: "string \<Rightarrow> parsed" where "the_factor s = calc_parse_factor (4 * length s + 1) s"
definition the_term :: "string \<Rightarrow> parsed" where "the_term s = calc_parse_term (4 * length s + 2) s"
definition the_terms :: "int \<Rightarrow> string \<Rightarrow> parsed" where "the_terms v s = term_loop (4 * length s + 2) v s True"
definition the_expr :: "string \<Rightarrow> parsed" where "the_expr s = calc_parse_expr (4 * length s + 3) s"
definition the_exprs :: "int \<Rightarrow> string \<Rightarrow> parsed" where "the_exprs v s = expr_loop (4 * length s + 3) v s True"

lemma fuel_free:
  "4 * length s + 1 \<le> n \<Longrightarrow> calc_parse_factor n s = the_factor s"
  "4 * length s + 2 \<le> n \<Longrightarrow> calc_parse_term n s = the_term s"
  "4 * length s + 2 \<le> n \<Longrightarrow> term_loop n v s True = the_terms v s"
  "4 * length s + 3 \<le> n \<Longrightarrow> calc_parse_expr n s = the_expr s"
  "4 * length s + 3 \<le> n \<Longrightarrow> expr_loop n v s True = the_exprs v s"
proof -
  show "4 * length s + 1 \<le> n \<Longrightarrow> calc_parse_factor n s = the_factor s"
    unfolding the_factor_def by (rule more_fuel_stable [where f = "\<lambda>n. calc_parse_factor n s"]) (rule outcome_leI, erule more_fuel, rule enough_fuel, simp)
  show "4 * length s + 2 \<le> n \<Longrightarrow> calc_parse_term n s = the_term s"
    unfolding the_term_def by (rule more_fuel_stable [where f = "\<lambda>n. calc_parse_term n s"]) (rule outcome_leI, erule more_fuel, rule enough_fuel, simp)
  show "4 * length s + 2 \<le> n \<Longrightarrow> term_loop n v s True = the_terms v s"
    unfolding the_terms_def by (rule more_fuel_stable [where f = "\<lambda>n. term_loop n v s True"]) (rule outcome_leI, erule more_fuel, rule enough_fuel, simp)
  show "4 * length s + 3 \<le> n \<Longrightarrow> calc_parse_expr n s = the_expr s"
    unfolding the_expr_def by (rule more_fuel_stable [where f = "\<lambda>n. calc_parse_expr n s"]) (rule outcome_leI, erule more_fuel, rule enough_fuel, simp)
  show "4 * length s + 3 \<le> n \<Longrightarrow> expr_loop n v s True = the_exprs v s"
    unfolding the_exprs_def by (rule more_fuel_stable [where f = "\<lambda>n. expr_loop n v s True"]) (rule outcome_leI, erule more_fuel, rule enough_fuel, simp)
qed

lemma the_term_eq: "the_term s = (case the_factor s of Done (v, r, ok) \<Rightarrow> if ok then the_terms v r else Done (v, r, False) | x \<Rightarrow> x)"
proof -
  have n: "4 * length s + 2 = Suc (4 * length s + 1)" by simp
  have "the_term s = (case the_factor s of Done (v, r, ok) \<Rightarrow> term_loop (4 * length s + 1) v r ok | x \<Rightarrow> x)"
    unfolding the_term_def the_factor_def n calc_parse_term.simps ..
  moreover have "term_loop (4 * length s + 1) v r True = the_terms v r" if "the_factor s = Done (v, r, True)" for v r
    using parse_shorter(1) [OF that [unfolded the_factor_def]] by (intro fuel_free) (simp add: shorter_def)
  moreover have "term_loop (4 * length s + 1) v r False = Done (v, r, False)" for v r by simp
  ultimately show ?thesis by (simp only:) (simp split: outcome.split prod.split)
qed

lemma the_expr_eq: "the_expr s = (case the_term s of Done (v, r, ok) \<Rightarrow> if ok then the_exprs v r else Done (v, r, False) | x \<Rightarrow> x)"
proof -
  have n: "4 * length s + 3 = Suc (4 * length s + 2)" by simp
  have "the_expr s = (case the_term s of Done (v, r, ok) \<Rightarrow> expr_loop (4 * length s + 2) v r ok | x \<Rightarrow> x)"
    unfolding the_expr_def the_term_def n calc_parse_expr.simps ..
  moreover have "expr_loop (4 * length s + 2) v r True = the_exprs v r" if "the_term s = Done (v, r, True)" for v r
    using parse_shorter(2) [OF that [unfolded the_term_def]] by (intro fuel_free) (simp add: shorter_def)
  moreover have "expr_loop (4 * length s + 2) v r False = Done (v, r, False)" for v r by (simp add: numeral_2_eq_2)
  ultimately show ?thesis by (simp only:) (simp split: outcome.split prod.split)
qed

declare calc_parse_factor.simps [simp del] calc_parse_term.simps [simp del] term_loop.simps [simp del]
  calc_parse_expr.simps [simp del] expr_loop.simps [simp del]

lemma calc_skip_id: "s = [] \<or> \<not> isspace (hd s) \<Longrightarrow> calc_skip s = s"
  by (cases s) (auto simp: calc_skip_def)

lemma the_terms_stop:
  assumes "s = [] \<or> \<not> isspace (hd s) \<and> hd s \<noteq> CHR ''*'' \<and> hd s \<noteq> CHR ''/''"
  shows "the_terms v s = Done (v, s, True)"
proof -
  have n: "4 * length s + 2 = Suc (4 * length s + 1)" by simp
  have "calc_skip s = s" using assms by (intro calc_skip_id) auto
  then show ?thesis unfolding the_terms_def n term_loop.simps using assms by (auto simp: Let_def)
qed

lemma the_exprs_stop:
  assumes "s = [] \<or> \<not> isspace (hd s) \<and> hd s \<noteq> CHR ''+'' \<and> hd s \<noteq> CHR ''-''"
  shows "the_exprs v s = Done (v, s, True)"
proof -
  have n: "4 * length s + 3 = Suc (4 * length s + 2)" by simp
  have "calc_skip s = s" using assms by (intro calc_skip_id) auto
  then show ?thesis unfolding the_exprs_def n expr_loop.simps using assms by (auto simp: Let_def)
qed

lemma the_terms_op:
  assumes "op = CHR ''*'' \<or> op = CHR ''/''"
  shows "the_terms v (op # s) = (case the_factor s of
     Done (r, t, ok) \<Rightarrow> if \<not> ok then Done (0, t, False) else if op = CHR ''/'' \<and> r = 0 then Done (0, t, False)
       else (case calc_op op v r of None \<Rightarrow> Undefined | Some w \<Rightarrow> the_terms w t)
   | x \<Rightarrow> x)"
proof -
  have sk: "calc_skip (op # s) = op # s" using assms by (intro calc_skip_id) (auto simp: isspace_def)
  have f: "calc_parse_factor (4 * length s + 5) s = the_factor s" by (intro fuel_free) simp
  have t: "term_loop (4 * length s + 5) w t True = the_terms w t" if "the_factor s = Done (r, t, True)" for r t w
    using parse_shorter(1) [OF that [unfolded the_factor_def]] by (intro fuel_free) (simp add: shorter_def)
  have n: "4 * length (op # s) + 2 = Suc (4 * length s + 5)" by simp
  show ?thesis
    unfolding the_terms_def [of v "op # s"] n term_loop.simps sk Let_def list.sel f using assms t
    by (auto split: outcome.split option.split)
qed

lemma the_exprs_op:
  assumes "op = CHR ''+'' \<or> op = CHR ''-''"
  shows "the_exprs v (op # s) = (case the_term s of
     Done (r, t, ok) \<Rightarrow> if \<not> ok then Done (0, t, False)
       else (case calc_op op v r of None \<Rightarrow> Undefined | Some w \<Rightarrow> the_exprs w t)
   | x \<Rightarrow> x)"
proof -
  have sk: "calc_skip (op # s) = op # s" using assms by (intro calc_skip_id) (auto simp: isspace_def)
  have f: "calc_parse_term (4 * length s + 6) s = the_term s" by (intro fuel_free) simp
  have t: "expr_loop (4 * length s + 6) w t True = the_exprs w t" if "the_term s = Done (r, t, True)" for r t w
    using parse_shorter(2) [OF that [unfolded the_term_def]] by (intro fuel_free) (simp add: shorter_def)
  have n: "4 * length (op # s) + 3 = Suc (4 * length s + 6)" by simp
  show ?thesis
    unfolding the_exprs_def [of v "op # s"] n expr_loop.simps sk Let_def list.sel f using assms t
    by (auto split: outcome.split option.split)
qed

lemma the_factor_paren: "the_factor (CHR ''('' # s) = (case the_expr s of
    Done (v, r, ok) \<Rightarrow>
      let t = calc_skip r in if t = [] \<or> hd t \<noteq> CHR '')'' then Done (0, t, False) else Done (v, tl t, ok)
  | x \<Rightarrow> x)"
proof -
  have sg: "calc_signs (CHR ''('' # s) False = (False, CHR ''('' # s)"
    by (subst calc_signs.simps) (simp add: calc_skip_def isspace_def Let_def)
  have e: "calc_parse_expr (4 * length s + 4) s = the_expr s" by (intro fuel_free) simp
  have n: "4 * length (CHR ''('' # s) + 1 = Suc (4 * length s + 4)" by simp
  show ?thesis
    unfolding the_factor_def n calc_parse_factor.simps sg
    by (auto simp: e give_def signed_def Let_def split: outcome.splits)
qed

text \<open>A leading minus negates the factor after it, when that starts with a digit or a parenthesis.\<close>

lemma signs_here: "s \<noteq> [] \<Longrightarrow> isdigit (hd s) \<or> hd s = CHR ''('' \<Longrightarrow> calc_signs s neg = (neg, s)"
proof -
  assume s: "s \<noteq> []" "isdigit (hd s) \<or> hd s = CHR ''(''"
  then have "\<not> isspace (hd s)" "hd s \<noteq> CHR ''+''" "hd s \<noteq> CHR ''-''"
    by (auto simp: isspace_def isdigit_def uchar_def)
  then show ?thesis using s(1) calc_skip_id [of s] by (subst calc_signs.simps) (simp add: Let_def)
qed

lemma the_factor_minus:
  assumes "s \<noteq> []" and "isdigit (hd s) \<or> hd s = CHR ''(''"
  shows "the_factor (CHR ''-'' # s) = (case the_factor s of Done (v, r, ok) \<Rightarrow> give True v r ok | x \<Rightarrow> x)"
proof -
  have "calc_signs (CHR ''-'' # s) False = calc_signs s True"
    by (subst calc_signs.simps) (simp add: calc_skip_def isspace_def Let_def)
  then have sg: "calc_signs (CHR ''-'' # s) False = (True, s)" "calc_signs s False = (False, s)"
    using signs_here [OF assms] by simp_all
  have e: "calc_parse_expr n (tl s) = the_expr (tl s)" if "4 * length s \<le> n" for n
    using that assms(1) by (intro fuel_free) (cases s; simp)
  have n: "4 * length (CHR ''-'' # s) + 1 = Suc (4 * length s + 4)" "4 * length s + 1 = Suc (4 * length s)" by simp_all
  show ?thesis
    unfolding the_factor_def n calc_parse_factor.simps sg using assms
    by (auto simp: e give_def signed_def int32_def int32_ok_def Let_def split: outcome.splits option.splits)
qed

section \<open>Expressions, their value and their text\<close>

text \<open>What an expression means, by itself: the value, an expression that is not valid (a division by
  zero), or an overflow.\<close>

datatype aexp = Lit u32 | Neg aexp | Bin char aexp aexp

datatype meaning = Value int | Invalid | Overflow

definition within :: "int \<Rightarrow> meaning" where
  "within v = (if - (2 ^ 31) \<le> v \<and> v < 2 ^ 31 then Value v else Overflow)"

definition value_of :: "char \<Rightarrow> int \<Rightarrow> int \<Rightarrow> int" where
  "value_of op v w =
     (if op = CHR ''+'' then v + w
      else if op = CHR ''-'' then v - w
      else if op = CHR ''*'' then v * w
      else sgn v * sgn w * (\<bar>v\<bar> div \<bar>w\<bar>))"

fun ev :: "aexp \<Rightarrow> meaning" where
  "ev (Lit n) = within (uint n)"
| "ev (Neg a) = (case ev a of Value v \<Rightarrow> within (- v) | m \<Rightarrow> m)"
| "ev (Bin op a b) =
     (case ev a of
        Value v \<Rightarrow> (case ev b of
          Value w \<Rightarrow> if op = CHR ''/'' \<and> w = 0 then Invalid else within (value_of op v w)
        | m \<Rightarrow> m)
      | m \<Rightarrow> m)"

text \<open>The text of an expression as a factor, a term or an expression, with a pair of parentheses
  only where the grammar asks for one.\<close>

definition paren :: "bool \<Rightarrow> string \<Rightarrow> string" where
  "paren b s = (if b then ''('' @ s @ '')'' else s)"

fun level :: "aexp \<Rightarrow> nat" where
  "level (Lit n) = 0"
| "level (Neg a) = 1"
| "level (Bin op a b) = (if op = CHR ''*'' \<or> op = CHR ''/'' then 2 else 3)"

fun show_exp :: "aexp \<Rightarrow> string" where
  "show_exp (Lit n) = u32_to_dec n"
| "show_exp (Neg a) = ''-'' @ paren (0 < level a) (show_exp a)"
| "show_exp (Bin op a b) =
     paren (level (Bin op a b) < level a) (show_exp a) @ op
       # paren (level (Bin op a b) \<le> level b) (show_exp b)"

fun well_formed :: "aexp \<Rightarrow> bool" where
  "well_formed (Lit n) = True"
| "well_formed (Neg a) = well_formed a"
| "well_formed (Bin op a b) = (op \<in> set ''+-*/'' \<and> well_formed a \<and> well_formed b)"

definition meaning_of :: "int option \<Rightarrow> meaning" where
  "meaning_of v = (case v of None \<Rightarrow> Overflow | Some v \<Rightarrow> Value v)"

lemma meaning_int32: "meaning_of (int32 v) = within v"
  by (simp add: meaning_of_def int32_def int32_ok_def within_def)

lemma meaning_calc_op: "meaning_of (calc_op op v w) = within (value_of op v w)"
  by (simp add: calc_op_def value_of_def meaning_int32 signed_divide_int_def sgn_mult mult.assoc)

definition agrees :: "parsed \<Rightarrow> meaning \<Rightarrow> (int \<Rightarrow> parsed) \<Rightarrow> bool" where
  "agrees r m k =
     (case m of Value v \<Rightarrow> r = k v | Invalid \<Rightarrow> (\<exists>t. r = Done (0, t, False)) | Overflow \<Rightarrow> r = Undefined)"

definition no_digit :: "string \<Rightarrow> bool" where
  "no_digit s \<longleftrightarrow> s = [] \<or> \<not> isdigit (hd s)"

definition term_end :: "string \<Rightarrow> bool" where
  "term_end s \<longleftrightarrow> s = [] \<or> \<not> isspace (hd s) \<and> hd s \<noteq> CHR ''*'' \<and> hd s \<noteq> CHR ''/''"

definition factor_ok :: "string \<Rightarrow> meaning \<Rightarrow> bool" where
  "factor_ok s m \<longleftrightarrow> (\<forall>rest. no_digit rest \<longrightarrow> agrees (the_factor (s @ rest)) m (\<lambda>v. Done (v, rest, True)))"

definition term_ok :: "string \<Rightarrow> meaning \<Rightarrow> bool" where
  "term_ok s m \<longleftrightarrow> (\<forall>rest. no_digit rest \<longrightarrow> agrees (the_term (s @ rest)) m (\<lambda>v. the_terms v rest))"

definition expr_ok :: "string \<Rightarrow> meaning \<Rightarrow> bool" where
  "expr_ok s m \<longleftrightarrow> (\<forall>rest. no_digit rest \<longrightarrow> term_end rest \<longrightarrow> agrees (the_expr (s @ rest)) m (\<lambda>v. the_exprs v rest))"

lemma factor_term: "factor_ok s m \<Longrightarrow> term_ok s m"
  by (fastforce simp: factor_ok_def term_ok_def agrees_def the_term_eq split: meaning.splits)

lemma term_expr: "term_ok s m \<Longrightarrow> expr_ok s m"
  by (fastforce simp: term_ok_def expr_ok_def agrees_def the_expr_eq the_terms_stop term_end_def split: meaning.splits)

lemma paren_factor:
  assumes "expr_ok s m"
  shows "factor_ok (paren True s) m"
  unfolding factor_ok_def
proof (intro allI impI)
  fix rest
  let ?r = "CHR '')'' # rest"
  have r: "no_digit ?r" "term_end ?r" "\<And>v. the_exprs v ?r = Done (v, ?r, True)" "calc_skip ?r = ?r"
    by (simp_all add: no_digit_def term_end_def isdigit_def uchar_def isspace_def the_exprs_stop calc_skip_id)
  have "agrees (the_expr (s @ ?r)) m (\<lambda>v. the_exprs v ?r)" using assms r unfolding expr_ok_def by blast
  then have "agrees (the_expr (s @ ?r)) m (\<lambda>v. Done (v, ?r, True))" using r(3) by (cases m) (simp_all add: agrees_def)
  then show "agrees (the_factor (paren True s @ rest)) m (\<lambda>v. Done (v, rest, True))"
    using r(4) by (auto simp: agrees_def paren_def the_factor_paren Let_def split: meaning.splits)
qed

lemma minus_factor:
  assumes "factor_ok s m" and "s \<noteq> []" and "isdigit (hd s) \<or> hd s = CHR ''(''"
  shows "factor_ok (CHR ''-'' # s) (case m of Value v \<Rightarrow> meaning_of (int32 (- v)) | m \<Rightarrow> m)"
  unfolding factor_ok_def
proof (intro allI impI)
  fix rest
  assume "no_digit rest"
  then have f: "agrees (the_factor (s @ rest)) m (\<lambda>v. Done (v, rest, True))" using assms(1) by (simp add: factor_ok_def)
  have the_factor: "the_factor (CHR ''-'' # s @ rest) = (case the_factor (s @ rest) of Done (v, r, ok) \<Rightarrow> give True v r ok | x \<Rightarrow> x)"
    using assms(2,3) by (intro the_factor_minus) simp_all
  show "agrees (the_factor ((CHR ''-'' # s) @ rest)) (case m of Value v \<Rightarrow> meaning_of (int32 (- v)) | m \<Rightarrow> m)
      (\<lambda>v. Done (v, rest, True))"
    unfolding append_Cons the_factor using f
    by (auto simp: agrees_def meaning_of_def give_def signed_def int32_def int32_ok_def split: meaning.splits option.splits)
qed

text \<open>The meaning of an operation on two meanings.\<close>

definition bin_meaning :: "char \<Rightarrow> meaning \<Rightarrow> meaning \<Rightarrow> meaning" where
  "bin_meaning op a b =
     (case a of
        Value v \<Rightarrow> (case b of
          Value w \<Rightarrow> if op = CHR ''/'' \<and> w = 0 then Invalid else meaning_of (calc_op op v w)
        | m \<Rightarrow> m)
      | m \<Rightarrow> m)"

lemma op_no_digit: "op \<in> set ''+-*/'' \<Longrightarrow> no_digit (op # s)"
  by (auto simp: no_digit_def isdigit_def uchar_def)

lemma product_term:
  assumes "term_ok s a" and "factor_ok t b" and "op = CHR ''*'' \<or> op = CHR ''/''"
  shows "term_ok (s @ op # t) (bin_meaning op a b)"
  unfolding term_ok_def
proof (intro allI impI)
  fix rest
  assume "no_digit rest"
  then have f: "agrees (the_factor (t @ rest)) b (\<lambda>v. Done (v, rest, True))" using assms(2) by (simp add: factor_ok_def)
  have t: "agrees (the_term (s @ op # t @ rest)) a (\<lambda>v. the_terms v (op # t @ rest))"
    using assms(1,3) op_no_digit [of op "t @ rest"] by (auto simp: term_ok_def)
  show "agrees (the_term ((s @ op # t) @ rest)) (bin_meaning op a b) (\<lambda>v. the_terms v rest)"
    using f t the_terms_op [OF assms(3)] assms(3)
    by (auto simp: agrees_def bin_meaning_def meaning_of_def split: meaning.splits option.splits)
qed

lemma sum_expr:
  assumes "expr_ok s a" and "term_ok t b" and "op = CHR ''+'' \<or> op = CHR ''-''"
  shows "expr_ok (s @ op # t) (bin_meaning op a b)"
  unfolding expr_ok_def
proof (intro allI impI)
  fix rest
  assume r: "no_digit rest" "term_end rest"
  have "agrees (the_term (t @ rest)) b (\<lambda>v. the_terms v rest)" using assms(2) r unfolding term_ok_def by blast
  then have f: "agrees (the_term (t @ rest)) b (\<lambda>v. Done (v, rest, True))"
    using r(2) the_terms_stop [of rest] by (cases b) (simp_all add: agrees_def term_end_def)
  have "term_end (op # t @ rest)" using assms(3) by (auto simp: term_end_def isspace_def)
  then have e: "agrees (the_expr (s @ op # t @ rest)) a (\<lambda>v. the_exprs v (op # t @ rest))"
    using assms(1,3) op_no_digit [of op "t @ rest"] by (auto simp: expr_ok_def)
  show "agrees (the_expr ((s @ op # t) @ rest)) (bin_meaning op a b) (\<lambda>v. the_exprs v rest)"
    using f e the_exprs_op [OF assms(3)] assms(3)
    by (auto simp: agrees_def bin_meaning_def meaning_of_def split: meaning.splits option.splits)
qed

lemma atoi_digits_end: "\<forall>c\<in>set ds. isdigit c \<Longrightarrow> no_digit rest \<Longrightarrow> atoi_digits (ds @ rest) v = atoi_digits ds v"
  by (induction ds v rule: atoi_digits.induct) (cases rest; auto simp: no_digit_def split: option.split)+

lemma dropWhile_digits: "\<forall>c\<in>set ds. isdigit c \<Longrightarrow> no_digit rest \<Longrightarrow> dropWhile isdigit (ds @ rest) = rest"
  by (induction ds) (auto simp: no_digit_def dropWhile_eq_self_iff)

lemma int32_nat: "int32 (int k) = (if k < 2 ^ 31 then Some (int k) else None)"
  by (simp add: int32_def int32_ok_def)

lemma literal_factor: "factor_ok (u32_to_dec n) (meaning_of (int32 (uint n)))"
  unfolding factor_ok_def
proof (intro allI impI)
  fix rest
  assume r: "no_digit rest"
  let ?s = "u32_to_dec n @ rest"
  have d: "\<forall>c\<in>set (u32_to_dec n). isdigit c" by (blast dest: u32_to_dec_isdigit)
  then have h: "?s \<noteq> []" "isdigit (hd ?s)" using u32_to_dec_nonempty [of n] by (auto simp: hd_append)
  have np: "hd ?s \<noteq> CHR ''(''" using h(2) by (auto simp: isdigit_def uchar_def)
  have "int32 (uint n) = (if unat n < 2 ^ 31 then Some (int (unat n)) else None)"
    using int32_nat [of "unat n"] by (simp only: uint_nat)
  then have "int32 (uint n) = atoi (u32_to_dec n)" using u32_to_dec_reads [of n] by (simp only:)
  also have "\<dots> = atoi_digits ?s 0"
    using d u32_to_dec_nonempty [of n] atoi_digits_end [OF d r] by (simp add: atoi_no_prefix)
  finally have v: "atoi_digits ?s 0 = int32 (uint n)" ..
  have sg: "calc_signs ?s False = (False, ?s)" using h by (intro signs_here) simp_all
  have n: "4 * length ?s + 1 = Suc (4 * length ?s)" by simp
  show "agrees (the_factor ?s) (meaning_of (int32 (uint n))) (\<lambda>v. Done (v, rest, True))"
    unfolding the_factor_def n calc_parse_factor.simps sg
    using h np v dropWhile_digits [OF d r] by (auto simp del: dropWhile_append simp: agrees_def meaning_of_def give_def signed_def split: option.split)
qed

lemma show_exp_head:
  "show_exp e \<noteq> []" "level e = 0 \<Longrightarrow> isdigit (hd (show_exp e))"
  by (cases e; simp add: paren_def u32_to_dec_nonempty)
     (cases e; simp add: u32_to_dec_isdigit [OF hd_in_set] u32_to_dec_nonempty split: if_splits)

lemma ev_Bin: "ev (Bin op a b) = bin_meaning op (ev a) (ev b)"
  by (simp add: bin_meaning_def meaning_calc_op split: meaning.split)

lemma parsed_exp:
  "well_formed e \<Longrightarrow>
     (level e \<le> 1 \<longrightarrow> factor_ok (show_exp e) (ev e)) \<and>
     (level e \<le> 2 \<longrightarrow> term_ok (show_exp e) (ev e)) \<and> expr_ok (show_exp e) (ev e)"
proof (induction e)
  case (Lit n)
  then show ?case using literal_factor factor_term term_expr by (auto simp: meaning_int32)
next
  case (Neg a)
  have "factor_ok (paren (0 < level a) (show_exp a)) (ev a)"
    using Neg paren_factor [of "show_exp a" "ev a"] by (auto simp: paren_def)
  moreover have "paren (0 < level a) (show_exp a) \<noteq> []"
    "isdigit (hd (paren (0 < level a) (show_exp a))) \<or> hd (paren (0 < level a) (show_exp a)) = CHR ''(''"
    using show_exp_head [of a] by (auto simp: paren_def)
  ultimately have "factor_ok (show_exp (Neg a)) (ev (Neg a))"
    using minus_factor [of "paren (0 < level a) (show_exp a)" "ev a", unfolded meaning_int32] by simp
  then show ?case using factor_term term_expr by blast
next
  case (Bin op a b)
  have op: "op \<in> set ''+-*/''" using Bin.prems by simp
  have ab: "factor_ok (paren True (show_exp a)) (ev a)" "factor_ok (paren True (show_exp b)) (ev b)"
    using Bin by (auto intro: paren_factor)
  show ?case
  proof (cases "op = CHR ''*'' \<or> op = CHR ''/''")
    case True
    have "term_ok (paren (2 < level a) (show_exp a)) (ev a)"
      using Bin ab factor_term by (auto simp: paren_def)
    moreover have "factor_ok (paren (2 \<le> level b) (show_exp b)) (ev b)"
      using Bin ab by (auto simp: paren_def)
    ultimately have "term_ok (show_exp (Bin op a b)) (bin_meaning op (ev a) (ev b))"
      using product_term [OF _ _ True] True by simp
    moreover have "level (Bin op a b) = 2" using True by simp
    ultimately show ?thesis unfolding ev_Bin using term_expr by simp
  next
    case False
    have l: "level (Bin op a b) = 3" "\<not> 3 < level a" using False by (cases a; simp)+
    have "expr_ok (paren (3 < level a) (show_exp a)) (ev a)" using Bin l by (simp add: paren_def)
    moreover have "term_ok (paren (3 \<le> level b) (show_exp b)) (ev b)"
      using Bin ab factor_term by (auto simp: paren_def)
    moreover have "op = CHR ''+'' \<or> op = CHR ''-''" using op False by auto
    ultimately have "expr_ok (show_exp (Bin op a b)) (bin_meaning op (ev a) (ev b))"
      using sum_expr False by simp
    then show ?thesis unfolding ev_Bin using l by simp
  qed
qed

lemma calc_eval_E:
  "calc_eval s = (case the_expr s of
     Done (result, cursor, ok) \<Rightarrow> Done (result, ok \<and> calc_skip cursor = [])
   | Undefined \<Rightarrow> Undefined | OutOfFuel \<Rightarrow> OutOfFuel)"
  by (simp add: calc_eval_def the_expr_def)

section \<open>What the calculator computes\<close>

text \<open>C15: The calculator computes the value of an expression: whatever the expression, written with the
  parentheses the precedence and the left associativity of the operators ask for and no others, the
  recursive-descent evaluator returns the value the expression has, reports it as invalid exactly when
  its evaluation divides by zero first, and overflows exactly when its evaluation leaves the
  32-bit range first.\<close>

theorem calc_computes:
  assumes "well_formed e"
  shows "calc_eval (show_exp e) =
    (case ev e of Value v \<Rightarrow> Done (v, True) | Invalid \<Rightarrow> Done (0, False) | Overflow \<Rightarrow> Undefined)"
proof -
  have "agrees (the_expr (show_exp e @ [])) (ev e) (\<lambda>v. the_exprs v [])"
    using parsed_exp [OF assms] unfolding expr_ok_def no_digit_def term_end_def by blast
  then show ?thesis
    by (auto simp: calc_eval_E agrees_def the_exprs_stop calc_skip_id split: meaning.splits)
qed

theorem calc_computes_witness:
  "calc_eval ''2*(3-10)/-2-4'' = Done (3, True) \<and> calc_eval ''7/(2-2)'' = Done (0, False)"
proof -
  have "calc_eval (show_exp (Bin CHR ''-'' (Bin CHR ''/'' (Bin CHR ''*'' (Lit 2) (Bin CHR ''-'' (Lit 3) (Lit 10)))
      (Neg (Lit 2))) (Lit 4))) = Done (3, True)"
    by (subst calc_computes) (simp, code_simp)
  moreover have "calc_eval (show_exp (Bin CHR ''/'' (Lit 7) (Bin CHR ''-'' (Lit 2) (Lit 2)))) = Done (0, False)"
    by (subst calc_computes) (simp, code_simp)
  moreover have "show_exp (Bin CHR ''-'' (Bin CHR ''/'' (Bin CHR ''*'' (Lit 2) (Bin CHR ''-'' (Lit 3) (Lit 10)))
      (Neg (Lit 2))) (Lit 4)) = ''2*(3-10)/-2-4''" by code_simp
  moreover have "show_exp (Bin CHR ''/'' (Lit 7) (Bin CHR ''-'' (Lit 2) (Lit 2))) = ''7/(2-2)''" by code_simp
  ultimately show ?thesis by simp
qed

text \<open>C30: The calculator returns on every text: the mutually recursive parser takes a character before it
  calls itself again, so fuel four times the length of the text and three is never used up.\<close>

theorem calc_returns: "calc_eval expr \<noteq> OutOfFuel"
proof -
  have "the_expr expr \<noteq> OutOfFuel" unfolding the_expr_def by (rule enough_fuel(4)) simp
  then show ?thesis by (auto simp: calc_eval_E split: outcome.splits)
qed

end
