(* ===== verification/LegacyCalc.thy ===== *)
theory LegacyCalc
  imports Calc
begin

text \<open>
  The calculator of the x86 shell, \<open>src/kernel/shell.c\<close>, a copy of the other kernel's parser with one more
  flag, \<open>divide_by_zero\<close>. It is modelled as it stands, the state record passed along, and shown to
  compute what \<open>Calc\<close> does; \<open>calc_signs\<close>, \<open>signed\<close> and \<open>calc_op\<close> there are the sign loop, the
  negation and the four operations, which the two sources share word for word.
\<close>

record calc_state =
  cursor :: string
  ok :: bool
  divide_by_zero :: bool

type_synonym x86_parsed = "(int \<times> calc_state) outcome"

text \<open>Going on with a result.\<close>

fun and_then :: "'a outcome \<Rightarrow> ('a \<Rightarrow> 'b outcome) \<Rightarrow> 'b outcome" where
  "and_then (Done x) f = f x"
| "and_then Undefined f = Undefined"
| "and_then OutOfFuel f = OutOfFuel"

definition x86_defined :: "int option \<Rightarrow> calc_state \<Rightarrow> x86_parsed" where
  "x86_defined v st = (case v of None \<Rightarrow> Undefined | Some v \<Rightarrow> Done (v, st))"

definition calc_skip_spaces :: "calc_state \<Rightarrow> calc_state" where
  "calc_skip_spaces st = st\<lparr>cursor := dropWhile isspace (cursor st)\<rparr>"

definition at :: "calc_state \<Rightarrow> char" where
  "at st = cchar (cursor st) 0"

definition advance :: "calc_state \<Rightarrow> calc_state" where
  "advance st = st\<lparr>cursor := tl (cursor st)\<rparr>"

definition x86_signs :: "calc_state \<Rightarrow> bool \<times> calc_state" where
  "x86_signs st = (case calc_signs (cursor st) False of (negative, s) \<Rightarrow> (negative, st\<lparr>cursor := s\<rparr>))"

definition x86_number :: "bool \<Rightarrow> calc_state \<Rightarrow> x86_parsed" where
  "x86_number negative st =
     (case atoi_digits (cursor st) 0 of
        None \<Rightarrow> Undefined
      | Some value \<Rightarrow> x86_defined (signed negative value) (st\<lparr>cursor := dropWhile isdigit (cursor st)\<rparr>))"

fun x86_factor :: "nat \<Rightarrow> calc_state \<Rightarrow> x86_parsed"
  and x86_term :: "nat \<Rightarrow> calc_state \<Rightarrow> x86_parsed"
  and x86_term_loop :: "nat \<Rightarrow> int \<Rightarrow> calc_state \<Rightarrow> x86_parsed"
  and x86_expression :: "nat \<Rightarrow> calc_state \<Rightarrow> x86_parsed"
  and x86_expression_loop :: "nat \<Rightarrow> int \<Rightarrow> calc_state \<Rightarrow> x86_parsed" where
  "x86_factor 0 st = OutOfFuel"
| "x86_factor (Suc n) st =
     (case x86_signs st of
        (negative, st) \<Rightarrow>
          if at st = CHR ''('' then
            and_then (x86_expression n (advance st))
              (\<lambda>(value, st).
                 if at (calc_skip_spaces st) \<noteq> CHR '')'' then Done (0, (calc_skip_spaces st)\<lparr>ok := False\<rparr>)
                 else x86_defined (signed negative value) (advance (calc_skip_spaces st)))
          else if \<not> isdigit (at st) then Done (0, st\<lparr>ok := False\<rparr>)
          else x86_number negative st)"
| "x86_term 0 st = OutOfFuel"
| "x86_term (Suc n) st = and_then (x86_factor n st) (\<lambda>(value, st). x86_term_loop n value st)"
| "x86_term_loop 0 value st = OutOfFuel"
| "x86_term_loop (Suc n) value st =
     (if \<not> ok st then Done (value, st)
      else let st = calc_skip_spaces st; op = at st
      in if op \<noteq> CHR ''*'' \<and> op \<noteq> CHR ''/'' then Done (value, st)
      else and_then (x86_factor n (advance st))
             (\<lambda>(rhs, st).
                if \<not> ok st then Done (0, st)
                else if op \<noteq> CHR ''*'' \<and> rhs = 0 then Done (0, st\<lparr>ok := False, divide_by_zero := True\<rparr>)
                else and_then (x86_defined (calc_op op value rhs) st) (\<lambda>(value, st). x86_term_loop n value st)))"
| "x86_expression 0 st = OutOfFuel"
| "x86_expression (Suc n) st = and_then (x86_term n st) (\<lambda>(value, st). x86_expression_loop n value st)"
| "x86_expression_loop 0 value st = OutOfFuel"
| "x86_expression_loop (Suc n) value st =
     (if \<not> ok st then Done (value, st)
      else let st = calc_skip_spaces st; op = at st
      in if op \<noteq> CHR ''+'' \<and> op \<noteq> CHR ''-'' then Done (value, st)
      else and_then (x86_term n (advance st))
             (\<lambda>(rhs, st).
                if \<not> ok st then Done (0, st)
                else and_then (x86_defined (calc_op op value rhs) st) (\<lambda>(value, st). x86_expression_loop n value st)))"

text \<open>The result and whether the expression is valid.\<close>

definition calc_evaluate :: "string \<Rightarrow> (int \<times> bool) outcome" where
  "calc_evaluate expression =
     and_then (x86_expression (4 * length expression + 3) \<lparr>cursor = expression, ok = True, divide_by_zero = False\<rparr>)
       (\<lambda>(result, st). Done (result, ok st \<and> cursor (calc_skip_spaces st) = []))"

section \<open>The two calculators agree\<close>

text \<open>The other kernel's result, and the flag set only where the text has been refused.\<close>

definition same :: "x86_parsed \<Rightarrow> parsed \<Rightarrow> bool" where
  "same r q \<longleftrightarrow> q = and_then r (\<lambda>(v, st). Done (v, cursor st, ok st)) \<and> (\<forall>v st. r = Done (v, st) \<longrightarrow> divide_by_zero st \<longrightarrow> \<not> ok st)"

definition clean :: "calc_state \<Rightarrow> bool" where
  "clean st \<longleftrightarrow> (divide_by_zero st \<longrightarrow> \<not> ok st)"

lemma sameE:
  assumes "same r q"
  obtains (Done) v st where "r = Done (v, st)" "q = Done (v, cursor st, ok st)" "clean st"
  | (Undefined) "r = Undefined" "q = Undefined"
  | (OutOfFuel) "r = OutOfFuel" "q = OutOfFuel"
  using assms by (cases r) (auto simp: same_def clean_def)

lemma same_simps [simp]:
  "same Undefined q \<longleftrightarrow> q = Undefined" "same OutOfFuel q \<longleftrightarrow> q = OutOfFuel"
  "same (Done (v, st)) q \<longleftrightarrow> q = Done (v, cursor st, ok st) \<and> clean st"
  by (auto simp: same_def clean_def)

lemma state_simps [simp]:
  "cursor (calc_skip_spaces st) = calc_skip (cursor st)" "ok (calc_skip_spaces st) = ok st"
  "cursor (advance st) = tl (cursor st)" "ok (advance st) = ok st"
  "clean (calc_skip_spaces st) = clean st" "clean (advance st) = clean st" "clean (st\<lparr>cursor := s\<rparr>) = clean st"
  "clean (st\<lparr>ok := False\<rparr>)" "clean (st\<lparr>ok := False, divide_by_zero := b\<rparr>)"
  by (simp_all add: calc_skip_spaces_def calc_skip_def advance_def clean_def)

lemma at_is: "c \<noteq> NUL \<Longrightarrow> at st = c \<longleftrightarrow> cursor st \<noteq> [] \<and> hd (cursor st) = c"
  by (cases "cursor st") (auto simp: at_def cchar_def)

lemma at_digit: "isdigit (at st) \<longleftrightarrow> cursor st \<noteq> [] \<and> isdigit (hd (cursor st))"
  by (cases "cursor st") (auto simp: at_def cchar_def isdigit_def uchar_def)

lemma give_same: "clean st \<Longrightarrow> same (x86_defined (signed neg v) st) (give neg v (cursor st) (ok st))"
  by (simp add: x86_defined_def give_def split: option.split)

lemmas other_simps = calc_parse_factor.simps calc_parse_term.simps term_loop.simps calc_parse_expr.simps expr_loop.simps

lemma factor_agrees:
  assumes "\<And>st. clean st \<Longrightarrow> ok st \<Longrightarrow> same (x86_expression n st) (calc_parse_expr n (cursor st))" and "clean st" "ok st"
  shows "same (x86_factor (Suc n) st) (calc_parse_factor (Suc n) (cursor st))"
proof -
  obtain neg s where g: "calc_signs (cursor st) False = (neg, s)" by fastforce
  define st1 where "st1 = st\<lparr>cursor := s\<rparr>"
  have st1: "x86_signs st = (neg, st1)" "cursor st1 = s" "clean st1" "ok st1"
    using assms(2,3) by (simp_all add: x86_signs_def g st1_def)
  show ?thesis
  proof (cases "at st1 = CHR ''(''")
    case True
    then have s: "s \<noteq> []" "hd s = CHR ''(''" using at_is [of "CHR ''(''" st1] st1 by auto
    have IH: "same (x86_expression n (advance st1)) (calc_parse_expr n (tl s))"
      using assms(1) [of "advance st1"] st1 by simp
    then show ?thesis
    proof (cases rule: sameE)
      case (Done v u)
      then show ?thesis using True s st1 g at_is [of "CHR '')''" "calc_skip_spaces u"] give_same [of "advance (calc_skip_spaces u)" neg v]
        by (auto simp: other_simps Let_def)
    qed (use True s st1 g in \<open>simp_all add: other_simps\<close>)
  next
    case False
    then have s: "\<not> (s \<noteq> [] \<and> hd s = CHR ''('')" using at_is [of "CHR ''(''" st1] st1 by auto
    show ?thesis
      using False s st1 g at_digit [of st1] give_same [of "st1\<lparr>cursor := dropWhile isdigit s\<rparr>" neg]
      by (auto simp: other_simps x86_number_def split: option.split)
  qed
qed

lemma loop_agrees:
  assumes "\<And>st. clean st \<Longrightarrow> ok st \<Longrightarrow> same (x86_factor n st) (calc_parse_factor n (cursor st))"
    and "\<And>v st. clean st \<Longrightarrow> same (x86_term_loop n v st) (term_loop n v (cursor st) (ok st))" and "clean st"
  shows "same (x86_term_loop (Suc n) v st) (term_loop (Suc n) v (cursor st) (ok st))"
proof (cases "ok st")
  case True
  let ?u = "calc_skip_spaces st"
  have c: "cursor ?u \<noteq> [] \<and> hd (cursor ?u) = c \<longleftrightarrow> at ?u = c" if "c \<noteq> NUL" for c using at_is [OF that, of ?u] by simp
  show ?thesis
  proof (cases "at ?u = CHR ''*'' \<or> at ?u = CHR ''/''")
    case op: True
    then have h: "calc_skip (cursor st) \<noteq> []" "hd (calc_skip (cursor st)) = at ?u"
      using c [of "CHR ''*''"] c [of "CHR ''/''"] by auto
    have "same (x86_factor n (advance ?u)) (calc_parse_factor n (tl (calc_skip (cursor st))))"
      using assms(1) [of "advance ?u"] assms(3) True by simp
    then show ?thesis
    proof (cases rule: sameE)
      case (Done rhs w)
      show ?thesis
      proof (cases "calc_op (at ?u) v rhs")
        case None
        then show ?thesis using True op h Done by (auto simp: other_simps x86_defined_def Let_def)
      next
        case (Some v')
        then show ?thesis using True op h Done assms(2) [of w v'] by (auto simp: other_simps x86_defined_def Let_def)
      qed
    qed (use True op h in \<open>auto simp: other_simps Let_def\<close>)
  next
    case False
    then have "calc_skip (cursor st) = [] \<or> hd (calc_skip (cursor st)) \<noteq> CHR ''*'' \<and> hd (calc_skip (cursor st)) \<noteq> CHR ''/''"
      using c [of "CHR ''*''"] c [of "CHR ''/''"] by auto
    then show ?thesis using True False assms(3) by (auto simp: other_simps Let_def)
  qed
qed (use assms(3) in \<open>simp add: other_simps\<close>)

lemma sum_loop_agrees:
  assumes "\<And>st. clean st \<Longrightarrow> ok st \<Longrightarrow> same (x86_term n st) (calc_parse_term n (cursor st))"
    and "\<And>v st. clean st \<Longrightarrow> same (x86_expression_loop n v st) (expr_loop n v (cursor st) (ok st))" and "clean st"
  shows "same (x86_expression_loop (Suc n) v st) (expr_loop (Suc n) v (cursor st) (ok st))"
proof (cases "ok st")
  case True
  let ?u = "calc_skip_spaces st"
  have c: "cursor ?u \<noteq> [] \<and> hd (cursor ?u) = c \<longleftrightarrow> at ?u = c" if "c \<noteq> NUL" for c using at_is [OF that, of ?u] by simp
  show ?thesis
  proof (cases "at ?u = CHR ''+'' \<or> at ?u = CHR ''-''")
    case op: True
    then have h: "calc_skip (cursor st) \<noteq> []" "hd (calc_skip (cursor st)) = at ?u"
      using c [of "CHR ''+''"] c [of "CHR ''-''"] by auto
    have "same (x86_term n (advance ?u)) (calc_parse_term n (tl (calc_skip (cursor st))))"
      using assms(1) [of "advance ?u"] assms(3) True by simp
    then show ?thesis
    proof (cases rule: sameE)
      case (Done rhs w)
      show ?thesis
      proof (cases "calc_op (at ?u) v rhs")
        case None
        then show ?thesis using True op h Done by (auto simp: other_simps x86_defined_def Let_def)
      next
        case (Some v')
        then show ?thesis using True op h Done assms(2) [of w v'] by (auto simp: other_simps x86_defined_def Let_def)
      qed
    qed (use True op h in \<open>auto simp: other_simps Let_def\<close>)
  next
    case False
    then have "calc_skip (cursor st) = [] \<or> hd (calc_skip (cursor st)) \<noteq> CHR ''+'' \<and> hd (calc_skip (cursor st)) \<noteq> CHR ''-''"
      using c [of "CHR ''+''"] c [of "CHR ''-''"] by auto
    then show ?thesis using True False assms(3) by (auto simp: other_simps Let_def)
  qed
qed (use assms(3) in \<open>simp add: other_simps\<close>)

lemma parsers_agree:
  "(\<forall>st. clean st \<longrightarrow> ok st \<longrightarrow> same (x86_factor n st) (calc_parse_factor n (cursor st))) \<and>
   (\<forall>st. clean st \<longrightarrow> ok st \<longrightarrow> same (x86_term n st) (calc_parse_term n (cursor st))) \<and>
   (\<forall>v st. clean st \<longrightarrow> same (x86_term_loop n v st) (term_loop n v (cursor st) (ok st))) \<and>
   (\<forall>st. clean st \<longrightarrow> ok st \<longrightarrow> same (x86_expression n st) (calc_parse_expr n (cursor st))) \<and>
   (\<forall>v st. clean st \<longrightarrow> same (x86_expression_loop n v st) (expr_loop n v (cursor st) (ok st)))"
proof (induction n)
  case (Suc n)
  have term_step: "same (x86_term (Suc n) st) (calc_parse_term (Suc n) (cursor st))" if "clean st" "ok st" for st
  proof -
    have "same (x86_factor n st) (calc_parse_factor n (cursor st))" using Suc that by blast
    then show ?thesis using Suc by (cases rule: sameE) (auto simp: other_simps)
  qed
  have expression_step: "same (x86_expression (Suc n) st) (calc_parse_expr (Suc n) (cursor st))" if "clean st" "ok st" for st
  proof -
    have "same (x86_term n st) (calc_parse_term n (cursor st))" using Suc that by blast
    then show ?thesis using Suc by (cases rule: sameE) (auto simp: other_simps)
  qed
  show ?case
    using factor_agrees [of n] loop_agrees [of n] sum_loop_agrees [of n] term_step expression_step Suc by blast
qed (simp add: other_simps)

text \<open>C35: 
  C0: the two kernels' calculators agree. On every text, the one of the x86 shell and the one of the other
  kernel give the same value and the same verdict, or are both undefined.
\<close>

theorem calculators_agree: "calc_evaluate e = calc_eval e"
proof -
  let ?st = "\<lparr>cursor = e, ok = True, divide_by_zero = False\<rparr>"
  have "same (x86_expression (4 * length e + 3) ?st) (calc_parse_expr (4 * length e + 3) e)"
  proof -
    have "clean ?st" "ok ?st" "cursor ?st = e" by (simp_all add: clean_def)
    then show ?thesis using parsers_agree [of "4 * length e + 3"] by metis
  qed
  then show ?thesis by (cases rule: sameE) (simp_all add: calc_evaluate_def calc_eval_def)
qed

end
