(* ===== verification/Terminal.thy ===== *)
theory Terminal
  imports CString
begin

unbundle bit_operations_syntax

text \<open>
  The text screen of the x86 kernel, \<open>src/drivers/vga.c\<close>: 25 rows of 80 cells at a fixed address, a
  cell holding the character below and the colour above. The memory is a function of the cell index, so that
  a write out of range would be seen. The cursor is sent to the display controller through two
  ports; \<open>port_log\<close> keeps the writes in order.
\<close>

definition VGA_WIDTH :: nat where "VGA_WIDTH = 80"
definition VGA_HEIGHT :: nat where "VGA_HEIGHT = 25"

definition VGA_COLOR_BLACK :: u8 where "VGA_COLOR_BLACK = 0"
definition VGA_COLOR_LIGHT_GREY :: u8 where "VGA_COLOR_LIGHT_GREY = 7"
definition VGA_COLOR_LIGHT_GREEN :: u8 where "VGA_COLOR_LIGHT_GREEN = 10"
definition VGA_COLOR_LIGHT_CYAN :: u8 where "VGA_COLOR_LIGHT_CYAN = 11"

record terminal =
  vga_memory :: "nat \<Rightarrow> u16"
  terminal_row :: nat
  terminal_column :: nat
  terminal_color :: u8
  port_log :: "(nat \<times> u8) list"

definition vga_entry_color :: "u8 \<Rightarrow> u8 \<Rightarrow> u8" where
  "vga_entry_color fg bg = fg OR push_bit 4 bg"

definition vga_entry :: "char \<Rightarrow> u8 \<Rightarrow> u16" where
  "vga_entry c color = word_of_nat (of_char c) OR push_bit 8 (ucast color)"

definition terminal_update_cursor :: "terminal \<Rightarrow> terminal" where
  "terminal_update_cursor t =
     (let position = word_of_nat (terminal_row t * VGA_WIDTH + terminal_column t) :: u16
      in t\<lparr>port_log := port_log t @
           [(0x3D4, 0x0F), (0x3D5, ucast (position AND 0xFF)), (0x3D4, 0x0E), (0x3D5, ucast (drop_bit 8 position AND 0xFF))]\<rparr>)"

text \<open>The two loops of the scroll: the cells move up by a row in ascending order, then the last row
  is blanked.\<close>

definition terminal_scroll :: "terminal \<Rightarrow> terminal" where
  "terminal_scroll t =
     (if terminal_row t < VGA_HEIGHT then t
      else let m = fold (\<lambda>i m. m(i := m (i + VGA_WIDTH))) [0 ..< (VGA_HEIGHT - 1) * VGA_WIDTH] (vga_memory t);
               m = fold (\<lambda>x m. m((VGA_HEIGHT - 1) * VGA_WIDTH + x := vga_entry CHR '' '' (terminal_color t))) [0 ..< VGA_WIDTH] m
           in t\<lparr>vga_memory := m, terminal_row := VGA_HEIGHT - 1\<rparr>)"

definition terminal_clear :: "terminal \<Rightarrow> terminal" where
  "terminal_clear t =
     terminal_update_cursor
       (t\<lparr>vga_memory := fold (\<lambda>i m. m(i := vga_entry CHR '' '' (terminal_color t))) [0 ..< VGA_HEIGHT * VGA_WIDTH] (vga_memory t),
          terminal_row := 0, terminal_column := 0\<rparr>)"

definition terminal_initialize :: "terminal \<Rightarrow> terminal" where
  "terminal_initialize t =
     terminal_clear (t\<lparr>terminal_row := 0, terminal_column := 0,
       terminal_color := vga_entry_color VGA_COLOR_LIGHT_GREY VGA_COLOR_BLACK\<rparr>)"

definition terminal_set_color :: "u8 \<Rightarrow> u8 \<Rightarrow> terminal \<Rightarrow> terminal" where
  "terminal_set_color fg bg t = t\<lparr>terminal_color := vga_entry_color fg bg\<rparr>"

text \<open>A character that is none of the three control characters.\<close>

definition put_cell :: "char \<Rightarrow> terminal \<Rightarrow> terminal" where
  "put_cell c t =
     (let t = t\<lparr>vga_memory := (vga_memory t)(terminal_row t * VGA_WIDTH + terminal_column t := vga_entry c (terminal_color t)),
                terminal_column := terminal_column t + 1\<rparr>;
          t = (if terminal_column t \<ge> VGA_WIDTH then t\<lparr>terminal_column := 0, terminal_row := terminal_row t + 1\<rparr> else t)
      in terminal_update_cursor (terminal_scroll t))"

definition terminal_putchar :: "char \<Rightarrow> terminal \<Rightarrow> terminal" where
  "terminal_putchar c t =
     (if c = LF then terminal_update_cursor (terminal_scroll (t\<lparr>terminal_column := 0, terminal_row := terminal_row t + 1\<rparr>))
      else if c = CR then terminal_update_cursor (t\<lparr>terminal_column := 0\<rparr>)
      else if c = TAB then (put_cell CHR '' '' ^^ 4) t
      else put_cell c t)"

definition terminal_backspace :: "terminal \<Rightarrow> terminal" where
  "terminal_backspace t =
     (if terminal_column t = 0 \<and> terminal_row t = 0 then t
      else let t = (if terminal_column t = 0 then t\<lparr>terminal_row := terminal_row t - 1, terminal_column := VGA_WIDTH - 1\<rparr>
                    else t\<lparr>terminal_column := terminal_column t - 1\<rparr>)
           in terminal_update_cursor
                (t\<lparr>vga_memory := (vga_memory t)(terminal_row t * VGA_WIDTH + terminal_column t := vga_entry CHR '' '' (terminal_color t))\<rparr>))"

definition terminal_write :: "string \<Rightarrow> terminal \<Rightarrow> terminal" where
  "terminal_write data t = fold terminal_putchar data t"

definition terminal_writeline :: "string \<Rightarrow> terminal \<Rightarrow> terminal" where
  "terminal_writeline data t = terminal_putchar LF (terminal_write data t)"

definition terminal_write_hex :: "u32 \<Rightarrow> terminal \<Rightarrow> terminal" where
  "terminal_write_hex value t = terminal_write (u32_to_hex value) t"

definition terminal_write_dec :: "u32 \<Rightarrow> terminal \<Rightarrow> terminal" where
  "terminal_write_dec value t = terminal_write (u32_to_dec value) t"

section \<open>The loops\<close>

lemma scroll_copy:
  "0 < w \<Longrightarrow> fold (\<lambda>i m. m(i := m (i + w))) [0 ..< n] m = (\<lambda>i. if i < n then m (i + w) else m i)"
proof (induction n)
  case (Suc n)
  then show ?case by (auto simp: fun_eq_iff less_Suc_eq)
qed simp

lemma fill: "fold (\<lambda>x m. m(a + x := v)) [0 ..< n] m = (\<lambda>i. if a \<le> i \<and> i < a + n then v else m i)"
  by (induction n) (auto simp: fun_eq_iff less_Suc_eq)

lemma fill_from_0: "fold (\<lambda>x m. m(x := v)) [0 ..< n] m = (\<lambda>i. if i < n then v else m i)"
  using fill [of 0 v n m] by simp

lemma terminal_scroll_eq [code]:
  "terminal_scroll t =
     (if terminal_row t < VGA_HEIGHT then t
      else t\<lparr>vga_memory := (\<lambda>i. if i < 1920 then vga_memory t (i + 80)
                                else if i < 2000 then vga_entry CHR '' '' (terminal_color t) else vga_memory t i),
             terminal_row := 24\<rparr>)"
proof -
  let ?v = "vga_entry CHR '' '' (terminal_color t)"
  have "fold (\<lambda>x m. m((VGA_HEIGHT - 1) * VGA_WIDTH + x := ?v)) [0 ..< VGA_WIDTH]
      (fold (\<lambda>i m. m(i := m (i + VGA_WIDTH))) [0 ..< (VGA_HEIGHT - 1) * VGA_WIDTH] (vga_memory t)) =
    (\<lambda>i. if i < 1920 then vga_memory t (i + 80) else if i < 2000 then ?v else vga_memory t i)"
    unfolding fill by (subst scroll_copy) (auto simp: VGA_HEIGHT_def VGA_WIDTH_def)
  then show ?thesis by (simp only: terminal_scroll_def Let_def) (simp add: VGA_HEIGHT_def)
qed

lemma terminal_clear_eq [code]:
  "terminal_clear t =
     terminal_update_cursor
       (t\<lparr>vga_memory := (\<lambda>i. if i < 2000 then vga_entry CHR '' '' (terminal_color t) else vga_memory t i),
          terminal_row := 0, terminal_column := 0\<rparr>)"
  unfolding terminal_clear_def fill_from_0 by (simp add: VGA_HEIGHT_def VGA_WIDTH_def)

lemma update_cursor_simps [simp]:
  "vga_memory (terminal_update_cursor t) = vga_memory t"
  "terminal_row (terminal_update_cursor t) = terminal_row t"
  "terminal_column (terminal_update_cursor t) = terminal_column t"
  "terminal_color (terminal_update_cursor t) = terminal_color t"
  by (simp_all add: terminal_update_cursor_def Let_def)

section \<open>The screen as the end of a roll of paper\<close>

text \<open>
  The specification: an endless roll of rows that are only added to. The screen shows its last 25 rows,
  with rows of the background below them while there are fewer.
\<close>

record paper =
  rows :: "u16 list list"
  col :: nat

definition blank_row :: "u8 \<Rightarrow> u16 list" where
  "blank_row color = replicate VGA_WIDTH (vga_entry CHR '' '' color)"

definition next_row :: "u8 \<Rightarrow> u8 \<Rightarrow> paper \<Rightarrow> paper" where
  "next_row bg color p =
     p\<lparr>rows := rows p @ [blank_row (if length (rows p) < VGA_HEIGHT then bg else color)], col := 0\<rparr>"

definition type_cell :: "u8 \<Rightarrow> u8 \<Rightarrow> char \<Rightarrow> paper \<Rightarrow> paper" where
  "type_cell bg color c p =
     (let p = p\<lparr>rows := butlast (rows p) @ [(last (rows p))[col p := vga_entry c color]], col := col p + 1\<rparr>
      in if col p \<ge> VGA_WIDTH then next_row bg color p else p)"

definition type_char :: "u8 \<Rightarrow> u8 \<Rightarrow> char \<Rightarrow> paper \<Rightarrow> paper" where
  "type_char bg color c p =
     (if c = LF then next_row bg color p
      else if c = CR then p\<lparr>col := 0\<rparr>
      else if c = TAB then (type_cell bg color CHR '' '' ^^ 4) p
      else type_cell bg color c p)"

definition new_paper :: "u8 \<Rightarrow> paper" where
  "new_paper bg = \<lparr>rows = [blank_row bg], col = 0\<rparr>"

definition paper_ok :: "paper \<Rightarrow> bool" where
  "paper_ok p \<longleftrightarrow> rows p \<noteq> [] \<and> (\<forall>r\<in>set (rows p). length r = VGA_WIDTH) \<and> col p < VGA_WIDTH"

definition cell_of :: "u8 \<Rightarrow> paper \<Rightarrow> nat \<Rightarrow> nat \<Rightarrow> u16" where
  "cell_of bg p y x =
     (if length (rows p) - VGA_HEIGHT + y < length (rows p) then rows p ! (length (rows p) - VGA_HEIGHT + y) ! x
      else vga_entry CHR '' '' bg)"

definition shows_paper :: "u8 \<Rightarrow> paper \<Rightarrow> terminal \<Rightarrow> bool" where
  "shows_paper bg p t \<longleftrightarrow> paper_ok p \<and> terminal_column t = col p \<and>
     terminal_row t + 1 = min (length (rows p)) VGA_HEIGHT \<and>
     (\<forall>y<VGA_HEIGHT. \<forall>x<VGA_WIDTH. vga_memory t (y * VGA_WIDTH + x) = cell_of bg p y x)"

lemma cell_of_col [simp]: "cell_of bg (p\<lparr>rows := r, col := c\<rparr>) y x = cell_of bg (p\<lparr>rows := r\<rparr>) y x"
  "cell_of bg (p\<lparr>col := c\<rparr>) y x = cell_of bg p y x"
  by (simp_all add: cell_of_def)

lemma next_row_col [simp]: "next_row bg c (p\<lparr>rows := r, col := x\<rparr>) = next_row bg c (p\<lparr>rows := r\<rparr>)"
  by (simp add: next_row_def)

lemmas paper_defs = VGA_WIDTH_def VGA_HEIGHT_def

lemma shows_paperD:
  "shows_paper bg p t \<Longrightarrow> y < 25 \<Longrightarrow> x < 80 \<Longrightarrow> vga_memory t (y * 80 + x) = cell_of bg p y x"
  by (simp add: shows_paper_def VGA_WIDTH_def VGA_HEIGHT_def)

lemma shows_cursor [simp]: "shows_paper bg p (terminal_update_cursor t) = shows_paper bg p t"
  by (simp add: shows_paper_def)

lemma shows_clear: "shows_paper (terminal_color t) (new_paper (terminal_color t)) (terminal_clear t)"
  by (auto simp: terminal_clear_eq shows_paper_def new_paper_def paper_ok_def blank_row_def cell_of_def paper_defs nth_Cons'
      simp flip: numeral_2_eq_2)

text \<open>A step to the next row, from a state in which the row may be the one below the screen.\<close>

lemma shows_next:
  assumes p: "shows_paper bg p t" and t': "vga_memory t' = vga_memory t" "terminal_row t' = terminal_row t + 1"
    "terminal_column t' = 0" "terminal_color t' = color"
  shows "shows_paper bg (next_row bg color p) (terminal_scroll t')"
proof -
  have m: "vga_memory t (y * 80 + x) = cell_of bg p y x" if "y < 25" "x < 80" for x y
    using p that by (simp add: shows_paper_def paper_defs)
  have ok: "paper_ok (next_row bg color p)"
    using p by (auto simp: shows_paper_def paper_ok_def next_row_def blank_row_def paper_defs)
  let ?n = "length (rows p)"
  have n: "0 < ?n" using p by (simp add: shows_paper_def paper_ok_def)
  show ?thesis
  proof (cases "?n < 25")
    case True
    then have r: "terminal_row t' = ?n" "terminal_scroll t' = t'"
      using p t' n by (auto simp: shows_paper_def paper_defs terminal_scroll_eq)
    have "vga_memory t (y * 80 + x) = cell_of bg (next_row bg color p) y x" if "y < 25" "x < 80" for x y
      using m [OF that] that True by (auto simp: cell_of_def next_row_def nth_append paper_defs blank_row_def)
    then show ?thesis
      using ok r t' True by (simp add: shows_paper_def next_row_def paper_defs)
  next
    case False
    then have r: "terminal_row t' = 25" using p t' by (simp add: shows_paper_def paper_defs min_def)
    let ?m = "vga_memory (terminal_scroll t')"
    have sc: "?m i = (if i < 1920 then vga_memory t (i + 80) else if i < 2000 then vga_entry CHR '' '' color else vga_memory t i)" for i
      using r t' by (simp add: terminal_scroll_eq paper_defs)
    have "?m (y * 80 + x) = cell_of bg (next_row bg color p) y x" if yx: "y < 25" "x < 80" for x y
    proof (cases "y < 24")
      case True
      then have a: "y * 80 + x < 1920" "y * 80 + x + 80 = Suc y * 80 + x" using yx by simp_all
      have "?m (y * 80 + x) = vga_memory t (Suc y * 80 + x)" unfolding sc a(2) using a(1) by simp
      then have "?m (y * 80 + x) = cell_of bg p (Suc y) x" using m [of "Suc y" x] True yx(2) by simp
      moreover obtain k where "length (rows p) = k + 25" using False by (metis add.commute le_Suc_ex not_less)
      ultimately show ?thesis using True by (simp add: cell_of_def next_row_def nth_append paper_defs)
    next
      case y: False
      then have "y = 24" using yx by simp
      then show ?thesis using sc yx False by (simp add: cell_of_def next_row_def nth_append paper_defs blank_row_def)
    qed
    then show ?thesis
      using ok r t' False by (simp add: shows_paper_def next_row_def paper_defs terminal_scroll_eq)
  qed
qed

lemma shows_cell:
  assumes p: "shows_paper bg p t"
  shows "shows_paper bg (type_cell bg (terminal_color t) c p) (put_cell c t)"
proof -
  let ?q = "p\<lparr>rows := butlast (rows p) @ [(last (rows p))[col p := vga_entry c (terminal_color t)]], col := col p + 1\<rparr>"
  let ?v = "vga_entry c (terminal_color t)" and ?n = "length (rows p)"
  let ?t = "t\<lparr>vga_memory := (vga_memory t)(terminal_row t * VGA_WIDTH + terminal_column t := ?v)\<rparr>"
  have n: "rows p \<noteq> []" "\<forall>r\<in>set (rows p). length r = 80" "col p < 80" "terminal_column t = col p"
    "terminal_row t + 1 = min ?n 25"
    using p by (simp_all add: shows_paper_def paper_ok_def paper_defs)
  have l: "length (rows ?q) = ?n" using n(1) by simp
  have rq: "rows ?q ! k ! x = (if k = ?n - 1 \<and> x = col p then ?v else rows p ! k ! x)" if "k < ?n" "x < 80" for k x
  proof (cases "k = ?n - 1")
    case True
    have "length (last (rows p)) = 80" using n(1,2) by simp
    with True show ?thesis using n(1) that by (simp add: nth_append last_conv_nth nth_list_update)
  next
    case False
    then have "k < ?n - 1" using that by simp
    then show ?thesis using False by (simp add: nth_append nth_butlast)
  qed
  have cells: "vga_memory ?t (y * 80 + x) = cell_of bg ?q y x" if yx: "y < 25" "x < 80" for y x
  proof -
    have m: "vga_memory t (y * 80 + x) = cell_of bg p y x" using p yx by (simp add: shows_paper_def paper_defs)
    have "y * 80 + x = terminal_row t * 80 + col p \<longleftrightarrow> y = terminal_row t \<and> x = col p"
    proof
      assume e: "y * 80 + x = terminal_row t * 80 + col p"
      then have "(y * 80 + x) div 80 = (terminal_row t * 80 + col p) div 80" by simp
      then have "y = terminal_row t" using yx(2) n(3) by simp
      with e show "y = terminal_row t \<and> x = col p" by simp
    qed simp
    moreover have "y = terminal_row t \<longleftrightarrow> ?n - 25 + y = ?n - 1" using n(5) by (auto simp: min_def split: if_splits)
    moreover have "?n - 25 + y < ?n" if "y = terminal_row t" using n(5) that by (auto simp: min_def split: if_splits)
    ultimately show ?thesis
      using m rq [of "?n - 25 + y" x] yx n(4) l by (auto simp: cell_of_def paper_defs Let_def)
  qed
  show ?thesis
  proof (cases "col p + 1 \<ge> 80")
    case False
    have "paper_ok ?q" using n False by (auto simp: paper_ok_def paper_defs dest: in_set_butlastD)
    then have "shows_paper bg ?q (?t\<lparr>terminal_column := col p + 1\<rparr>)"
      using cells n(5) l by (simp add: shows_paper_def paper_defs)
    moreover have "terminal_scroll (?t\<lparr>terminal_column := col p + 1\<rparr>) = ?t\<lparr>terminal_column := col p + 1\<rparr>"
      using n(5) by (simp add: terminal_scroll_eq paper_defs min_def split: if_splits)
    ultimately show ?thesis
      using False n(4) by (simp add: put_cell_def type_cell_def paper_defs Let_def)
  next
    case True
    let ?q0 = "?q\<lparr>col := 0\<rparr>"
    have "paper_ok ?q0" using n by (auto simp: paper_ok_def paper_defs dest: in_set_butlastD)
    moreover have "cell_of bg ?q0 y x = cell_of bg ?q y x" for y x by (simp add: cell_of_def)
    ultimately have s: "shows_paper bg ?q0 (?t\<lparr>terminal_column := 0\<rparr>)"
      using cells n(5) l by (simp add: shows_paper_def paper_defs)
    have "shows_paper bg (next_row bg (terminal_color t) ?q0)
        (terminal_scroll (?t\<lparr>terminal_column := 0, terminal_row := terminal_row t + 1\<rparr>))"
      by (rule shows_next [OF s]) simp_all
    moreover have "next_row bg (terminal_color t) ?q0 = next_row bg (terminal_color t) ?q" by (simp add: next_row_def)
    ultimately show ?thesis
      using True n(4) by (simp add: put_cell_def type_cell_def paper_defs Let_def)
  qed
qed

lemma cell_color [simp]: "terminal_color (put_cell c t) = terminal_color t"
  by (simp add: put_cell_def Let_def terminal_scroll_eq)

lemma shows_char:
  assumes p: "shows_paper bg p t"
  shows "shows_paper bg (type_char bg (terminal_color t) c p) (terminal_putchar c t)"
proof -
  have tab: "shows_paper bg ((type_cell bg (terminal_color t) CHR '' '' ^^ n) p) ((put_cell CHR '' '' ^^ n) t) \<and>
      terminal_color ((put_cell CHR '' '' ^^ n) t) = terminal_color t" for n
  proof (induction n)
    case (Suc n)
    then show ?case using shows_cell [of bg _ "(put_cell CHR '' '' ^^ n) t" "CHR '' ''"] by simp
  qed (use p in simp)
  have cr: "shows_paper bg (p\<lparr>col := 0\<rparr>) (t\<lparr>terminal_column := 0\<rparr>)"
    using p by (auto simp: shows_paper_def paper_ok_def cell_of_def paper_defs)
  have lf: "shows_paper bg (next_row bg (terminal_color t) p)
      (terminal_scroll (t\<lparr>terminal_column := 0, terminal_row := terminal_row t + 1\<rparr>))"
    by (rule shows_next [OF p]) simp_all
  show ?thesis
    using tab [of 4] cr lf shows_cell [OF p, of c] by (simp add: terminal_putchar_def type_char_def)
qed

lemma putchar_color [simp]: "terminal_color (terminal_putchar c t) = terminal_color t"
proof -
  have "terminal_color ((put_cell CHR '' '' ^^ n) t) = terminal_color t" for n
    by (induction n) simp_all
  then show ?thesis by (simp add: terminal_putchar_def terminal_scroll_eq)
qed

lemma write_color [simp]: "terminal_color (terminal_write s t) = terminal_color t"
  by (induction s arbitrary: t) (simp_all add: terminal_write_def)

text \<open>Writing and changing the colour, in any order.\<close>

datatype screen_op = Write string | SetColor u8 u8

fun screen_step :: "terminal \<Rightarrow> screen_op \<Rightarrow> terminal" where
  "screen_step t (Write s) = terminal_write s t"
| "screen_step t (SetColor fg bg) = terminal_set_color fg bg t"

fun paper_step :: "u8 \<Rightarrow> paper \<times> u8 \<Rightarrow> screen_op \<Rightarrow> paper \<times> u8" where
  "paper_step bg (p, color) (Write s) = (fold (type_char bg color) s p, color)"
| "paper_step bg (p, color) (SetColor f b) = (p, vga_entry_color f b)"

lemma shows_write:
  "shows_paper bg p t \<Longrightarrow> shows_paper bg (fold (type_char bg (terminal_color t)) s p) (terminal_write s t)"
proof (induction s arbitrary: p t)
  case (Cons c s)
  then show ?case using Cons.IH [OF shows_char [OF Cons.prems, of c]] by (simp add: terminal_write_def)
qed (simp add: terminal_write_def)

lemma shows_run:
  "shows_paper bg p t \<Longrightarrow> foldl (paper_step bg) (p, terminal_color t) ops = (p', color') \<Longrightarrow>
   shows_paper bg p' (foldl screen_step t ops) \<and> terminal_color (foldl screen_step t ops) = color'"
proof (induction ops arbitrary: p t)
  case (Cons op ops)
  show ?case
  proof (cases op)
    case (Write s)
    then show ?thesis
      using Cons.IH [OF shows_write [OF Cons.prems(1), of s]] Cons.prems(2) by simp
  next
    case (SetColor f b)
    have "shows_paper bg p (terminal_set_color f b t)"
      using Cons.prems(1) by (simp add: shows_paper_def terminal_set_color_def)
    then show ?thesis using Cons.IH [of p "terminal_set_color f b t"] SetColor Cons.prems(2)
      by (simp add: terminal_set_color_def)
  qed
qed simp

text \<open>Nothing but the screen is written.\<close>

lemma cell_inside:
  assumes "shows_paper bg p t"
  shows "terminal_row t < VGA_HEIGHT \<and> terminal_column t < VGA_WIDTH"
  using assms by (auto simp: shows_paper_def paper_ok_def VGA_HEIGHT_def)

lemma cell_outside:
  assumes p: "shows_paper bg p t" and i: "2000 \<le> i"
  shows "vga_memory (put_cell c t) i = vga_memory t i"
proof -
  have "terminal_row t * 80 + terminal_column t < 2000"
    using cell_inside [OF p] by (simp add: paper_defs)
  with i show ?thesis by (simp add: put_cell_def Let_def terminal_scroll_eq paper_defs)
qed

lemma putchar_outside:
  assumes p: "shows_paper bg p t" and i: "2000 \<le> i"
  shows "vga_memory (terminal_putchar c t) i = vga_memory t i"
proof -
  have tab: "\<exists>q. shows_paper bg q ((put_cell CHR '' '' ^^ n) t) \<and> vga_memory ((put_cell CHR '' '' ^^ n) t) i = vga_memory t i" for n
  proof (induction n)
    case (Suc n)
    then obtain q where q: "shows_paper bg q ((put_cell CHR '' '' ^^ n) t)" "vga_memory ((put_cell CHR '' '' ^^ n) t) i = vga_memory t i"
      by blast
    then show ?case using shows_cell [OF q(1)] cell_outside [OF q(1) i] by auto
  qed (use p in auto)
  show ?thesis
    using tab [of 4] cell_outside [OF p i] i by (auto simp: terminal_putchar_def terminal_scroll_eq)
qed

lemma write_outside:
  "shows_paper bg p t \<Longrightarrow> 2000 \<le> i \<Longrightarrow> vga_memory (terminal_write s t) i = vga_memory t i"
proof (induction s arbitrary: p t)
  case (Cons c s)
  then show ?case
    using Cons.IH [OF shows_char [OF Cons.prems(1), of c]] putchar_outside [OF Cons.prems(1,2), of c]
    by (simp add: terminal_write_def)
qed (simp add: terminal_write_def)

section \<open>Properties\<close>

text \<open>C10: The screen of the x86 kernel is the end of an endless roll of paper: from a cleared
  screen on, whatever is written in whatever colours, line feeds, carriage returns, tabs and wrapped lines
  included, every cell shows the last 25 rows of the roll (or, below them, the background), the
  cursor stands where the roll's does, and no octet outside the 2000 cells changes.\<close>

theorem terminal_shows_last_rows:
  assumes "foldl (paper_step (terminal_color t)) (new_paper (terminal_color t), terminal_color t) ops = (p, color)"
    and "t' = foldl screen_step (terminal_clear t) ops"
  shows "shows_paper (terminal_color t) p t' \<and> (\<forall>i\<ge>2000. vga_memory t' i = vga_memory t i)"
proof
  have c: "terminal_color (terminal_clear t) = terminal_color t" by (simp add: terminal_clear_eq)
  show "shows_paper (terminal_color t) p t'"
    using shows_run [OF shows_clear, of t ops p color] assms c by simp
  have "vga_memory (foldl screen_step u ops) i = vga_memory u i" if "shows_paper bg q u" "2000 \<le> i" for bg q u i
    using that(1)
  proof (induction ops arbitrary: u q)
    case (Cons op ops)
    show ?case
    proof (cases op)
      case (Write s)
      then show ?thesis using Cons.IH [OF shows_write [OF Cons.prems, of s]] write_outside [OF Cons.prems that(2)] by simp
    next
      case (SetColor f b)
      have "shows_paper bg q (terminal_set_color f b u)" using Cons.prems by (simp add: shows_paper_def terminal_set_color_def)
      then show ?thesis using Cons.IH SetColor by (simp add: terminal_set_color_def)
    qed
  qed simp
  from this [OF shows_clear] show "\<forall>i\<ge>2000. vga_memory t' i = vga_memory t i"
    using assms(2) by (simp add: terminal_clear_eq)
qed

definition dark_screen :: terminal where
  "dark_screen = \<lparr>vga_memory = (\<lambda>_. 0), terminal_row = 0, terminal_column = 0, terminal_color = 7, port_log = []\<rparr>"

theorem terminal_shows_last_rows_witness:
  "vga_memory (foldl screen_step (terminal_clear dark_screen) [Write ''ab'', SetColor 11 0, Write (LF # ''c'')]) 80 = 0x0B63"
proof -
  let ?ops = "[Write ''ab'', SetColor 11 0, Write (LF # ''c'')]"
  let ?r = "foldl (paper_step 7) (new_paper 7, 7) ?ops"
  have "foldl (paper_step (terminal_color dark_screen)) (new_paper (terminal_color dark_screen), terminal_color dark_screen) ?ops =
      (fst ?r, snd ?r)" by (simp add: dark_screen_def)
  from terminal_shows_last_rows [OF this refl]
  have "shows_paper (terminal_color dark_screen) (fst ?r) (foldl screen_step (terminal_clear dark_screen) ?ops)" ..
  then have "vga_memory (foldl screen_step (terminal_clear dark_screen) ?ops) (Suc 0 * 80 + 0) =
      cell_of (terminal_color dark_screen) (fst ?r) (Suc 0) 0"
    by (rule shows_paperD) simp_all
  also have "\<dots> = 0x0B63" by code_simp
  finally show ?thesis by simp
qed
end
