(* ===== verification/Keyboard.thy ===== *)
theory Keyboard
  imports CString Interfaces
begin

unbundle bit_operations_syntax

text \<open>
  The keyboard of the x86 kernel, \<open>src/drivers/keyboard.c\<close>: the interrupt handler translates scan codes
  and pushes characters into a ring of 128 slots, of which one stays free; the shell takes them out
  with \<open>keyboard_getchar\<close>. The octet the handler reads from port 0x60 is an argument.
\<close>

definition KEYBOARD_BUFFER_SIZE :: nat where "KEYBOARD_BUFFER_SIZE = 128"

record keyboard =
  keyboard_buffer :: "char list"
  buffer_head :: nat
  buffer_tail :: nat
  shift_active :: bool

definition keymap :: "char list" where
  "keymap =
     [NUL, CHR 0x1B] @ ''1234567890-='' @ [CHR 0x08, TAB] @ ''qwertyuiop[]'' @ [LF, NUL] @
     ''asdfghjkl;'' @ [CHR 0x27, CHR 0x60, NUL, CHR 0x5C] @ ''zxcvbnm,./'' @ [NUL] @ ''*'' @ [NUL] @ '' '' @
     replicate 20 NUL @ ''-'' @ replicate 3 NUL @ ''+'' @ replicate 45 NUL"

definition keymap_shift :: "char list" where
  "keymap_shift =
     [NUL, CHR 0x1B] @ ''!@#$%^&*()_+'' @ [CHR 0x08, TAB] @ ''QWERTYUIOP{}'' @ [LF, NUL] @
     ''ASDFGHJKL:'' @ [CHR 0x22, CHR 0x7E, NUL, CHR 0x7C] @ ''ZXCVBNM<>?'' @ [NUL] @ ''*'' @ [NUL] @ '' '' @
     replicate 20 NUL @ ''-'' @ replicate 3 NUL @ ''+'' @ replicate 45 NUL"

definition buffer_push :: "char \<Rightarrow> keyboard \<Rightarrow> keyboard" where
  "buffer_push c k =
     (let nxt = (buffer_head k + 1) mod KEYBOARD_BUFFER_SIZE
      in if nxt = buffer_tail k then k
         else k\<lparr>keyboard_buffer := (keyboard_buffer k)[buffer_head k := c], buffer_head := nxt\<rparr>)"

definition keyboard_callback :: "u8 \<Rightarrow> keyboard \<Rightarrow> keyboard" where
  "keyboard_callback scancode k =
     (if scancode AND 0x80 \<noteq> 0
      then let released = scancode AND 0x7F
           in if released = 42 \<or> released = 54 then k\<lparr>shift_active := False\<rparr> else k
      else if scancode = 42 \<or> scancode = 54 then k\<lparr>shift_active := True\<rparr>
      else let translated = (if shift_active k then keymap_shift else keymap) ! unat scancode
           in if translated \<noteq> NUL then buffer_push translated k else k)"

definition keyboard_has_char :: "keyboard \<Rightarrow> bool" where
  "keyboard_has_char k \<longleftrightarrow> buffer_head k \<noteq> buffer_tail k"

definition keyboard_getchar :: "keyboard \<Rightarrow> char \<times> keyboard" where
  "keyboard_getchar k =
     (if buffer_head k = buffer_tail k then (NUL, k)
      else (keyboard_buffer k ! buffer_tail k, k\<lparr>buffer_tail := (buffer_tail k + 1) mod KEYBOARD_BUFFER_SIZE\<rparr>))"

section \<open>The ring is a queue\<close>

definition keyboard_ok :: "keyboard \<Rightarrow> bool" where
  "keyboard_ok k \<longleftrightarrow> length (keyboard_buffer k) = KEYBOARD_BUFFER_SIZE \<and>
     buffer_head k < KEYBOARD_BUFFER_SIZE \<and> buffer_tail k < KEYBOARD_BUFFER_SIZE"

definition waiting :: "keyboard \<Rightarrow> nat" where
  "waiting k = (buffer_head k + KEYBOARD_BUFFER_SIZE - buffer_tail k) mod KEYBOARD_BUFFER_SIZE"

definition contents :: "keyboard \<Rightarrow> string" where
  "contents k = map (\<lambda>i. keyboard_buffer k ! ((buffer_tail k + i) mod KEYBOARD_BUFFER_SIZE)) [0 ..< waiting k]"

definition take_char :: "keyboard \<Rightarrow> (char \<times> keyboard) option" where
  "take_char k = (if keyboard_has_char k then Some (keyboard_getchar k) else None)"

lemma waiting_cases:
  assumes "keyboard_ok k"
  shows "waiting k = (if buffer_tail k \<le> buffer_head k then buffer_head k - buffer_tail k else buffer_head k + 128 - buffer_tail k)"
proof (cases "buffer_tail k \<le> buffer_head k")
  case True
  then have "buffer_head k + 128 - buffer_tail k = (buffer_head k - buffer_tail k) + 128" by simp
  then show ?thesis
    using assms True unfolding waiting_def keyboard_ok_def KEYBOARD_BUFFER_SIZE_def by (simp only: mod_add_self2) (simp add: less_imp_diff_less)
qed (use assms in \<open>simp add: waiting_def keyboard_ok_def KEYBOARD_BUFFER_SIZE_def\<close>)

lemma waiting_less: "waiting k < 128"
  by (simp add: waiting_def KEYBOARD_BUFFER_SIZE_def)

lemma next_slot: "h < 128 \<Longrightarrow> Suc h mod 128 = (if h = 127 then 0 else Suc h)"
  by auto

lemma push_full: "keyboard_ok k \<Longrightarrow> 127 \<le> length (contents k) \<Longrightarrow> buffer_push c k = k"
  using waiting_cases [of k] waiting_less [of k]
  by (auto simp: contents_def buffer_push_def KEYBOARD_BUFFER_SIZE_def keyboard_ok_def next_slot Let_def split: if_splits)

lemma push_room:
  assumes ok: "keyboard_ok k" and n: "length (contents k) < 127"
  shows "keyboard_ok (buffer_push c k) \<and> contents (buffer_push c k) = contents k @ [c]"
proof -
  let ?h = "buffer_head k" and ?t = "buffer_tail k" and ?b = "keyboard_buffer k"
  have b: "?h < 128" "?t < 128" "length ?b = 128" using ok by (simp_all add: keyboard_ok_def KEYBOARD_BUFFER_SIZE_def)
  have w: "waiting k < 127" using n by (simp add: contents_def)
  have free: "(?h + 1) mod 128 \<noteq> ?t"
    using w waiting_cases [OF ok] b by (auto simp: next_slot split: if_splits)
  define k' where "k' = k\<lparr>keyboard_buffer := ?b[?h := c], buffer_head := (?h + 1) mod 128\<rparr>"
  have p: "buffer_push c k = k'" using free by (simp add: buffer_push_def KEYBOARD_BUFFER_SIZE_def k'_def Let_def)
  have ok': "keyboard_ok k'" using b by (simp add: k'_def keyboard_ok_def KEYBOARD_BUFFER_SIZE_def)
  have w': "waiting k' = Suc (waiting k)"
    using waiting_cases [OF ok] waiting_cases [OF ok'] free b by (auto simp: k'_def next_slot split: if_splits)
  have h: "(?t + waiting k) mod 128 = ?h"
    using waiting_cases [OF ok] b by auto
  have other: "(?t + i) mod 128 \<noteq> ?h" if "i < waiting k" for i
  proof -
    have "?t + i < ?t + waiting k" "?t + waiting k = ?h \<or> ?t + waiting k = ?h + 128"
      using that waiting_cases [OF ok] b by (auto split: if_splits)
    then show ?thesis using waiting_less [of k] b by (auto simp: mod_if)
  qed
  have old: "map (\<lambda>i. ?b[?h := c] ! ((?t + i) mod 128)) [0 ..< waiting k] = map (\<lambda>i. ?b ! ((?t + i) mod 128)) [0 ..< waiting k]"
    using other by (intro map_cong refl nth_list_update_neq) (metis atLeastLessThan_iff set_upt)
  have "contents k' = contents k @ [c]"
    unfolding contents_def w' using h old b by (simp add: k'_def KEYBOARD_BUFFER_SIZE_def)
  then show ?thesis using p ok' by simp
qed

lemma pop_first:
  assumes ok: "keyboard_ok k" and p: "take_char k = Some (c, k')"
  shows "keyboard_ok k' \<and> contents k = c # contents k'"
proof -
  let ?h = "buffer_head k" and ?t = "buffer_tail k" and ?b = "keyboard_buffer k"
  have b: "?h < 128" "?t < 128" using ok by (simp_all add: keyboard_ok_def KEYBOARD_BUFFER_SIZE_def)
  have e: "?h \<noteq> ?t" "c = ?b ! ?t" "k' = k\<lparr>buffer_tail := (?t + 1) mod 128\<rparr>"
    using p by (auto simp: take_char_def keyboard_has_char_def keyboard_getchar_def KEYBOARD_BUFFER_SIZE_def split: if_splits)
  have ok': "keyboard_ok k'" using ok e by (simp add: keyboard_ok_def KEYBOARD_BUFFER_SIZE_def)
  have w: "waiting k = Suc (waiting k')"
    using waiting_cases [OF ok] waiting_cases [OF ok'] e b by (auto simp: next_slot split: if_splits)
  have idx: "((?t + 1) mod 128 + i) mod 128 = (?t + Suc i) mod 128" for i by (simp add: mod_add_left_eq)
  have "contents k = c # contents k'"
    unfolding contents_def w upt_conv_Cons [OF zero_less_Suc]
    using e b idx by (simp add: KEYBOARD_BUFFER_SIZE_def map_Suc_upt [symmetric] del: upt_Suc)
  then show ?thesis using ok' by simp
qed

interpretation keyboard_queue: bounded_queue keyboard_ok contents buffer_push take_char 127
proof unfold_locales
  fix s x assume ok: "keyboard_ok s"
  show "keyboard_ok (buffer_push x s)"
    using push_room [OF ok] push_full [OF ok] ok by (cases "length (contents s) < 127") simp_all
  show "(take_char s = None) = (contents s = [])"
    using waiting_cases [OF ok] ok
    by (auto simp: take_char_def keyboard_has_char_def contents_def keyboard_ok_def KEYBOARD_BUFFER_SIZE_def split: if_splits)
  show "length (contents s) \<le> 127" using waiting_less [of s] by (simp add: contents_def)
qed (use push_room push_full pop_first in auto)

section \<open>Properties\<close>

text \<open>What a sequence of scan codes types, with the shift key down or not at its start.\<close>

fun typed :: "bool \<Rightarrow> u8 list \<Rightarrow> string" where
  "typed shift [] = []"
| "typed shift (s # codes) =
     (if s = 42 \<or> s = 54 then typed True codes
      else if s = 170 \<or> s = 182 then typed False codes
      else if 128 \<le> s then typed shift codes
      else let c = (if shift then keymap_shift else keymap) ! unat s
           in if c = NUL then typed shift codes else c # typed shift codes)"

lemma high_bit: "(s AND 0x80 \<noteq> 0) = (128 \<le> (s :: u8))"
proof -
  have "(s AND 2 ^ 7 = 0) = even (unat s div 128)"
  proof -
    have "bit (unat s) 7 = bit s 7" by (simp add: bit_unsigned_iff)
    then show ?thesis unfolding and_exp_eq_0_iff_not_bit by (simp add: bit_iff_odd)
  qed
  moreover have "even (unat s div 128) = (unat s < 128)"
  proof -
    have "unat s div 128 < 2" using unat_u8 [of s] by (simp add: less_mult_imp_div_less)
    then have "even (unat s div 128) = (unat s div 128 = 0)" by (auto simp: less_2_cases_iff)
    then show ?thesis by (simp add: div_eq_0_iff)
  qed
  ultimately show ?thesis by (auto simp: word_le_nat_alt)
qed

lemma low_bits: "128 \<le> s \<Longrightarrow> unat (s AND 0x7F) = unat s - 128" for s :: u8
proof -
  assume "128 \<le> s"
  moreover have "unat (s AND 0x7F) = unat s mod 128" using unat_and_mask [of s 7] by (simp add: mask_eq_exp_minus_1)
  ultimately show ?thesis using unat_u8 [of s] by (simp add: word_le_nat_alt mod_if)
qed

lemma release: "128 \<le> s \<Longrightarrow> (s AND 0x7F = 42 \<or> s AND 0x7F = 54) = (s = 170 \<or> s = 182)" for s :: u8
  using low_bits [of s] by (auto simp: word_unat_eq_iff word_le_nat_alt)

lemma take_take_append: "length xs \<le> n \<Longrightarrow> take n (take n (xs @ ys) @ zs) = take n (xs @ ys @ zs)"
  by (cases "length (xs @ ys) \<le> n") (auto simp: min_def)

lemma callback_types:
  fixes s :: u8
  assumes ok: "keyboard_ok k"
  defines "k' \<equiv> keyboard_callback s k"
  shows "keyboard_ok k' \<and> (\<exists>cs. typed (shift_active k) (s # codes) = cs @ typed (shift_active k') codes \<and>
    contents k' = take 127 (contents k @ cs))"
proof -
  have same: "contents (k\<lparr>shift_active := b\<rparr>) = contents k" "keyboard_ok (k\<lparr>shift_active := b\<rparr>)" for b
    using ok by (simp_all add: contents_def waiting_def keyboard_ok_def)
  have full: "contents k = take 127 (contents k @ [])" using keyboard_queue.room [OF ok] by simp
  consider "128 \<le> s" "s = 170 \<or> s = 182" | "128 \<le> s" "s \<noteq> 170" "s \<noteq> 182"
    | "\<not> 128 \<le> s" "s = 42 \<or> s = 54" | "\<not> 128 \<le> s" "s \<noteq> 42" "s \<noteq> 54" by blast
  then show ?thesis
  proof cases
    case 1
    then have "k' = k\<lparr>shift_active := False\<rparr>"
      using release [OF 1(1)] by (simp add: k'_def keyboard_callback_def high_bit Let_def)
    then show ?thesis using 1 same full by (intro conjI exI [of _ "[]"]) auto
  next
    case 2
    then have "k' = k" using release [OF 2(1)] by (simp add: k'_def keyboard_callback_def high_bit Let_def)
    moreover have "s \<noteq> 42" "s \<noteq> 54" using 2 by auto
    ultimately show ?thesis using 2 ok full by (intro conjI exI [of _ "[]"]) auto
  next
    case 3
    then have "k' = k\<lparr>shift_active := True\<rparr>" by (simp add: k'_def keyboard_callback_def high_bit)
    then show ?thesis using 3 same full by (intro conjI exI [of _ "[]"]) auto
  next
    case 4
    define c where "c = (if shift_active k then keymap_shift else keymap) ! unat s"
    have e: "s \<noteq> 170" "s \<noteq> 182" using 4 by auto
    have k': "k' = (if c \<noteq> NUL then buffer_push c k else k)"
      using 4 by (simp add: k'_def keyboard_callback_def high_bit c_def Let_def)
    have t: "typed (shift_active k) (s # codes) = (if c = NUL then [] else [c]) @ typed (shift_active k) codes"
      using 4 e by (simp add: c_def Let_def)
    have sh: "shift_active k' = shift_active k" by (simp add: k' buffer_push_def Let_def)
    show ?thesis
    proof (cases "c = NUL")
      case True
      then show ?thesis using t sh k' ok full by (intro conjI exI [of _ "[]"]) auto
    next
      case False
      then show ?thesis
        using t sh k' keyboard_queue.push_inv [OF ok] keyboard_queue.push_keeps [OF ok, of c]
        by (intro conjI exI [of _ "[c]"]) auto
    qed
  qed
qed

lemma callbacks_type:
  "keyboard_ok k \<Longrightarrow> keyboard_ok (fold keyboard_callback codes k) \<and>
     contents (fold keyboard_callback codes k) = take 127 (contents k @ typed (shift_active k) codes)"
proof (induction codes arbitrary: k)
  case Nil
  then show ?case using keyboard_queue.room [OF Nil] by simp
next
  case (Cons s codes)
  obtain cs where c: "keyboard_ok (keyboard_callback s k)"
    "typed (shift_active k) (s # codes) = cs @ typed (shift_active (keyboard_callback s k)) codes"
    "contents (keyboard_callback s k) = take 127 (contents k @ cs)"
    using callback_types [OF Cons.prems, of s codes] by blast
  have "contents (fold keyboard_callback codes (keyboard_callback s k)) =
      take 127 (take 127 (contents k @ cs) @ typed (shift_active (keyboard_callback s k)) codes)"
    using Cons.IH [OF c(1)] c(3) by simp
  also have "\<dots> = take 127 (contents k @ typed (shift_active k) (s # codes))"
    unfolding c(2) by (rule take_take_append) (rule keyboard_queue.room [OF Cons.prems])
  finally show ?case using Cons.IH [OF c(1)] by (simp del: typed.simps)
qed

definition idle_keyboard :: keyboard where
  "idle_keyboard =
     \<lparr>keyboard_buffer = replicate 128 NUL, buffer_head = 0, buffer_tail = 0, shift_active = False\<rparr>"

lemma idle_keyboard_ok: "keyboard_ok idle_keyboard" "contents idle_keyboard = []" "\<not> shift_active idle_keyboard"
  by (simp_all add: idle_keyboard_def keyboard_ok_def KEYBOARD_BUFFER_SIZE_def contents_def waiting_def)

text \<open>C11: 
  C0: what the shell reads is what was typed. Whatever scan codes arrive while nobody reads, the
  characters \<open>keyboard_getchar\<close> then hands out, one after the other, are those that waited before
  followed by those the codes type with the shift state followed through, in order, cut after 127:
  the ring loses the newest keys and never an older one, and shows no stale slot.
\<close>

theorem keyboard_delivers:
  assumes "keyboard_ok k"
  shows "\<exists>k'. drain take_char 127 (fold keyboard_callback codes k) =
    (take 127 (contents k @ typed (shift_active k) codes), k') \<and> contents k' = []"
proof -
  have c: "keyboard_ok (fold keyboard_callback codes k)"
    "contents (fold keyboard_callback codes k) = take 127 (contents k @ typed (shift_active k) codes)"
    using callbacks_type [OF assms] by simp_all
  show ?thesis using keyboard_queue.drain_upto [OF c(1) keyboard_queue.room [OF c(1)]] unfolding c(2) by blast
qed

theorem keyboard_delivers_witness:
  "\<exists>k'. drain take_char 127 (fold keyboard_callback [42, 35, 163, 170, 23, 28] idle_keyboard) = (''Hi'' @ [LF], k') \<and>
     contents k' = []"
proof -
  have "typed False [42, 35, 163, 170, 23, 28] = ''Hi'' @ [LF]" by code_simp
  then show ?thesis
    using keyboard_delivers [OF idle_keyboard_ok(1), of "[42, 35, 163, 170, 23, 28]"] by (simp add: idle_keyboard_ok)
qed

text \<open>The codes of the keypad's minus and plus keys are 74 and 78; the tables have them four places later.\<close>

lemma keypad_shifted: "typed sh [74] = [] \<and> typed sh [78] = ''-'' \<and> typed sh [82] = ''+''"
proof -
  have "typed True [74] = [] \<and> typed True [78] = ''-'' \<and> typed True [82] = ''+''" by code_simp
  moreover have "typed False [74] = [] \<and> typed False [78] = ''-'' \<and> typed False [82] = ''+''" by code_simp
  ultimately show ?thesis by (cases sh) (simp_all del: typed.simps)
qed

end
