(* ===== verification/Tasks.thy ===== *)
theory Tasks
  imports CString
begin

text \<open>
  The task table of the x86 kernel, \<open>src/kernel/task.c\<close>: sixteen slots, the first the shell's. A
  program runs to its end before \<open>task_run_program\<close> returns, so that function is in two parts here,
  before and after the call into the program; LegacyKernel puts them together with what happens in
  between. The memory at \<open>PROGRAM_LOAD_ADDR\<close> is the field \<open>program_memory\<close>.
\<close>

definition MAX_TASKS :: nat where "MAX_TASKS = 16"
definition MAX_PROGRAM_SIZE :: nat where "MAX_PROGRAM_SIZE = 64 * 1024"
definition TASK_NAME_MAX :: nat where "TASK_NAME_MAX = 32"

datatype task_state = TASK_READY | TASK_RUNNING | TASK_ZOMBIE

record task_t =
  pid :: int
  task_name :: string
  state :: task_state
  runtime_ticks :: u32
  kernel_task :: bool

record task_table =
  g_tasks :: "task_t list"
  g_task_count :: nat
  g_current_task :: nat
  program_memory :: bytes

text \<open>\<open>strncpy\<close> into the name field and the terminator put after it keep the first 31 octets.\<close>

definition add_task :: "string \<Rightarrow> bool \<Rightarrow> task_state \<Rightarrow> task_table \<Rightarrow> task_table" where
  "add_task name in_kernel s t =
     (if g_task_count t \<ge> MAX_TASKS then t
      else t\<lparr>g_tasks := (g_tasks t)[g_task_count t :=
                \<lparr>pid = int (g_task_count t) + 1, task_name = take (TASK_NAME_MAX - 1) name, state = s,
                 runtime_ticks = 0, kernel_task = in_kernel\<rparr>],
             g_task_count := g_task_count t + 1\<rparr>)"

definition task_init :: "task_table \<Rightarrow> task_table" where
  "task_init t = add_task ''shell'' True TASK_RUNNING (t\<lparr>g_task_count := 0, g_current_task := 0\<rparr>)"

definition charge :: "task_t \<Rightarrow> task_t" where
  "charge k = k\<lparr>runtime_ticks := runtime_ticks k + 1\<rparr>"

definition task_tick :: "task_table \<Rightarrow> task_table" where
  "task_tick t =
     (if g_current_task t < g_task_count t
      then t\<lparr>g_tasks := (g_tasks t)[g_current_task t := charge (g_tasks t ! g_current_task t)]\<rparr>
      else t)"

definition set_state :: "nat \<Rightarrow> task_state \<Rightarrow> task_table \<Rightarrow> task_table" where
  "set_state i s t = t\<lparr>g_tasks := (g_tasks t)[i := (g_tasks t ! i)\<lparr>state := s\<rparr>]\<rparr>"

text \<open>The part of \<open>task_run_program\<close> before the call into the program, and the part after it.\<close>

definition task_enter :: "string \<Rightarrow> bytes \<Rightarrow> task_table \<Rightarrow> task_table" where
  "task_enter name img t =
     (let parent = g_current_task t; slot = g_task_count t;
          t = add_task name False TASK_READY t;
          t = t\<lparr>program_memory := img @ replicate (MAX_PROGRAM_SIZE - length img) NUL\<rparr>
      in (set_state slot TASK_RUNNING (set_state parent TASK_READY t))\<lparr>g_current_task := slot\<rparr>)"

definition task_leave :: "nat \<Rightarrow> nat \<Rightarrow> task_table \<Rightarrow> task_table" where
  "task_leave parent slot t =
     set_state parent TASK_RUNNING ((set_state slot TASK_ZOMBIE t)\<lparr>g_current_task := parent\<rparr>)"

definition task_refused :: "bytes \<Rightarrow> task_table \<Rightarrow> bool" where
  "task_refused img t \<longleftrightarrow> g_task_count t \<ge> MAX_TASKS \<or> length img = 0 \<or> length img > MAX_PROGRAM_SIZE"

section \<open>The table is well formed\<close>

text \<open>
  \<open>table_wf cur t\<close>: the slots in use carry their own number as process id, the one named current
  is \<open>cur\<close> and is the only one running.
\<close>

definition used :: "task_table \<Rightarrow> task_t list" where
  "used t = take (g_task_count t) (g_tasks t)"

definition table_wf :: "task_table \<Rightarrow> bool" where
  "table_wf t \<longleftrightarrow> length (g_tasks t) = MAX_TASKS \<and> g_task_count t \<le> MAX_TASKS \<and> g_current_task t < g_task_count t \<and>
     (\<forall>i < g_task_count t. pid (g_tasks t ! i) = int i + 1 \<and> length (task_name (g_tasks t ! i)) < TASK_NAME_MAX \<and>
        (state (g_tasks t ! i) = TASK_RUNNING \<longleftrightarrow> i = g_current_task t))"

text \<open>What a tick changes: the ticks of the current slot, and nothing else.\<close>

definition total_ticks :: "task_table \<Rightarrow> u32" where
  "total_ticks t = sum_list (map runtime_ticks (used t))"

lemma sum_list_update_word:
  "i < length xs \<Longrightarrow> sum_list (xs[i := v]) = sum_list xs - xs ! i + (v :: 'a :: ring_1)"
  by (induction xs arbitrary: i) (auto split: nat.splits)

lemma init_wf: "length (g_tasks t) = MAX_TASKS \<Longrightarrow> table_wf (task_init t) \<and> total_ticks (task_init t) = 0"
  by (cases "g_tasks t")
     (auto simp: task_init_def add_task_def table_wf_def total_ticks_def used_def MAX_TASKS_def TASK_NAME_MAX_def)

lemma tick_wf:
  assumes "table_wf t"
  shows "table_wf (task_tick t) \<and> total_ticks (task_tick t) = total_ticks t + 1 \<and>
    g_task_count (task_tick t) = g_task_count t \<and> g_current_task (task_tick t) = g_current_task t"
proof -
  have l: "g_current_task t < length (take (g_task_count t) (g_tasks t))"
    using assms by (auto simp: table_wf_def)
  have "total_ticks (task_tick t) = total_ticks t + 1"
    using assms l by (simp add: task_tick_def table_wf_def total_ticks_def used_def take_update_swap map_update
        sum_list_update_word charge_def)
  moreover have "table_wf (task_tick t)"
    using assms by (auto simp: task_tick_def table_wf_def nth_list_update charge_def)
  ultimately show ?thesis by (simp add: task_tick_def)
qed

lemma enter_wf:
  assumes "table_wf t" "\<not> task_refused img t"
  shows "table_wf (task_enter name img t) \<and> total_ticks (task_enter name img t) = total_ticks t \<and>
    g_task_count (task_enter name img t) = Suc (g_task_count t) \<and> g_current_task (task_enter name img t) = g_task_count t \<and>
    program_memory (task_enter name img t) = img @ replicate (MAX_PROGRAM_SIZE - length img) NUL"
proof -
  have c: "g_task_count t < 16" "g_current_task t < g_task_count t" "length (g_tasks t) = 16"
    using assms by (auto simp: table_wf_def task_refused_def MAX_TASKS_def)
  have w: "table_wf (task_enter name img t)"
    using assms c
    by (auto simp: task_enter_def add_task_def set_state_def table_wf_def task_refused_def MAX_TASKS_def TASK_NAME_MAX_def
        nth_list_update less_Suc_eq Let_def)
  have "map runtime_ticks (used (task_enter name img t)) = map runtime_ticks (used t) @ [0]"
    using c by (simp add: task_enter_def add_task_def set_state_def used_def MAX_TASKS_def Let_def
        list_eq_iff_nth_eq nth_append nth_list_update less_Suc_eq)
  then have "total_ticks (task_enter name img t) = total_ticks t" by (simp add: total_ticks_def)
  with w show ?thesis using c by (simp add: task_enter_def add_task_def set_state_def MAX_TASKS_def Let_def)
qed

text \<open>The table between two programs: the shell, slot 0, runs, and every other slot is spent.\<close>

definition at_prompt :: "task_table \<Rightarrow> bool" where
  "at_prompt t \<longleftrightarrow> table_wf t \<and> g_current_task t = 0 \<and> (\<forall>i \<in> {1 ..< g_task_count t}. state (g_tasks t ! i) = TASK_ZOMBIE)"

text \<open>The table while a program runs that was started at the prompt.\<close>

definition in_program :: "task_table \<Rightarrow> bool" where
  "in_program t \<longleftrightarrow> table_wf t \<and> g_task_count t = Suc (g_current_task t) \<and> 0 < g_current_task t \<and>
     state (g_tasks t ! 0) = TASK_READY \<and> (\<forall>i \<in> {1 ..< g_current_task t}. state (g_tasks t ! i) = TASK_ZOMBIE)"

lemma init_at_prompt: "length (g_tasks t) = MAX_TASKS \<Longrightarrow> at_prompt (task_init t)"
  using init_wf [of t] by (simp add: at_prompt_def) (simp add: task_init_def add_task_def MAX_TASKS_def)

lemma tick_state [simp]: "state (g_tasks (task_tick t) ! i) = state (g_tasks t ! i)"
  by (cases "g_current_task t < length (g_tasks t)") (auto simp: task_tick_def charge_def nth_list_update list_update_beyond)

lemma tick_at_prompt: "at_prompt t \<Longrightarrow> at_prompt (task_tick t)"
  using tick_wf [of t] by (auto simp: at_prompt_def)

lemma tick_in_program: "in_program t \<Longrightarrow> in_program (task_tick t)"
  using tick_wf [of t] by (auto simp: in_program_def)

lemma enter_in_program:
  assumes "at_prompt t" "\<not> task_refused img t"
  shows "in_program (task_enter name img t)"
proof -
  have c: "g_task_count t < 16" "0 < g_task_count t" "length (g_tasks t) = 16" "g_current_task t = 0"
    using assms by (auto simp: at_prompt_def table_wf_def task_refused_def MAX_TASKS_def)
  show ?thesis
    using assms enter_wf [of t img name] c
    by (auto simp: in_program_def at_prompt_def task_enter_def add_task_def set_state_def MAX_TASKS_def Let_def nth_list_update)
qed

lemma leave_at_prompt:
  assumes "in_program t"
  shows "at_prompt (task_leave 0 (g_current_task t) t) \<and> total_ticks (task_leave 0 (g_current_task t) t) = total_ticks t \<and>
    g_task_count (task_leave 0 (g_current_task t) t) = g_task_count t \<and>
    pid (g_tasks (task_leave 0 (g_current_task t) t) ! g_current_task t) = int (g_current_task t) + 1"
proof -
  let ?t = "task_leave 0 (g_current_task t) t"
  have c: "g_task_count t = Suc (g_current_task t)" "0 < g_current_task t" "g_current_task t < length (g_tasks t)" "g_tasks t \<noteq> []"
    using assms by (auto simp: in_program_def table_wf_def)
  have n: "g_tasks ?t ! i = (if i = 0 then (g_tasks t ! 0)\<lparr>state := TASK_RUNNING\<rparr>
      else if i = g_current_task t then (g_tasks t ! i)\<lparr>state := TASK_ZOMBIE\<rparr> else g_tasks t ! i)" for i
    using c by (cases "i = 0") (auto simp: task_leave_def set_state_def nth_list_update)
  have f: "g_task_count ?t = g_task_count t" "g_current_task ?t = 0" "length (g_tasks ?t) = length (g_tasks t)"
    by (simp_all add: task_leave_def set_state_def)
  have old: "pid (g_tasks t ! i) = int i + 1" "length (task_name (g_tasks t ! i)) < TASK_NAME_MAX"
    "i \<noteq> 0 \<Longrightarrow> i \<noteq> g_current_task t \<Longrightarrow> state (g_tasks t ! i) = TASK_ZOMBIE" if "i < g_task_count t" for i
    using assms that c by (auto simp: in_program_def table_wf_def)
  have wf: "table_wf ?t"
    unfolding table_wf_def f
  proof (intro conjI allI impI)
    fix i assume "i < g_task_count t"
    then show "pid (g_tasks ?t ! i) = int i + 1" "length (task_name (g_tasks ?t ! i)) < TASK_NAME_MAX"
      "(state (g_tasks ?t ! i) = TASK_RUNNING) = (i = 0)"
      using old [of i] by (auto simp: n)
  qed (use assms in \<open>auto simp: in_program_def table_wf_def\<close>)
  have "at_prompt ?t"
    unfolding at_prompt_def f
  proof (intro conjI ballI refl wf)
    fix i assume "i \<in> {1 ..< g_task_count t}"
    then have "i < g_task_count t" "i \<noteq> 0" by simp_all
    then show "state (g_tasks ?t ! i) = TASK_ZOMBIE" using old(3) [of i] unfolding n by (cases "i = g_current_task t") simp_all
  qed
  moreover have "map runtime_ticks (used ?t) = map runtime_ticks (used t)"
    unfolding used_def f
  proof (intro nth_equalityI)
    fix i assume "i < length (map runtime_ticks (take (g_task_count t) (g_tasks ?t)))"
    then show "map runtime_ticks (take (g_task_count t) (g_tasks ?t)) ! i = map runtime_ticks (take (g_task_count t) (g_tasks t)) ! i"
      using f(3) by (simp add: n)
  qed (simp add: f(3))
  moreover have "pid (g_tasks ?t ! g_current_task t) = int (g_current_task t) + 1"
    using assms c by (auto simp: n in_program_def table_wf_def)
  ultimately show ?thesis by (simp add: total_ticks_def f)
qed

end
