(* ===== verification/LegacyKernel.thy ===== *)
theory LegacyKernel
  imports Terminal Keyboard LegacyFs Tasks
begin

unbundle bit_operations_syntax

text \<open>
  The x86 kernel around its drivers: descriptor tables (\<open>drivers/gdt.c\<close>, \<open>drivers/idt.c\<close>), page
  directory (\<open>kernel/paging.c\<close>), timer (\<open>drivers/timer.c\<close>), interrupt dispatch
  (\<open>kernel/interrupts.c\<close>), system calls (\<open>kernel/syscall.c\<close>), the program loader of
  \<open>kernel/task.c\<close> and the start of the kernel (\<open>kernel/kmain.c\<close>).

  The state is one record, \<open>machine\<close>. The kernel is entered by a trap: a vector with the saved
  registers, the octet that then waits at the keyboard's port, and the memory. A handler that never
  comes back (the loop after an exception, a text without terminator) is the state \<open>halted\<close>. What a
  program does between its start and its return is a list of traps. The addresses the linker
  chooses are in the record \<open>linked\<close>.
\<close>

section \<open>Registers and traps\<close>

record registers =
  ds :: u32
  edi :: u32
  esi :: u32
  ebp :: u32
  esp :: u32
  ebx :: u32
  edx :: u32
  ecx :: u32
  eax :: u32
  int_no :: u32
  err_code :: u32
  eip :: u32
  cs :: u32
  eflags :: u32
  useresp :: u32
  ss :: u32

record trap =
  regs :: registers
  scancode :: u8
  memory :: mem

section \<open>Descriptor tables\<close>

record gdt_entry =
  limit_low :: u16
  gdt_base_low :: u16
  base_middle :: u8
  access :: u8
  granularity :: u8
  gdt_base_high :: u8

definition gdt_gate :: "u32 \<Rightarrow> u32 \<Rightarrow> u8 \<Rightarrow> u8 \<Rightarrow> gdt_entry" where
  "gdt_gate base limit acc gran =
     \<lparr>limit_low = ucast (limit AND 0xFFFF), gdt_base_low = ucast (base AND 0xFFFF),
      base_middle = ucast (drop_bit 16 base AND 0xFF), access = acc,
      granularity = ucast (drop_bit 16 limit AND 0x0F) OR (gran AND 0xF0),
      gdt_base_high = ucast (drop_bit 24 base AND 0xFF)\<rparr>"

definition gdt_set_gate :: "nat \<Rightarrow> u32 \<Rightarrow> u32 \<Rightarrow> u8 \<Rightarrow> u8 \<Rightarrow> gdt_entry list \<Rightarrow> gdt_entry list" where
  "gdt_set_gate index base limit acc gran es = es[index := gdt_gate base limit acc gran]"

record idt_entry =
  idt_base_low :: u16
  selector :: u16
  always_zero :: u8
  flags :: u8
  idt_base_high :: u16

definition idt_set_gate :: "nat \<Rightarrow> u32 \<Rightarrow> u16 \<Rightarrow> u8 \<Rightarrow> idt_entry list \<Rightarrow> idt_entry list" where
  "idt_set_gate num base sel fl es =
     es[num := \<lparr>idt_base_low = ucast (base AND 0xFFFF), selector = sel, always_zero = 0, flags = fl,
                idt_base_high = ucast (drop_bit 16 base AND 0xFFFF)\<rparr>]"

definition no_gate :: idt_entry where
  "no_gate = \<lparr>idt_base_low = 0, selector = 0, always_zero = 0, flags = 0, idt_base_high = 0\<rparr>"

section \<open>The machine\<close>

datatype handler = timer_handler | keyboard_handler | syscall_handler

record linked =
  isr :: "nat \<Rightarrow> u32"
  idt_addr :: u32
  gdt_addr :: u32
  page_directory_addr :: u32

record cpu =
  gdtr :: "u16 \<times> u32"
  idtr :: "u16 \<times> u32"
  cr0 :: u32
  cr3 :: u32
  cr4 :: u32

record machine =
  screen :: terminal
  keys :: keyboard
  tasks :: task_table
  store :: fs_state
  g_ticks :: u32
  interrupt_handlers :: "handler option list"
  gdt_entries :: "gdt_entry list"
  idt_entries :: "idt_entry list"
  page_directory :: "u32 list"
  processor :: cpu
  port_writes :: "(nat \<times> u8) list"
  interrupts_enabled :: bool
  halted :: bool

definition outb :: "nat \<Rightarrow> u8 \<Rightarrow> machine \<Rightarrow> machine" where
  "outb port v m = m\<lparr>port_writes := port_writes m @ [(port, v)]\<rparr>"

definition io_wait :: "machine \<Rightarrow> machine" where
  "io_wait = outb 0x80 0"

definition on_screen :: "(terminal \<Rightarrow> terminal) \<Rightarrow> machine \<Rightarrow> machine" where
  "on_screen f m = m\<lparr>screen := f (screen m)\<rparr>"

definition gdt_install :: "linked \<Rightarrow> machine \<Rightarrow> machine" where
  "gdt_install l m =
     m\<lparr>gdt_entries := (gdt_set_gate 4 0 0xFFFFFFFF 0xF2 0xCF \<circ> gdt_set_gate 3 0 0xFFFFFFFF 0xFA 0xCF \<circ>
          gdt_set_gate 2 0 0xFFFFFFFF 0x92 0xCF \<circ> gdt_set_gate 1 0 0xFFFFFFFF 0x9A 0xCF \<circ> gdt_set_gate 0 0 0 0 0) (gdt_entries m),
       processor := (processor m)\<lparr>gdtr := (5 * 8 - 1, gdt_addr l)\<rparr>\<rparr>"

definition idt_install :: "linked \<Rightarrow> machine \<Rightarrow> machine" where
  "idt_install l m =
     m\<lparr>idt_entries := replicate 256 no_gate, processor := (processor m)\<lparr>idtr := (256 * 8 - 1, idt_addr l)\<rparr>\<rparr>"

text \<open>The runs of \<open>idt_set_gate\<close> calls, one for each vector in turn.\<close>

definition set_gates :: "linked \<Rightarrow> nat list \<Rightarrow> u8 \<Rightarrow> machine \<Rightarrow> machine" where
  "set_gates l vs fl m = m\<lparr>idt_entries := fold (\<lambda>v. idt_set_gate v (isr l v) 0x08 fl) vs (idt_entries m)\<rparr>"

definition register_interrupt_handler :: "nat \<Rightarrow> handler \<Rightarrow> machine \<Rightarrow> machine" where
  "register_interrupt_handler num h m = m\<lparr>interrupt_handlers := (interrupt_handlers m)[num := Some h]\<rparr>"

definition pic_remap :: "machine \<Rightarrow> machine" where
  "pic_remap m =
     (outb 0xA1 0x00 \<circ> outb 0x21 0x00 \<circ> io_wait \<circ> outb 0xA1 0x01 \<circ> io_wait \<circ> outb 0x21 0x01 \<circ>
      io_wait \<circ> outb 0xA1 0x02 \<circ> io_wait \<circ> outb 0x21 0x04 \<circ> io_wait \<circ> outb 0xA1 0x28 \<circ> io_wait \<circ> outb 0x21 0x20 \<circ>
      io_wait \<circ> outb 0xA0 0x11 \<circ> io_wait \<circ> outb 0x20 0x11) m"

definition pic_send_eoi :: "nat \<Rightarrow> machine \<Rightarrow> machine" where
  "pic_send_eoi irq m = outb 0x20 0x20 (if irq \<ge> 8 then outb 0xA0 0x20 m else m)"

definition isr_install :: "linked \<Rightarrow> machine \<Rightarrow> machine" where
  "isr_install l = set_gates l [0 ..< 32] 0x8E"

definition irq_install :: "linked \<Rightarrow> machine \<Rightarrow> machine" where
  "irq_install l m = set_gates l [32 ..< 48] 0x8E (pic_remap m)"

definition paging_install :: "linked \<Rightarrow> machine \<Rightarrow> machine" where
  "paging_install l m =
     (let cpu = processor m
      in m\<lparr>page_directory := map (\<lambda>i. word_of_nat i * 0x400000 OR 0x83) [0 ..< 16] @ replicate 1008 0,
           processor := cpu\<lparr>cr3 := page_directory_addr l, cr4 := cr4 cpu OR 0x10, cr0 := cr0 cpu OR 0x80000000\<rparr>\<rparr>)"

section \<open>Handlers\<close>

definition timer_callback :: "machine \<Rightarrow> machine" where
  "timer_callback m = m\<lparr>g_ticks := g_ticks m + 1, tasks := task_tick (tasks m)\<rparr>"

definition timer_ticks :: "machine \<Rightarrow> u32" where
  "timer_ticks m = g_ticks m"

definition timer_install :: "u32 \<Rightarrow> machine \<Rightarrow> machine" where
  "timer_install frequency_hz m =
     (let divisor = 1193180 div frequency_hz
      in register_interrupt_handler 32 timer_handler
           (outb 0x40 (ucast (drop_bit 8 divisor AND 0xFF)) (outb 0x40 (ucast (divisor AND 0xFF)) (outb 0x43 0x36 m))))"

definition keyboard_install :: "machine \<Rightarrow> machine" where
  "keyboard_install = register_interrupt_handler 33 keyboard_handler"

definition syscall_install :: "linked \<Rightarrow> machine \<Rightarrow> machine" where
  "syscall_install l m = register_interrupt_handler 128 syscall_handler (set_gates l [128] 0xEE m)"

definition SYS_WRITE :: u32 where "SYS_WRITE = 1"
definition SYS_CLEAR :: u32 where "SYS_CLEAR = 2"
definition SYS_TICKS :: u32 where "SYS_TICKS = 3"

text \<open>The length a write is asked for, or the text's own for 0; none where the text has no end.\<close>

definition write_length :: "mem \<Rightarrow> nat \<Rightarrow> u32 \<Rightarrow> u32 option" where
  "write_length mm p len = (if len = 0 then map_option word_of_nat (strlen mm p) else Some len)"

definition syscall_handle :: "mem \<Rightarrow> registers \<Rightarrow> machine \<Rightarrow> registers \<times> machine" where
  "syscall_handle mm r m =
     (if eax r = SYS_WRITE then
        (if ebx r = 0 then (r\<lparr>eax := 0xFFFFFFFF\<rparr>, m)
         else case write_length mm (unat (ebx r)) (ecx r) of
             None \<Rightarrow> (r, m\<lparr>halted := True\<rparr>)
           | Some len \<Rightarrow> (r\<lparr>eax := len\<rparr>, on_screen (fold terminal_putchar (bytes_at mm (unat (ebx r)) (unat len))) m))
      else if eax r = SYS_CLEAR then (r\<lparr>eax := 0\<rparr>, on_screen terminal_clear m)
      else if eax r = SYS_TICKS then (r\<lparr>eax := timer_ticks m\<rparr>, m)
      else (r\<lparr>eax := 0xFFFFFFFF\<rparr>, m))"

definition exception_messages :: "string list" where
  "exception_messages =
     [''Division by zero'', ''Debug'', ''Non-maskable interrupt'', ''Breakpoint'', ''Overflow'', ''Bound range exceeded'',
      ''Invalid opcode'', ''Device not available'', ''Double fault'', ''Coprocessor segment overrun'', ''Invalid TSS'',
      ''Segment not present'', ''Stack-segment fault'', ''General protection fault'', ''Page fault'', ''Reserved'',
      ''x87 floating-point exception'', ''Alignment check'', ''Machine check'', ''SIMD floating-point exception'',
      ''Virtualization exception'', ''Control protection exception'', ''Reserved'', ''Reserved'', ''Reserved'', ''Reserved'',
      ''Reserved'', ''Reserved'', ''Hypervisor injection exception'', ''VMM communication exception'', ''Security exception'',
      ''Reserved'']"

definition exception_report :: "registers \<Rightarrow> terminal \<Rightarrow> terminal" where
  "exception_report r =
     terminal_writeline '''' \<circ> terminal_write_hex (eip r) \<circ> terminal_write ''EIP: '' \<circ>
     terminal_writeline '''' \<circ> terminal_write_hex (err_code r) \<circ> terminal_write ''Error: '' \<circ>
     terminal_writeline '''' \<circ> terminal_write (exception_messages ! unat (int_no r)) \<circ>
     terminal_writeline '''' \<circ> terminal_write_dec (int_no r) \<circ> terminal_write ''Vector: '' \<circ>
     terminal_writeline ''Kernel exception'' \<circ> terminal_writeline ''''"

definition call_handler :: "handler \<Rightarrow> trap \<Rightarrow> machine \<Rightarrow> registers \<times> machine" where
  "call_handler h t m =
     (case h of
        timer_handler \<Rightarrow> (regs t, timer_callback m)
      | keyboard_handler \<Rightarrow> (regs t, m\<lparr>keys := keyboard_callback (scancode t) (keys m)\<rparr>)
      | syscall_handler \<Rightarrow> syscall_handle (memory t) (regs t) m)"

definition interrupt_dispatch :: "trap \<Rightarrow> machine \<Rightarrow> registers \<times> machine" where
  "interrupt_dispatch t m =
     (let n = unat (int_no (regs t));
          (r, m) = (case interrupt_handlers m ! n of
                      Some h \<Rightarrow> call_handler h t m
                    | None \<Rightarrow> if n < 32 then (regs t, (on_screen (exception_report (regs t)) m)\<lparr>halted := True\<rparr>) else (regs t, m))
      in if halted m then (r, m)
         else if 32 \<le> n \<and> n \<le> 47 then (r, pic_send_eoi (n - 32) m)
         else (r, m))"

text \<open>Traps one after the other; a machine that has stopped takes none.\<close>

definition take_trap :: "trap \<Rightarrow> machine \<Rightarrow> machine" where
  "take_trap t m = (if halted m then m else snd (interrupt_dispatch t m))"

definition take_traps :: "trap list \<Rightarrow> machine \<Rightarrow> machine" where
  "take_traps = fold take_trap"

section \<open>Programs\<close>

text \<open>
  \<open>task_run_program\<close>: the result is none when the machine stopped while the program ran. The
  program, machine code at a fixed address, is the argument \<open>program\<close>: the traps it runs into, which
  may depend on its image and on the machine it starts on.
\<close>

definition task_run_program ::
  "(bytes \<Rightarrow> machine \<Rightarrow> trap list) \<Rightarrow> string \<Rightarrow> bytes \<Rightarrow> machine \<Rightarrow> machine \<times> int option" where
  "task_run_program program name img m =
     (if task_refused img (tasks m) then (m, Some (- 1))
      else let parent = g_current_task (tasks m); slot = g_task_count (tasks m);
               m = m\<lparr>tasks := task_enter name img (tasks m)\<rparr>;
               m = take_traps (program (program_memory (tasks m)) m) m
           in if halted m then (m, None)
              else let m = m\<lparr>tasks := task_leave parent slot (tasks m)\<rparr>
                   in (m, Some (pid (g_tasks (tasks m) ! slot))))"

section \<open>Start\<close>

definition boot_devices :: "linked \<Rightarrow> machine \<Rightarrow> machine" where
  "boot_devices l m =
     (keyboard_install \<circ> timer_install 100 \<circ> (\<lambda>m. m\<lparr>tasks := task_init (tasks m)\<rparr>) \<circ> paging_install l \<circ>
      syscall_install l \<circ> irq_install l \<circ> isr_install l \<circ> idt_install l \<circ> gdt_install l) m"

definition boot_banner :: "terminal \<Rightarrow> terminal" where
  "boot_banner =
     terminal_set_color VGA_COLOR_LIGHT_GREY VGA_COLOR_BLACK \<circ> terminal_writeline ''SNSX kernel booting...'' \<circ>
     terminal_set_color VGA_COLOR_LIGHT_CYAN VGA_COLOR_BLACK \<circ> terminal_initialize"

definition boot_report :: "bool \<Rightarrow> nat \<Rightarrow> terminal \<Rightarrow> terminal" where
  "boot_report initrd_loaded n =
     terminal_writeline '''' \<circ> terminal_write_dec (word_of_nat n) \<circ> terminal_write ''Mounted entries: '' \<circ>
     terminal_writeline (if initrd_loaded then ''initrd image copied into writable RAM VFS'' else ''built-in fallback VFS'') \<circ>
     terminal_write ''Storage layer: ''"

text \<open>\<open>kernel_main\<close> up to the call of the shell.\<close>

definition kernel_start :: "linked \<Rightarrow> mem \<Rightarrow> nat \<Rightarrow> nat \<Rightarrow> machine \<Rightarrow> machine" where
  "kernel_start l mm magic info m =
     (let m = boot_devices l (on_screen boot_banner m);
          (st, initrd_loaded) = fs_init mm magic info (store m);
          m = m\<lparr>store := st\<rparr>;
          m = on_screen (boot_report initrd_loaded (fs_count st)) m
      in m\<lparr>interrupts_enabled := True\<rparr>)"

section \<open>What boot leaves behind\<close>

text \<open>The memory of a machine before its start, as the loader leaves it: static data is zero.\<close>

definition powered_on :: "machine \<Rightarrow> bool" where
  "powered_on m \<longleftrightarrow> g_ticks m = 0 \<and> interrupt_handlers m = replicate 256 None \<and> length (g_tasks (tasks m)) = MAX_TASKS \<and>
     keys m = idle_keyboard \<and> length (gdt_entries m) = 5 \<and> length (idt_entries m) = 256 \<and> \<not> halted m"

definition booted_handlers :: "handler option list" where
  "booted_handlers = (((replicate 256 None)[128 := Some syscall_handler])[32 := Some timer_handler])[33 := Some keyboard_handler]"

lemma booted_handlers_nth:
  "n < 256 \<Longrightarrow> booted_handlers ! n =
     (if n = 32 then Some timer_handler else if n = 33 then Some keyboard_handler else if n = 128 then Some syscall_handler else None)"
  by (auto simp: booted_handlers_def nth_list_update)

lemma outb_fields [simp]:
  "screen (outb p v m) = screen m" "keys (outb p v m) = keys m" "tasks (outb p v m) = tasks m" "store (outb p v m) = store m"
  "g_ticks (outb p v m) = g_ticks m" "interrupt_handlers (outb p v m) = interrupt_handlers m"
  "gdt_entries (outb p v m) = gdt_entries m" "idt_entries (outb p v m) = idt_entries m"
  "page_directory (outb p v m) = page_directory m" "processor (outb p v m) = processor m"
  "halted (outb p v m) = halted m" "port_writes (outb p v m) = port_writes m @ [(p, v)]"
  by (simp_all add: outb_def)

lemma on_screen_fields [simp]:
  "screen (on_screen f m) = f (screen m)" "keys (on_screen f m) = keys m" "tasks (on_screen f m) = tasks m" "store (on_screen f m) = store m"
  "g_ticks (on_screen f m) = g_ticks m" "interrupt_handlers (on_screen f m) = interrupt_handlers m"
  "gdt_entries (on_screen f m) = gdt_entries m" "idt_entries (on_screen f m) = idt_entries m"
  "page_directory (on_screen f m) = page_directory m" "processor (on_screen f m) = processor m"
  "halted (on_screen f m) = halted m" "port_writes (on_screen f m) = port_writes m"
  by (simp_all add: on_screen_def)

lemmas install_defs = boot_devices_def gdt_install_def idt_install_def isr_install_def irq_install_def pic_remap_def
  syscall_install_def paging_install_def timer_install_def keyboard_install_def register_interrupt_handler_def
  set_gates_def io_wait_def Let_def

text \<open>The state every trap and every program run keeps.\<close>

definition kernel_ok :: "machine \<Rightarrow> bool" where
  "kernel_ok m \<longleftrightarrow> interrupt_handlers m = booted_handlers \<and> keyboard_ok (keys m) \<and> table_wf (tasks m) \<and>
     total_ticks (tasks m) = g_ticks m"

lemma kernel_start_fields:
  "interrupt_handlers (kernel_start l mm magic info m) = interrupt_handlers (boot_devices l m)"
  "keys (kernel_start l mm magic info m) = keys (boot_devices l m)"
  "tasks (kernel_start l mm magic info m) = tasks (boot_devices l m)"
  "g_ticks (kernel_start l mm magic info m) = g_ticks (boot_devices l m)"
  "halted (kernel_start l mm magic info m) = halted (boot_devices l m)"
  "idt_entries (kernel_start l mm magic info m) = idt_entries (boot_devices l m)"
  "gdt_entries (kernel_start l mm magic info m) = gdt_entries (boot_devices l m)"
  "page_directory (kernel_start l mm magic info m) = page_directory (boot_devices l m)"
  by (simp_all add: kernel_start_def install_defs split: prod.split)

lemma start_ok:
  assumes "powered_on m"
  shows "kernel_ok (kernel_start l mm magic info m) \<and> \<not> halted (kernel_start l mm magic info m) \<and>
    at_prompt (tasks (kernel_start l mm magic info m)) \<and> g_task_count (tasks (kernel_start l mm magic info m)) = 1"
proof -
  let ?t = "tasks m"
  have "length (g_tasks ?t) = MAX_TASKS" using assms by (simp add: powered_on_def)
  then have t: "table_wf (task_init ?t)" "total_ticks (task_init ?t) = 0" "at_prompt (task_init ?t)"
    using init_wf init_at_prompt by blast+
  have c: "g_task_count (task_init ?t) = 1" by (simp add: task_init_def add_task_def MAX_TASKS_def)
  have b: "interrupt_handlers (boot_devices l m) = booted_handlers" "keys (boot_devices l m) = keys m"
    "tasks (boot_devices l m) = task_init ?t" "g_ticks (boot_devices l m) = g_ticks m" "halted (boot_devices l m) = halted m"
    using assms by (simp_all add: install_defs booted_handlers_def powered_on_def)
  show ?thesis
    using assms t c by (simp add: kernel_ok_def kernel_start_fields b powered_on_def idle_keyboard_ok)
qed

section \<open>Traps\<close>

definition vector_ok :: "trap \<Rightarrow> bool" where
  "vector_ok t \<longleftrightarrow> int_no (regs t) < 48 \<or> int_no (regs t) = 128"

definition is_tick :: "trap \<Rightarrow> bool" where
  "is_tick t \<longleftrightarrow> int_no (regs t) = 32"

lemma vector_less: "vector_ok t \<Longrightarrow> unat (int_no (regs t)) < 256"
  by (auto simp: vector_ok_def word_less_nat_alt)

lemma vector_nth:
  assumes "vector_ok t"
  shows "booted_handlers ! unat (int_no (regs t)) =
    (if int_no (regs t) = 32 then Some timer_handler else if int_no (regs t) = 33 then Some keyboard_handler
     else if int_no (regs t) = 128 then Some syscall_handler else None)"
  using vector_less [OF assms] by (auto simp: booted_handlers_nth word_unat_eq_iff)

text \<open>The interrupt controllers' acknowledgement of a vector.\<close>

definition acknowledgement :: "nat \<Rightarrow> (nat \<times> u8) list" where
  "acknowledgement n =
     (if 40 \<le> n \<and> n \<le> 47 then [(0xA0, 0x20), (0x20, 0x20)] else if 32 \<le> n \<and> n < 40 then [(0x20, 0x20)] else [])"

lemma eoi_writes: "32 \<le> n \<Longrightarrow> n \<le> 47 \<Longrightarrow> port_writes (pic_send_eoi (n - 32) m) = port_writes m @ acknowledgement n"
  by (auto simp: pic_send_eoi_def acknowledgement_def)

lemma eoi_fields [simp]:
  "screen (pic_send_eoi i m) = screen m" "keys (pic_send_eoi i m) = keys m" "tasks (pic_send_eoi i m) = tasks m"
  "store (pic_send_eoi i m) = store m" "g_ticks (pic_send_eoi i m) = g_ticks m"
  "interrupt_handlers (pic_send_eoi i m) = interrupt_handlers m" "halted (pic_send_eoi i m) = halted m"
  by (simp_all add: pic_send_eoi_def)

lemma syscall_fields [simp]:
  "keys (snd (syscall_handle mm r m)) = keys m" "tasks (snd (syscall_handle mm r m)) = tasks m"
  "g_ticks (snd (syscall_handle mm r m)) = g_ticks m" "interrupt_handlers (snd (syscall_handle mm r m)) = interrupt_handlers m"
  "port_writes (snd (syscall_handle mm r m)) = port_writes m" "store (snd (syscall_handle mm r m)) = store m"
  by (auto simp: syscall_handle_def split: option.split)

lemma terminal_output_steady [simp]:
  "keys (m\<lparr>halted := b\<rparr>) = keys m" "tasks (m\<lparr>halted := b\<rparr>) = tasks m"
  by simp_all

text \<open>
  One trap. The saved registers change only by a system call; a tick is charged to the current task;
  the machine stops on an exception, and on a write of a text without end.
\<close>

lemma dispatch_cases:
  assumes "kernel_ok m" "vector_ok t" "\<not> halted m"
  shows "snd (interrupt_dispatch t m) =
    (if int_no (regs t) = 32 then pic_send_eoi 0 (timer_callback m)
     else if int_no (regs t) = 33 then pic_send_eoi 1 (m\<lparr>keys := keyboard_callback (scancode t) (keys m)\<rparr>)
     else if int_no (regs t) = 128 then snd (syscall_handle (memory t) (regs t) m)
     else if int_no (regs t) < 32 then (on_screen (exception_report (regs t)) m)\<lparr>halted := True\<rparr>
     else pic_send_eoi (unat (int_no (regs t)) - 32) m)"
proof -
  have h: "interrupt_handlers m = booted_handlers" using assms by (simp add: kernel_ok_def)
  have lt: "unat (int_no (regs t)) < 32 \<longleftrightarrow> int_no (regs t) < 32" by (simp add: word_less_nat_alt)
  consider "int_no (regs t) = 32" | "int_no (regs t) = 33" | "int_no (regs t) = 128" | "int_no (regs t) < 32"
    | "\<not> int_no (regs t) < 32" "int_no (regs t) < 48" "int_no (regs t) \<noteq> 32" "int_no (regs t) \<noteq> 33"
    using assms(2) by (auto simp: vector_ok_def)
  then show ?thesis
  proof cases
    case 4
    then have "int_no (regs t) \<noteq> 32" "int_no (regs t) \<noteq> 33" "int_no (regs t) \<noteq> 128" by auto
    then show ?thesis using 4 assms by (simp add: interrupt_dispatch_def h vector_nth lt Let_def)
  next
    case 5
    have "int_no (regs t) \<noteq> 128" "32 \<le> unat (int_no (regs t))" "unat (int_no (regs t)) \<le> 47"
      using 5 by (auto simp: word_less_nat_alt)
    then show ?thesis using 5 assms by (simp add: interrupt_dispatch_def h vector_nth lt Let_def)
  qed (use assms in \<open>simp_all add: interrupt_dispatch_def h booted_handlers_nth call_handler_def timer_callback_def Let_def
         split: prod.split\<close>)
qed

lemma trap_keeps:
  assumes "kernel_ok m" "vector_ok t"
  shows "kernel_ok (take_trap t m) \<and>
    tasks (take_trap t m) = (if \<not> halted m \<and> is_tick t then task_tick (tasks m) else tasks m)"
proof (cases "halted m")
  case False
  have e: "take_trap t m = snd (interrupt_dispatch t m)" using False by (simp add: take_trap_def)
  have "table_wf (tasks m)" "keyboard_ok (keys m)" "total_ticks (tasks m) = g_ticks m" using assms by (simp_all add: kernel_ok_def)
  then show ?thesis
    using assms False tick_wf [of "tasks m"] keyboard_queue.push_inv callback_types [of "keys m" "scancode t" "[]"]
    by (simp add: e dispatch_cases kernel_ok_def is_tick_def timer_callback_def)
qed (use assms in \<open>simp add: take_trap_def\<close>)

lemma halted_stays: "halted m \<Longrightarrow> take_traps ts m = m"
  by (induction ts) (simp_all add: take_traps_def take_trap_def)

lemma traps_keep:
  "kernel_ok m \<Longrightarrow> list_all vector_ok ts \<Longrightarrow> kernel_ok (take_traps ts m) \<and>
     (at_prompt (tasks m) \<longrightarrow> at_prompt (tasks (take_traps ts m))) \<and>
     (in_program (tasks m) \<longrightarrow> in_program (tasks (take_traps ts m))) \<and>
     g_task_count (tasks (take_traps ts m)) = g_task_count (tasks m) \<and>
     g_current_task (tasks (take_traps ts m)) = g_current_task (tasks m)"
proof (induction ts arbitrary: m)
  case (Cons t ts)
  have k: "kernel_ok (take_trap t m)"
    "tasks (take_trap t m) = (if \<not> halted m \<and> is_tick t then task_tick (tasks m) else tasks m)"
    using trap_keeps [of m t] Cons.prems by simp_all
  have "table_wf (tasks m)" using Cons.prems by (simp add: kernel_ok_def)
  then have "(at_prompt (tasks m) \<longrightarrow> at_prompt (tasks (take_trap t m)))"
    "(in_program (tasks m) \<longrightarrow> in_program (tasks (take_trap t m)))"
    "g_task_count (tasks (take_trap t m)) = g_task_count (tasks m)" "g_current_task (tasks (take_trap t m)) = g_current_task (tasks m)"
    using tick_wf tick_at_prompt tick_in_program by (simp_all add: k)
  then show ?case using Cons.IH [OF k(1)] Cons.prems by (simp add: take_traps_def)
qed (simp add: take_traps_def)

section \<open>Runs of the kernel\<close>

datatype kernel_op = Traps "trap list" | Run string bytes

fun kernel_step :: "(bytes \<Rightarrow> machine \<Rightarrow> trap list) \<Rightarrow> kernel_op \<Rightarrow> machine \<Rightarrow> machine" where
  "kernel_step program (Traps ts) m = take_traps ts m"
| "kernel_step program (Run name img) m = (if halted m then m else fst (task_run_program program name img m))"

text \<open>Only vectors whose gate is set can be taken, at the prompt and in a program.\<close>

definition program_ok :: "(bytes \<Rightarrow> machine \<Rightarrow> trap list) \<Rightarrow> bool" where
  "program_ok program \<longleftrightarrow> (\<forall>img m. list_all vector_ok (program img m))"

fun op_ok :: "kernel_op \<Rightarrow> bool" where
  "op_ok (Traps ts) = list_all vector_ok ts"
| "op_ok (Run name img) = True"

fun starts :: "kernel_op \<Rightarrow> nat" where
  "starts (Traps ts) = 0"
| "starts (Run name img) = (if img \<noteq> [] \<and> length img \<le> MAX_PROGRAM_SIZE then 1 else 0)"

lemma run_program_keeps:
  assumes k: "kernel_ok m" and a: "at_prompt (tasks m)" and p: "program_ok program" and h: "\<not> halted m"
    and r: "task_run_program program name img m = (m', res)"
  shows "kernel_ok m' \<and> (\<not> halted m' \<longrightarrow> at_prompt (tasks m') \<and>
    g_task_count (tasks m') = (if task_refused img (tasks m) then g_task_count (tasks m) else Suc (g_task_count (tasks m))) \<and>
    res = Some (if task_refused img (tasks m) then - 1 else int (g_task_count (tasks m)) + 1))"
proof (cases "task_refused img (tasks m)")
  case True
  then show ?thesis using r k a by (auto simp: task_run_program_def)
next
  case False
  define m1 where "m1 = m\<lparr>tasks := task_enter name img (tasks m)\<rparr>"
  define m2 where "m2 = take_traps (program (program_memory (tasks m1)) m1) m1"
  have wf: "table_wf (tasks m)" and cur: "g_current_task (tasks m) = 0" using a by (simp_all add: at_prompt_def)
  note e = enter_wf [OF wf False, of name]
  have k1: "kernel_ok m1" using k e by (simp add: kernel_ok_def m1_def)
  have in1: "in_program (tasks m1)" using enter_in_program [OF a False] by (simp add: m1_def)
  have "list_all vector_ok (program (program_memory (tasks m1)) m1)" using p by (simp add: program_ok_def)
  note t = traps_keep [OF k1 this, folded m2_def]
  have slot: "g_current_task (tasks m2) = g_task_count (tasks m)" "g_task_count (tasks m2) = Suc (g_task_count (tasks m))"
    using t e by (simp_all add: m1_def)
  have r': "(m', res) = (if halted m2 then (m2, None)
      else (m2\<lparr>tasks := task_leave 0 (g_current_task (tasks m2)) (tasks m2)\<rparr>,
            Some (pid (g_tasks (task_leave 0 (g_current_task (tasks m2)) (tasks m2)) ! g_current_task (tasks m2)))))"
    using r False unfolding task_run_program_def Let_def m1_def [symmetric] m2_def [symmetric] slot cur
    by (simp split: if_splits)
  have "in_program (tasks m2)" using t in1 by simp
  note lv = leave_at_prompt [OF this]
  show ?thesis
  proof (cases "halted m2")
    case True
    then show ?thesis using r' t by simp
  next
    case nh: False
    then have "m' = m2\<lparr>tasks := task_leave 0 (g_current_task (tasks m2)) (tasks m2)\<rparr>"
      "res = Some (int (g_current_task (tasks m2)) + 1)" using r' lv by simp_all
    then show ?thesis using t lv slot False nh by (simp add: kernel_ok_def at_prompt_def)
  qed
qed

lemma ops_keep:
  assumes "program_ok program"
  shows "kernel_ok m \<Longrightarrow> (\<not> halted m \<longrightarrow> at_prompt (tasks m)) \<Longrightarrow> list_all op_ok ops \<Longrightarrow>
    kernel_ok (fold (kernel_step program) ops m) \<and>
    (\<not> halted (fold (kernel_step program) ops m) \<longrightarrow> \<not> halted m \<and> at_prompt (tasks (fold (kernel_step program) ops m)) \<and>
      g_task_count (tasks (fold (kernel_step program) ops m)) = min 16 (g_task_count (tasks m) + sum_list (map starts ops)))"
proof (induction ops arbitrary: m)
  case Nil
  then show ?case by (auto simp: at_prompt_def table_wf_def MAX_TASKS_def)
next
  case (Cons op ops)
  let ?m = "kernel_step program op m"
  have "kernel_ok ?m \<and> (\<not> halted ?m \<longrightarrow> \<not> halted m \<and> at_prompt (tasks ?m) \<and>
      g_task_count (tasks ?m) = min 16 (g_task_count (tasks m) + starts op))"
  proof (cases op)
    case (Traps ts)
    then have t: "list_all vector_ok ts" using Cons.prems by simp
    have "g_task_count (tasks m) \<le> 16" using Cons.prems by (simp add: kernel_ok_def table_wf_def MAX_TASKS_def)
    moreover have "halted m \<Longrightarrow> halted ?m" using Traps halted_stays by simp
    ultimately show ?thesis using traps_keep [OF Cons.prems(1) t] Cons.prems(2) Traps by auto
  next
    case (Run name img)
    show ?thesis
    proof (cases "halted m")
      case False
      obtain m' res where r: "task_run_program program name img m = (m', res)" by fastforce
      have a: "at_prompt (tasks m)" using Cons.prems(2) False by simp
      have "g_task_count (tasks m) \<le> 16" using a by (simp add: at_prompt_def table_wf_def MAX_TASKS_def)
      then show ?thesis
        using run_program_keeps [OF Cons.prems(1) a assms False r] Run r False
        by (auto simp: task_refused_def MAX_TASKS_def)
    qed (use Cons.prems Run in simp)
  qed
  then show ?case using Cons.IH [of ?m] Cons.prems(3) by auto
qed

lemma booted_ops:
  fixes m :: machine and l :: linked and mm :: mem and magic info :: nat
  assumes "powered_on m" "program_ok program" "list_all op_ok ops"
  defines "m' \<equiv> fold (kernel_step program) ops (kernel_start l mm magic info m)"
  shows "kernel_ok m' \<and> (\<not> halted m' \<longrightarrow> at_prompt (tasks m') \<and> g_task_count (tasks m') = min 16 (Suc (sum_list (map starts ops))))"
  using ops_keep [OF assms(2), of "kernel_start l mm magic info m" ops] start_ok [OF assms(1), of l mm magic info] assms(3)
  by (simp add: m'_def)

section \<open>Properties\<close>

text \<open>C8: 
  C0: the task table is well formed in every state the kernel can reach. Whatever traps arrive and
  whatever programs run after the start of the kernel, every slot in use has the process id of
  its place and a terminated name, exactly the current one is running, and between programs that is the
  shell's and all others are zombies.
\<close>

theorem task_table_typed:
  fixes m :: machine and l :: linked and mm :: mem and magic info :: nat
  assumes "powered_on m" "program_ok program" "list_all op_ok ops"
  defines "m' \<equiv> fold (kernel_step program) ops (kernel_start l mm magic info m)"
  shows "table_wf (tasks m') \<and> (\<not> halted m' \<longrightarrow> at_prompt (tasks m'))"
  using booted_ops [OF assms(1-3), of l mm magic info] by (simp add: m'_def kernel_ok_def)

text \<open>C37: 
  C0: every timer tick is charged to exactly one task. In every state the kernel can reach, the tasks' run
  times add up to the tick counter the system call reports, in 32-bit arithmetic.
\<close>

theorem every_tick_charged:
  fixes m :: machine and l :: linked and mm :: mem and magic info :: nat
  assumes "powered_on m" "program_ok program" "list_all op_ok ops"
  defines "m' \<equiv> fold (kernel_step program) ops (kernel_start l mm magic info m)"
  shows "total_ticks (tasks m') = timer_ticks m'"
  using booted_ops [OF assms(1-3), of l mm magic info] by (simp add: m'_def kernel_ok_def timer_ticks_def)

text \<open>
  C0: slots are never given back. After the start, the first fifteen programs of a loadable size run and get
  the process ids from 2 on; every later start is refused with -1 and changes nothing, although all
  fifteen tasks are zombies by then.
\<close>

theorem program_slots_run_out:
  fixes m :: machine and l :: linked and mm :: mem and magic info :: nat
  assumes "powered_on m" "program_ok program" "list_all op_ok ops" "img \<noteq> []" "length img \<le> MAX_PROGRAM_SIZE"
  defines "m' \<equiv> fold (kernel_step program) ops (kernel_start l mm magic info m)" and "n \<equiv> sum_list (map starts ops)"
  assumes "\<not> halted m'" and "task_run_program program name img m' = (m2, res)" and "\<not> halted m2"
  shows "res = Some (if n < 15 then int n + 2 else - 1) \<and> (15 \<le> n \<longrightarrow> m2 = m')"
proof -
  have b: "kernel_ok m'" "at_prompt (tasks m')" "g_task_count (tasks m') = min 16 (Suc n)"
    using booted_ops [OF assms(1-3), of l mm magic info] assms(8) by (simp_all add: m'_def n_def)
  have f: "task_refused img (tasks m') \<longleftrightarrow> 15 \<le> n"
    using assms(4,5) b(3) by (auto simp: task_refused_def MAX_TASKS_def)
  have "res = Some (if 15 \<le> n then - 1 else int (g_task_count (tasks m')) + 1)"
    using run_program_keeps [OF b(1,2) assms(2,8,9)] assms(10) f by simp
  moreover have "15 \<le> n \<Longrightarrow> m2 = m'" using assms(9) f by (simp add: task_run_program_def)
  ultimately show ?thesis using b(3) by (auto simp: min_def)
qed

text \<open>A machine before its start, and a program that returns at once.\<close>

definition cold_link :: linked where
  "cold_link = \<lparr>isr = \<lambda>v. 0x00100000 + 16 * word_of_nat v, idt_addr = 0, gdt_addr = 0, page_directory_addr = 0\<rparr>"

definition cold_machine :: machine where
  "cold_machine =
     \<lparr>screen = dark_screen, keys = idle_keyboard,
      tasks = \<lparr>g_tasks = replicate 16 \<lparr>pid = 0, task_name = [], state = TASK_READY, runtime_ticks = 0, kernel_task = False\<rparr>,
               g_task_count = 0, g_current_task = 0, program_memory = []\<rparr>,
      store = \<lparr>g_nodes = [], g_entry_count = 0\<rparr>, g_ticks = 0, interrupt_handlers = replicate 256 None,
      gdt_entries = replicate 5 (gdt_gate 0 0 0 0), idt_entries = replicate 256 no_gate, page_directory = [],
      processor = \<lparr>gdtr = (0, 0), idtr = (0, 0), cr0 = 1, cr3 = 0, cr4 = 0\<rparr>,
      port_writes = [], interrupts_enabled = False, halted = False\<rparr>"

definition quiet :: "bytes \<Rightarrow> machine \<Rightarrow> trap list" where
  "quiet img m = []"

definition tick_trap :: trap where
  "tick_trap = \<lparr>regs = \<lparr>ds = 0, edi = 0, esi = 0, ebp = 0, esp = 0, ebx = 0, edx = 0, ecx = 0, eax = 0, int_no = 32,
     err_code = 0, eip = 0, cs = 0, eflags = 0, useresp = 0, ss = 0\<rparr>, scancode = 0, memory = (\<lambda>_. NUL)\<rparr>"

lemma cold_powered_on: "powered_on cold_machine"
  by (simp add: powered_on_def cold_machine_def MAX_TASKS_def)

lemma quiet_ok: "program_ok quiet"
  by (simp add: program_ok_def quiet_def)

lemma quiet_halted: "halted (fst (task_run_program quiet name img m)) = halted m"
  by (simp add: task_run_program_def quiet_def take_traps_def Let_def)

lemma quiet_runs: "halted (fold (kernel_step quiet) (replicate n (Run name img)) m) = halted m"
  by (induction n arbitrary: m) (simp_all add: quiet_halted)

theorem task_table_typed_witness:
  "table_wf (tasks (fold (kernel_step quiet) [Run ''hello'' ''x'', Traps [tick_trap]] (kernel_start cold_link (\<lambda>_. NUL) 0 0 cold_machine)))"
  using task_table_typed [OF cold_powered_on quiet_ok, of "[Run ''hello'' ''x'', Traps [tick_trap]]" cold_link "\<lambda>_. NUL" 0 0]
  by (simp add: vector_ok_def tick_trap_def)

theorem every_tick_charged_witness:
  "total_ticks (tasks (fold (kernel_step quiet) [Traps [tick_trap, tick_trap]] (kernel_start cold_link (\<lambda>_. NUL) 0 0 cold_machine))) =
     timer_ticks (fold (kernel_step quiet) [Traps [tick_trap, tick_trap]] (kernel_start cold_link (\<lambda>_. NUL) 0 0 cold_machine))"
  by (rule every_tick_charged [OF cold_powered_on quiet_ok]) (simp add: vector_ok_def tick_trap_def)

theorem program_slots_run_out_witness:
  "snd (task_run_program quiet ''a'' ''x''
     (fold (kernel_step quiet) (replicate 15 (Run ''a'' ''x'')) (kernel_start cold_link (\<lambda>_. NUL) 0 0 cold_machine))) = Some (- 1)"
proof -
  let ?m = "fold (kernel_step quiet) (replicate 15 (Run ''a'' ''x'')) (kernel_start cold_link (\<lambda>_. NUL) 0 0 cold_machine)"
  have nh: "\<not> halted ?m" unfolding quiet_runs using start_ok [OF cold_powered_on] by blast
  have ops: "list_all op_ok (replicate 15 (Run ''a'' ''x''))" by (simp add: list_all_iff)
  have n: "sum_list (map starts (replicate 15 (Run ''a'' ''x''))) = 15" by (simp add: MAX_PROGRAM_SIZE_def sum_list_replicate)
  have "\<not> halted (fst (task_run_program quiet ''a'' ''x'' ?m))" using nh by (simp only: quiet_halted) simp
  with program_slots_run_out [OF cold_powered_on quiet_ok ops, of "''x''" cold_link "\<lambda>_. NUL" 0 0 "''a''",
      OF _ _ nh surjective_pairing]
  show ?thesis unfolding n by (simp add: MAX_PROGRAM_SIZE_def)
qed

text \<open>A text whose end the scan of a write of length 0 never finds.\<close>

definition endless_write :: "trap \<Rightarrow> bool" where
  "endless_write t \<longleftrightarrow> eax (regs t) = SYS_WRITE \<and> ebx (regs t) \<noteq> 0 \<and> write_length (memory t) (unat (ebx (regs t))) (ecx (regs t)) = None"

lemma syscall_halts: "halted (snd (syscall_handle mm r m)) =
    (halted m \<or> eax r = SYS_WRITE \<and> ebx r \<noteq> 0 \<and> write_length mm (unat (ebx r)) (ecx r) = None)"
  by (auto simp: syscall_handle_def SYS_WRITE_def SYS_CLEAR_def SYS_TICKS_def split: option.split)

lemma dispatch_effect:
  assumes "kernel_ok m" "vector_ok t" "\<not> halted m"
  defines "n \<equiv> unat (int_no (regs t))" and "m2 \<equiv> snd (interrupt_dispatch t m)"
  shows "port_writes m2 = port_writes m @ acknowledgement n"
    and "halted m2 \<longleftrightarrow> n < 32 \<or> n = 128 \<and> endless_write t"
    and "g_ticks m2 = g_ticks m + (if n = 32 then 1 else 0)"
    and "keys m2 = (if n = 33 then keyboard_callback (scancode t) (keys m) else keys m)"
    and "store m2 = store m"
    and "32 \<le> n \<Longrightarrow> n \<le> 47 \<Longrightarrow> screen m2 = screen m"
proof -
  have w: "int_no (regs t) = word_of_nat n" by (simp add: n_def)
  consider "n = 32" | "n = 33" | "n = 128" | "n < 32" | "33 < n" "n \<le> 47"
    using assms(2) by (fastforce simp: vector_ok_def n_def word_less_nat_alt)
  then have "port_writes m2 = port_writes m @ acknowledgement n \<and> (halted m2 \<longleftrightarrow> n < 32 \<or> n = 128 \<and> endless_write t) \<and>
    g_ticks m2 = g_ticks m + (if n = 32 then 1 else 0) \<and>
    keys m2 = (if n = 33 then keyboard_callback (scancode t) (keys m) else keys m) \<and> store m2 = store m \<and>
    (32 \<le> n \<longrightarrow> n \<le> 47 \<longrightarrow> screen m2 = screen m)"
  proof cases
    case 1
    then have "int_no (regs t) = 32" using w by simp
    then show ?thesis unfolding m2_def dispatch_cases [OF assms(1-3)]
      using 1 assms(3) by (simp add: timer_callback_def pic_send_eoi_def acknowledgement_def)
  next
    case 2
    then have "int_no (regs t) = 33" using w by simp
    then show ?thesis unfolding m2_def dispatch_cases [OF assms(1-3)]
      using 2 assms(3) by (simp add: pic_send_eoi_def acknowledgement_def)
  next
    case 3
    then have "int_no (regs t) = 128" using w by simp
    then show ?thesis unfolding m2_def dispatch_cases [OF assms(1-3)]
      using 3 assms(3) by (simp add: acknowledgement_def syscall_halts endless_write_def)
  next
    case 4
    then have "int_no (regs t) < 32" by (simp add: n_def word_less_nat_alt)
    moreover from this have "int_no (regs t) \<noteq> 32" "int_no (regs t) \<noteq> 33" "int_no (regs t) \<noteq> 128" by auto
    ultimately show ?thesis unfolding m2_def dispatch_cases [OF assms(1-3)] using 4
      by (simp add: acknowledgement_def)
  next
    case 5
    then have "\<not> int_no (regs t) < 32" "int_no (regs t) \<noteq> 32" "int_no (regs t) \<noteq> 33" "int_no (regs t) \<noteq> 128"
      by (auto simp: n_def word_less_nat_alt)
    then show ?thesis unfolding m2_def dispatch_cases [OF assms(1-3)]
      using 5 assms(3) eoi_writes [of n m] by (simp add: n_def)
  qed
  then show "port_writes m2 = port_writes m @ acknowledgement n" "halted m2 \<longleftrightarrow> n < 32 \<or> n = 128 \<and> endless_write t"
    "g_ticks m2 = g_ticks m + (if n = 32 then 1 else 0)"
    "keys m2 = (if n = 33 then keyboard_callback (scancode t) (keys m) else keys m)" "store m2 = store m"
    "32 \<le> n \<Longrightarrow> n \<le> 47 \<Longrightarrow> screen m2 = screen m" by blast+
qed

text \<open>C9: 
  C0: every interrupt reaches its handler and is acknowledged. In every state the kernel can reach that has
  not stopped, a hardware interrupt is acknowledged exactly once at each controller it came through and
  leaves the screen alone; the timer vector alone advances the tick counter and the keyboard vector
  alone the keyboard; an exception or a system call is never acknowledged; the machine stops on every
  exception and on a write of a text without end, and on nothing else; no trap touches the files.
\<close>

theorem interrupts_routed:
  fixes m :: machine and l :: linked and mm :: mem and magic info :: nat
  assumes "powered_on m" "program_ok program" "list_all op_ok ops" "vector_ok t"
  defines "m' \<equiv> fold (kernel_step program) ops (kernel_start l mm magic info m)" and "n \<equiv> unat (int_no (regs t))"
  assumes "\<not> halted m'"
  defines "m2 \<equiv> snd (interrupt_dispatch t m')"
  shows "port_writes m2 = port_writes m' @ acknowledgement n \<and>
    (halted m2 \<longleftrightarrow> n < 32 \<or> n = 128 \<and> endless_write t) \<and>
    timer_ticks m2 = timer_ticks m' + (if n = 32 then 1 else 0) \<and>
    keys m2 = (if n = 33 then keyboard_callback (scancode t) (keys m') else keys m') \<and>
    store m2 = store m' \<and> (32 \<le> n \<longrightarrow> n \<le> 47 \<longrightarrow> screen m2 = screen m')"
proof -
  have "kernel_ok m'" using booted_ops [OF assms(1-3), of l mm magic info] by (simp add: m'_def)
  from dispatch_effect [OF this assms(4,7)] show ?thesis by (simp add: n_def m2_def timer_ticks_def)
qed

theorem interrupts_routed_witness:
  "port_writes (snd (interrupt_dispatch tick_trap (kernel_start cold_link (\<lambda>_. NUL) 0 0 cold_machine))) =
     port_writes (kernel_start cold_link (\<lambda>_. NUL) 0 0 cold_machine) @ [(0x20, 0x20)]"
proof -
  have nh: "\<not> halted (fold (kernel_step quiet) [] (kernel_start cold_link (\<lambda>_. NUL) 0 0 cold_machine))"
    using start_ok [OF cold_powered_on] by simp
  show ?thesis
    using interrupts_routed [OF cold_powered_on quiet_ok _ _ nh, of tick_trap]
    by (simp add: vector_ok_def tick_trap_def acknowledgement_def)
qed

section \<open>Tables the processor reads\<close>

text \<open>The handler address the processor takes from a gate.\<close>

definition gate_target :: "idt_entry \<Rightarrow> u32" where
  "gate_target e = ucast (idt_base_low e) OR push_bit 16 (ucast (idt_base_high e))"

lemma gate_decodes: "(ucast (ucast (b AND 0xFFFF) :: u16) OR push_bit 16 (ucast (ucast (drop_bit 16 b AND 0xFFFF) :: u16)) :: u32) = b"
  for b :: u32
proof -
  have m: "(0xFFFF :: u32) = mask 16" by (simp add: mask_eq_exp_minus_1)
  show ?thesis unfolding m by (rule bit_word_eqI) (auto simp: bit_simps)
qed

lemma set_gates_nth:
  "v < length es \<Longrightarrow> fold (\<lambda>v. idt_set_gate v (isr l v) s fl) vs es ! v =
     (if v \<in> set vs then \<lparr>idt_base_low = ucast (isr l v AND 0xFFFF), selector = s, always_zero = 0, flags = fl,
        idt_base_high = ucast (drop_bit 16 (isr l v) AND 0xFFFF)\<rparr> else es ! v)"
  by (induction vs arbitrary: es) (auto simp: idt_set_gate_def nth_list_update)

lemma set_gates_length [simp]: "length (fold (\<lambda>v. idt_set_gate v (isr l v) s fl) vs es) = length es"
  by (induction vs arbitrary: es) (simp_all add: idt_set_gate_def)

text \<open>
  C0: the interrupt table leads every vector to its own stub. After the start, the gate of each exception and
  hardware vector decodes to the address of that vector's stub, in the code segment and closed to
  user code; the gate of the system call vector alone is open to it; every other gate is absent.
\<close>

theorem idt_gates:
  assumes "v < 256"
  shows "let e = idt_entries (kernel_start l mm magic info m) ! v in
    if v < 48 \<or> v = 128 then gate_target e = isr l v \<and> selector e = 0x08 \<and> always_zero e = 0 \<and> flags e = (if v = 128 then 0xEE else 0x8E)
    else e = no_gate"
proof -
  have e: "idt_entries (boot_devices l m) =
      fold (\<lambda>v. idt_set_gate v (isr l v) 0x08 0xEE) [128] (fold (\<lambda>v. idt_set_gate v (isr l v) 0x08 0x8E) [32 ..< 48]
        (fold (\<lambda>v. idt_set_gate v (isr l v) 0x08 0x8E) [0 ..< 32] (replicate 256 no_gate)))"
    by (simp add: install_defs)
  show ?thesis
    unfolding kernel_start_fields e Let_def using assms
    by (simp only: set_gates_nth set_gates_length length_replicate nth_replicate set_upt)
       (auto simp: gate_target_def gate_decodes)
qed

theorem idt_gates_witness:
  "gate_target (idt_entries (kernel_start cold_link (\<lambda>_. NUL) 0 0 cold_machine) ! 33) = 0x00100210"
  using idt_gates [of 33 cold_link "\<lambda>_. NUL" 0 0 cold_machine] by (simp add: Let_def cold_link_def)

section \<open>Writing through the system call\<close>

lemma bytes_at_text: "cstr_at mm p s \<Longrightarrow> bytes_at mm p (length s) = s"
  by (rule nth_equalityI) (simp_all add: cstr_at_def bytes_at_def)

text \<open>C36: 
  C0: a program's text arrives on the screen. A write of a terminated text, with its length or with
  length 0, from any state the kernel can reach: the call returns the length, and the roll of paper the
  screen shows the end of is the old one with the text typed on; no file, no key and no tick changes.
\<close>

theorem system_call_types:
  fixes m :: machine and l :: linked and mm :: mem and magic info :: nat
  assumes "powered_on m" "program_ok program" "list_all op_ok ops"
  defines "m' \<equiv> fold (kernel_step program) ops (kernel_start l mm magic info m)"
  assumes "\<not> halted m'" and paper: "shows_paper bg q (screen m')"
    and t: "int_no (regs t) = 128" "eax (regs t) = SYS_WRITE" "ebx (regs t) \<noteq> 0"
    and s: "cstr_at (memory t) (unat (ebx (regs t))) s" "length s < 2 ^ 32"
    and len: "ecx (regs t) = 0 \<or> ecx (regs t) = word_of_nat (length s)"
  defines "m2 \<equiv> snd (interrupt_dispatch t m')"
  shows "fst (interrupt_dispatch t m') = (regs t)\<lparr>eax := word_of_nat (length s)\<rparr> \<and>
    shows_paper bg (fold (type_char bg (terminal_color (screen m'))) s q) (screen m2) \<and>
    store m2 = store m' \<and> keys m2 = keys m' \<and> timer_ticks m2 = timer_ticks m' \<and> \<not> halted m2"
proof -
  have k: "interrupt_handlers m' = booted_handlers"
    using booted_ops [OF assms(1-3), of l mm magic info] by (simp add: m'_def kernel_ok_def)
  have w: "write_length (memory t) (unat (ebx (regs t))) (ecx (regs t)) = Some (word_of_nat (length s))"
    using len strlen_at [OF s(1)] by (auto simp: write_length_def)
  have n: "unat (word_of_nat (length s) :: u32) = length s" using s(2) by (simp add: unat_of_nat take_bit_nat_eq_self)
  have h: "syscall_handle (memory t) (regs t) m' =
      ((regs t)\<lparr>eax := word_of_nat (length s)\<rparr>, on_screen (terminal_write s) m')"
    using t w n bytes_at_text [OF s(1)] by (simp add: syscall_handle_def terminal_write_def [abs_def])
  have d: "interrupt_dispatch t m' = ((regs t)\<lparr>eax := word_of_nat (length s)\<rparr>, on_screen (terminal_write s) m')"
    using t h assms(5) by (simp add: interrupt_dispatch_def k booted_handlers_nth call_handler_def Let_def)
  show ?thesis using shows_write [OF paper, of s] assms(5) by (simp add: m2_def d timer_ticks_def)
qed

text \<open>The screen after the start, for the witness: a cleared screen shows a new roll, whatever is then written.\<close>

lemma fold_writes_show:
  "shows_paper bg p t \<Longrightarrow> \<exists>q. shows_paper bg q (terminal_writeline s t)"
  using shows_char [OF shows_write [of bg p t s], of LF] by (auto simp: terminal_writeline_def)

lemma start_shows: "\<exists>bg q. shows_paper bg q (screen (kernel_start l mm magic info m))"
proof -
  have c: "\<exists>q. shows_paper bg q (terminal_set_color f b t)" if "shows_paper bg p t" for bg p t f b
    using that by (auto simp: shows_paper_def terminal_set_color_def)
  have w: "\<exists>q. shows_paper bg q (terminal_write s t)" if "shows_paper bg p t" for bg p t s
    using shows_write [OF that] by blast
  have "\<exists>bg q. shows_paper bg q (terminal_initialize t)" for t
    unfolding terminal_initialize_def using shows_clear by blast
  then have b: "\<exists>bg q. shows_paper bg q (boot_banner t)" for t
    unfolding boot_banner_def o_def using c fold_writes_show by meson
  have "\<exists>q. shows_paper bg q (boot_report ld n t)" if "shows_paper bg p t" for bg p t ld n
    using that unfolding boot_report_def o_def terminal_write_dec_def using w fold_writes_show by meson
  then have "\<exists>bg q. shows_paper bg q (boot_report ld n (boot_banner t))" for ld n t using b by meson
  moreover have "screen (boot_devices l m1) = screen m1" for m1 by (simp add: install_defs)
  ultimately show ?thesis by (simp add: kernel_start_def Let_def split: prod.split)
qed

definition hello_trap :: trap where
  "hello_trap = \<lparr>regs = (regs tick_trap)\<lparr>int_no := 128, eax := 1, ebx := 0x00400020, ecx := 0\<rparr>, scancode = 0,
     memory = (\<lambda>a. if a = 0x00400020 then CHR ''H'' else if a = 0x00400021 then CHR ''i'' else NUL)\<rparr>"

theorem system_call_types_witness:
  "eax (fst (interrupt_dispatch hello_trap (kernel_start cold_link (\<lambda>_. NUL) 0 0 cold_machine))) = 2"
proof -
  let ?m = "kernel_start cold_link (\<lambda>_. NUL) 0 0 cold_machine"
  obtain bg q where q: "shows_paper bg q (screen (fold (kernel_step quiet) [] ?m))" using start_shows by fastforce
  have nh: "\<not> halted (fold (kernel_step quiet) [] ?m)" using start_ok [OF cold_powered_on] by simp
  have s: "cstr_at (memory hello_trap) (unat (ebx (regs hello_trap))) ''Hi''"
    by (simp add: cstr_at_def hello_trap_def nth_Cons split: nat.split)
  have r: "int_no (regs hello_trap) = 128" "eax (regs hello_trap) = SYS_WRITE" "ebx (regs hello_trap) \<noteq> 0" "ecx (regs hello_trap) = 0"
    by (simp_all add: hello_trap_def SYS_WRITE_def)
  show ?thesis
    using system_call_types [OF cold_powered_on quiet_ok _ nh q r(1-3) s] r(4) by simp
qed

section \<open>The memory map\<close>

text \<open>
  What the processor makes of the directory with pages of 4 MiB, and of a segment: the entry must be
  present and of the large size, and its upper ten bits replace those of the address; a limit counts
  pages of 4 KiB when the granularity bit is set.
\<close>

definition translate :: "u32 list \<Rightarrow> u32 \<Rightarrow> u32 option" where
  "translate pd a =
     (let e = pd ! unat (drop_bit 22 a)
      in if bit e 0 \<and> bit e 7 then Some ((e AND 0xFFC00000) OR (a AND 0x3FFFFF)) else None)"

definition segment_base :: "gdt_entry \<Rightarrow> u32" where
  "segment_base e = ucast (gdt_base_low e) OR push_bit 16 (ucast (base_middle e)) OR push_bit 24 (ucast (gdt_base_high e))"

definition segment_limit :: "gdt_entry \<Rightarrow> u32" where
  "segment_limit e =
     (let n = ucast (limit_low e) OR push_bit 16 (ucast (granularity e AND 0x0F))
      in if bit (granularity e) 7 then push_bit 12 n OR 0xFFF else n)"

definition ring :: "gdt_entry \<Rightarrow> nat" where
  "ring e = unat (drop_bit 5 (access e) AND 3)"

lemma boot_directory:
  "page_directory (boot_devices l m) = map (\<lambda>i. word_of_nat i * 0x400000 OR 0x83) [0 ..< 16] @ replicate 1008 0"
  by (simp add: install_defs)

lemma low_entry:
  "i < 16 \<Longrightarrow> bit (word_of_nat i * 0x400000 OR 0x83 :: u32) 0 \<and> bit (word_of_nat i * 0x400000 OR 0x83 :: u32) 7 \<and>
     (word_of_nat i * 0x400000 OR 0x83 :: u32) AND 0xFFC00000 = word_of_nat i * 0x400000"
proof -
  assume "i < 16"
  then have "i \<in> set [0 ..< 16]" by simp
  moreover have "list_all (\<lambda>i. bit (word_of_nat i * 0x400000 OR 0x83 :: u32) 0 \<and> bit (word_of_nat i * 0x400000 OR 0x83 :: u32) 7 \<and>
     (word_of_nat i * 0x400000 OR 0x83 :: u32) AND 0xFFC00000 = word_of_nat i * 0x400000) [0 ..< 16]" by code_simp
  ultimately show ?thesis by (simp only: list_all_iff)
qed

lemma join_page: "word_of_nat (unat (drop_bit 22 a)) * 0x400000 OR (a AND 0x3FFFFF) = a" for a :: u32
proof -
  have m: "(0x3FFFFF :: u32) = mask 22" by (simp add: mask_eq_exp_minus_1)
  have p: "word_of_nat (unat (drop_bit 22 a)) * 0x400000 = push_bit 22 (drop_bit 22 a)" by (simp add: push_bit_eq_mult)
  show ?thesis unfolding p m by (rule bit_word_eqI) (auto simp: bit_simps)
qed

text \<open>C38: 
  C0: after the start, memory is flat and identical. Every address below 64 MiB, the programs' and the
  screen's among them, translates to itself and no other address translates at all; the four
  segments begin at 0, reach to the end of the address space and belong to the kernel and to user code.
\<close>

theorem boot_memory_map:
  fixes m :: machine and l :: linked and mm :: mem and magic info :: nat
  assumes "length (gdt_entries m) = 5"
  defines "m' \<equiv> kernel_start l mm magic info m"
  shows "translate (page_directory m') a = (if unat a < 64 * 2 ^ 20 then Some a else None) \<and>
    map (\<lambda>i. (segment_base (gdt_entries m' ! i), segment_limit (gdt_entries m' ! i), ring (gdt_entries m' ! i))) [1, 2, 3, 4] =
      [(0, 0xFFFFFFFF, 0), (0, 0xFFFFFFFF, 0), (0, 0xFFFFFFFF, 3), (0, 0xFFFFFFFF, 3)]"
proof
  let ?i = "unat (drop_bit 22 a)"
  have "?i = unat a div 2 ^ 22" by (simp only: unat_drop_bit_eq) (simp only: drop_bit_eq_div)
  then have i: "?i = unat a div 4194304" by simp
  show "translate (page_directory m') a = (if unat a < 64 * 2 ^ 20 then Some a else None)"
  proof (cases "unat a < 64 * 2 ^ 20")
    case True
    then have "?i < 16" by (simp add: i less_mult_imp_div_less)
    then show ?thesis
      using True low_entry [of ?i] join_page [of a]
      by (simp add: m'_def kernel_start_fields boot_directory translate_def nth_append Let_def)
  next
    case False
    have "unat a < 4294967296" using unsigned_less [of a] by simp
    then have "\<not> ?i < 16" "?i < 1024" using False by (simp_all add: i less_mult_imp_div_less)
    then show ?thesis
      using False by (simp add: m'_def kernel_start_fields boot_directory translate_def nth_append Let_def)
  qed
  obtain a b c d e where g: "gdt_entries m = [a, b, c, d, e]"
    using assms(1) by (auto simp: numeral_eq_Suc length_Suc_conv)
  have "gdt_entries m' = [gdt_gate 0 0 0 0, gdt_gate 0 0xFFFFFFFF 0x9A 0xCF, gdt_gate 0 0xFFFFFFFF 0x92 0xCF,
      gdt_gate 0 0xFFFFFFFF 0xFA 0xCF, gdt_gate 0 0xFFFFFFFF 0xF2 0xCF]"
    unfolding m'_def kernel_start_fields by (simp add: install_defs gdt_set_gate_def g)
  then show "map (\<lambda>i. (segment_base (gdt_entries m' ! i), segment_limit (gdt_entries m' ! i), ring (gdt_entries m' ! i))) [1, 2, 3, 4] =
      [(0, 0xFFFFFFFF, 0), (0, 0xFFFFFFFF, 0), (0, 0xFFFFFFFF, 3), (0, 0xFFFFFFFF, 3)]"
    by (simp add: gdt_gate_def segment_base_def segment_limit_def ring_def)
qed

theorem boot_memory_map_witness:
  "translate (page_directory (kernel_start cold_link (\<lambda>_. NUL) 0 0 cold_machine)) 0x00400000 = Some 0x00400000"
  using boot_memory_map [where m = cold_machine and l = cold_link and mm = "\<lambda>_. NUL" and magic = 0 and info = 0 and a = "0x00400000"] by (simp add: cold_machine_def)

section \<open>The rate of the timer\<close>

text \<open>The reload value the interval timer gets: its command octet, then low and high octet.\<close>

definition timer_reload :: "(nat \<times> u8) list \<Rightarrow> nat option" where
  "timer_reload log =
     (case rev log of
        (p2, hi) # (p1, lo) # (p0, c) # _ \<Rightarrow>
          if p0 = 0x43 \<and> c = 0x36 \<and> p1 = 0x40 \<and> p2 = 0x40 then Some (unat lo + 256 * unat hi) else None
      | _ \<Rightarrow> None)"

lemma low_octet: "unat (ucast (w AND 0xFF) :: u8) = unat w mod 256" for w :: u32
proof -
  have "(0xFF :: u32) = mask 8" by (simp add: mask_eq_exp_minus_1)
  then have "unat (w AND 0xFF) = unat w mod 256" using unat_and_mask [of w 8] by simp
  moreover have "unat (ucast v :: u8) = unat v mod 256" for v :: u32
    by (simp add: unsigned_ucast_eq take_bit_eq_mod)
  ultimately show ?thesis by simp
qed

lemma timer_reload_value:
  "timer_reload (port_writes (timer_install f m)) = Some (unat (1193180 div f) mod 65536)"
proof -
  define d :: u32 where "d = 1193180 div f"
  have w: "port_writes (timer_install f m) = port_writes m @
      [(0x43, 0x36), (0x40, ucast (d AND 0xFF)), (0x40, ucast (drop_bit 8 d AND 0xFF))]"
    by (simp add: timer_install_def register_interrupt_handler_def d_def Let_def)
  have "unat (drop_bit 8 d) = unat d div 2 ^ 8" by (simp only: unat_drop_bit_eq) (simp only: drop_bit_eq_div)
  then have "unat (ucast (drop_bit 8 d AND 0xFF) :: u8) = unat d div 256 mod 256" by (simp only: low_octet) simp
  moreover have "n mod 256 + 256 * (n div 256 mod 256) = n mod 65536" for n :: nat
    using mod_mult2_eq [of n 256 256] by simp
  ultimately show ?thesis by (simp add: timer_reload_def w low_octet d_def)
qed

text \<open>
  C0: the timer runs at the rate asked for. For every frequency from 19 Hz, which the 16 bits of the reload value
  can hold, to the frequency of the chip's clock, the value the chip gets divides that clock to a rate that is not below
  the one asked for and would be with one more; slower rates are cut to 16 bits: at 18 Hz the chip gets
  751 in place of 66287 and ticks almost ninety times too fast.
\<close>

theorem timer_rate:
  assumes "19 \<le> unat f" "unat f \<le> 1193180"
  shows "\<exists>n. timer_reload (port_writes (timer_install f m)) = Some n \<and> 0 < n \<and> n * unat f \<le> 1193180 \<and> 1193180 < (n + 1) * unat f"
proof -
  let ?n = "1193180 div unat f"
  have n: "unat (1193180 div f) = ?n" by (simp add: unat_div)
  have "?n \<le> 1193180 div 19" by (rule div_le_mono2) (use assms in simp_all)
  then have "?n mod 65536 = ?n" by simp
  moreover have "0 < ?n" using assms by (simp add: div_greater_zero_iff)
  moreover have "?n * unat f \<le> 1193180" by simp
  moreover have "1193180 < (?n + 1) * unat f" using dividend_less_div_times [of "unat f" 1193180] assms by (simp add: algebra_simps)
  ultimately show ?thesis unfolding timer_reload_value n by auto
qed

theorem timer_rate_witness:
  "\<exists>n. timer_reload (port_writes (timer_install 100 cold_machine)) = Some n \<and> 0 < n \<and> n * 100 \<le> 1193180 \<and> 1193180 < (n + 1) * 100"
  using timer_rate [of 100 cold_machine] by simp

lemma slow_timer: "timer_reload (port_writes (timer_install 18 m)) = Some 751"
  unfolding timer_reload_value by simp

end
