(* ===== verification/Ata.thy ===== *)
theory Ata
  imports Prelude
begin

unbundle bit_operations_syntax

text \<open>
  The disk driver of the x86 kernel, \<open>src/drivers/ata.c\<close>: identification of the primary drive and reading
  of sectors with 28-bit addresses through the ports. The drive is a parameter: what it answers may depend
  on everything that has been read from and written to its ports, so the state of the driver is that history.
\<close>

section \<open>Ports\<close>

datatype io = In nat | Out nat u8 | In_word nat

type_synonym history = "io list"

record drive =
  answers :: "history \<Rightarrow> nat \<Rightarrow> u8"
  supplies :: "history \<Rightarrow> nat \<Rightarrow> u16"

definition inb :: "drive \<Rightarrow> nat \<Rightarrow> history \<Rightarrow> u8 \<times> history" where
  "inb d port h = (answers d h port, h @ [In port])"

fun insw :: "drive \<Rightarrow> nat \<Rightarrow> nat \<Rightarrow> history \<Rightarrow> u16 list \<times> history" where
  "insw d port 0 h = ([], h)"
| "insw d port (Suc count) h = (case insw d port count (h @ [In_word port]) of (ws, h') \<Rightarrow> (supplies d h port # ws, h'))"

definition ATA_PRIMARY_IO :: nat where "ATA_PRIMARY_IO = 0x1F0"
definition ATA_PRIMARY_CTRL :: nat where "ATA_PRIMARY_CTRL = 0x3F6"

text \<open>Writes to registers of the drive, in order.\<close>

definition sends :: "(nat \<times> u8) list \<Rightarrow> history \<Rightarrow> history" where
  "sends ws h = h @ map (\<lambda>(r, v). Out (ATA_PRIMARY_IO + r) v) ws"

section \<open>Waiting\<close>

definition ata_delay :: "drive \<Rightarrow> history \<Rightarrow> history" where
  "ata_delay d h = ((\<lambda>h. snd (inb d ATA_PRIMARY_CTRL h)) ^^ 4) h"

fun poll_not_busy :: "nat \<Rightarrow> drive \<Rightarrow> history \<Rightarrow> bool \<times> history" where
  "poll_not_busy 0 d h = (False, h)"
| "poll_not_busy (Suc n) d h =
     (case inb d (ATA_PRIMARY_IO + 7) h of (status, h) \<Rightarrow> if status AND 0x80 = 0 then (True, h) else poll_not_busy n d h)"

definition ATA_POLLS :: nat where "ATA_POLLS = 100000"

definition ata_wait_not_busy :: "drive \<Rightarrow> history \<Rightarrow> bool \<times> history" where
  "ata_wait_not_busy = poll_not_busy ATA_POLLS"

fun poll_drq :: "nat \<Rightarrow> drive \<Rightarrow> history \<Rightarrow> bool \<times> history" where
  "poll_drq 0 d h = (False, h)"
| "poll_drq (Suc n) d h =
     (case inb d (ATA_PRIMARY_IO + 7) h of (status, h) \<Rightarrow>
        if status AND 0x01 \<noteq> 0 then (False, h) else if status AND 0x08 \<noteq> 0 then (True, h) else poll_drq n d h)"

definition ata_wait_drq :: "drive \<Rightarrow> history \<Rightarrow> bool \<times> history" where
  "ata_wait_drq = poll_drq ATA_POLLS"

section \<open>Identification\<close>

record ata_identity =
  model :: bytes
  lba28_sectors :: u32

definition octet :: "u16 \<Rightarrow> char" where
  "octet v = char_of (unat v)"

definition identity_of :: "u16 list \<Rightarrow> ata_identity" where
  "identity_of buffer =
     \<lparr>model = concat (map (\<lambda>i. [octet (drop_bit 8 (buffer ! (27 + i))), octet (buffer ! (27 + i) AND 0xFF)]) [0..<20]) @ [NUL],
      lba28_sectors = push_bit 16 (ucast (buffer ! 61)) OR ucast (buffer ! 60)\<rparr>"

text \<open>What \<open>ata_identify_primary\<close> stores when it returns true; None is false.\<close>

definition ata_identify_primary :: "drive \<Rightarrow> history \<Rightarrow> ata_identity option \<times> history" where
  "ata_identify_primary d h =
     (case ata_wait_not_busy d h of (ready, h) \<Rightarrow>
      if \<not> ready then (None, h)
      else case inb d (ATA_PRIMARY_IO + 7)
          (sends [(2, 0), (3, 0), (4, 0), (5, 0), (7, 0xEC)] (ata_delay d (sends [(6, 0xA0)] h))) of (status, h) \<Rightarrow>
      if status = 0 then (None, h)
      else case ata_wait_not_busy d h of (ready, h) \<Rightarrow>
      if \<not> ready then (None, h)
      else case inb d (ATA_PRIMARY_IO + 4) h of (mid, h) \<Rightarrow>
      if mid \<noteq> 0 then (None, h)
      else case inb d (ATA_PRIMARY_IO + 5) h of (high, h) \<Rightarrow>
      if high \<noteq> 0 then (None, h)
      else case ata_wait_drq d h of (ready, h) \<Rightarrow>
      if \<not> ready then (None, h)
      else case insw d ATA_PRIMARY_IO 256 h of (buffer, h) \<Rightarrow> (Some (identity_of buffer), h))"

section \<open>Sectors\<close>

text \<open>A word as it lies in memory.\<close>

definition word_octets :: "u16 \<Rightarrow> bytes" where
  "word_octets v = [octet v, octet (drop_bit 8 v)]"

text \<open>The loop over the sectors: the answer, what has been stored from \<open>out\<close> on, the history.\<close>

fun read_sectors :: "nat \<Rightarrow> drive \<Rightarrow> history \<Rightarrow> bool \<times> bytes \<times> history" where
  "read_sectors 0 d h = (True, [], h)"
| "read_sectors (Suc n) d h =
     (case ata_wait_drq d h of (ready, h) \<Rightarrow>
      if \<not> ready then (False, [], h)
      else case insw d ATA_PRIMARY_IO 256 h of (ws, h) \<Rightarrow>
      case read_sectors n d (ata_delay d h) of (ok, out, h) \<Rightarrow> (ok, concat (map word_octets ws) @ out, h))"

definition read_request :: "u32 \<Rightarrow> u8 \<Rightarrow> (nat \<times> u8) list" where
  "read_request lba sector_count =
     [(6, ucast (0xE0 OR (drop_bit 24 lba AND 0x0F))), (2, sector_count), (3, ucast (lba AND 0xFF)),
      (4, ucast (drop_bit 8 lba AND 0xFF)), (5, ucast (drop_bit 16 lba AND 0xFF)), (7, 0x20)]"

definition ata_read28 :: "drive \<Rightarrow> u32 \<Rightarrow> u8 \<Rightarrow> history \<Rightarrow> bool \<times> bytes \<times> history" where
  "ata_read28 d lba sector_count h =
     (if sector_count = 0 \<or> lba > 0x0FFFFFFF then (False, [], h)
      else case ata_wait_not_busy d h of (ready, h) \<Rightarrow>
      if \<not> ready then (False, [], h)
      else read_sectors (unat sector_count) d (sends (read_request lba sector_count) h))"

section \<open>The driver only reads\<close>

text \<open>Commands that read, and always to the first drive.\<close>

fun harmless :: "io \<Rightarrow> bool" where
  "harmless (Out port v) \<longleftrightarrow>
     (port = 0x1F7 \<longrightarrow> v = 0xEC \<or> v = 0x20) \<and> (port = 0x1F6 \<longrightarrow> v AND 0x10 = 0) \<and> port \<in> {0x1F2..0x1F7}"
| "harmless (In port) \<longleftrightarrow> True"
| "harmless (In_word port) \<longleftrightarrow> port = 0x1F0"

definition within :: "nat \<Rightarrow> history \<Rightarrow> history \<Rightarrow> bool" where
  "within b h h' \<longleftrightarrow> (\<exists>new. h' = h @ new \<and> list_all harmless new \<and> length new \<le> b)"

lemma within_refl [intro, simp]: "within b h h"
  by (simp add: within_def)

lemma within_trans: "within b h h' \<Longrightarrow> within c h' h'' \<Longrightarrow> within (b + c) h h''"
  by (fastforce simp: within_def)

lemma within_more: "within b h h' \<Longrightarrow> b \<le> c \<Longrightarrow> within c h h'"
  by (fastforce simp: within_def)

lemma within_add: "within b h h' \<Longrightarrow> within c h' h'' \<Longrightarrow> b + c \<le> e \<Longrightarrow> within e h h''"
  using within_trans within_more by blast

lemma within_inb: "within 1 h (snd (inb d p h))"
  by (simp add: within_def inb_def)

lemma within_delay: "within 4 h (ata_delay d h)"
  by (simp add: within_def ata_delay_def inb_def numeral_eq_Suc)

lemma within_sends: "list_all (\<lambda>(r, v). harmless (Out (ATA_PRIMARY_IO + r) v)) ws \<Longrightarrow> within (length ws) h (sends ws h)"
  by (auto simp: within_def sends_def list_all_iff)

lemma within_poll: "within n h (snd (poll_not_busy n d h))"
proof (induction n arbitrary: h)
  case (Suc n)
  show ?case using within_trans [OF within_inb Suc, of h d "ATA_PRIMARY_IO + 7"] within_more [OF within_inb, of "Suc n" h d "ATA_PRIMARY_IO + 7"]
    by (auto simp: inb_def)
qed simp

lemma within_poll_drq: "within n h (snd (poll_drq n d h))"
proof (induction n arbitrary: h)
  case (Suc n)
  show ?case using within_trans [OF within_inb Suc, of h d "ATA_PRIMARY_IO + 7"] within_more [OF within_inb, of "Suc n" h d "ATA_PRIMARY_IO + 7"]
    by (auto simp: inb_def)
qed simp

lemma within_insw: "within n h (snd (insw d 0x1F0 n h))"
proof (induction n arbitrary: h)
  case (Suc n)
  have "within 1 h (h @ [In_word 0x1F0])" by (simp add: within_def)
  from within_trans [OF this Suc] show ?case by (simp add: split_beta)
qed simp

lemma head_octet: "(ucast (0xE0 OR (x AND 0x0F) :: u32) :: u8) AND 0x10 = 0"
proof (intro bit_word_eqI)
  fix n
  assume "n < LENGTH(8)"
  then have "n = 0 \<or> n = 1 \<or> n = 2 \<or> n = 3 \<or> n = 4 \<or> n = 5 \<or> n = 6 \<or> n = 7" by auto
  then show "bit ((ucast (0xE0 OR (x AND 0x0F) :: u32) :: u8) AND 0x10) n = bit (0 :: u8) n"
    by (elim disjE) (simp_all add: bit_simps)
qed

lemma request_harmless: "list_all (\<lambda>(r, v). harmless (Out (ATA_PRIMARY_IO + r) v)) (read_request lba n)"
  using head_octet by (simp add: read_request_def ATA_PRIMARY_IO_def)

lemma request_length: "length (read_request lba n) = 6"
  by (simp add: read_request_def)

lemma within_sectors: "within (n * (ATA_POLLS + 260)) h (snd (snd (read_sectors n d h)))"
proof (induction n arbitrary: h)
  case (Suc n)
  obtain r h1 where w: "ata_wait_drq d h = (r, h1)" by (cases "ata_wait_drq d h")
  obtain ws h2 where i: "insw d ATA_PRIMARY_IO 256 h1 = (ws, h2)" by (cases "insw d ATA_PRIMARY_IO 256 h1")
  have a: "within ATA_POLLS h h1" using within_poll_drq [of ATA_POLLS h d] w by (simp add: ata_wait_drq_def)
  have b: "within 256 h1 h2" using within_insw [of 256 h1 d] i by (simp add: ATA_PRIMARY_IO_def)
  have c: "within (ATA_POLLS + 260) h (ata_delay d h2)"
    using within_trans [OF within_trans [OF a b] within_delay [of h2 d]] by (simp add: add.commute)
  show ?case
  proof (cases r)
    case True
    then show ?thesis using within_trans [OF c Suc] by (simp add: w i split_beta)
  next
    case False
    then show ?thesis using within_more [OF a, of "Suc n * (ATA_POLLS + 260)"] by (simp add: w)
  qed
qed simp

lemma within_read: "within (ATA_POLLS + 6 + 255 * (ATA_POLLS + 260)) h (snd (snd (ata_read28 d lba n h)))"
proof (cases "n = 0 \<or> lba > 0x0FFFFFFF")
  case False
  obtain r h1 where w: "ata_wait_not_busy d h = (r, h1)" by (cases "ata_wait_not_busy d h")
  have a: "within ATA_POLLS h h1" using within_poll [of ATA_POLLS h d] w by (simp add: ata_wait_not_busy_def)
  have "within 6 h1 (sends (read_request lba n) h1)"
    using within_sends [OF request_harmless [of lba n], of h1] by (simp add: request_length)
  note s = within_trans [OF within_trans [OF a this] within_sectors, of "unat n" d]
  have "unat n \<le> 255" using unsigned_less [of n, where 'a = nat] by simp
  then have le: "ATA_POLLS + 6 + unat n * (ATA_POLLS + 260) \<le> ATA_POLLS + 6 + 255 * (ATA_POLLS + 260)"
    by (intro add_left_mono mult_right_mono) simp_all
  show ?thesis
  proof (cases r)
    case True
    then show ?thesis using within_more [OF s le] False by (simp add: ata_read28_def w)
  next
    case False
    then show ?thesis using within_more [OF a] by (auto simp: ata_read28_def w)
  qed
qed (auto simp: ata_read28_def)

lemma within_identify: "within (3 * ATA_POLLS + 269) h (snd (ata_identify_primary d h))"
proof -
  obtain r1 h1 where w1: "ata_wait_not_busy d h = (r1, h1)" by (cases "ata_wait_not_busy d h")
  define h2 where "h2 = sends [(2, 0), (3, 0), (4, 0), (5, 0), (7, 0xEC)] (ata_delay d (sends [(6, 0xA0)] h1))"
  obtain r3 h3 where w3: "inb d (ATA_PRIMARY_IO + 7) h2 = (r3, h3)" by (cases "inb d (ATA_PRIMARY_IO + 7) h2")
  obtain r4 h4 where w4: "ata_wait_not_busy d h3 = (r4, h4)" by (cases "ata_wait_not_busy d h3")
  obtain r5 h5 where w5: "inb d (ATA_PRIMARY_IO + 4) h4 = (r5, h5)" by (cases "inb d (ATA_PRIMARY_IO + 4) h4")
  obtain r6 h6 where w6: "inb d (ATA_PRIMARY_IO + 5) h5 = (r6, h6)" by (cases "inb d (ATA_PRIMARY_IO + 5) h5")
  obtain r7 h7 where w7: "ata_wait_drq d h6 = (r7, h7)" by (cases "ata_wait_drq d h6")
  obtain r8 h8 where w8: "insw d ATA_PRIMARY_IO 256 h7 = (r8, h8)" by (cases "insw d ATA_PRIMARY_IO 256 h7")
  have i: "\<And>h p r h'. inb d p h = (r, h') \<Longrightarrow> within 1 h h'" using within_inb by (metis snd_conv)
  have n: "\<And>h r h'. ata_wait_not_busy d h = (r, h') \<Longrightarrow> within ATA_POLLS h h'"
    unfolding ata_wait_not_busy_def using within_poll by (metis snd_conv)
  have q: "\<And>h r h'. ata_wait_drq d h = (r, h') \<Longrightarrow> within ATA_POLLS h h'"
    unfolding ata_wait_drq_def using within_poll_drq by (metis snd_conv)
  note a1 = n [OF w1]
  have x: "within 1 h1 (sends [(6, 0xA0)] h1)"
    using within_sends [of "[(6, 0xA0)]" h1] by (simp add: ATA_PRIMARY_IO_def)
  have y: "within 5 g (sends [(2, 0), (3, 0), (4, 0), (5, 0), (7, 0xEC)] g)" for g
    by (rule within_more [OF within_sends]) (simp_all add: ATA_PRIMARY_IO_def)
  have z: "within (ATA_POLLS + 5) h (ata_delay d (sends [(6, 0xA0)] h1))"
    by (rule within_add [OF within_trans [OF a1 x] within_delay]) simp
  have a2: "within (ATA_POLLS + 10) h h2" unfolding h2_def by (rule within_add [OF z y]) simp
  have a3: "within (ATA_POLLS + 11) h h3" by (rule within_add [OF a2 i [OF w3]]) simp
  have a4: "within (2 * ATA_POLLS + 11) h h4" by (rule within_add [OF a3 n [OF w4]]) simp
  have a5: "within (2 * ATA_POLLS + 12) h h5" by (rule within_add [OF a4 i [OF w5]]) simp
  have a6: "within (2 * ATA_POLLS + 13) h h6" by (rule within_add [OF a5 i [OF w6]]) simp
  have a7: "within (3 * ATA_POLLS + 13) h h7" by (rule within_add [OF a6 q [OF w7]]) simp
  have "within 256 h7 h8" using within_insw [of 256 h7 d] w8 by (simp add: ATA_PRIMARY_IO_def)
  then have a8: "within (3 * ATA_POLLS + 269) h h8" by (rule within_add [OF a7]) simp
  have b: "within (3 * ATA_POLLS + 269) h h1" "within (3 * ATA_POLLS + 269) h h3" "within (3 * ATA_POLLS + 269) h h4"
    "within (3 * ATA_POLLS + 269) h h5" "within (3 * ATA_POLLS + 269) h h6" "within (3 * ATA_POLLS + 269) h h7"
    using within_more [OF a1] within_more [OF a3] within_more [OF a4] within_more [OF a5] within_more [OF a6] within_more [OF a7] by simp_all
  show ?thesis unfolding ata_identify_primary_def w1 prod.case
    by (simp add: w3 w4 w5 w6 w7 w8 a8 b flip: h2_def)
qed

datatype ata_call = Identify | Read28 u32 u8

fun ata_history :: "drive \<Rightarrow> ata_call \<Rightarrow> history \<Rightarrow> history" where
  "ata_history d Identify h = snd (ata_identify_primary d h)"
| "ata_history d (Read28 lba n) h = snd (snd (ata_read28 d lba n h))"

text \<open>The most accesses a call may take: 255 sectors, each waited for in vain until the last poll.\<close>

definition ATA_CALL_MAX :: nat where "ATA_CALL_MAX = 25666306"

lemma call_within: "within ATA_CALL_MAX h (ata_history d c h)"
  using within_more [OF within_identify] within_more [OF within_read]
  by (cases c) (simp_all add: ATA_CALL_MAX_def ATA_POLLS_def)

text \<open>C22: 
  C0: the disk driver only reads, and comes back. Whatever the drive answers, any calls of the driver in any order
  add to the ports a bounded number of accesses; among them no command but IDENTIFY and READ SECTORS is given,
  the second drive is never selected and no word is ever written to the data port.
\<close>

theorem ata_only_reads:
  "\<exists>new. fold (ata_history d) calls h = h @ new \<and> list_all harmless new \<and> length new \<le> length calls * ATA_CALL_MAX"
proof -
  have "within (length calls * ATA_CALL_MAX) h (fold (ata_history d) calls h)"
  proof (induction calls arbitrary: h)
    case (Cons c calls)
    show ?case using within_trans [OF call_within Cons, of h d c] by simp
  qed simp
  then show ?thesis by (simp add: within_def)
qed

section \<open>What a drive in order makes of it\<close>

text \<open>The drive's side of the ports, as the standard has it: the registers, and the words moved since the read command.\<close>

record task_file =
  drive_head :: u8
  sectors :: u8
  lba_low :: u8
  lba_mid :: u8
  lba_high :: u8
  moved :: "nat option"

fun replay :: "io \<Rightarrow> task_file \<Rightarrow> task_file" where
  "replay (Out port v) t =
     (if port = 0x1F2 then t\<lparr>sectors := v\<rparr> else if port = 0x1F3 then t\<lparr>lba_low := v\<rparr>
      else if port = 0x1F4 then t\<lparr>lba_mid := v\<rparr> else if port = 0x1F5 then t\<lparr>lba_high := v\<rparr>
      else if port = 0x1F6 then t\<lparr>drive_head := v\<rparr>
      else if port = 0x1F7 then t\<lparr>moved := (if v = 0x20 then Some 0 else None)\<rparr> else t)"
| "replay (In_word port) t = t\<lparr>moved := map_option Suc (moved t)\<rparr>"
| "replay (In port) t = t"

definition after :: "history \<Rightarrow> task_file" where
  "after h = fold replay h \<lparr>drive_head = 0, sectors = 0, lba_low = 0, lba_mid = 0, lba_high = 0, moved = None\<rparr>"

definition addressed :: "task_file \<Rightarrow> nat" where
  "addressed t = unat (drive_head t AND 0x0F) * 2 ^ 24 + unat (lba_high t) * 2 ^ 16 + unat (lba_mid t) * 2 ^ 8 + unat (lba_low t)"

text \<open>After how many polls, fewer than the driver makes, a status satisfies a condition.\<close>

definition soon_in :: "nat \<Rightarrow> (u8 \<Rightarrow> bool) \<Rightarrow> (u8 \<Rightarrow> bool) \<Rightarrow> drive \<Rightarrow> history \<Rightarrow> bool" where
  "soon_in N wait good d h \<longleftrightarrow>
     (\<exists>n<N. (\<forall>m<n. wait (answers d (h @ replicate m (In 0x1F7)) 0x1F7)) \<and> good (answers d (h @ replicate n (In 0x1F7)) 0x1F7))"

definition soon :: "(u8 \<Rightarrow> bool) \<Rightarrow> (u8 \<Rightarrow> bool) \<Rightarrow> drive \<Rightarrow> history \<Rightarrow> bool" where
  "soon = soon_in ATA_POLLS"

definition answers_command :: "drive \<Rightarrow> history \<Rightarrow> bool" where
  "answers_command d h = soon (\<lambda>v. True) (\<lambda>v. v AND 0x80 = 0) d h"

definition offers_data :: "drive \<Rightarrow> history \<Rightarrow> bool" where
  "offers_data d h = soon (\<lambda>v. v AND 0x01 = 0 \<and> v AND 0x08 = 0) (\<lambda>v. v AND 0x01 = 0 \<and> v AND 0x08 \<noteq> 0) d h"

definition serves :: "drive \<Rightarrow> (nat \<Rightarrow> u16) \<Rightarrow> bool" where
  "serves d img \<longleftrightarrow>
     (\<forall>h k. moved (after h) = Some k \<longrightarrow> k < 256 * unat (sectors (after h)) \<longrightarrow>
        supplies d h 0x1F0 = img (256 * addressed (after h) + k) \<and> (k mod 256 = 0 \<longrightarrow> offers_data d h))"

lemma after_append: "after (h @ new) = fold replay new (after h)"
  by (simp add: after_def)

lemma after_reads [simp]: "after (h @ replicate n (In p)) = after h"
  by (simp only: after_append) (induction n, simp_all)

lemma after_delay [simp]: "after (ata_delay d h) = after h"
  by (simp add: ata_delay_def inb_def numeral_eq_Suc after_append)

lemma replicate_step: "(h @ [In p]) @ replicate m (In p) = h @ replicate (Suc m) (In p)"
  by simp

lemma sends_7: "ATA_PRIMARY_IO + 7 = 0x1F7"
  by (simp add: ATA_PRIMARY_IO_def)

lemma poll_not_busy_soon:
  "soon_in N (\<lambda>v. True) (\<lambda>v. v AND 0x80 = 0) d h \<Longrightarrow> \<exists>n. poll_not_busy N d h = (True, h @ replicate n (In 0x1F7))"
proof (induction N arbitrary: h)
  case (Suc N)
  then obtain n where n: "n < Suc N" "answers d (h @ replicate n (In 0x1F7)) 0x1F7 AND 0x80 = 0"
    unfolding soon_in_def by blast
  show ?case
  proof (cases "answers d h 0x1F7 AND 0x80 = 0")
    case True
    then show ?thesis by (intro exI [of _ 1]) (simp add: inb_def sends_7)
  next
    case False
    then obtain m where m: "n = Suc m" using n(2) by (cases n) auto
    then have "soon_in N (\<lambda>v. True) (\<lambda>v. v AND 0x80 = 0) d (h @ [In 0x1F7])"
      using n unfolding soon_in_def by (intro exI [of _ m]) (simp only: replicate_step, simp)
    from Suc.IH [OF this] obtain k where "poll_not_busy N d (h @ [In 0x1F7]) = (True, h @ replicate (Suc k) (In 0x1F7))"
      unfolding replicate_step by blast
    then show ?thesis using False by (intro exI [of _ "Suc k"]) (simp add: inb_def sends_7)
  qed
qed (simp add: soon_in_def)

lemma poll_drq_soon:
  "soon_in N (\<lambda>v. v AND 0x01 = 0 \<and> v AND 0x08 = 0) (\<lambda>v. v AND 0x01 = 0 \<and> v AND 0x08 \<noteq> 0) d h \<Longrightarrow>
   \<exists>n. poll_drq N d h = (True, h @ replicate n (In 0x1F7))"
proof (induction N arbitrary: h)
  case (Suc N)
  then obtain n where n: "n < Suc N"
    "\<forall>m<n. answers d (h @ replicate m (In 0x1F7)) 0x1F7 AND 0x01 = 0 \<and> answers d (h @ replicate m (In 0x1F7)) 0x1F7 AND 0x08 = 0"
    "answers d (h @ replicate n (In 0x1F7)) 0x1F7 AND 0x01 = 0" "answers d (h @ replicate n (In 0x1F7)) 0x1F7 AND 0x08 \<noteq> 0"
    unfolding soon_in_def by blast
  show ?case
  proof (cases n)
    case 0
    then show ?thesis using n by (intro exI [of _ 1]) (simp add: inb_def sends_7)
  next
    case (Suc m)
    have first: "answers d h 0x1F7 AND 0x01 = 0" "answers d h 0x1F7 AND 0x08 = 0" using n(2) Suc by force+
    have "\<forall>j<m. answers d ((h @ [In 0x1F7]) @ replicate j (In 0x1F7)) 0x1F7 AND 0x01 = 0 \<and>
        answers d ((h @ [In 0x1F7]) @ replicate j (In 0x1F7)) 0x1F7 AND 0x08 = 0"
      unfolding replicate_step using n(2) Suc by (metis Suc_less_eq)
    then have "soon_in N (\<lambda>v. v AND 0x01 = 0 \<and> v AND 0x08 = 0) (\<lambda>v. v AND 0x01 = 0 \<and> v AND 0x08 \<noteq> 0) d (h @ [In 0x1F7])"
      using n(1,3,4) Suc unfolding soon_in_def by (intro exI [of _ m]) (simp only: replicate_step, simp)
    from Suc.IH [OF this] obtain k where "poll_drq N d (h @ [In 0x1F7]) = (True, h @ replicate (Suc k) (In 0x1F7))"
      unfolding replicate_step by blast
    then show ?thesis using first by (intro exI [of _ "Suc k"]) (simp add: inb_def sends_7)
  qed
qed (simp add: soon_in_def)

lemma serves_word:
  "serves d img \<Longrightarrow> moved (after h) = Some k \<Longrightarrow> k < 256 * unat (sectors (after h)) \<Longrightarrow>
   supplies d h 0x1F0 = img (256 * addressed (after h) + k)"
  by (simp add: serves_def)

lemma serves_offer:
  "serves d img \<Longrightarrow> moved (after h) = Some k \<Longrightarrow> k < 256 * unat (sectors (after h)) \<Longrightarrow> k mod 256 = 0 \<Longrightarrow> offers_data d h"
  by (simp add: serves_def)

lemma insw_serves:
  assumes "serves d img"
  shows "moved (after h) = Some k \<Longrightarrow> k + c \<le> 256 * unat (sectors (after h)) \<Longrightarrow>
    fst (insw d 0x1F0 c h) = map (\<lambda>j. img (256 * addressed (after h) + j)) [k..<k + c] \<and>
    after (snd (insw d 0x1F0 c h)) = (after h)\<lparr>moved := Some (k + c)\<rparr>"
proof (induction c arbitrary: h k)
  case (Suc c)
  let ?h = "h @ [In_word 0x1F0]"
  have a: "after ?h = (after h)\<lparr>moved := Some (Suc k)\<rparr>" using Suc.prems(1) by (simp add: after_append)
  have w: "supplies d h 0x1F0 = img (256 * addressed (after h) + k)"
    by (rule serves_word [OF assms Suc.prems(1)]) (use Suc.prems(2) in linarith)
  have IH: "fst (insw d 0x1F0 c ?h) = map (\<lambda>j. img (256 * addressed (after h) + j)) [Suc k..<Suc k + c] \<and>
    after (snd (insw d 0x1F0 c ?h)) = (after h)\<lparr>moved := Some (Suc k + c)\<rparr>"
    using Suc.IH [of ?h "Suc k"] Suc.prems(2) by (simp add: a addressed_def)
  have u: "[k..<k + Suc c] = k # [Suc k..<Suc k + c]" using upt_conv_Cons [of k "k + Suc c"] by simp
  show ?case unfolding u list.map insw.simps using IH by (simp add: split_beta w del: upt_Suc)
qed simp

lemma sectors_served:
  assumes "serves d img"
  shows "moved (after h) = Some (256 * j) \<Longrightarrow> j + n = unat (sectors (after h)) \<Longrightarrow>
    \<exists>h'. read_sectors n d h =
      (True, concat (map (\<lambda>k. word_octets (img (256 * addressed (after h) + k))) [256 * j..<256 * (j + n)]), h')"
proof (induction n arbitrary: h j)
  case (Suc n)
  have "offers_data d h" by (rule serves_offer [OF assms Suc.prems(1)]) (use Suc.prems(2) in simp_all)
  then obtain m where m: "ata_wait_drq d h = (True, h @ replicate m (In 0x1F7))"
    using poll_drq_soon [of ATA_POLLS d h] by (auto simp: offers_data_def soon_def ata_wait_drq_def)
  let ?h = "h @ replicate m (In 0x1F7)"
  have le: "256 * j + 256 \<le> 256 * unat (sectors (after ?h))" using Suc.prems(2) by simp
  have s: "fst (insw d 0x1F0 256 ?h) = map (\<lambda>k. img (256 * addressed (after h) + k)) [256 * j..<256 * j + 256]"
    "after (snd (insw d 0x1F0 256 ?h)) = (after h)\<lparr>moved := Some (256 * Suc j)\<rparr>"
    using insw_serves [OF assms _ le] Suc.prems(1) by simp_all
  obtain h' where r: "read_sectors n d (ata_delay d (snd (insw d 0x1F0 256 ?h))) =
      (True, concat (map (\<lambda>k. word_octets (img (256 * addressed (after h) + k))) [256 * Suc j..<256 * (Suc j + n)]), h')"
    using Suc.IH [of "ata_delay d (snd (insw d 0x1F0 256 ?h))" "Suc j"] Suc.prems(2) by (auto simp: s(2) addressed_def)
  have split: "[256 * j..<256 * (j + Suc n)] = [256 * j..<256 * j + 256] @ [256 * Suc j..<256 * (Suc j + n)]"
    using upt_add_eq_append [of "256 * j" "256 * j + 256" "256 * n"] by (simp add: add.assoc algebra_simps)
  have "insw d ATA_PRIMARY_IO 256 ?h = (fst (insw d 0x1F0 256 ?h), snd (insw d 0x1F0 256 ?h))" by (simp add: ATA_PRIMARY_IO_def)
  then show ?case unfolding split by (simp add: m s(1) r o_def)
qed simp

lemma unat_octet: "unat (ucast (x AND 0xFF :: u32) :: u8) = unat x mod 256"
proof -
  have "unat (x AND 0xFF) = unat x mod 256" by (rule unat_and_255)
  then show ?thesis by (simp add: unsigned_ucast_eq take_bit_eq_mod)
qed

lemma head_low: "(ucast (0xE0 OR (x AND 0x0F) :: u32) :: u8) AND 0x0F = ucast (x AND 0x0F)"
proof (intro bit_word_eqI)
  fix n
  assume "n < LENGTH(8)"
  then have "n = 0 \<or> n = 1 \<or> n = 2 \<or> n = 3 \<or> n = 4 \<or> n = 5 \<or> n = 6 \<or> n = 7" by auto
  then show "bit ((ucast (0xE0 OR (x AND 0x0F) :: u32) :: u8) AND 0x0F) n = bit (ucast (x AND 0x0F) :: u8) n"
    by (elim disjE) (simp_all add: bit_simps)
qed

lemma unat_head: "unat ((ucast (0xE0 OR (x AND 0x0F) :: u32) :: u8) AND 0x0F) = unat x mod 16"
proof -
  have "unat (x AND 0x0F) = unat x mod 16" by (rule unat_and_15)
  then show ?thesis by (simp add: head_low unsigned_ucast_eq take_bit_eq_mod)
qed

lemma address_parts: "x < 268435456 \<Longrightarrow> x div 16777216 mod 16 * 16777216 + x div 65536 mod 256 * 65536 + x div 256 mod 256 * 256 + x mod 256 = (x :: nat)"
proof -
  assume "x < 268435456"
  then have "x div 16777216 mod 16 = x div 16777216" by simp
  moreover have "x div 65536 div 256 = x div 16777216" "x div 256 div 256 = x div 65536" by (simp_all flip: div_mult2_eq)
  moreover note mult_div_mod_eq [of 256 x] mult_div_mod_eq [of 256 "x div 256"] mult_div_mod_eq [of 256 "x div 65536"]
  ultimately show ?thesis by linarith
qed

lemma request_registers:
  assumes "lba \<le> 0x0FFFFFFF"
  shows "moved (after (sends (read_request lba n) h)) = Some 0" "sectors (after (sends (read_request lba n) h)) = n"
    "addressed (after (sends (read_request lba n) h)) = unat lba"
proof -
  have lt: "unat lba < 268435456" using assms by (simp add: word_le_nat_alt)
  have a: "after (sends (read_request lba n) h) = \<lparr>drive_head = ucast (0xE0 OR (drop_bit 24 lba AND 0x0F)), sectors = n, lba_low = ucast (lba AND 0xFF),
      lba_mid = ucast (drop_bit 8 lba AND 0xFF), lba_high = ucast (drop_bit 16 lba AND 0xFF), moved = Some 0\<rparr>"
    unfolding sends_def after_append by (simp add: read_request_def ATA_PRIMARY_IO_def)
  show "moved (after (sends (read_request lba n) h)) = Some 0" "sectors (after (sends (read_request lba n) h)) = n"
    unfolding a by simp_all
  show "addressed (after (sends (read_request lba n) h)) = unat lba"
    unfolding a addressed_def task_file.simps unat_head unat_octet unat_drop_bit
    by (rule trans [OF _ address_parts [OF lt]]) simp
qed


text \<open>A drive that holds an image and is always ready; it offers data while words are due.\<close>

definition ready_drive :: "(nat \<Rightarrow> u16) \<Rightarrow> drive" where
  "ready_drive img =
     \<lparr>answers = \<lambda>h port. case moved (after h) of None \<Rightarrow> 0x50 | Some k \<Rightarrow> if k < 256 * unat (sectors (after h)) then 0x58 else 0x50,
      supplies = \<lambda>h port. case moved (after h) of None \<Rightarrow> 0 | Some k \<Rightarrow> img (256 * addressed (after h) + k)\<rparr>"

lemma ready_serves: "serves (ready_drive img) img" "answers_command (ready_drive img) h"
proof -
  have "answers_command (ready_drive img) h"
    unfolding answers_command_def soon_def soon_in_def by (intro exI [of _ 0]) (simp add: ready_drive_def ATA_POLLS_def split: option.split)
  then show "answers_command (ready_drive img) h" .
  have "offers_data (ready_drive img) h" if "moved (after h) = Some k" "k < 256 * unat (sectors (after h))" for h k
    unfolding offers_data_def soon_def soon_in_def using that by (intro exI [of _ 0]) (simp add: ready_drive_def ATA_POLLS_def)
  then show "serves (ready_drive img) img"
    unfolding serves_def by (auto simp: ready_drive_def)
qed


end
