(* ===== verification/LegacyShell.thy ===== *)
theory LegacyShell
  imports LegacyText LegacyCalc LegacyKernel Ata "HOL-Library.Monad_Syntax"
begin

text \<open>
  The shell of the x86 kernel, \<open>src/kernel/shell.c\<close>: line input, the commands and the three
  applications (calculator, line editor, file manager). Its state is the machine, the working directory
  and the traps that are still to come; a trap is taken where the shell halts for a key. A result
  \<open>None\<close> means that the code does not come back: it waits for a key that never comes, the machine has
  stopped, or C leaves the behaviour undefined. The programs and the disk drive are in the
  record \<open>world\<close>. A list of terminal actions is printed in order by \<open>prints\<close>.
\<close>

record shell =
  kernel :: machine
  g_current_directory :: string
  incoming :: "trap list"
  disk_ports :: history

record world =
  programs :: "bytes \<Rightarrow> machine \<Rightarrow> trap list"
  disk :: drive

definition prints :: "(terminal \<Rightarrow> terminal) list \<Rightarrow> shell \<Rightarrow> shell" where
  "prints fs s = s\<lparr>kernel := on_screen (fold (\<lambda>f. f) fs) (kernel s)\<rparr>"

definition set_store :: "fs_state \<Rightarrow> shell \<Rightarrow> shell" where
  "set_store st s = s\<lparr>kernel := (kernel s)\<lparr>store := st\<rparr>\<rparr>"

definition light_green :: "terminal \<Rightarrow> terminal" where
  "light_green = terminal_set_color VGA_COLOR_LIGHT_GREEN VGA_COLOR_BLACK"
definition light_grey :: "terminal \<Rightarrow> terminal" where
  "light_grey = terminal_set_color VGA_COLOR_LIGHT_GREY VGA_COLOR_BLACK"
definition light_cyan :: "terminal \<Rightarrow> terminal" where
  "light_cyan = terminal_set_color VGA_COLOR_LIGHT_CYAN VGA_COLOR_BLACK"

definition shell_print_signed :: "int \<Rightarrow> (terminal \<Rightarrow> terminal) list" where
  "shell_print_signed value =
     (if value < 0 then [terminal_putchar CHR ''-'', terminal_write_dec (word_of_int (- (value + 1)) + 1)]
      else [terminal_write_dec (word_of_int value)])"

definition shell_prompt :: "shell \<Rightarrow> shell" where
  "shell_prompt s =
     prints [light_green, terminal_write ''SNSX'', light_grey, terminal_write '':'', light_cyan,
       terminal_write (g_current_directory s), light_grey, terminal_write ''> ''] s"

section \<open>Reading a line\<close>

definition BS :: char where "BS = CHR 0x08"

partial_function (option) read_loop :: "nat \<Rightarrow> string \<Rightarrow> shell \<Rightarrow> (string \<times> shell) option" where
  "read_loop limit buffer s =
     (if halted (kernel s) then None
      else if \<not> keyboard_has_char (keys (kernel s)) then
        (case incoming s of
           [] \<Rightarrow> None
         | t # ts \<Rightarrow> read_loop limit buffer (s\<lparr>kernel := take_trap t (kernel s), incoming := ts\<rparr>))
      else (case keyboard_getchar (keys (kernel s)) of
        (c, k) \<Rightarrow>
          let s = s\<lparr>kernel := (kernel s)\<lparr>keys := k\<rparr>\<rparr>
          in if c = CR then read_loop limit buffer s
             else if c = LF then Some (buffer, prints [terminal_putchar LF] s)
             else if c = BS then
               (if buffer \<noteq> [] then read_loop limit (butlast buffer) (prints [terminal_backspace] s)
                else read_loop limit buffer s)
             else if \<not> isprint c \<or> length buffer + 1 \<ge> limit then read_loop limit buffer s
             else read_loop limit (buffer @ [c]) (prints [terminal_putchar c] s)))"

definition shell_readline :: "nat \<Rightarrow> shell \<Rightarrow> (string \<times> shell) option" where
  "shell_readline limit s = read_loop limit [] s"

definition shell_wait_for_enter :: "shell \<Rightarrow> shell option" where
  "shell_wait_for_enter s = map_option snd (shell_readline 4 (prints [terminal_write ''Press Enter to continue...''] s))"

text \<open>A message, then the wait.\<close>

definition complain :: "string \<Rightarrow> shell \<Rightarrow> shell option" where
  "complain message s = shell_wait_for_enter (prints [terminal_writeline message] s)"

section \<open>Entries on the screen\<close>

definition shell_resolve_path :: "string \<Rightarrow> shell \<Rightarrow> string" where
  "shell_resolve_path input s = shell_resolve_path_from (g_current_directory s) input"

definition entry_at :: "shell \<Rightarrow> nat \<Rightarrow> (string \<times> bytes \<times> nat) option" where
  "entry_at s i = entry_view (store (kernel s)) i"

definition found :: "shell \<Rightarrow> string \<Rightarrow> nat option" where
  "found s path = fs_find (store (kernel s)) path"

fun shell_print_entry_line :: "string \<times> bytes \<times> nat \<Rightarrow> (terminal \<Rightarrow> terminal) list" where
  "shell_print_entry_line (name, data, type) =
     (if type = FS_TYPE_DIR
      then [light_cyan, terminal_write (shell_basename name), terminal_write ''/'', light_grey, terminal_writeline ''  <dir>'']
      else [terminal_write (shell_basename name), terminal_write ''  '', terminal_write_dec (word_of_nat (length data)),
            terminal_write '' bytes  '', terminal_writeline (if type = FS_TYPE_PROGRAM then ''program'' else ''text'')])"

text \<open>The contents octet by octet, with a line feed behind them where they have none.\<close>

definition print_contents :: "bytes \<Rightarrow> (terminal \<Rightarrow> terminal) list" where
  "print_contents data = map terminal_putchar (if data = [] \<or> last data \<noteq> LF then data @ [LF] else data)"

definition shell_preview_text :: "string \<Rightarrow> shell \<Rightarrow> shell option" where
  "shell_preview_text absolute_path s =
     (case found s absolute_path of
        None \<Rightarrow> shell_wait_for_enter (prints [terminal_clear, terminal_writeline ''Path not found.''] s)
      | Some i \<Rightarrow>
          do {
            (name, data, type) \<leftarrow> entry_at s i;
            shell_wait_for_enter
              (prints ([terminal_clear, light_cyan, terminal_write ''SNSX Viewer: '', light_grey,
                  terminal_writeline absolute_path, terminal_writeline []] @
                (if type = FS_TYPE_DIR then [terminal_writeline ''This path is a directory.'']
                 else if type = FS_TYPE_PROGRAM then [terminal_writeline ''This file is a program binary. Use run PATH to execute it.'']
                 else print_contents data)) s)
          })"

text \<open>The entries of one directory after the other; the walk into a directory is the first of the two calls.\<close>

partial_function (option) walk_list :: "fs_state \<Rightarrow> nat list \<Rightarrow> nat \<Rightarrow> terminal \<Rightarrow> terminal option" where
  "walk_list st entries depth t =
     (case entries of
        [] \<Rightarrow> Some t
      | i # entries \<Rightarrow>
          do {
            (name, data, type) \<leftarrow> entry_view st i;
            t \<leftarrow> Some (fold (\<lambda>f. f) (replicate depth (terminal_write ''  '') @ shell_print_entry_line (name, data, type)) t);
            t \<leftarrow> (if type = FS_TYPE_DIR
                  then walk_list st (fs_list st (shell_entry_absolute_path name) FILE_MANAGER_VIEW_MAX) (depth + 1) t
                  else Some t);
            walk_list st entries depth t
          })"

definition shell_tree_walk :: "string \<Rightarrow> nat \<Rightarrow> shell \<Rightarrow> shell option" where
  "shell_tree_walk absolute_path depth s =
     (let st = store (kernel s)
      in map_option (\<lambda>t. prints [\<lambda>_. t] s)
           (walk_list st (fs_list st absolute_path FILE_MANAGER_VIEW_MAX) depth (screen (kernel s))))"

definition shell_stat_path :: "string \<Rightarrow> shell \<Rightarrow> shell option" where
  "shell_stat_path absolute_path s =
     (case found s absolute_path of
        None \<Rightarrow> Some (prints [terminal_writeline ''Path not found.''] s)
      | Some i \<Rightarrow>
          do {
            (name, data, type) \<leftarrow> entry_at s i;
            Some (prints [terminal_write ''Path: '', terminal_putchar CHR ''/'', terminal_write name, terminal_writeline [],
              terminal_write ''Type: '',
              terminal_writeline (if type = FS_TYPE_DIR then ''directory'' else if type = FS_TYPE_PROGRAM then ''program'' else ''text''),
              terminal_write ''Size: '', terminal_write_dec (word_of_nat (length data)), terminal_writeline '' bytes''] s)
          })"

section \<open>Calculator\<close>

definition defined :: "'a outcome \<Rightarrow> 'a option" where
  "defined r = (case r of Done x \<Rightarrow> Some x | _ \<Rightarrow> None)"

partial_function (option) calculator_loop :: "shell \<Rightarrow> shell option" where
  "calculator_loop s =
     do {
       (expression, s) \<leftarrow> shell_readline SHELL_INPUT_MAX (prints [light_cyan, terminal_write ''calc'', light_grey, terminal_write ''> ''] s);
       if expression = ''exit'' \<or> expression = ''quit'' then Some s
       else if expression = [] then calculator_loop s
       else do {
         (result, valid) \<leftarrow> defined (calc_evaluate expression);
         if \<not> valid then calculator_loop (prints [terminal_writeline ''Invalid expression.''] s)
         else calculator_loop (prints (terminal_write ''= '' # shell_print_signed result @ [terminal_writeline []]) s)
       }
     }"

definition app_calculator :: "string list \<Rightarrow> shell \<Rightarrow> shell option" where
  "app_calculator argv s =
     (if length argv > 1 then
        do {
          (result, valid) \<leftarrow> defined (calc_evaluate (shell_join_args 1 argv SHELL_INPUT_MAX));
          Some (prints
            (if \<not> valid then [terminal_writeline ''Invalid expression. Example: calc (2 + 3) * 4'']
             else terminal_write ''Result: '' # shell_print_signed result @ [terminal_writeline []]) s)
        }
      else calculator_loop
        (prints [terminal_writeline ''SNSX Calculator'',
           terminal_writeline ''Type an expression or 'exit'. Supported operators: + - * / and parentheses.''] s))"

section \<open>Editor\<close>

definition saved :: "string \<Rightarrow> bytes \<Rightarrow> shell \<Rightarrow> shell \<times> bool" where
  "saved absolute_path buffer s =
     (case fs_write_file (store (kernel s)) absolute_path buffer FS_TYPE_TEXT of (st, success) \<Rightarrow> (set_store st s, success))"

partial_function (option) editor_loop :: "string \<Rightarrow> bytes \<Rightarrow> shell \<Rightarrow> shell option" where
  "editor_loop absolute_path buffer s =
     do {
       (line, s) \<leftarrow> shell_readline SHELL_INPUT_MAX (prints [light_green, terminal_write ''edit'', light_grey, terminal_write ''> ''] s);
       if line = ''.help'' then
         editor_loop absolute_path buffer
           (prints [terminal_writeline ''.save  Save and leave the editor'', terminal_writeline ''.quit  Leave without saving'',
              terminal_writeline ''.show  Display the current buffer'', terminal_writeline ''.clear Clear the current buffer''] s)
       else if line = ''.quit'' then Some (prints [terminal_writeline ''Editor closed without saving.''] s)
       else if line = ''.clear'' then editor_loop absolute_path [] (prints [terminal_writeline ''Buffer cleared.''] s)
       else if line = ''.show'' then
         editor_loop absolute_path buffer
           (prints ([terminal_writeline ''-----''] @
              (if buffer = [] then [terminal_writeline ''<empty>''] else print_contents buffer) @ [terminal_writeline ''-----'']) s)
       else if line = ''.save'' then
         (if \<not> snd (saved absolute_path buffer s)
          then editor_loop absolute_path buffer
                 (prints [terminal_writeline ''Save failed. Check that the parent directory exists.''] (fst (saved absolute_path buffer s)))
          else Some (prints [terminal_writeline ''File saved.''] (fst (saved absolute_path buffer s))))
       else if length buffer + length line + 1 \<ge> FS_MAX_ENTRY_SIZE then
         editor_loop absolute_path buffer (prints [terminal_writeline ''Editor buffer is full.''] s)
       else editor_loop absolute_path (buffer @ line @ [LF]) s
     }"

definition editor_banner :: "string \<Rightarrow> bytes \<Rightarrow> (terminal \<Rightarrow> terminal) list" where
  "editor_banner absolute_path buffer =
     [terminal_clear, light_cyan, terminal_write ''SNSX Editor: '', light_grey, terminal_writeline absolute_path,
      terminal_writeline ''Line editor commands: .save  .quit  .show  .clear  .help'',
      terminal_writeline ''Typed lines are appended to the current buffer. Use .clear to rewrite from scratch.'',
      terminal_writeline []] @
     (if buffer = [] then []
      else [terminal_writeline ''Existing content:''] @ print_contents buffer @ [terminal_writeline []])"

definition app_text_editor :: "string \<Rightarrow> shell \<Rightarrow> shell option" where
  "app_text_editor absolute_path s =
     (case found s absolute_path of
        None \<Rightarrow> editor_loop absolute_path [] (prints (editor_banner absolute_path []) s)
      | Some i \<Rightarrow>
          do {
            (name, data, type) \<leftarrow> entry_at s i;
            if type = FS_TYPE_DIR then Some (prints [terminal_writeline ''Cannot edit a directory.''] s)
            else if type = FS_TYPE_PROGRAM then Some (prints [terminal_writeline ''Cannot edit a program binary as text.''] s)
            else if length data > FS_MAX_ENTRY_SIZE then Some (prints [terminal_writeline ''File is too large for the editor buffer.''] s)
            else editor_loop absolute_path data (prints (editor_banner absolute_path data) s)
          })"

section \<open>File manager\<close>

text \<open>None inside: the number is refused; none outside: \<open>atoi\<close> overflows.\<close>

definition shell_parse_index :: "string \<Rightarrow> nat \<Rightarrow> nat option option" where
  "shell_parse_index s max_count =
     map_option (\<lambda>parsed. if parsed \<le> 0 \<or> nat parsed > max_count then None else Some (nat parsed - 1)) (atoi s)"

definition manager_screen :: "string \<Rightarrow> (string \<times> bytes \<times> nat) list \<Rightarrow> (terminal \<Rightarrow> terminal) list" where
  "manager_screen cwd entries =
     [terminal_clear, light_cyan, terminal_writeline ''SNSX File Manager'', light_grey, terminal_write ''Directory: '',
      terminal_writeline cwd, terminal_writeline []] @
     (if entries = [] then [terminal_writeline ''<empty>'']
      else concat (map (\<lambda>(n, e). [terminal_write_dec (word_of_nat (n + 1)), terminal_write ''. ''] @ shell_print_entry_line e)
             (enumerate 0 entries))) @
     [terminal_writeline [],
      terminal_writeline ''Commands: open N, edit N, run N, cd N, del N, mkdir NAME, new NAME, ren N NAME, copy N NAME, up, quit'',
      light_green, terminal_write ''files'', light_grey, terminal_write ''> '']"

text \<open>A program's run: a machine that stopped on the way leaves nothing to do.\<close>

definition launch :: "world \<Rightarrow> string \<Rightarrow> bytes \<Rightarrow> (int \<Rightarrow> shell \<Rightarrow> shell option) \<Rightarrow> shell \<Rightarrow> shell option" where
  "launch w name img report s =
     (case task_run_program (programs w) name img (kernel s) of
        (m, None) \<Rightarrow> None
      | (m, Some p) \<Rightarrow> report p (s\<lparr>kernel := m\<rparr>))"

definition files_run :: "world \<Rightarrow> string \<Rightarrow> shell \<Rightarrow> shell option" where
  "files_run w name s =
     (case found s (shell_entry_absolute_path name) of
        None \<Rightarrow> complain ''That entry is not runnable.'' s
      | Some i \<Rightarrow>
          do {
            (name, data, type) \<leftarrow> entry_at s i;
            if type \<noteq> FS_TYPE_PROGRAM then complain ''That entry is not runnable.'' s
            else launch w name data
              (\<lambda>p s. shell_wait_for_enter
                 (prints [terminal_write ''Program finished with pid '', terminal_write_dec (word_of_int p), terminal_writeline ''.''] s)) s
          })"

text \<open>The destination beside the source; a name that does not fit is left out.\<close>

definition beside :: "string \<Rightarrow> string \<Rightarrow> string" where
  "beside source_path name =
     (let parent = shell_parent_directory (shell_copy_string [] source_path FS_PATH_MAX)
      in if parent = ''/'' then (if 1 + length name + 1 < FS_PATH_MAX then ''/'' @ name else ''/'')
         else let destination = shell_copy_string [] parent FS_PATH_MAX
              in if length destination + length name + 2 < FS_PATH_MAX then destination @ ''/'' @ name else destination)"

text \<open>Storing the table an operation returns, and the complaint when it failed.\<close>

definition try_store :: "fs_state \<times> bool \<Rightarrow> string \<Rightarrow> shell \<Rightarrow> shell option" where
  "try_store r message s = (if snd r then Some (set_store (fst r) s) else complain message (set_store (fst r) s))"

definition files_with_entry :: "world \<Rightarrow> string \<Rightarrow> string list \<Rightarrow> string \<times> bytes \<times> nat \<Rightarrow> shell \<Rightarrow> (string \<times> shell) option" where
  "files_with_entry w cwd argv entry s =
     (case entry of (name, data, type) \<Rightarrow>
       let path = shell_entry_absolute_path name; st = store (kernel s); command = argv ! 0
       in if command = ''open'' then
            (if type = FS_TYPE_DIR then Some (shell_copy_string [] path FS_PATH_MAX, s)
             else map_option (Pair cwd) (shell_preview_text path s))
          else if command = ''edit'' then map_option (Pair cwd) (app_text_editor path s)
          else if command = ''run'' then map_option (Pair cwd) (files_run w name s)
          else if command = ''cd'' then
            (if type \<noteq> FS_TYPE_DIR then map_option (Pair cwd) (complain ''That entry is not a directory.'' s) else Some (path, s))
          else if command = ''del'' then
            map_option (Pair cwd) (try_store (fs_remove st path) ''Delete failed. Directories must be empty.'' s)
          else if length argv < 3 then map_option (Pair cwd) (complain ''A new name is required.'' s)
          else if command = ''ren'' then
            map_option (Pair cwd) (try_store (fs_move st path (beside path (argv ! 2))) ''Rename failed.'' s)
          else map_option (Pair cwd) (try_store (fs_copy st path (beside path (argv ! 2))) ''Copy failed.'' s))"

definition entry_commands :: "string list" where
  "entry_commands = [''open'', ''edit'', ''run'', ''cd'', ''del'', ''ren'', ''copy'']"

definition files_command :: "world \<Rightarrow> string \<Rightarrow> nat list \<Rightarrow> string list \<Rightarrow> shell \<Rightarrow> (string \<times> shell) option" where
  "files_command w cwd entries argv s =
     (let st = store (kernel s)
      in if length argv < 2 then map_option (Pair cwd) (complain ''More input is needed for that command.'' s)
         else if argv ! 0 \<in> set entry_commands then
           do {
             index \<leftarrow> shell_parse_index (argv ! 1) (length entries);
             (case index of
                None \<Rightarrow> map_option (Pair cwd) (complain ''Invalid entry number.'' s)
              | Some i \<Rightarrow> do { entry \<leftarrow> entry_at s (entries ! i); files_with_entry w cwd argv entry s })
           }
         else if argv ! 0 = ''mkdir'' then
           map_option (Pair cwd) (try_store (fs_mkdir st (shell_resolve_path_from cwd (argv ! 1))) ''Directory creation failed.'' s)
         else if argv ! 0 = ''new'' then
           (let path = shell_resolve_path_from cwd (argv ! 1); r = fs_write_file st path [] FS_TYPE_TEXT
            in if \<not> snd r then map_option (Pair cwd) (complain ''Could not create the file.'' (set_store (fst r) s))
               else map_option (Pair cwd) (app_text_editor path (set_store (fst r) s)))
         else map_option (Pair cwd) (complain ''Unknown file manager command.'' s))"

partial_function (option) manager_loop :: "world \<Rightarrow> string \<Rightarrow> shell \<Rightarrow> shell option" where
  "manager_loop w cwd s =
     do {
       entries \<leftarrow> Some (fs_list (store (kernel s)) cwd FILE_MANAGER_VIEW_MAX);
       views \<leftarrow> those (map (entry_at s) entries);
       (line, s) \<leftarrow> shell_readline SHELL_INPUT_MAX (prints (manager_screen cwd views) s);
       argv \<leftarrow> Some (shell_tokenize line SHELL_ARG_MAX);
       if argv = [] then manager_loop w cwd s
       else if argv ! 0 = ''quit'' \<or> argv ! 0 = ''exit''
       then Some (s\<lparr>g_current_directory := shell_copy_string [] cwd FS_PATH_MAX\<rparr>)
       else if argv ! 0 = ''up'' then manager_loop w (shell_parent_directory cwd) s
       else do { (cwd, s) \<leftarrow> files_command w cwd entries argv s; manager_loop w cwd s }
     }"

definition app_file_manager :: "world \<Rightarrow> shell \<Rightarrow> shell option" where
  "app_file_manager w s = manager_loop w (shell_copy_string [] (g_current_directory s) FS_PATH_MAX) s"

section \<open>Commands\<close>

definition command_help :: "shell \<Rightarrow> shell" where
  "command_help =
     prints (map terminal_writeline
       [''help             Show available SNSX commands'',
        ''apps             Show bundled apps and launch tips'',
        ''clear            Clear the screen'',
        ''pwd              Show the current directory'',
        ''ls [PATH]        List files or directories'',
        ''tree [PATH]      Show a directory tree'',
        ''cd DIR           Change current directory'',
        ''cat FILE         View a text file'',
        ''stat PATH        Show file metadata'',
        ''touch FILE       Create an empty text file'',
        ''mkdir DIR        Create a directory'',
        ''rm PATH          Remove a file or empty directory'',
        ''cp SRC DST       Copy a text/program file'',
        ''mv SRC DST       Move or rename a file/directory'',
        ''files            Launch the file manager app'',
        ''calc [EXPR]      Launch calculator or evaluate an expression'',
        ''edit FILE        Launch the text editor app'',
        ''run FILE         Execute a bundled flat program'',
        ''ps               Show tracked tasks'',
        ''ticks            Show PIT tick counter'',
        ''ata              Probe the primary ATA disk'',
        ''about            Show system information'',
        ''reboot           Reset the machine''])"

definition command_apps :: "shell \<Rightarrow> shell" where
  "command_apps =
     prints (map terminal_writeline
       [''SNSX apps:'', ''files            Full-screen file manager'', ''calc             Calculator app with expression parsing'',
        ''edit FILE        Text editor app'', ''run /bin/hello.app'', ''run /bin/clear.app''])"

definition command_pwd :: "shell \<Rightarrow> shell" where
  "command_pwd s = prints [terminal_writeline (g_current_directory s)] s"

definition list_directory :: "string \<Rightarrow> shell \<Rightarrow> shell option" where
  "list_directory absolute_path s =
     (let entries = fs_list (store (kernel s)) absolute_path FILE_MANAGER_VIEW_MAX
      in if entries = [] then Some (prints [terminal_writeline ''<empty>''] s)
         else map_option (\<lambda>views. prints (concat (map shell_print_entry_line views)) s) (those (map (entry_at s) entries)))"

definition command_ls :: "string \<Rightarrow> shell \<Rightarrow> shell option" where
  "command_ls path s =
     (let absolute_path = shell_resolve_path path s
      in case found s absolute_path of
           Some i \<Rightarrow>
             do {
               (name, data, type) \<leftarrow> entry_at s i;
               if type \<noteq> FS_TYPE_DIR then Some (prints (shell_print_entry_line (name, data, type)) s)
               else list_directory absolute_path s
             }
         | None \<Rightarrow>
             if absolute_path \<noteq> ''/'' then Some (prints [terminal_writeline ''Path not found.''] s)
             else list_directory absolute_path s)"

definition command_tree :: "string \<Rightarrow> shell \<Rightarrow> shell option" where
  "command_tree path s =
     (let absolute_path = shell_resolve_path path s
      in case found s absolute_path of
           None \<Rightarrow>
             if absolute_path = ''/'' then shell_tree_walk absolute_path 1 (prints [terminal_writeline ''/''] s)
             else Some (prints [terminal_writeline ''Path not found.''] s)
         | Some i \<Rightarrow>
             do {
               (name, data, type) \<leftarrow> entry_at s i;
               if type \<noteq> FS_TYPE_DIR then Some (prints (shell_print_entry_line (name, data, type)) s)
               else shell_tree_walk absolute_path 1 (prints [terminal_writeline absolute_path] s)
             })"

definition command_cd :: "string \<Rightarrow> shell \<Rightarrow> shell" where
  "command_cd path s =
     (let absolute_path = shell_resolve_path path s
      in if \<not> fs_is_dir (store (kernel s)) absolute_path then prints [terminal_writeline ''Directory not found.''] s
         else s\<lparr>g_current_directory := shell_copy_string (g_current_directory s) absolute_path FS_PATH_MAX\<rparr>)"

definition command_cat :: "string \<Rightarrow> shell \<Rightarrow> shell option" where
  "command_cat path s =
     (case found s (shell_resolve_path path s) of
        None \<Rightarrow> Some (prints [terminal_writeline ''File not found.''] s)
      | Some i \<Rightarrow>
          do {
            (name, data, type) \<leftarrow> entry_at s i;
            Some (prints (if type \<noteq> FS_TYPE_TEXT then [terminal_writeline ''Use stat or run depending on the file type.'']
                          else print_contents data) s)
          })"

text \<open>The commands that change the table: its new state, and the message of a failure.\<close>

definition change_store :: "fs_state \<times> bool \<Rightarrow> string \<Rightarrow> shell \<Rightarrow> shell" where
  "change_store r message s =
     (if snd r then set_store (fst r) s else prints [terminal_writeline message] (set_store (fst r) s))"

definition command_touch :: "string \<Rightarrow> shell \<Rightarrow> shell" where
  "command_touch path s =
     change_store (fs_write_file (store (kernel s)) (shell_resolve_path path s) [] FS_TYPE_TEXT) ''File creation failed.'' s"

definition command_mkdir :: "string \<Rightarrow> shell \<Rightarrow> shell" where
  "command_mkdir path s = change_store (fs_mkdir (store (kernel s)) (shell_resolve_path path s)) ''Directory creation failed.'' s"

definition command_remove :: "string \<Rightarrow> shell \<Rightarrow> shell" where
  "command_remove path s =
     change_store (fs_remove (store (kernel s)) (shell_resolve_path path s)) ''Remove failed. Directories must be empty.'' s"

definition command_copy :: "string \<Rightarrow> string \<Rightarrow> shell \<Rightarrow> shell" where
  "command_copy source destination s =
     change_store (fs_copy (store (kernel s)) (shell_resolve_path source s) (shell_resolve_path destination s)) ''Copy failed.'' s"

definition command_move :: "string \<Rightarrow> string \<Rightarrow> shell \<Rightarrow> shell" where
  "command_move source destination s =
     change_store (fs_move (store (kernel s)) (shell_resolve_path source s) (shell_resolve_path destination s)) ''Move failed.'' s"

definition command_edit :: "string \<Rightarrow> shell \<Rightarrow> shell option" where
  "command_edit path s = app_text_editor (shell_resolve_path path s) s"

definition command_run :: "world \<Rightarrow> string \<Rightarrow> shell \<Rightarrow> shell option" where
  "command_run w path s =
     (case found s (shell_resolve_path path s) of
        None \<Rightarrow> Some (prints [terminal_writeline ''Program not found.''] s)
      | Some i \<Rightarrow>
          do {
            (name, data, type) \<leftarrow> entry_at s i;
            if type \<noteq> FS_TYPE_PROGRAM then Some (prints [terminal_writeline ''That path is not a runnable program.''] s)
            else launch w name data
              (\<lambda>p s. Some (prints
                 (if p < 0 then [terminal_writeline ''Program launch failed.'']
                  else [terminal_write ''Program completed, pid '', terminal_write_dec (word_of_int p), terminal_writeline []]) s)) s
          })"

definition task_line :: "task_t \<Rightarrow> (terminal \<Rightarrow> terminal) list" where
  "task_line k =
     [terminal_write_dec (word_of_int (pid k)), terminal_write ''    '',
      terminal_write (case state k of TASK_RUNNING \<Rightarrow> ''running'' | TASK_READY \<Rightarrow> ''ready  '' | TASK_ZOMBIE \<Rightarrow> ''zombie ''),
      terminal_write ''   '', terminal_write_dec (runtime_ticks k), terminal_write ''    '', terminal_writeline (task_name k)]"

definition command_ps :: "shell \<Rightarrow> shell" where
  "command_ps s = prints (terminal_writeline ''PID  STATE     TICKS  NAME'' # concat (map task_line (used (tasks (kernel s))))) s"

text \<open>The driver's writes are writes of the machine.\<close>

fun port_access :: "io \<Rightarrow> machine \<Rightarrow> machine" where
  "port_access (Out port v) m = outb port v m"
| "port_access (In port) m = m"
| "port_access (In_word port) m = m"

definition use_disk :: "history \<Rightarrow> shell \<Rightarrow> shell" where
  "use_disk h s = s\<lparr>disk_ports := h, kernel := fold port_access (drop (length (disk_ports s)) h) (kernel s)\<rparr>"

definition command_ata :: "world \<Rightarrow> shell \<Rightarrow> shell" where
  "command_ata w s =
     (case ata_identify_primary (disk w) (disk_ports s) of (identity, h) \<Rightarrow>
       prints (case identity of
         None \<Rightarrow> [terminal_writeline ''No primary ATA device detected.'']
       | Some identity \<Rightarrow>
           [terminal_write ''Model: '', terminal_writeline (takeWhile (\<lambda>c. c \<noteq> NUL) (model identity)), terminal_write ''LBA28 sectors: '',
            terminal_write_dec (lba28_sectors identity), terminal_writeline []]) (use_disk h s))"

definition command_about :: "shell \<Rightarrow> shell" where
  "command_about =
     prints (map terminal_writeline
       [''SNSX 0.2 live operating system'',
        ''32-bit x86 monolithic kernel written in C and NASM.'',
        ''Features: paging, interrupts, keyboard IRQs, PIT, ATA, writable RAM VFS, shell apps.'',
        ''Runtime file changes live in memory for the current boot session.''])"

text \<open>The processor is told to reset; until it does, nothing more happens.\<close>

definition command_reboot :: "shell \<Rightarrow> shell" where
  "command_reboot s = s\<lparr>kernel := (outb 0x64 0xFE (kernel s))\<lparr>halted := True\<rparr>\<rparr>"

definition command_ticks :: "shell \<Rightarrow> shell" where
  "command_ticks s = prints [terminal_write ''Ticks: '', terminal_write_dec (timer_ticks (kernel s)), terminal_writeline []] s"

section \<open>The shell\<close>

definition usage :: "string \<Rightarrow> nat \<Rightarrow> string list \<Rightarrow> (shell \<Rightarrow> shell option) \<Rightarrow> shell \<Rightarrow> shell option" where
  "usage message n argv f s = (if length argv < n then Some (prints [terminal_writeline message] s) else f s)"

definition shell_command :: "world \<Rightarrow> string list \<Rightarrow> shell \<Rightarrow> shell option" where
  "shell_command w argv s =
     (let command = argv ! 0; path = (if length argv > 1 then argv ! 1 else g_current_directory s)
      in if command = ''help'' then Some (command_help s)
         else if command = ''apps'' then Some (command_apps s)
         else if command = ''clear'' then Some (prints [terminal_clear] s)
         else if command = ''pwd'' then Some (command_pwd s)
         else if command = ''ls'' then command_ls path s
         else if command = ''tree'' then command_tree path s
         else if command = ''cd'' then usage ''Usage: cd DIR'' 2 argv (\<lambda>s. Some (command_cd path s)) s
         else if command = ''cat'' then usage ''Usage: cat FILE'' 2 argv (command_cat path) s
         else if command = ''stat'' then usage ''Usage: stat PATH'' 2 argv (\<lambda>s. shell_stat_path (shell_resolve_path path s) s) s
         else if command = ''touch'' then usage ''Usage: touch FILE'' 2 argv (\<lambda>s. Some (command_touch path s)) s
         else if command = ''mkdir'' then usage ''Usage: mkdir DIR'' 2 argv (\<lambda>s. Some (command_mkdir path s)) s
         else if command = ''rm'' then usage ''Usage: rm PATH'' 2 argv (\<lambda>s. Some (command_remove path s)) s
         else if command = ''cp'' then usage ''Usage: cp SRC DST'' 3 argv (\<lambda>s. Some (command_copy path (argv ! 2) s)) s
         else if command = ''mv'' then usage ''Usage: mv SRC DST'' 3 argv (\<lambda>s. Some (command_move path (argv ! 2) s)) s
         else if command = ''files'' then map_option (prints [terminal_clear]) (app_file_manager w s)
         else if command = ''calc'' then app_calculator argv s
         else if command = ''edit'' then usage ''Usage: edit FILE'' 2 argv (command_edit path) s
         else if command = ''run'' then usage ''Usage: run FILE'' 2 argv (command_run w path) s
         else if command = ''ps'' then Some (command_ps s)
         else if command = ''ticks'' then Some (command_ticks s)
         else if command = ''ata'' then Some (command_ata w s)
         else if command = ''about'' then Some (command_about s)
         else if command = ''reboot'' then Some (command_reboot s)
         else Some (prints [terminal_writeline ''Unknown command. Type help.''] s))"

text \<open>\<open>shell_run\<close>: what comes before its loop, one turn of the loop, and several turns.\<close>

definition shell_start :: "shell \<Rightarrow> shell" where
  "shell_start s =
     (let s = (if fs_is_dir (store (kernel s)) (g_current_directory s) then s
               else s\<lparr>g_current_directory := shell_copy_string (g_current_directory s) ''/'' FS_PATH_MAX\<rparr>)
      in prints [light_cyan, terminal_writeline ''SNSX live shell ready.'', light_grey,
           terminal_writeline ''Apps: files, calc, edit FILE. Type help for the full command set.''] s)"

definition shell_turn :: "world \<Rightarrow> shell \<Rightarrow> shell option" where
  "shell_turn w s =
     do {
       (line, s) \<leftarrow> shell_readline SHELL_INPUT_MAX (shell_prompt s);
       argv \<leftarrow> Some (shell_tokenize line SHELL_ARG_MAX);
       if argv = [] then Some s else shell_command w argv s
     }"

fun shell_turns :: "world \<Rightarrow> nat \<Rightarrow> shell \<Rightarrow> shell option" where
  "shell_turns w 0 s = Some s"
| "shell_turns w (Suc n) s = Option.bind (shell_turn w s) (shell_turns w n)"

end
