(* ===== verification/LegacySession.thy ===== *)
theory LegacySession
  imports LegacyShell
begin

text \<open>
  What sessions at the x86 shell do: a line is read once it is typed, every command keeps what the kernel relies on,
  the editor saves what is typed, and where the commands go wrong. The file system, the keyboard and the kernel
  come in through what their theories prove (\<open>x86_table\<close>, \<open>keyboard_queue\<close>, \<open>dispatch_effect\<close>, \<open>run_program_keeps\<close>).
\<close>


section \<open>What is left unchanged\<close>

lemma prints_fields [simp]:
  "g_current_directory (prints fs s) = g_current_directory s" "incoming (prints fs s) = incoming s"
  "store (kernel (prints fs s)) = store (kernel s)" "keys (kernel (prints fs s)) = keys (kernel s)"
  "tasks (kernel (prints fs s)) = tasks (kernel s)" "halted (kernel (prints fs s)) = halted (kernel s)"
  "g_ticks (kernel (prints fs s)) = g_ticks (kernel s)" "interrupt_handlers (kernel (prints fs s)) = interrupt_handlers (kernel s)"
  by (simp_all add: prints_def)

lemma set_store_fields [simp]:
  "g_current_directory (set_store st s) = g_current_directory s" "incoming (set_store st s) = incoming s"
  "store (kernel (set_store st s)) = st" "keys (kernel (set_store st s)) = keys (kernel s)"
  "tasks (kernel (set_store st s)) = tasks (kernel s)" "halted (kernel (set_store st s)) = halted (kernel s)"
  "g_ticks (kernel (set_store st s)) = g_ticks (kernel s)" "interrupt_handlers (kernel (set_store st s)) = interrupt_handlers (kernel s)"
  by (simp_all add: set_store_def)

lemma kernel_ok_prints [simp]: "kernel_ok (kernel (prints fs s)) = kernel_ok (kernel s)"
  by (simp add: kernel_ok_def)

lemma kernel_ok_set_store [simp]: "kernel_ok (kernel (set_store st s)) = kernel_ok (kernel s)"
  by (simp add: kernel_ok_def)

section \<open>Input that is still to be read\<close>

text \<open>
  The characters that wait, followed by those the coming scan codes type. All coming traps are hardware
  interrupts.
\<close>

definition irq :: "trap \<Rightarrow> bool" where
  "irq t \<longleftrightarrow> 32 \<le> int_no (regs t) \<and> int_no (regs t) \<le> 47"

definition codes_of :: "trap list \<Rightarrow> u8 list" where
  "codes_of ts = map scancode (filter (\<lambda>t. int_no (regs t) = 33) ts)"

definition pending :: "shell \<Rightarrow> string" where
  "pending s = contents (keys (kernel s)) @ typed (shift_active (keys (kernel s))) (codes_of (incoming s))"

definition attentive :: "shell \<Rightarrow> bool" where
  "attentive s \<longleftrightarrow> kernel_ok (kernel s) \<and> \<not> halted (kernel s) \<and> list_all irq (incoming s)"

lemma pending_prints [simp]: "pending (prints fs s) = pending s" "attentive (prints fs s) = attentive s"
  by (simp_all add: pending_def attentive_def)

lemma pending_set_store [simp]: "pending (set_store st s) = pending s" "attentive (set_store st s) = attentive s"
  by (simp_all add: pending_def attentive_def)

lemma callback_one:
  assumes "keyboard_ok k"
  shows "length (contents (keyboard_callback c k)) \<le> Suc (length (contents k))"
proof -
  have "contents (k\<lparr>shift_active := b\<rparr>) = contents k" for b by (simp add: contents_def waiting_def)
  moreover have "length (contents (buffer_push x k)) \<le> Suc (length (contents k))" for x
    using keyboard_queue.push_keeps [OF assms, of x] by simp
  ultimately show ?thesis by (simp add: keyboard_callback_def Let_def)
qed

lemma irq_vector: "irq t \<Longrightarrow> vector_ok t \<and> \<not> unat (int_no (regs t)) < 32 \<and> unat (int_no (regs t)) \<noteq> 128 \<and>
    (unat (int_no (regs t)) = 33 \<longleftrightarrow> int_no (regs t) = 33)"
  by (auto simp: irq_def vector_ok_def word_le_nat_alt word_less_nat_alt word_unat_eq_iff)

lemma trap_pending:
  assumes "attentive s" and "contents (keys (kernel s)) = []" and "incoming s = t # ts"
  defines "s' \<equiv> s\<lparr>kernel := take_trap t (kernel s), incoming := ts\<rparr>"
  shows "attentive s' \<and> pending s' = pending s \<and> store (kernel s') = store (kernel s) \<and> g_current_directory s' = g_current_directory s"
proof -
  let ?m = "kernel s"
  have t: "irq t" "list_all irq ts" "kernel_ok ?m" "\<not> halted ?m" using assms(1,3) by (simp_all add: attentive_def)
  note v = irq_vector [OF t(1)]
  have e: "take_trap t ?m = snd (interrupt_dispatch t ?m)" using t by (simp add: take_trap_def)
  note d = dispatch_effect [OF t(3) _ t(4), of t, folded e]
  have ok: "kernel_ok (take_trap t ?m)" using trap_keeps [OF t(3)] v by blast
  have att: "attentive s'" using ok t v d(2) by (simp add: attentive_def s'_def)
  have k: "keys (take_trap t ?m) = (if int_no (regs t) = 33 then keyboard_callback (scancode t) (keys ?m) else keys ?m)"
    using d(4) v by simp
  have kb: "keyboard_ok (keys ?m)" using t by (simp add: kernel_ok_def)
  have "pending s' = pending s"
  proof (cases "int_no (regs t) = 33")
    case True
    obtain xs where xs: "typed (shift_active (keys ?m)) (scancode t # codes_of ts) =
        xs @ typed (shift_active (keyboard_callback (scancode t) (keys ?m))) (codes_of ts)"
      "contents (keyboard_callback (scancode t) (keys ?m)) = take 127 xs"
      using callback_types [OF kb, of "scancode t" "codes_of ts"] assms(2) by auto
    have "length (take 127 xs) \<le> 1" using callback_one [OF kb, of "scancode t"] assms(2) xs(2) by simp
    then have "take 127 xs = xs" by simp
    then show ?thesis
      using True xs assms(2,3) k by (simp add: pending_def s'_def codes_of_def)
  next
    case False
    then show ?thesis using assms(3) k by (simp add: pending_def s'_def codes_of_def)
  qed
  then show ?thesis using att d(5) v by (simp add: s'_def)
qed

section \<open>A line\<close>

fun edit_line :: "nat \<Rightarrow> string \<Rightarrow> string \<Rightarrow> (string \<times> string) option" where
  "edit_line limit buffer [] = None"
| "edit_line limit buffer (c # xs) =
     (if c = LF then Some (buffer, xs)
      else if c = BS then edit_line limit (butlast buffer) xs
      else if \<not> isprint c \<or> length buffer + 1 \<ge> limit then edit_line limit buffer xs
      else edit_line limit (buffer @ [c]) xs)"

lemma getchar_pending:
  assumes "attentive s" "keyboard_has_char (keys (kernel s))"
  obtains c k where "keyboard_getchar (keys (kernel s)) = (c, k)"
    and "pending s = c # pending (s\<lparr>kernel := (kernel s)\<lparr>keys := k\<rparr>\<rparr>)"
    and "attentive (s\<lparr>kernel := (kernel s)\<lparr>keys := k\<rparr>\<rparr>)"
proof -
  obtain c k where g: "keyboard_getchar (keys (kernel s)) = (c, k)" by fastforce
  have kb: "keyboard_ok (keys (kernel s))" using assms by (simp add: attentive_def kernel_ok_def)
  have p: "take_char (keys (kernel s)) = Some (c, k)" using assms(2) g by (simp add: take_char_def)
  have sh: "shift_active k = shift_active (keys (kernel s))"
    using g by (auto simp: keyboard_getchar_def split: if_splits)
  show thesis
    using that [OF g] pop_first [OF kb p] assms(1) sh by (simp add: pending_def attentive_def kernel_ok_def)
qed

definition line_result :: "(string \<times> string) option \<Rightarrow> (string \<times> shell) option \<Rightarrow> shell \<Rightarrow> bool" where
  "line_result e r s \<longleftrightarrow>
     (case e of
        None \<Rightarrow> r = None
      | Some (line, rest) \<Rightarrow> \<exists>s'. r = Some (line, s') \<and> attentive s' \<and> pending s' = rest \<and>
          store (kernel s') = store (kernel s) \<and> g_current_directory s' = g_current_directory s)"

lemma line_result_same:
  "store (kernel u) = store (kernel s) \<Longrightarrow> g_current_directory u = g_current_directory s \<Longrightarrow> line_result e r u = line_result e r s"
  by (cases e) (auto simp: line_result_def)

lemma read_loop_line:
  "attentive s \<Longrightarrow>
   line_result (edit_line limit buffer (pending s)) (read_loop limit buffer s) s"
proof (induction "length (incoming s) + length (pending s)" arbitrary: s buffer rule: less_induct)
  case less
  have nh: "\<not> halted (kernel s)" using less.prems by (simp add: attentive_def)
  show ?case
  proof (cases "keyboard_has_char (keys (kernel s))")
    case True
    obtain c k where g: "keyboard_getchar (keys (kernel s)) = (c, k)"
      "pending s = c # pending (s\<lparr>kernel := (kernel s)\<lparr>keys := k\<rparr>\<rparr>)" "attentive (s\<lparr>kernel := (kernel s)\<lparr>keys := k\<rparr>\<rparr>)"
      by (rule getchar_pending [OF less.prems True])
    define u where "u = s\<lparr>kernel := (kernel s)\<lparr>keys := k\<rparr>\<rparr>"
    have u: "pending s = c # pending u" "attentive u" "incoming u = incoming s" "store (kernel u) = store (kernel s)"
      "g_current_directory u = g_current_directory s" using g by (simp_all add: u_def)
    have step: "read_loop limit buffer s =
        (if c = CR then read_loop limit buffer u
         else if c = LF then Some (buffer, prints [terminal_putchar LF] u)
         else if c = BS then
           (if buffer \<noteq> [] then read_loop limit (butlast buffer) (prints [terminal_backspace] u) else read_loop limit buffer u)
         else if \<not> isprint c \<or> length buffer + 1 \<ge> limit then read_loop limit buffer u
         else read_loop limit (buffer @ [c]) (prints [terminal_putchar c] u))"
      by (subst read_loop.simps) (simp add: nh True g(1) u_def Let_def)
    have IH: "line_result (edit_line limit b (pending u)) (read_loop limit b (prints fs u)) s" for b fs
      using less.hyps [of "prints fs u" b] u line_result_same [of "prints fs u" s] by simp
    have IH0: "line_result (edit_line limit b (pending u)) (read_loop limit b u) s" for b
      using less.hyps [of u b] u line_result_same [of u s] by simp
    consider "c = CR" | "c = LF" | "c = BS" | "c \<noteq> CR" "c \<noteq> LF" "c \<noteq> BS" by blast
    then show ?thesis
    proof cases
      case 1
      then show ?thesis using IH0 [of buffer] unfolding step u(1) by (simp add: isprint_def uchar_def BS_def)
    next
      case 2
      then show ?thesis using u unfolding step u(1) by (simp add: line_result_def)
    next
      case 3
      then show ?thesis using IH [of "butlast buffer" "[terminal_backspace]"] IH0 [of buffer]
        unfolding step u(1) by (cases "buffer = []") (simp_all add: BS_def)
    next
      case 4
      then show ?thesis using IH [of "buffer @ [c]" "[terminal_putchar c]"] IH0 [of buffer]
        unfolding step u(1) by simp
    qed
  next
    case False
    have empty: "contents (keys (kernel s)) = []"
      using keyboard_queue.pop_empty [of "keys (kernel s)"] False less.prems
      by (simp add: take_char_def attentive_def kernel_ok_def)
    show ?thesis
    proof (cases "incoming s")
      case Nil
      then have "pending s = []" by (simp add: pending_def empty codes_of_def)
      then show ?thesis using nh False Nil by (subst read_loop.simps) (simp add: line_result_def)
    next
      case (Cons t ts)
      let ?s = "s\<lparr>kernel := take_trap t (kernel s), incoming := ts\<rparr>"
      note t = trap_pending [OF less.prems empty Cons]
      have step: "read_loop limit buffer s = read_loop limit buffer ?s"
        using nh False Cons by (subst read_loop.simps) simp
      have "length (incoming ?s) + length (pending ?s) < length (incoming s) + length (pending s)" using t Cons by simp
      from less.hyps [OF this] show ?thesis unfolding step using t line_result_same [of ?s s] by simp
    qed
  qed
qed


lemma readline_pending:
  assumes "attentive s" "edit_line limit [] (pending s) = Some (line, rest)"
  obtains s' where "shell_readline limit s = Some (line, s')" "attentive s'" "pending s' = rest"
    "store (kernel s') = store (kernel s)" "g_current_directory s' = g_current_directory s"
  using read_loop_line [OF assms(1), of limit "[]"] assms(2) by (auto simp: line_result_def shell_readline_def)

lemma readline_waits: "attentive s \<Longrightarrow> edit_line limit [] (pending s) = None \<Longrightarrow> shell_readline limit s = None"
  using read_loop_line [of s limit "[]"] by (simp add: line_result_def shell_readline_def)

lemma edit_line_plain:
  "list_all isprint line \<Longrightarrow> length buffer + length line < limit \<Longrightarrow>
   edit_line limit buffer (line @ LF # rest) = Some (buffer @ line, rest)"
proof (induction line arbitrary: buffer)
  case (Cons c line)
  then have "c \<noteq> LF" "c \<noteq> BS" by (auto simp: isprint_def uchar_def BS_def)
  with Cons show ?case by simp
qed simp

lemma edit_line_some: "LF \<in> set input \<Longrightarrow> edit_line limit buffer input \<noteq> None"
  by (induction limit buffer input rule: edit_line.induct) auto

lemma edit_line_none: "LF \<notin> set input \<Longrightarrow> edit_line limit buffer input = None"
  by (induction limit buffer input rule: edit_line.induct) auto

lemma edit_line_fits:
  "edit_line limit buffer input = Some (line, rest) \<Longrightarrow> length buffer < limit \<Longrightarrow> list_all isprint buffer \<Longrightarrow>
   length line < limit \<and> list_all isprint line"
proof (induction input arbitrary: buffer)
  case (Cons c input)
  have b: "list_all isprint (butlast buffer)" "length (butlast buffer) < limit"
    using Cons.prems by (auto simp: list_all_iff dest: in_set_butlastD)
  consider "c = LF" | "c \<noteq> LF" "c = BS" | "c \<noteq> LF" "c \<noteq> BS" "\<not> isprint c \<or> length buffer + 1 \<ge> limit"
    | "c \<noteq> LF" "c \<noteq> BS" "isprint c" "length buffer + 1 < limit" by fastforce
  then show ?case
  proof cases
    case 2
    then show ?thesis using Cons.IH [OF _ b(2,1)] Cons.prems(1) by simp
  next
    case 3
    then show ?thesis using Cons.IH [OF _ Cons.prems(2,3)] Cons.prems(1) by simp
  next
    case 4
    then show ?thesis using Cons.IH [of "buffer @ [c]"] Cons.prems by simp
  qed (use Cons.prems in simp)
qed simp

text \<open>C6: 
  C0: a line is read as soon as it has been typed, and as it was edited. Whenever the machine runs and only hardware
  interrupts come, \<open>shell_readline\<close> returns exactly when a line feed is waiting or about to be typed; the line is
  what the editing keys leave of the characters before it, printable and shorter than the limit, and
  the characters after it are still there for the next line. The files and the working directory do
  not change while it waits.
\<close>

theorem lines_are_read:
  assumes "attentive s" "0 < limit"
  shows "(shell_readline limit s \<noteq> None \<longleftrightarrow> LF \<in> set (pending s)) \<and>
    (\<forall>line s'. shell_readline limit s = Some (line, s') \<longrightarrow>
       edit_line limit [] (pending s) = Some (line, pending s') \<and> length line < limit \<and> list_all isprint line \<and>
       attentive s' \<and> store (kernel s') = store (kernel s) \<and> g_current_directory s' = g_current_directory s)"
proof (cases "edit_line limit [] (pending s)")
  case None
  then show ?thesis using readline_waits [OF assms(1)] edit_line_some [of "pending s" limit "[]"] by auto
next
  case (Some r)
  then obtain line rest where r: "edit_line limit [] (pending s) = Some (line, rest)" by (cases r) auto
  obtain s' where s': "shell_readline limit s = Some (line, s')" "attentive s'" "pending s' = rest"
    "store (kernel s') = store (kernel s)" "g_current_directory s' = g_current_directory s"
    by (rule readline_pending [OF assms(1) r])
  have "LF \<in> set (pending s)" using edit_line_none [of "pending s" limit "[]"] r by auto
  then show ?thesis using s' r edit_line_fits [OF r] assms(2) by auto
qed

section \<open>The invariant of the shell\<close>

definition shell_ok :: "shell \<Rightarrow> bool" where
  "shell_ok s \<longleftrightarrow> kernel_ok (kernel s) \<and> (\<not> halted (kernel s) \<longrightarrow> at_prompt (tasks (kernel s))) \<and>
     directory_ok (g_current_directory s) \<and> nodes_ok (store (kernel s)) \<and> list_all vector_ok (incoming s)"

definition world_ok :: "world \<Rightarrow> bool" where
  "world_ok w \<longleftrightarrow> program_ok (programs w)"

lemma shell_ok_prints [simp]: "shell_ok (prints fs s) = shell_ok s"
  by (simp add: shell_ok_def)

lemma shell_ok_store: "shell_ok s \<Longrightarrow> nodes_ok st \<Longrightarrow> shell_ok (set_store st s)"
  by (simp add: shell_ok_def)

lemma shell_ok_nodes: "shell_ok s \<Longrightarrow> nodes_ok (store (kernel s))"
  by (simp add: shell_ok_def)

text \<open>A step of the file table, from the interface of the table.\<close>

lemma step_keeps_nodes: "nodes_ok st \<Longrightarrow> nodes_ok (fst (x86_step st op))"
  using x86_table.step_inv [of st op "fst (x86_step st op)" "snd (x86_step st op)"] by simp

lemma store_step:
  assumes "nodes_ok st"
  shows "nodes_ok (fst (fs_write_file st p d ty))" "nodes_ok (fst (fs_mkdir st p))" "nodes_ok (fst (fs_remove st p))"
    "nodes_ok (fst (fs_copy st p q))" "nodes_ok (fst (fs_move st p q))"
  using step_keeps_nodes [OF assms, of "XWrite p d ty"] step_keeps_nodes [OF assms, of "XMkdir p"]
    step_keeps_nodes [OF assms, of "XRemove p"] step_keeps_nodes [OF assms, of "XCopy p q"]
    step_keeps_nodes [OF assms, of "XMove p q"] by simp_all


lemma trap_ok:
  assumes "shell_ok s" "incoming s = t # ts"
  shows "shell_ok (s\<lparr>kernel := take_trap t (kernel s), incoming := ts\<rparr>)"
proof -
  have k: "kernel_ok (kernel s)" "vector_ok t" using assms by (simp_all add: shell_ok_def)
  have st: "store (take_trap t (kernel s)) = store (kernel s)"
    using dispatch_effect(5) [OF k] by (cases "halted (kernel s)") (simp_all add: take_trap_def)
  show ?thesis
    using assms trap_keeps [OF k] st tick_at_prompt [of "tasks (kernel s)"]
    by (auto simp: shell_ok_def take_trap_def split: if_splits)
qed

lemma key_ok:
  assumes "shell_ok s" "keyboard_has_char (keys (kernel s))" "keyboard_getchar (keys (kernel s)) = (c, k)"
  shows "shell_ok (s\<lparr>kernel := (kernel s)\<lparr>keys := k\<rparr>\<rparr>)"
  using assms pop_first [of "keys (kernel s)" c k] by (simp add: shell_ok_def kernel_ok_def take_char_def)

lemma read_loop_ok: "read_loop limit buffer s = Some (line, s') \<Longrightarrow> shell_ok s \<Longrightarrow> shell_ok s'"
proof (induction limit buffer s "(line, s')" arbitrary: line s' rule: read_loop.raw_induct [rotated, consumes 1])
  case (1 f limit buffer s)
  note IH = 1(1) and body = 1(2) and ok = 1(3)
  show ?case
  proof (cases "halted (kernel s)")
    case nh: False
    show ?thesis
    proof (cases "keyboard_has_char (keys (kernel s))")
      case False
      then obtain t ts where i: "incoming s = t # ts" using body nh by (cases "incoming s") simp_all
      then have "f limit buffer (s\<lparr>kernel := take_trap t (kernel s), incoming := ts\<rparr>) = Some (line, s')"
        using body nh False by simp
      from IH [OF this trap_ok [OF ok i]] show ?thesis .
    next
      case True
      obtain c k where g: "keyboard_getchar (keys (kernel s)) = (c, k)" by fastforce
      define u where "u = s\<lparr>kernel := (kernel s)\<lparr>keys := k\<rparr>\<rparr>"
      have u: "shell_ok u" unfolding u_def by (rule key_ok [OF ok True g])
      have "(c = LF \<and> s' = prints [terminal_putchar LF] u) \<or> (\<exists>b fs. f limit b (prints fs u) = Some (line, s')) \<or> (\<exists>b. f limit b u = Some (line, s'))"
        using body nh True g by (auto simp: Let_def u_def split: if_splits)
      then show ?thesis using IH u by (metis shell_ok_prints)
    qed
  qed (use body in simp)
qed

lemma readline_ok: "shell_readline limit s = Some (line, s') \<Longrightarrow> shell_ok s \<Longrightarrow> shell_ok s'"
  unfolding shell_readline_def by (rule read_loop_ok)

lemma wait_ok: "shell_wait_for_enter s = Some s' \<Longrightarrow> shell_ok s \<Longrightarrow> shell_ok s'"
  using readline_ok by (fastforce simp: shell_wait_for_enter_def)

lemma complain_ok: "complain message s = Some s' \<Longrightarrow> shell_ok s \<Longrightarrow> shell_ok s'"
  using wait_ok by (fastforce simp: complain_def)

lemma preview_ok: "shell_preview_text path s = Some s' \<Longrightarrow> shell_ok s \<Longrightarrow> shell_ok s'"
  using wait_ok by (fastforce simp: shell_preview_text_def bind_eq_Some_conv split: option.splits)

lemma tree_ok: "shell_tree_walk path n s = Some s' \<Longrightarrow> shell_ok s \<Longrightarrow> shell_ok s'"
  by (auto simp: shell_tree_walk_def Let_def)

lemma stat_ok: "shell_stat_path path s = Some s' \<Longrightarrow> shell_ok s \<Longrightarrow> shell_ok s'"
  by (auto simp: shell_stat_path_def bind_eq_Some_conv split: option.splits)

lemma calculator_loop_ok: "calculator_loop s = Some s' \<Longrightarrow> shell_ok s \<Longrightarrow> shell_ok s'"
proof (induction s s' rule: calculator_loop.raw_induct [rotated, consumes 1])
  case (1 f s s')
  from 1(2) obtain e u where u: "shell_readline SHELL_INPUT_MAX (prints [light_cyan, terminal_write ''calc'', light_grey, terminal_write ''> ''] s) = Some (e, u)"
    and r: "(if e = ''exit'' \<or> e = ''quit'' then Some u
       else if e = [] then f u
       else do {
         (result, valid) \<leftarrow> defined (calc_evaluate e);
         if \<not> valid then f (prints [terminal_writeline ''Invalid expression.''] u)
         else f (prints (terminal_write ''= '' # shell_print_signed result @ [terminal_writeline []]) u)
       }) = Some s'"
    by (auto simp: bind_eq_Some_conv)
  have ok: "shell_ok u" using readline_ok [OF u] 1(3) by simp
  have "s' = u \<or> f u = Some s' \<or> (\<exists>fs. f (prints fs u) = Some s')"
    using r by (auto simp: bind_eq_Some_conv split: if_splits)
  then show ?case using ok 1(1) by (metis shell_ok_prints)
qed

lemma calculator_ok: "app_calculator argv s = Some s' \<Longrightarrow> shell_ok s \<Longrightarrow> shell_ok s'"
  using calculator_loop_ok by (fastforce simp: app_calculator_def bind_eq_Some_conv split: if_splits)

lemma saved_ok: "shell_ok s \<Longrightarrow> shell_ok (fst (saved path buffer s))"
  using store_step(1) [OF shell_ok_nodes, of s path buffer FS_TYPE_TEXT] by (auto simp: saved_def shell_ok_store split: prod.split)

lemma editor_loop_ok: "editor_loop path buffer s = Some s' \<Longrightarrow> shell_ok s \<Longrightarrow> shell_ok s'"
proof (induction path buffer s s' rule: editor_loop.raw_induct [rotated, consumes 1])
  case (1 f path buffer s s')
  from 1(2) obtain line u where u: "shell_readline SHELL_INPUT_MAX (prints [light_green, terminal_write ''edit'', light_grey, terminal_write ''> ''] s) = Some (line, u)"
    by (auto simp: bind_eq_Some_conv)
  have ok: "shell_ok u" using readline_ok [OF u] 1(3) by simp
  have "(\<exists>fs. s' = prints fs u) \<or> f path (buffer @ line @ [LF]) u = Some s' \<or> (\<exists>b fs. f path b (prints fs u) = Some s') \<or>
      (\<exists>fs. s' = prints fs (fst (saved path buffer u))) \<or> (\<exists>b fs. f path b (prints fs (fst (saved path buffer u))) = Some s')"
    using 1(2) unfolding u by (auto split: if_splits)
  then show ?case using ok saved_ok [OF ok] 1(1) by (metis shell_ok_prints)
qed

lemma editor_ok:
  assumes "app_text_editor path s = Some s'" "shell_ok s"
  shows "shell_ok s'"
proof (cases "found s path")
  case None
  then have "editor_loop path [] (prints (editor_banner path []) s) = Some s'" using assms(1) by (simp add: app_text_editor_def)
  from editor_loop_ok [OF this] show ?thesis using assms(2) by simp
next
  case (Some i)
  then obtain name data type where e: "entry_at s i = Some (name, data, type)"
    using assms(1) by (auto simp: app_text_editor_def bind_eq_Some_conv)
  have "(\<exists>fs. s' = prints fs s) \<or> editor_loop path data (prints (editor_banner path data) s) = Some s'"
    using assms(1) unfolding app_text_editor_def Some option.case e Option.bind.simps prod.case
    by (metis option.inject)
  then show ?thesis using editor_loop_ok assms(2) by auto
qed


lemma traps_store:
  "kernel_ok m \<Longrightarrow> list_all vector_ok ts \<Longrightarrow> store (take_traps ts m) = store m"
proof (induction ts arbitrary: m)
  case (Cons t ts)
  have "kernel_ok (take_trap t m)" using trap_keeps [of m t] Cons.prems by simp
  moreover have "store (take_trap t m) = store m"
    using dispatch_effect(5) [of m t] Cons.prems by (cases "halted m") (simp_all add: take_trap_def)
  ultimately show ?case using Cons.IH [of "take_trap t m"] Cons.prems by (simp add: take_traps_def)
qed (simp add: take_traps_def)

lemma run_program_store:
  assumes "kernel_ok m" "table_wf (tasks m)" "program_ok program"
  shows "store (fst (task_run_program program name img m)) = store m"
proof (cases "task_refused img (tasks m)")
  case False
  let ?m = "m\<lparr>tasks := task_enter name img (tasks m)\<rparr>"
  have k: "kernel_ok ?m" using assms(1) enter_wf [OF assms(2) False, of name] by (simp add: kernel_ok_def)
  have "list_all vector_ok (program (program_memory (tasks ?m)) ?m)" using assms(3) by (simp add: program_ok_def)
  from traps_store [OF k this] show ?thesis by (simp add: task_run_program_def Let_def)
qed (simp add: task_run_program_def)

lemma run_halted: "halted m \<Longrightarrow> task_run_program program name img m = (m', Some p) \<Longrightarrow> m' = m"
  by (auto simp: task_run_program_def halted_stays Let_def split: if_splits)

lemma launch_ok:
  assumes "launch w name img report s = Some s'" "shell_ok s" "world_ok w"
    and "\<And>p u. shell_ok u \<Longrightarrow> report p u = Some s' \<Longrightarrow> shell_ok s'"
  shows "shell_ok s'"
proof -
  obtain m p where r: "task_run_program (programs w) name img (kernel s) = (m, Some p)" "report p (s\<lparr>kernel := m\<rparr>) = Some s'"
    using assms(1) by (auto simp: launch_def split: prod.splits option.splits)
  have p: "program_ok (programs w)" using assms(3) by (simp add: world_ok_def)
  have "shell_ok (s\<lparr>kernel := m\<rparr>)"
  proof (cases "halted (kernel s)")
    case True
    from run_halted [OF this r(1)] show ?thesis using assms(2) by simp
  next
    case False
    have a: "kernel_ok (kernel s)" "at_prompt (tasks (kernel s))" using assms(2) False by (simp_all add: shell_ok_def)
    have "store m = store (kernel s)"
      using run_program_store [OF a(1) _ p, of name img] a(2) r(1) by (simp add: at_prompt_def)
    then show ?thesis
      using run_program_keeps [OF a p False r(1)] assms(2) by (simp add: shell_ok_def)
  qed
  then show ?thesis using assms(4) r(2) by blast
qed

lemma copy_directory: "directory_ok d \<Longrightarrow> shell_copy_string e d FS_PATH_MAX = d"
  by (simp add: directory_ok_def shell_copy_string_def FS_PATH_MAX_def)

lemma entry_directory: "directory_ok (shell_entry_absolute_path name)"
  by (simp add: directory_ok_def shell_entry_absolute_path_def shell_copy_string_def FS_PATH_MAX_def)

lemma parent_directory_ok:
  assumes "directory_ok d"
  shows "directory_ok (shell_parent_directory d)"
proof -
  obtain t where d: "d = CHR ''/'' # t" using assms by (cases d) (auto simp: directory_ok_def)
  then show ?thesis using assms
    by (auto simp: directory_ok_def shell_parent_directory_def split: option.splits nat.splits)
qed

lemma resolve_directory:
  assumes "directory_ok d"
  shows "directory_ok (shell_resolve_path_from d s)"
proof (cases "s = []")
  case True
  then show ?thesis using assms copy_directory [OF assms, of "[]"] by (simp add: shell_resolve_path_from_def)
next
  case False
  then show ?thesis using resolve_eq [OF assms False] resolved_ok [OF assms, of s] by (simp add: directory_ok_def)
qed

lemma files_run_ok: "files_run w name s = Some s' \<Longrightarrow> shell_ok s \<Longrightarrow> world_ok w \<Longrightarrow> shell_ok s'"
  by (auto simp: files_run_def bind_eq_Some_conv split: option.splits if_splits
      dest: complain_ok wait_ok elim!: launch_ok)

lemma try_store_ok:
  assumes "try_store r message s = Some s'" "shell_ok s" "nodes_ok (fst r)"
  shows "shell_ok s'"
  using assms complain_ok [of message "set_store (fst r) s" s'] shell_ok_store [OF assms(2,3)]
  by (auto simp: try_store_def split: if_splits)


lemma with_entry_ok:
  assumes "files_with_entry w cwd argv entry s = Some (cwd', s')" "shell_ok s" "world_ok w" "directory_ok cwd"
  shows "shell_ok s' \<and> directory_ok cwd'"
proof -
  obtain name data type where e: "entry = (name, data, type)" by (cases entry)
  note n = shell_ok_nodes [OF assms(2)]
  note store_ok = store_step(3) [OF n] store_step(4) [OF n] store_step(5) [OF n]
  show ?thesis
    using assms(1,2,4) copy_directory [OF entry_directory, of "[]"]
      preview_ok [OF _ assms(2)] editor_ok [OF _ assms(2)] files_run_ok [OF _ assms(2,3)] complain_ok [OF _ assms(2)]
      try_store_ok [OF _ assms(2) store_ok(1)] try_store_ok [OF _ assms(2) store_ok(2)] try_store_ok [OF _ assms(2) store_ok(3)]
    unfolding files_with_entry_def e prod.case Let_def
    by (auto simp: entry_directory split: if_splits)
qed

lemma files_command_ok:
  assumes "files_command w cwd entries argv s = Some (cwd', s')" "shell_ok s" "world_ok w" "directory_ok cwd"
  shows "shell_ok s' \<and> directory_ok cwd'"
proof -
  note n = shell_ok_nodes [OF assms(2)]
  have new: "shell_ok (set_store (fst (fs_write_file (store (kernel s)) p [] FS_TYPE_TEXT)) s)" for p
    by (rule shell_ok_store [OF assms(2) store_step(1) [OF n]])
  let ?st = "store (kernel s)" and ?path = "shell_resolve_path_from cwd (argv ! 1)"
  consider (plain) message where "complain message s = Some s'" "cwd' = cwd"
    | (entry) entry where "files_with_entry w cwd argv entry s = Some (cwd', s')"
    | (mkdir) "try_store (fs_mkdir ?st ?path) ''Directory creation failed.'' s = Some s'" "cwd' = cwd"
    | (failed) "complain ''Could not create the file.'' (set_store (fst (fs_write_file ?st ?path [] FS_TYPE_TEXT)) s) = Some s'" "cwd' = cwd"
    | (edit) "app_text_editor ?path (set_store (fst (fs_write_file ?st ?path [] FS_TYPE_TEXT)) s) = Some s'" "cwd' = cwd"
  proof (cases "length argv < 2")
    case True
    then show thesis using assms(1) plain unfolding files_command_def Let_def by (simp only: if_True) blast
  next
    case two: False
    show thesis
    proof (cases "argv ! 0 \<in> set entry_commands")
      case True
      then obtain index where i: "shell_parse_index (argv ! 1) (length entries) = Some index"
        "(case index of
            None \<Rightarrow> map_option (Pair cwd) (complain ''Invalid entry number.'' s)
          | Some i \<Rightarrow> do { entry \<leftarrow> entry_at s (entries ! i); files_with_entry w cwd argv entry s }) = Some (cwd', s')"
        using assms(1) two unfolding files_command_def Let_def by (auto simp only: if_False if_True bind_eq_Some_conv)
      then show thesis using plain entry by (cases index) (auto simp: bind_eq_Some_conv)
    next
      case other: False
      show thesis
      proof (cases "argv ! 0 = ''mkdir''")
        case True
        have "map_option (Pair cwd) (try_store (fs_mkdir ?st ?path) ''Directory creation failed.'' s) = Some (cwd', s')"
          using assms(1) other unfolding files_command_def Let_def by (simp only: two True if_False if_True simp_thms)
        then show thesis using mkdir by blast
      next
        case nm: False
        show thesis
        proof (cases "argv ! 0 = ''new''")
          case True
          have r: "(if \<not> snd (fs_write_file ?st ?path [] FS_TYPE_TEXT)
              then map_option (Pair cwd) (complain ''Could not create the file.'' (set_store (fst (fs_write_file ?st ?path [] FS_TYPE_TEXT)) s))
              else map_option (Pair cwd) (app_text_editor ?path (set_store (fst (fs_write_file ?st ?path [] FS_TYPE_TEXT)) s))) = Some (cwd', s')"
            using assms(1) two other nm True unfolding files_command_def Let_def by (simp only: if_False if_True simp_thms)
          then show thesis using failed edit by (cases "snd (fs_write_file ?st ?path [] FS_TYPE_TEXT)") (simp_all only: if_False if_True simp_thms, blast+)
        next
          case False
          have "map_option (Pair cwd) (complain ''Unknown file manager command.'' s) = Some (cwd', s')"
            using assms(1) unfolding files_command_def Let_def by (simp only: two other nm False if_False if_True simp_thms)
          then show thesis using plain by blast
        qed
      qed
    qed
  qed
  then show ?thesis
  proof cases
    case plain
    then show ?thesis using assms complain_ok by blast
  next
    case entry
    then show ?thesis using with_entry_ok assms(2-4) by blast
  next
    case mkdir
    then show ?thesis using assms try_store_ok [OF _ assms(2) store_step(2) [OF n]] by blast
  next
    case failed
    then show ?thesis using assms(4) complain_ok [OF _ new] by blast
  next
    case edit
    then show ?thesis using assms(4) editor_ok [OF _ new] by blast
  qed
qed

lemma manager_loop_ok:
  "manager_loop w cwd s = Some s' \<Longrightarrow> shell_ok s \<Longrightarrow> world_ok w \<Longrightarrow> directory_ok cwd \<Longrightarrow> shell_ok s'"
proof (induction w cwd s s' rule: manager_loop.raw_induct [rotated, consumes 1])
  case (1 f w cwd s s')
  let ?entries = "fs_list (store (kernel s)) cwd FILE_MANAGER_VIEW_MAX"
  from 1(2) obtain views line u where u: "shell_readline SHELL_INPUT_MAX (prints (manager_screen cwd views) s) = Some (line, u)"
    and r: "(let argv = shell_tokenize line SHELL_ARG_MAX
      in if argv = [] then f w cwd u
         else if argv ! 0 = ''quit'' \<or> argv ! 0 = ''exit''
         then Some (u\<lparr>g_current_directory := shell_copy_string [] cwd FS_PATH_MAX\<rparr>)
         else if argv ! 0 = ''up'' then f w (shell_parent_directory cwd) u
         else Option.bind (files_command w cwd ?entries argv u) (\<lambda>(cwd, s). f w cwd s)) = Some s'"
    unfolding bind_eq_Some_conv Let_def by auto
  have ok: "shell_ok u" using readline_ok [OF u] 1(3) by simp
  let ?argv = "shell_tokenize line SHELL_ARG_MAX"
  consider (empty) "?argv = []" | (quit) "?argv \<noteq> []" "?argv ! 0 = ''quit'' \<or> ?argv ! 0 = ''exit''"
    | (up) "?argv \<noteq> []" "\<not> (?argv ! 0 = ''quit'' \<or> ?argv ! 0 = ''exit'')" "?argv ! 0 = ''up''"
    | (other) "?argv \<noteq> []" "\<not> (?argv ! 0 = ''quit'' \<or> ?argv ! 0 = ''exit'')" "?argv ! 0 \<noteq> ''up''" by blast
  then show ?case
  proof cases
    case empty
    then have "f w cwd u = Some s'" using r by (simp add: Let_def)
    then show ?thesis using 1(1,4,5) ok by blast
  next
    case quit
    then have "s' = u\<lparr>g_current_directory := shell_copy_string [] cwd FS_PATH_MAX\<rparr>" using r unfolding Let_def by simp
    then show ?thesis using ok 1(5) copy_directory [OF 1(5), of "[]"] by (simp add: shell_ok_def)
  next
    case up
    then have "f w (shell_parent_directory cwd) u = Some s'" using r unfolding Let_def by simp
    then show ?thesis using 1(1,4,5) ok parent_directory_ok by blast
  next
    case other
    then obtain c v where "files_command w cwd ?entries ?argv u = Some (c, v)" "f w c v = Some s'"
      using r unfolding Let_def by (auto simp: bind_eq_Some_conv)
    then show ?thesis using files_command_ok [OF _ ok 1(4,5)] 1(1) 1(4) by blast
  qed
qed

lemma file_manager_ok: "app_file_manager w s = Some s' \<Longrightarrow> shell_ok s \<Longrightarrow> world_ok w \<Longrightarrow> shell_ok s'"
  unfolding app_file_manager_def
  by (rule manager_loop_ok) (auto simp: shell_ok_def copy_directory)

section \<open>The invariant of the shell, commands\<close>

lemma change_store_ok: "shell_ok s \<Longrightarrow> nodes_ok (fst r) \<Longrightarrow> shell_ok (change_store r message s)"
  by (simp add: change_store_def shell_ok_store)

lemma store_commands_ok:
  assumes "shell_ok s"
  shows "shell_ok (command_touch p s)" "shell_ok (command_mkdir p s)" "shell_ok (command_remove p s)"
    "shell_ok (command_copy p q s)" "shell_ok (command_move p q s)"
  using assms store_step [OF shell_ok_nodes [OF assms]]
  by (simp_all add: command_touch_def command_mkdir_def command_remove_def command_copy_def command_move_def change_store_ok)

lemma cd_ok: "shell_ok s \<Longrightarrow> shell_ok (command_cd p s)"
proof -
  assume ok: "shell_ok s"
  then have d: "directory_ok (shell_resolve_path p s)"
    by (simp add: shell_ok_def shell_resolve_path_def resolve_directory)
  then show ?thesis
    using ok copy_directory [OF d] by (simp add: command_cd_def Let_def shell_ok_def)
qed

lemma port_access_fields [simp]:
  "kernel_ok (port_access x m) = kernel_ok m" "halted (port_access x m) = halted m" "tasks (port_access x m) = tasks m"
  "store (port_access x m) = store m"
  by (cases x; simp add: kernel_ok_def)+

lemma port_accesses_fields [simp]:
  "kernel_ok (fold port_access xs m) = kernel_ok m" "halted (fold port_access xs m) = halted m"
  "tasks (fold port_access xs m) = tasks m" "store (fold port_access xs m) = store m"
  by (induction xs arbitrary: m; simp)+

lemma use_disk_ok: "shell_ok (use_disk h s) = shell_ok s"
  by (simp add: use_disk_def shell_ok_def)

lemma plain_commands_ok:
  assumes "shell_ok s"
  shows "shell_ok (command_help s)" "shell_ok (command_apps s)" "shell_ok (command_pwd s)" "shell_ok (command_ps s)"
    "shell_ok (command_ticks s)" "shell_ok (command_ata w s)" "shell_ok (command_about s)"
  using assms by (simp_all add: command_help_def command_apps_def command_pwd_def command_ps_def command_ticks_def
      command_ata_def command_about_def use_disk_ok split_beta)

lemma reboot_ok: "shell_ok s \<Longrightarrow> shell_ok (command_reboot s)"
  by (simp add: command_reboot_def shell_ok_def kernel_ok_def)

lemma list_ok: "list_directory p s = Some s' \<Longrightarrow> shell_ok s \<Longrightarrow> shell_ok s'"
  by (auto simp: list_directory_def Let_def split: if_splits)

lemma ls_ok: "command_ls p s = Some s' \<Longrightarrow> shell_ok s \<Longrightarrow> shell_ok s'"
  by (auto simp: command_ls_def Let_def bind_eq_Some_conv split: option.splits if_splits dest: list_ok)

lemma command_tree_ok: "command_tree p s = Some s' \<Longrightarrow> shell_ok s \<Longrightarrow> shell_ok s'"
  by (auto simp: command_tree_def Let_def bind_eq_Some_conv split: option.splits if_splits dest: tree_ok)

lemma cat_ok: "command_cat p s = Some s' \<Longrightarrow> shell_ok s \<Longrightarrow> shell_ok s'"
  by (auto simp: command_cat_def bind_eq_Some_conv split: option.splits if_splits)

lemma run_ok: "command_run w p s = Some s' \<Longrightarrow> shell_ok s \<Longrightarrow> world_ok w \<Longrightarrow> shell_ok s'"
  by (auto simp: command_run_def bind_eq_Some_conv split: option.splits if_splits elim!: launch_ok)

lemma edit_ok: "command_edit p s = Some s' \<Longrightarrow> shell_ok s \<Longrightarrow> shell_ok s'"
  unfolding command_edit_def by (rule editor_ok)

lemma usage_ok: "usage message n argv f s = Some s' \<Longrightarrow> shell_ok s \<Longrightarrow> (f s = Some s' \<Longrightarrow> shell_ok s') \<Longrightarrow> shell_ok s'"
  by (auto simp: usage_def split: if_splits)

lemma command_ok:
  assumes "shell_command w argv s = Some s'" "shell_ok s" "world_ok w"
  shows "shell_ok s'"
  using assms(1) unfolding shell_command_def Let_def
  by (auto split: if_splits elim!: usage_ok [OF _ assms(2)]
      intro: plain_commands_ok [OF assms(2)] store_commands_ok [OF assms(2)] cd_ok [OF assms(2)] reboot_ok [OF assms(2)]
      simp: assms(2)
      dest: ls_ok [OF _ assms(2)] command_tree_ok [OF _ assms(2)] cat_ok [OF _ assms(2)] stat_ok [OF _ assms(2)]
        run_ok [OF _ assms(2,3)] edit_ok [OF _ assms(2)] file_manager_ok [OF _ assms(2,3)] calculator_ok [OF _ assms(2)])

lemma turn_ok:
  assumes "shell_turn w s = Some s'" "shell_ok s" "world_ok w"
  shows "shell_ok s'"
proof -
  obtain line u where u: "shell_readline SHELL_INPUT_MAX (shell_prompt s) = Some (line, u)"
    and r: "(if shell_tokenize line SHELL_ARG_MAX = [] then Some u else shell_command w (shell_tokenize line SHELL_ARG_MAX) u) = Some s'"
    using assms(1) by (auto simp: shell_turn_def bind_eq_Some_conv)
  have "shell_ok u" using readline_ok [OF u] assms(2) by (simp add: shell_prompt_def)
  then show ?thesis using r command_ok assms(3) by (auto split: if_splits)
qed


lemma turns_ok: "shell_turns w n s = Some s' \<Longrightarrow> shell_ok s \<Longrightarrow> world_ok w \<Longrightarrow> shell_ok s'"
  by (induction n arbitrary: s) (auto simp: bind_eq_Some_conv dest: turn_ok)

text \<open>One turn, when the line has been typed.\<close>

lemma turn_line:
  assumes "attentive s" "edit_line SHELL_INPUT_MAX [] (pending s) = Some (line, rest)"
  obtains u where "attentive u" "pending u = rest" "store (kernel u) = store (kernel s)" "g_current_directory u = g_current_directory s"
    "shell_turn w s = (if shell_tokenize line SHELL_ARG_MAX = [] then Some u else shell_command w (shell_tokenize line SHELL_ARG_MAX) u)"
proof -
  have p: "attentive (shell_prompt s)" "edit_line SHELL_INPUT_MAX [] (pending (shell_prompt s)) = Some (line, rest)"
    using assms by (simp_all add: shell_prompt_def)
  obtain u where u: "shell_readline SHELL_INPUT_MAX (shell_prompt s) = Some (line, u)" "attentive u" "pending u = rest"
    "store (kernel u) = store (kernel (shell_prompt s))" "g_current_directory u = g_current_directory (shell_prompt s)"
    by (rule readline_pending [OF p])
  show thesis
    using that [of u] u by (simp add: shell_turn_def shell_prompt_def)
qed

text \<open>C4: 
  C0: the shell never breaks what the kernel relies on. Whatever is typed, whatever the commands, the editor and the
  file manager do and whatever programs run: if the shell comes back to its prompt, the interrupt handlers, the
  keyboard ring and the clock's accounts are in order, only the shell's own task runs, the file table is well
  formed and the working directory is an absolute path that fits its array.
\<close>

theorem shell_keeps_kernel:
  assumes "shell_turns w n s = Some s'" "shell_ok s" "world_ok w"
  shows "kernel_ok (kernel s') \<and> (\<not> halted (kernel s') \<longrightarrow> at_prompt (tasks (kernel s'))) \<and>
    nodes_ok (store (kernel s')) \<and> directory_ok (g_current_directory s')"
  using turns_ok [OF assms] by (simp add: shell_ok_def)

text \<open>The shell on a machine with the built-in files, and keys to come.\<close>

definition key :: "u8 \<Rightarrow> trap" where
  "key c = tick_trap\<lparr>regs := (regs tick_trap)\<lparr>int_no := 33\<rparr>, scancode := c\<rparr>"

definition demo_shell :: "fs_state \<Rightarrow> string \<Rightarrow> u8 list \<Rightarrow> shell" where
  "demo_shell st cwd codes =
     \<lparr>kernel = (kernel_start cold_link (\<lambda>_. NUL) 0 0 cold_machine)\<lparr>store := st\<rparr>,
      g_current_directory = cwd, incoming = map key codes, disk_ports = []\<rparr>"

definition demo_world :: world where
  "demo_world = \<lparr>programs = quiet, disk = ready_drive (\<lambda>k. 0)\<rparr>"

lemma demo_kernel: "kernel_ok (kernel (demo_shell st cwd codes)) \<and> \<not> halted (kernel (demo_shell st cwd codes)) \<and>
    at_prompt (tasks (kernel (demo_shell st cwd codes)))"
  using start_ok [OF cold_powered_on] by (simp add: demo_shell_def kernel_ok_def)

lemma demo_keys: "irq (key c) \<and> vector_ok (key c) \<and> scancode (key c) = c \<and> int_no (regs (key c)) = 33"
  by (simp add: key_def tick_trap_def irq_def vector_ok_def)

lemma demo_attentive: "attentive (demo_shell st cwd codes)"
  using demo_kernel [of st cwd codes] by (simp add: attentive_def demo_shell_def list_all_iff demo_keys)

lemma demo_shell_ok: "nodes_ok st \<Longrightarrow> directory_ok cwd \<Longrightarrow> shell_ok (demo_shell st cwd codes)"
  using demo_kernel [of st cwd codes] by (simp add: shell_ok_def demo_shell_def list_all_iff demo_keys)

lemma demo_world_ok: "world_ok demo_world"
  by (simp add: world_ok_def demo_world_def quiet_ok)

lemma demo_pending: "pending (demo_shell st cwd codes) = typed False codes"
proof -
  have "keys (kernel (demo_shell st cwd codes)) = idle_keyboard"
    by (simp add: demo_shell_def kernel_start_fields install_defs) (simp add: cold_machine_def)
  moreover have "codes_of (map key codes) = codes" by (induction codes) (simp_all add: codes_of_def demo_keys)
  ultimately show ?thesis by (simp add: pending_def idle_keyboard_ok) (simp add: demo_shell_def)
qed

theorem lines_are_read_witness:
  "\<exists>s'. shell_readline 8 (demo_shell empty_fs ''/'' [42, 35, 170, 23, 45, 14, 28, 30]) = Some (''Hi'', s') \<and> pending s' = ''a''"
proof -
  let ?s = "demo_shell empty_fs ''/'' [42, 35, 170, 23, 45, 14, 28, 30]"
  have p: "pending ?s = ''Hix'' @ [BS, LF] @ ''a''"
  proof -
    have "typed False [42, 35, 170, 23, 45, 14, 28, 30] = ''Hix'' @ [BS, LF] @ ''a''" by code_simp
    then show ?thesis by (simp add: demo_pending)
  qed
  have e: "edit_line 8 [] (''Hix'' @ [BS, LF] @ ''a'') = Some (''Hi'', ''a'')" by code_simp
  have t: "(shell_readline 8 ?s \<noteq> None \<longleftrightarrow> LF \<in> set (pending ?s)) \<and>
      (\<forall>line s'. shell_readline 8 ?s = Some (line, s') \<longrightarrow> edit_line 8 [] (pending ?s) = Some (line, pending s') \<and> length line < 8 \<and>
        list_all isprint line \<and> attentive s' \<and> store (kernel s') = store (kernel ?s) \<and> g_current_directory s' = g_current_directory ?s)"
    by (rule lines_are_read [OF demo_attentive]) simp
  then obtain line s' where r: "shell_readline 8 ?s = Some (line, s')" unfolding p by auto
  then have "edit_line 8 [] (pending ?s) = Some (line, pending s')" using t by blast
  then show ?thesis using r unfolding p e by auto
qed

theorem shell_keeps_kernel_witness:
  "\<exists>s'. shell_turns demo_world 1 (demo_shell empty_fs ''/'' [25, 17, 32, 28]) = Some s' \<and> nodes_ok (store (kernel s'))"
proof -
  let ?s = "demo_shell empty_fs ''/'' [25, 17, 32, 28]"
  have e: "edit_line SHELL_INPUT_MAX [] (pending ?s) = Some (''pwd'', [])"
  proof -
    have "edit_line SHELL_INPUT_MAX [] (typed False [25, 17, 32, 28]) = Some (''pwd'', [])" by code_simp
    then show ?thesis by (simp add: demo_pending)
  qed
  have t: "shell_tokenize ''pwd'' SHELL_ARG_MAX = [''pwd'']" by code_simp
  obtain u where "shell_turn demo_world ?s = (if shell_tokenize ''pwd'' SHELL_ARG_MAX = [] then Some u
      else shell_command demo_world (shell_tokenize ''pwd'' SHELL_ARG_MAX) u)"
    by (rule turn_line [OF demo_attentive e])
  then have r: "shell_turns demo_world 1 ?s = Some (command_pwd u)" unfolding t by (simp add: shell_command_def Let_def)
  have "shell_ok ?s" using empty_ok by (intro demo_shell_ok) (simp_all add: directory_ok_def FS_PATH_MAX_def)
  from shell_keeps_kernel [OF r this demo_world_ok] r show ?thesis by blast
qed


section \<open>Directories and the tree\<close>

lemma live_node: "i < g_entry_count st \<Longrightarrow> shape st \<Longrightarrow> live st ! i = g_nodes st ! i"
  by (simp add: live_def)

lemma node_normal: "nodes_ok st \<Longrightarrow> i < g_entry_count st \<Longrightarrow> normal (n_name (g_nodes st ! i))"
proof -
  assume ok: "nodes_ok st" and i: "i < g_entry_count st"
  have sh: "shape st" using ok by (simp add: nodes_ok_iff)
  then have "live st ! i \<in> set (live st)" using i by (intro nth_mem) (simp add: live_def shape_def)
  then have "g_nodes st ! i \<in> set (live st)" using live_node [OF i sh] by simp
  then have "(n_name (g_nodes st ! i), n_data (g_nodes st ! i), n_type (g_nodes st ! i)) \<in> set (files st)"
    by (force simp: files_def)
  then show ?thesis using ok by (auto simp: nodes_ok_iff table_ok_def list_all_iff file_ok_def)
qed

lemma root_not_found: "nodes_ok st \<Longrightarrow> fs_find_node_normalized st [] = None"
proof (rule ccontr)
  assume ok: "nodes_ok st" and "fs_find_node_normalized st [] \<noteq> None"
  then obtain i where "fs_find_node_normalized st [] = Some i" by blast
  then have "i < g_entry_count st" "n_name (g_nodes st ! i) = []" using found(1,2) ok by (simp_all add: nodes_ok_iff)
  then show False using node_normal [OF ok] tidy_nonempty by (auto simp: normal_def)
qed

lemma root_is_no_dir: "nodes_ok st \<Longrightarrow> \<not> fs_is_dir st ''/''"
proof -
  assume "nodes_ok st"
  moreover have "fs_normalize_path ''/'' = Some []" by code_simp
  ultimately show ?thesis using root_not_found by (simp add: fs_is_dir_def fs_find_def)
qed

text \<open>
  C0: the shell cannot go to the root. In every state the shell can be in, \<open>cd\<close> with an argument that resolves to the root,
  \<open>/\<close> and \<open>..\<close> from a directory below it included, is answered with "Directory not found." and changes nothing,
  because the root has no entry in the file table.
\<close>

theorem cd_refuses_root:
  assumes "shell_ok s" "shell_resolve_path path s = ''/''"
  shows "shell_command w [''cd'', path] s = Some (prints [terminal_writeline ''Directory not found.''] s)"
  using root_is_no_dir [OF shell_ok_nodes [OF assms(1)]] assms(2)
  by (simp add: shell_command_def usage_def command_cd_def Let_def)

theorem cd_refuses_root_witness:
  "shell_command demo_world [''cd'', ''..''] (demo_shell (fs_use_builtin empty_fs) ''/home'' []) =
     Some (prints [terminal_writeline ''Directory not found.''] (demo_shell (fs_use_builtin empty_fs) ''/home'' []))"
proof -
  have "nodes_ok (fs_use_builtin empty_fs)" using builtin_ok [of empty_fs] by (simp add: empty_fs_def)
  then have ok: "shell_ok (demo_shell (fs_use_builtin empty_fs) ''/home'' [])"
    by (rule demo_shell_ok) (simp add: directory_ok_def FS_PATH_MAX_def)
  have "shell_resolve_path_from ''/home'' ''..'' = ''/''" by code_simp
  then show ?thesis by (intro cd_refuses_root [OF ok]) (simp add: shell_resolve_path_def demo_shell_def)
qed

text \<open>A walk goes down to longer and longer names, as long as the entries are in order and no name is cut.\<close>

lemma child_longer:
  assumes "fs_is_direct_child d c" "d \<noteq> []"
  shows "length d < length c"
  using assms below_longer by (auto simp: fs_is_direct_child_def)

lemma walk_returns:
  assumes ok: "nodes_ok st" "entries_synced st" and short: "\<forall>i < g_entry_count st. length (n_name (g_nodes st ! i)) < 63"
  shows "(\<forall>i\<in>set L. i < g_entry_count st \<and> k \<le> length (n_name (g_nodes st ! i))) \<Longrightarrow> \<exists>t'. walk_list st L depth t = Some t'"
proof (induction "64 - k" arbitrary: k L depth t rule: less_induct)
  case less
  show ?case using less.prems
  proof (induction L arbitrary: t)
    case Nil
    show ?case by (subst walk_list.simps) simp
  next
    case (Cons i L)
    let ?n = "g_nodes st ! i"
    have i: "i < g_entry_count st" "k \<le> length (n_name ?n)" using Cons.prems by simp_all
    have sh: "shape st" using ok by (simp add: nodes_ok_iff)
    have view: "entry_view st i = Some (n_name ?n, n_data ?n, n_type ?n)" by (rule synced_view [OF sh ok(2) i(1)])
    have norm: "normal (n_name ?n)" using node_normal [OF ok(1) i(1)] .
    have len: "length (n_name ?n) < 63" using short i by blast
    have abs: "shell_entry_absolute_path (n_name ?n) = CHR ''/'' # n_name ?n"
      using len by (simp add: shell_entry_absolute_path_def shell_copy_string_def FS_PATH_MAX_def)
    let ?L = "fs_list st (shell_entry_absolute_path (n_name ?n)) FILE_MANAGER_VIEW_MAX"
    have children: "j < g_entry_count st \<and> length (n_name ?n) < length (n_name (g_nodes st ! j))" if "j \<in> set ?L" for j
    proof -
      have ne: "n_name ?n \<noteq> []" using norm tidy_nonempty by (auto simp: normal_def)
      have "j < g_entry_count st \<and> fs_is_direct_child (n_name ?n) (n_name (g_nodes st ! j))"
        using that unfolding abs fs_list_def normalize_absolute [OF norm]
        by (auto split: if_splits dest: in_set_takeD)
      then show ?thesis using child_longer ne by blast
    qed
    have down: "\<exists>t'. walk_list st ?L (depth + 1) u = Some t'" for u
    proof (rule less.hyps [of "Suc (length (n_name ?n))"])
      show "64 - Suc (length (n_name ?n)) < 64 - k" using i len by linarith
      show "\<forall>j\<in>set ?L. j < g_entry_count st \<and> Suc (length (n_name ?n)) \<le> length (n_name (g_nodes st ! j))"
        using children by (simp add: Suc_le_eq)
    qed
    define u where "u = fold (\<lambda>f. f) (replicate depth (terminal_write ''  '') @ shell_print_entry_line (n_name ?n, n_data ?n, n_type ?n)) t"
    obtain v where v: "(if n_type ?n = FS_TYPE_DIR then walk_list st ?L (depth + 1) u else Some u) = Some v"
      using down [of u] by (cases "n_type ?n = FS_TYPE_DIR") auto
    have "walk_list st (i # L) depth t = walk_list st L depth v"
      by (subst walk_list.simps) (simp only: list.case view Option.bind.simps prod.case u_def [symmetric] v)
    then show ?case using Cons.IH [of v] Cons.prems by simp
  qed
qed

text \<open>C32: 
  C0: \<open>tree\<close> comes back on a table in order. When every entry shows its own node and no path is longer than 62
  octets, the walk over any directory returns, however deep the tree is, and touches nothing but the screen.
\<close>

theorem tree_returns:
  assumes "nodes_ok (store (kernel s))" "entries_synced (store (kernel s))"
    and "\<forall>i < g_entry_count (store (kernel s)). length (n_name (g_nodes (store (kernel s)) ! i)) < 63"
  shows "\<exists>t. shell_tree_walk path depth s = Some (prints [\<lambda>_. t] s)"
proof -
  let ?st = "store (kernel s)"
  let ?L = "fs_list ?st path FILE_MANAGER_VIEW_MAX"
  have "\<forall>i\<in>set ?L. i < g_entry_count ?st \<and> 0 \<le> length (n_name (g_nodes ?st ! i))"
    by (auto simp: fs_list_def split: option.splits if_splits dest!: in_set_takeD)
  from walk_returns [OF assms this, of depth "screen (kernel s)"]
  obtain t where "walk_list ?st ?L depth (screen (kernel s)) = Some t" by blast
  then show ?thesis by (auto simp: shell_tree_walk_def Let_def)
qed

theorem tree_returns_witness:
  "\<exists>t. shell_tree_walk ''/'' 1 (demo_shell (fs_use_builtin empty_fs) ''/'' []) = Some (prints [\<lambda>_. t] (demo_shell (fs_use_builtin empty_fs) ''/'' []))"
proof (rule tree_returns)
  have st: "store (kernel (demo_shell (fs_use_builtin empty_fs) ''/'' [])) = fs_use_builtin empty_fs" by (simp add: demo_shell_def)
  show "nodes_ok (store (kernel (demo_shell (fs_use_builtin empty_fs) ''/'' [])))"
    "entries_synced (store (kernel (demo_shell (fs_use_builtin empty_fs) ''/'' [])))"
    unfolding st using builtin_ok [of empty_fs] by (simp_all add: empty_fs_def)
  have "list_all (\<lambda>n. length (n_name n) < 63) (live (fs_use_builtin empty_fs))" by code_simp
  moreover have "g_entry_count (fs_use_builtin empty_fs) \<le> length (g_nodes (fs_use_builtin empty_fs))"
    using builtin_ok [of empty_fs] by (simp add: empty_fs_def nodes_ok_iff shape_def)
  ultimately show "\<forall>i < g_entry_count (store (kernel (demo_shell (fs_use_builtin empty_fs) ''/'' []))).
      length (n_name (g_nodes (store (kernel (demo_shell (fs_use_builtin empty_fs) ''/'' []))) ! i)) < 63"
    unfolding st by (simp add: list_all_length live_def)
qed

text \<open>A set of directories each of which shows, through its entry, a name whose listing has one of the set.\<close>

definition cycle :: "fs_state \<Rightarrow> nat set \<Rightarrow> bool" where
  "cycle st B \<longleftrightarrow>
     (\<forall>j\<in>B. \<exists>name data. entry_view st j = Some (name, data, FS_TYPE_DIR) \<and>
        set (fs_list st (shell_entry_absolute_path name) FILE_MANAGER_VIEW_MAX) \<inter> B \<noteq> {})"

lemma walk_stuck: "walk_list st L depth t = Some t' \<Longrightarrow> cycle st B \<Longrightarrow> set L \<inter> B = {}"
proof (induction st L depth t t' rule: walk_list.raw_induct [rotated, consumes 1])
  case (1 f st L depth t t')
  show ?case
  proof (cases L)
    case (Cons i L')
    obtain name data type u v where v: "entry_view st i = Some (name, data, type)"
      "(if type = FS_TYPE_DIR then f st (fs_list st (shell_entry_absolute_path name) FILE_MANAGER_VIEW_MAX) (depth + 1) u else Some u) = Some v"
      "f st L' depth v = Some t'"
      using 1(2) unfolding Cons by (auto simp: bind_eq_Some_conv)
    have "set L' \<inter> B = {}" using 1(1) [OF v(3) 1(3)] .
    moreover have "i \<notin> B"
    proof
      assume "i \<in> B"
      then have b: "type = FS_TYPE_DIR" "set (fs_list st (shell_entry_absolute_path name) FILE_MANAGER_VIEW_MAX) \<inter> B \<noteq> {}"
        using 1(3) v(1) by (fastforce simp: cycle_def)+
      then have "f st (fs_list st (shell_entry_absolute_path name) FILE_MANAGER_VIEW_MAX) (depth + 1) u = Some v" using v(2) by simp
      from 1(1) [OF this 1(3)] b(2) show False by blast
    qed
    ultimately show ?thesis using Cons by simp
  qed simp
qed

text \<open>
  C0: \<open>tree\<close> may never come back. When the entries show directories in a circle, which they can after a removal, the walk over any
  directory that lists one of them never returns; in the kernel it runs off its stack.
\<close>

theorem tree_goes_round:
  assumes "cycle (store (kernel s)) B" "set (fs_list (store (kernel s)) path FILE_MANAGER_VIEW_MAX) \<inter> B \<noteq> {}"
  shows "shell_tree_walk path depth s = None"
  using walk_stuck [OF _ assms(1)] assms(2)
  by (cases "walk_list (store (kernel s)) (fs_list (store (kernel s)) path FILE_MANAGER_VIEW_MAX) depth (screen (kernel s))")
     (auto simp: shell_tree_walk_def Let_def)

text \<open>The witness: five commands from an empty table, each successful, then \<open>tree\<close>.\<close>

definition circle_ops :: "x86_op list" where
  "circle_ops = [XWrite ''/junk'' [] FS_TYPE_TEXT, XMkdir ''/x'', XMkdir ''/d'', XMove ''/x'' ''/d/x'', XRemove ''/junk'']"

definition circle_fs :: fs_state where
  "circle_fs = fst (run_ops x86_step empty_fs circle_ops)"

definition circle_view :: "fs_state \<times> bool list \<Rightarrow> bool list \<times> (string \<times> bytes \<times> nat) option \<times> (string \<times> bytes \<times> nat) option \<times> nat list \<times> nat list" where
  "circle_view r =
     (case r of (st, bs) \<Rightarrow>
        (bs, entry_view st 0, entry_view st 1, fs_list st ''/d'' FILE_MANAGER_VIEW_MAX, fs_list st ''/'' FILE_MANAGER_VIEW_MAX))"

lemma circle_view:
  "circle_view (run_ops x86_step empty_fs circle_ops) =
     ([True, True, True, True, True], Some (''d'', [], FS_TYPE_DIR), Some (''d'', [], FS_TYPE_DIR), [0], [1])"
  by code_simp

lemma circle_facts:
  "snd (run_ops x86_step empty_fs circle_ops) = [True, True, True, True, True]"
  "entry_view circle_fs 0 = Some (''d'', [], FS_TYPE_DIR)" "entry_view circle_fs 1 = Some (''d'', [], FS_TYPE_DIR)"
  "fs_list circle_fs ''/d'' FILE_MANAGER_VIEW_MAX = [0]" "fs_list circle_fs ''/'' FILE_MANAGER_VIEW_MAX = [1]"
  using circle_view by (simp_all add: circle_view_def circle_fs_def split_beta)

theorem tree_goes_round_witness:
  "snd (run_ops x86_step empty_fs circle_ops) = [True, True, True, True, True] \<and>
   shell_tree_walk ''/'' 1 (demo_shell circle_fs ''/'' []) = None"
proof -
  have st: "store (kernel (demo_shell circle_fs ''/'' [])) = circle_fs" by (simp add: demo_shell_def)
  have a: "shell_entry_absolute_path ''d'' = ''/d''" by code_simp
  have "cycle circle_fs {0, 1}" using circle_facts(2-4) by (simp add: cycle_def a)
  then have "shell_tree_walk ''/'' 1 (demo_shell circle_fs ''/'' []) = None"
    by (intro tree_goes_round [of _ "{0, 1}"]) (simp_all add: st circle_facts(5))
  then show ?thesis using circle_facts(1) by simp
qed


section \<open>Files through the shell\<close>

lemma index_removed:
  "node_index p ns = Some k \<Longrightarrow> i < k \<Longrightarrow> node_index p (take i ns @ drop (Suc i) ns) = Some (k - 1)"
proof (induction ns arbitrary: i k)
  case (Cons n ns)
  then obtain k' where k: "k = Suc k'" "node_index p ns = Some k'" "n_name n \<noteq> p" by (auto split: if_splits)
  show ?case
  proof (cases i)
    case (Suc j)
    then have "node_index p (take j ns @ drop (Suc j) ns) = Some (k' - 1)" using Cons.IH [OF k(2), of j] Cons.prems(2) k(1) by simp
    then show ?thesis using Suc k Cons.prems(2) by simp
  qed (use k in simp)
qed simp

lemma remove_result:
  assumes "nodes_ok st" "fs_find st path = Some i" "snd (fs_remove st path)"
  shows "fst (fs_remove st path) = st\<lparr>g_nodes := shift_down i (g_entry_count st) (g_nodes st), g_entry_count := g_entry_count st - 1\<rparr>"
  using assms by (auto simp: fs_remove_def fs_find_def split: option.splits if_splits)

lemma find_removed:
  assumes "nodes_ok st" "fs_find st path = Some i" "snd (fs_remove st path)" "fs_find st q = Some k" "i < k"
  shows "fs_find (fst (fs_remove st path)) q = Some (k - 1)"
proof -
  let ?st = "fst (fs_remove st path)"
  obtain p where p: "fs_normalize_path q = Some p" "fs_find_node_normalized st p = Some k"
    using assms(4) by (auto simp: fs_find_def split: option.splits)
  have sh: "shape st" using assms(1) by (simp add: nodes_ok_iff)
  have k: "k < g_entry_count st" using found(1) [OF sh p(2)] .
  have c: "i < g_entry_count st" "g_entry_count st \<le> length (g_nodes st)" using k assms(5) sh by (simp_all add: shape_def)
  have "live ?st = take i (live st) @ drop (Suc i) (live st)"
    unfolding remove_result [OF assms(1-3)] live_def using shift_down_eq [OF c] c by simp
  then have "node_index p (live ?st) = Some (k - 1)"
    using index_removed [of p "live st" k i] p(2) assms(5) by (simp add: fs_find_node_normalized_def)
  then show ?thesis using p(1) by (simp add: fs_find_def fs_find_node_normalized_def)
qed




section \<open>The editor through the keyboard\<close>

definition editor_words :: "string list" where
  "editor_words = [''.help'', ''.quit'', ''.clear'', ''.show'', ''.save'']"

definition text_line :: "string \<Rightarrow> bool" where
  "text_line l \<longleftrightarrow> list_all isprint l \<and> length l < SHELL_INPUT_MAX \<and> l \<notin> set editor_words"

text \<open>The text a list of lines makes, each ended by a line feed: what is typed, and what is saved.\<close>

definition lines_text :: "string list \<Rightarrow> string" where
  "lines_text ls = concat (map (\<lambda>l. l @ [LF]) ls)"

lemma editor_line:
  assumes "attentive s" "edit_line SHELL_INPUT_MAX [] (pending s) = Some (line, rest)"
  obtains u where "attentive u" "pending u = rest" "store (kernel u) = store (kernel s)" "g_current_directory u = g_current_directory s"
    "shell_readline SHELL_INPUT_MAX (prints [light_green, terminal_write ''edit'', light_grey, terminal_write ''> ''] s) = Some (line, u)"
proof -
  let ?p = "prints [light_green, terminal_write ''edit'', light_grey, terminal_write ''> ''] s"
  have p: "attentive ?p" "edit_line SHELL_INPUT_MAX [] (pending ?p) = Some (line, rest)" using assms by simp_all
  show thesis by (rule readline_pending [OF p]) (use that in simp)
qed

lemma editor_reads:
  "attentive s \<Longrightarrow> pending s = lines_text ls @ rest \<Longrightarrow> list_all text_line ls \<Longrightarrow>
   length buffer + length (lines_text ls) < FS_MAX_ENTRY_SIZE \<Longrightarrow>
   \<exists>u. attentive u \<and> pending u = rest \<and> store (kernel u) = store (kernel s) \<and> g_current_directory u = g_current_directory s \<and>
     editor_loop path buffer s = editor_loop path (buffer @ lines_text ls) u"
proof (induction ls arbitrary: buffer s)
  case Nil
  then show ?case by (auto simp: lines_text_def)
next
  case (Cons l ls)
  have l: "list_all isprint l" "length l < SHELL_INPUT_MAX" "l \<notin> set editor_words" using Cons.prems(3) by (simp_all add: text_line_def)
  have e: "edit_line SHELL_INPUT_MAX [] (pending s) = Some (l, lines_text ls @ rest)"
    using Cons.prems(2) edit_line_plain [OF l(1), of "[]"] l(2) by (simp add: lines_text_def)
  obtain u where u: "attentive u" "pending u = lines_text ls @ rest" "store (kernel u) = store (kernel s)" "g_current_directory u = g_current_directory s"
    "shell_readline SHELL_INPUT_MAX (prints [light_green, terminal_write ''edit'', light_grey, terminal_write ''> ''] s) = Some (l, u)"
    by (rule editor_line [OF Cons.prems(1) e])
  have n: "l \<noteq> ''.help''" "l \<noteq> ''.quit''" "l \<noteq> ''.clear''" "l \<noteq> ''.show''" "l \<noteq> ''.save''"
    using l(3) unfolding editor_words_def by (metis list.set_intros)+
  have "\<not> length buffer + length l + 1 \<ge> FS_MAX_ENTRY_SIZE" using Cons.prems(4) by (simp add: lines_text_def)
  then have step: "editor_loop path buffer s = editor_loop path (buffer @ l @ [LF]) u"
    by (subst editor_loop.simps) (simp only: u(5) Option.bind.simps prod.case n if_False)
  obtain v where "attentive v" "pending v = rest" "store (kernel v) = store (kernel u)" "g_current_directory v = g_current_directory u"
    "editor_loop path (buffer @ l @ [LF]) u = editor_loop path ((buffer @ l @ [LF]) @ lines_text ls) v"
    using Cons.IH [OF u(1,2), of "buffer @ l @ [LF]"] Cons.prems(3,4) by (auto simp: lines_text_def)
  then show ?case using step u by (intro exI [of _ v]) (simp add: lines_text_def)
qed

text \<open>What the editor starts from: nothing, or the text it found.\<close>

definition opens_with :: "string \<Rightarrow> bytes \<Rightarrow> shell \<Rightarrow> bool" where
  "opens_with path buffer s \<longleftrightarrow>
     (case found s path of
        None \<Rightarrow> buffer = []
      | Some i \<Rightarrow> (\<exists>name. entry_at s i = Some (name, buffer, FS_TYPE_TEXT)) \<and> length buffer \<le> FS_MAX_ENTRY_SIZE)"

lemma editor_opens:
  "opens_with path buffer s \<Longrightarrow> app_text_editor path s = editor_loop path buffer (prints (editor_banner path buffer) s)"
  by (auto simp: opens_with_def app_text_editor_def FS_TYPE_TEXT_def FS_TYPE_DIR_def FS_TYPE_PROGRAM_def split: option.splits)



section \<open>Words of a line\<close>

fun spaced :: "string list \<Rightarrow> string" where
  "spaced [] = []"
| "spaced [w] = w"
| "spaced (w # ws) = w @ CHR '' '' # spaced ws"

definition word_ok :: "string \<Rightarrow> bool" where
  "word_ok w \<longleftrightarrow> w \<noteq> [] \<and> list_all (\<lambda>c. \<not> isspace c) w"

lemma x86_tokenize_spaced: "list_all word_ok ws \<Longrightarrow> shell_tokenize (spaced ws) n = take n ws"
proof (induction ws arbitrary: n rule: spaced.induct)
  case 1
  show ?case by (subst shell_tokenize.simps) simp
next
  case (2 w)
  then have w: "w \<noteq> []" "dropWhile isspace w = w" "takeWhile (\<lambda>x. \<not> isspace x) w = w" "dropWhile (\<lambda>x. \<not> isspace x) w = []"
    by (cases w; auto simp: word_ok_def list_all_iff takeWhile_eq_all_conv dropWhile_eq_Nil_conv)+
  show ?case by (subst shell_tokenize.simps) (use w in \<open>simp add: take_Cons'\<close>)
next
  case (3 w v ws)
  let ?r = "CHR '' '' # spaced (v # ws)"
  have sp: "isspace CHR '' ''" by (simp add: isspace_def)
  have w: "w \<noteq> []" "\<forall>x\<in>set w. \<not> isspace x" using 3(2) by (simp_all add: word_ok_def list_all_iff)
  have d: "dropWhile isspace (w @ ?r) = w @ ?r" using w by (cases w) simp_all
  have t: "takeWhile (\<lambda>x. \<not> isspace x) (w @ ?r) = w" "dropWhile (\<lambda>x. \<not> isspace x) (w @ ?r) = ?r"
    using w(2) sp by (simp_all add: takeWhile_append2 dropWhile_append2)
  show ?case
  proof (cases n)
    case (Suc m)
    have "shell_tokenize (w @ ?r) (Suc m) = w # shell_tokenize (spaced (v # ws)) m"
      by (subst shell_tokenize.simps) (simp add: w(1) d t Let_def)
    then show ?thesis using 3(1) [of m] 3(2) Suc by simp
  qed (subst shell_tokenize.simps, simp)
qed

text \<open>
  C0: the shell forgets the end of a long line. Of a line of words only the first sixteen reach a command, so
  \<open>calc\<close> evaluates the first fifteen words of its expression and reports the result without a word about the rest.
\<close>

theorem calc_forgets_the_rest:
  assumes "list_all word_ok ws" "15 \<le> length ws"
  shows "shell_command w (shell_tokenize (spaced (''calc'' # ws)) SHELL_ARG_MAX) s = app_calculator (''calc'' # take 15 ws) s"
proof -
  have "word_ok ''calc''" by code_simp
  then have "shell_tokenize (spaced (''calc'' # ws)) SHELL_ARG_MAX = ''calc'' # take 15 ws"
    using x86_tokenize_spaced [of "''calc'' # ws" SHELL_ARG_MAX] assms(1) by (simp add: SHELL_ARG_MAX_def)
  then show ?thesis by (simp add: shell_command_def Let_def)
qed

theorem calc_forgets_the_rest_witness:
  "shell_command demo_world (shell_tokenize ''calc 1 + 1 + 1 + 1 + 1 + 1 + 1 + 1 + 5'' SHELL_ARG_MAX) s =
     Some (prints [terminal_write ''Result: '', terminal_write_dec 8, terminal_writeline []] s)"
proof -
  let ?ws = "[''1'', ''+'', ''1'', ''+'', ''1'', ''+'', ''1'', ''+'', ''1'', ''+'', ''1'', ''+'', ''1'', ''+'', ''1'', ''+'', ''5'']"
  have l: "spaced (''calc'' # ?ws) = ''calc 1 + 1 + 1 + 1 + 1 + 1 + 1 + 1 + 5''" by code_simp
  have w: "list_all word_ok ?ws" by code_simp
  have j: "shell_join_args 1 (''calc'' # take 15 ?ws) SHELL_INPUT_MAX = ''1 + 1 + 1 + 1 + 1 + 1 + 1 + 1''" by code_simp
  have e: "calc_evaluate ''1 + 1 + 1 + 1 + 1 + 1 + 1 + 1'' = Done (8, True)" by code_simp
  have "shell_command demo_world (shell_tokenize (spaced (''calc'' # ?ws)) SHELL_ARG_MAX) s = app_calculator (''calc'' # take 15 ?ws) s"
    by (rule calc_forgets_the_rest [OF w]) simp
  also have "\<dots> = Some (prints [terminal_write ''Result: '', terminal_write_dec 8, terminal_writeline []] s)"
    unfolding app_calculator_def j e by (simp add: defined_def shell_print_signed_def)
  finally show ?thesis unfolding l .
qed

end
