(* ===== verification/ArmPath.thy ===== *)
theory ArmPath
  imports CString
begin

text \<open>
  The text and path helpers of the ARM64 kernel, \<open>src/arm64/kernel/main.c\<close>: bounded copy,
  substring test, the line editor, the shell's tokenizer and argument joiner, and the path
  functions every file-system call of the shell goes through (\<open>parent_directory\<close>,
  \<open>resolve_path_from\<close>). Strings are their list reading. \<open>resolve_path_from\<close> ends in
  \<open>None\<close> where the code's unchecked \<open>strcat\<close> would write outside its 96-byte \<open>raw\<close> array.
\<close>

definition FS_PATH_MAX :: nat where "FS_PATH_MAX = 96"
definition SHELL_INPUT_MAX :: nat where "SHELL_INPUT_MAX = 256"
definition SHELL_ARG_MAX :: nat where "SHELL_ARG_MAX = 16"

section \<open>Bounded copy and search\<close>

fun strcopy_loop :: "string \<Rightarrow> nat \<Rightarrow> nat \<Rightarrow> string" where
  "strcopy_loop [] i limit = []"
| "strcopy_loop (c # src) i limit =
     (if i + 1 < limit then c # strcopy_loop src (i + 1) limit else [])"

text \<open>The string \<open>dst\<close> holds after the call; \<open>dst\<close> is untouched when \<open>limit\<close> is 0.\<close>

definition strcopy_limit :: "string \<Rightarrow> string \<Rightarrow> nat \<Rightarrow> string" where
  "strcopy_limit dst src limit = (if limit = 0 then dst else strcopy_loop src 0 limit)"

fun text_scan :: "string \<Rightarrow> string \<Rightarrow> bool" where
  "text_scan [] needle = False"
| "text_scan (c # hay) needle =
     (if take (length needle) (c # hay) = needle then True else text_scan hay needle)"

definition text_contains :: "string \<Rightarrow> string \<Rightarrow> bool" where
  "text_contains hay needle = (if needle = [] then True else text_scan hay needle)"

definition ascii_lower :: "char \<Rightarrow> char" where
  "ascii_lower ch =
     (if uchar (CHR ''A'') \<le> uchar ch \<and> uchar ch \<le> uchar (CHR ''Z'')
      then char_of (uchar ch - uchar (CHR ''A'') + uchar (CHR ''a'')) else ch)"

text \<open>\<open>CHAR16\<close> units of a path with the separators turned round; \<open>limit\<close> counts the
  terminating zero.\<close>

fun utf16_loop :: "string \<Rightarrow> nat \<Rightarrow> nat \<Rightarrow> u16 list" where
  "utf16_loop [] i limit = []"
| "utf16_loop (ch # input) i limit =
     (if i + 1 < limit
      then of_nat (of_char (if ch = CHR ''/'' then CHR 0x5C else ch)) # utf16_loop input (i + 1) limit
      else [])"

definition ascii_to_utf16_path :: "string \<Rightarrow> nat \<Rightarrow> u16 list" where
  "ascii_to_utf16_path input limit = (if limit = 0 then [] else utf16_loop input 0 limit @ [0])"

text \<open>\<open>format_mac_address\<close>: two digits an octet while they fit with the separator.\<close>

fun mac_loop :: "u8 list \<Rightarrow> nat \<Rightarrow> nat \<Rightarrow> nat \<Rightarrow> string \<Rightarrow> string" where
  "mac_loop [] hw_size i limit out = out"
| "mac_loop (byte # addr) hw_size i limit out =
     (if i < hw_size \<and> i < 6 \<and> length out + 3 < limit
      then mac_loop addr hw_size (i + 1) limit
             (out @ (if i > 0 then '':'' else '''') @
              [hex_digits ! unat (drop_bit 4 byte), hex_digits ! unat (and byte 0x0F)])
      else out)"

definition format_mac_address :: "u8 list option \<Rightarrow> nat \<Rightarrow> nat \<Rightarrow> string" where
  "format_mac_address mac hw_size limit =
     (if limit = 0 then ''''
      else case mac of
        None \<Rightarrow> strcopy_limit '''' ''Unavailable'' limit
      | Some addr \<Rightarrow> if hw_size = 0 then strcopy_limit '''' ''Unavailable'' limit
                     else mac_loop addr hw_size 0 limit '''')"

section \<open>The line editor and the shell's words\<close>

text \<open>
  \<open>line_read\<close> over the sequence of \<open>unicode_char\<close> values the keyboard delivers: \<open>Some\<close> of the
  finished line and the keys left over once Enter is seen, \<open>None\<close> while it still waits.
  The echo on the console is output only.
\<close>

fun line_read :: "nat \<Rightarrow> string \<Rightarrow> nat list \<Rightarrow> (string \<times> nat list) option" where
  "line_read limit buffer [] = None"
| "line_read limit buffer (key # keys) =
     (if key = 13 then Some (buffer, keys)
      else if key = 8 then line_read limit (butlast buffer) keys
      else if key < 32 \<or> key > 126 then line_read limit buffer keys
      else if length buffer + 1 \<ge> limit then line_read limit buffer keys
      else line_read limit (buffer @ [char_of key]) keys)"

text \<open>The \<open>argv\<close> words of a line; at most \<open>max_args\<close> of them.\<close>

function tokenize_loop :: "string \<Rightarrow> string list \<Rightarrow> nat \<Rightarrow> string list" where
  "tokenize_loop cursor argv max_args =
     (if cursor \<noteq> [] \<and> length argv < max_args
      then (let c = dropWhile isspace cursor
            in if c = [] then argv
               else let word = takeWhile (\<lambda>x. \<not> isspace x) c;
                        rest = dropWhile (\<lambda>x. \<not> isspace x) c
                    in if rest = [] then argv @ [word]
                       else tokenize_loop (tl rest) (argv @ [word]) max_args)
      else argv)"
  by pat_completeness auto
termination
proof (relation "measure (\<lambda>(cursor, argv, max_args). length cursor)", goal_cases)
  case (2 cursor argv max_args c word rest)
  have "length rest \<le> length cursor"
    using 2 by (metis dual_order.trans length_dropWhile_le)
  moreover have "rest \<noteq> []" using 2 by simp
  ultimately show ?case by (cases rest) auto
qed simp

declare tokenize_loop.simps [simp del]

definition shell_tokenize :: "string \<Rightarrow> nat \<Rightarrow> string list" where
  "shell_tokenize line max_args = tokenize_loop line [] max_args"

text \<open>The inner \<open>while\<close> of \<open>shell_join_args\<close>: append while a terminator still fits.\<close>

fun append_limit :: "string \<Rightarrow> string \<Rightarrow> nat \<Rightarrow> string" where
  "append_limit out [] limit = out"
| "append_limit out (c # cs) limit =
     (if length out + 1 < limit then append_limit (out @ [c]) cs limit else out)"

fun join_loop :: "string list \<Rightarrow> bool \<Rightarrow> nat \<Rightarrow> string \<Rightarrow> string" where
  "join_loop [] first limit out = out"
| "join_loop (arg # args) first limit out =
     join_loop args False limit
       (append_limit (if \<not> first \<and> length out + 1 < limit then out @ '' '' else out) arg limit)"

definition shell_join_args :: "nat \<Rightarrow> string list \<Rightarrow> nat \<Rightarrow> string" where
  "shell_join_args start argv limit = join_loop (drop start argv) True limit ''''"

section \<open>Paths\<close>

text \<open>The index of the last occurrence, the list reading of \<open>strrchr\<close>.\<close>

fun last_index :: "char \<Rightarrow> string \<Rightarrow> nat option" where
  "last_index c [] = None"
| "last_index c (x # s) =
     (case last_index c s of Some i \<Rightarrow> Some (Suc i) | None \<Rightarrow> if x = c then Some 0 else None)"

definition path_basename :: "string \<Rightarrow> string" where
  "path_basename path =
     (case last_index (CHR ''/'') path of None \<Rightarrow> path | Some i \<Rightarrow> drop (Suc i) path)"

definition parent_directory :: "string \<Rightarrow> string" where
  "parent_directory path =
     (if path = ''/'' then path
      else case last_index (CHR ''/'') path of
        None \<Rightarrow> path
      | Some i \<Rightarrow> if i = 0 then take 1 path else take i path)"

definition COMPONENTS_MAX :: nat where "COMPONENTS_MAX = 16"

text \<open>The composition of \<open>raw\<close>; \<open>None\<close> is the unchecked \<open>strcat\<close> running over its end.\<close>

definition resolve_raw :: "string \<Rightarrow> string \<Rightarrow> string option" where
  "resolve_raw cwd input =
     (if hd input = CHR ''/'' then Some (strcopy_limit '''' input FS_PATH_MAX)
      else if cwd = ''/''
      then (if length ''/'' + length input + 1 > FS_PATH_MAX then None else Some (''/'' @ input))
      else let raw = strcopy_limit '''' cwd FS_PATH_MAX;
               raw = (if length raw + 1 < FS_PATH_MAX then raw @ ''/'' else raw)
           in Some (if length raw + length input + 1 < FS_PATH_MAX then raw @ input else raw))"

definition push_component :: "string list \<Rightarrow> string \<Rightarrow> string list" where
  "push_component components token =
     (if token = ''.'' \<or> token = [] then components
      else if token = ''..'' then butlast components
      else if length components < COMPONENTS_MAX
           then components @ [strcopy_limit '''' token FS_PATH_MAX]
      else components)"

function split_components :: "string \<Rightarrow> string list \<Rightarrow> string list" where
  "split_components raw components =
     (let r = dropWhile (\<lambda>c. c = CHR ''/'') raw
      in if r = [] then components
         else let token = take (FS_PATH_MAX - 1) (takeWhile (\<lambda>c. c \<noteq> CHR ''/'') r)
              in split_components (drop (length token) r) (push_component components token))"
  by pat_completeness auto
termination
proof (relation "measure (\<lambda>(raw, components). length raw)", goal_cases)
  case (2 raw components r token)
  then have "hd r \<noteq> CHR ''/''"
    by (metis (mono_tags) hd_dropWhile)
  with 2(2) obtain a t where "r = a # t" "a \<noteq> CHR ''/''"
    by (cases r) auto
  then have "token \<noteq> []"
    unfolding 2(3) by (simp add: FS_PATH_MAX_def)
  then have token: "0 < length token" by simp
  have r: "length r \<le> length raw"
    using 2 by (metis length_dropWhile_le)
  have "0 < length r" using 2(2) by simp
  with token r have "length r - length token < length raw" by linarith
  then show ?case by simp
qed simp

declare split_components.simps [simp del]

text \<open>Writing the components back, every octet only while it leaves room for the zero.\<close>

fun emit_components :: "string \<Rightarrow> string list \<Rightarrow> string" where
  "emit_components out [] = out"
| "emit_components out (c # cs) =
     (let out = append_limit out c FS_PATH_MAX;
          out = (if cs \<noteq> [] \<and> length out + 1 < FS_PATH_MAX then out @ ''/'' else out)
      in emit_components out cs)"

definition resolve_path_from :: "string \<Rightarrow> string \<Rightarrow> string option" where
  "resolve_path_from cwd input =
     (if input = [] then Some (strcopy_limit '''' cwd FS_PATH_MAX)
      else map_option (\<lambda>raw. emit_components ''/'' (split_components raw []))
             (resolve_raw cwd input))"


section \<open>Facts about the text helpers\<close>

lemma strcopy_loop_eq: "strcopy_loop src i limit = take (limit - 1 - i) src"
proof (induction src i limit rule: strcopy_loop.induct)
  case (2 c src i limit)
  show ?case
  proof (cases "i + 1 < limit")
    case True
    then have "limit - 1 - i = Suc (limit - 1 - (i + 1))" by linarith
    with 2 True show ?thesis by simp
  qed simp
qed simp

lemma strcopy_limit_eq: "0 < limit \<Longrightarrow> strcopy_limit dst src limit = take (limit - 1) src"
  by (simp add: strcopy_limit_def strcopy_loop_eq)

lemma strcopy_limit_fits: "length src < limit \<Longrightarrow> strcopy_limit dst src limit = src"
  by (simp add: strcopy_limit_eq)

lemma strcopy_limit_length: "0 < limit \<Longrightarrow> length (strcopy_limit dst src limit) < limit"
  by (simp add: strcopy_limit_eq)

lemma append_limit_eq: "append_limit out s limit = out @ take (limit - 1 - length out) s"
proof (induction out s limit rule: append_limit.induct)
  case (2 out c cs limit)
  show ?case
  proof (cases "length out + 1 < limit")
    case True
    then have "limit - 1 - length out = Suc (limit - 1 - length (out @ [c]))" by simp
    with 2 True show ?thesis by simp
  qed simp
qed simp

lemma append_limit_fits: "length out + length s < limit \<Longrightarrow> append_limit out s limit = out @ s"
  by (simp add: append_limit_eq)

lemma text_scan_iff: "needle \<noteq> [] \<Longrightarrow> text_scan hay needle \<longleftrightarrow> sublist needle hay"
proof (induction hay)
  case Nil
  then show ?case by simp
next
  case (Cons c hay)
  have "take (length needle) (c # hay) = needle \<longleftrightarrow> prefix needle (c # hay)"
    by (metis append_eq_conv_conj prefix_def)
  with Cons show ?case by (auto simp: sublist_Cons_right)
qed

lemma text_contains_iff: "text_contains hay needle \<longleftrightarrow> sublist needle hay"
  by (simp add: text_contains_def text_scan_iff)

lemma line_read_bounds:
  "line_read limit buffer keys = Some (line, rest) \<Longrightarrow> length buffer < limit \<Longrightarrow>
   list_all isprint buffer \<Longrightarrow> length line < limit \<and> list_all isprint line"
proof (induction limit buffer keys rule: line_read.induct)
  case (2 limit buffer key keys)
  have "list_all isprint (butlast buffer)"
    using 2 by (auto simp: list_all_iff dest: in_set_butlastD)
  moreover have "32 \<le> key \<Longrightarrow> key \<le> 126 \<Longrightarrow> isprint (char_of key)"
    by (simp add: isprint_def uchar_def)
  ultimately show ?case
    using 2 by (auto split: if_splits)
qed simp

lemma line_read_returns: "13 \<in> set keys \<Longrightarrow> \<exists>r. line_read limit buffer keys = Some r"
  by (induction limit buffer keys rule: line_read.induct) auto

lemma tokenize_loop_words:
  "list_all (\<lambda>w. w \<noteq> [] \<and> (\<forall>c\<in>set w. \<not> isspace c)) argv \<Longrightarrow> length argv \<le> max_args \<Longrightarrow>
   list_all (\<lambda>w. w \<noteq> [] \<and> (\<forall>c\<in>set w. \<not> isspace c)) (tokenize_loop cursor argv max_args) \<and>
   length (tokenize_loop cursor argv max_args) \<le> max_args"
proof (induction cursor argv max_args rule: tokenize_loop.induct)
  case (1 cursor argv max_args)
  define c where "c = dropWhile isspace cursor"
  define word where "word = takeWhile (\<lambda>x. \<not> isspace x) c"
  have "c \<noteq> [] \<Longrightarrow> \<not> isspace (hd c)"
    unfolding c_def by (rule hd_dropWhile)
  then have "c \<noteq> [] \<Longrightarrow> word \<noteq> []"
    by (cases c) (auto simp: word_def)
  moreover have "\<forall>x\<in>set word. \<not> isspace x"
    by (auto simp: word_def dest: set_takeWhileD)
  ultimately have "c \<noteq> [] \<Longrightarrow> length argv < max_args \<Longrightarrow>
      list_all (\<lambda>w. w \<noteq> [] \<and> (\<forall>c\<in>set w. \<not> isspace c)) (argv @ [word]) \<and>
      length (argv @ [word]) \<le> max_args"
    using "1.prems" by auto
  then show ?case
    using 1 by (subst (1 2) tokenize_loop.simps)
      (simp add: Let_def flip: c_def word_def)
qed

text \<open>A word followed by one space, or by nothing, is read off the front.\<close>

lemma tokenize_word:
  assumes "w \<noteq> []" and "\<forall>c\<in>set w. \<not> isspace c" and "length argv < max_args"
  shows "tokenize_loop w argv max_args = argv @ [w]"
    and "tokenize_loop (w @ CHR '' '' # rest) argv max_args = tokenize_loop rest (argv @ [w]) max_args"
proof -
  have d: "dropWhile isspace w = w" "dropWhile isspace (w @ CHR '' '' # rest) = w @ CHR '' '' # rest"
    using assms(1,2) by (cases w; simp)+
  have t: "takeWhile (\<lambda>x. \<not> isspace x) w = w" "dropWhile (\<lambda>x. \<not> isspace x) w = []"
    "takeWhile (\<lambda>x. \<not> isspace x) (w @ CHR '' '' # rest) = w"
    "dropWhile (\<lambda>x. \<not> isspace x) (w @ CHR '' '' # rest) = CHR '' '' # rest"
    using assms(2) by (auto simp: takeWhile_eq_all_conv dropWhile_eq_Nil_conv isspace_def
        takeWhile_append2 dropWhile_append2)
  show "tokenize_loop w argv max_args = argv @ [w]"
    by (subst tokenize_loop.simps) (use assms d t in simp)
  show "tokenize_loop (w @ CHR '' '' # rest) argv max_args = tokenize_loop rest (argv @ [w]) max_args"
    by (subst tokenize_loop.simps) (use assms d t in simp)
qed

text \<open>The words joined by single spaces.\<close>

fun unwords :: "string list \<Rightarrow> string" where
  "unwords [] = ''''"
| "unwords [w] = w"
| "unwords (w # v # ws) = w @ '' '' @ unwords (v # ws)"

lemma tokenize_unwords:
  "list_all (\<lambda>w. w \<noteq> [] \<and> (\<forall>c\<in>set w. \<not> isspace c)) ws \<Longrightarrow> length argv + length ws \<le> max_args \<Longrightarrow>
   tokenize_loop (unwords ws) argv max_args = argv @ ws"
proof (induction ws arbitrary: argv rule: unwords.induct)
  case 1
  then show ?case by (simp add: tokenize_loop.simps)
qed (simp_all add: tokenize_word)

lemma join_loop_fits:
  "length out + length (unwords ws) + (if first then 0 else 1) < limit \<Longrightarrow> ws \<noteq> [] \<Longrightarrow>
   join_loop ws first limit out = out @ (if first then '''' else '' '') @ unwords ws"
proof (induction ws arbitrary: out first rule: unwords.induct)
  case (3 w v ws)
  then show ?case
    using "3.IH" [of "out @ (if first then '''' else '' '') @ w" False]
    by (cases first) (simp_all add: append_limit_fits)
qed (auto simp: append_limit_fits)

lemma shell_join_fits:
  "length (unwords ws) < limit \<Longrightarrow> shell_join_args 0 ws limit = unwords ws"
  by (cases "ws = []") (simp_all add: shell_join_args_def join_loop_fits)

section \<open>Paths as component lists\<close>

lemma last_index_Some:
  "last_index c s = Some i \<longleftrightarrow> (\<exists>u v. s = u @ c # v \<and> c \<notin> set v \<and> i = length u)"
proof (induction s arbitrary: i)
  case Nil
  then show ?case by simp
next
  case (Cons x s)
  have none: "last_index c s = None \<longleftrightarrow> c \<notin> set s"
    by (induction s) (auto split: option.splits)
  show ?case
  proof (cases "last_index c s")
    case None
    with none have "c \<notin> set s" by simp
    then show ?thesis using None by (auto simp: Cons_eq_append_conv)
  next
    case (Some j)
    then have "\<exists>u v. s = u @ c # v \<and> c \<notin> set v \<and> j = length u"
      using Cons.IH [of j] by simp
    then obtain u v where uv: "s = u @ c # v" "c \<notin> set v" "j = length u"
      by blast
    show ?thesis
    proof
      assume "last_index c (x # s) = Some i"
      with Some uv show "\<exists>u v. x # s = u @ c # v \<and> c \<notin> set v \<and> i = length u"
        by (intro exI [of _ "x # u"] exI [of _ v]) simp
    next
      assume "\<exists>u v. x # s = u @ c # v \<and> c \<notin> set v \<and> i = length u"
      then obtain u' v' where "x # s = u' @ c # v'" "c \<notin> set v'" "i = length u'"
        by blast
      with uv split_last_unique [of u' c v' "x # u" v] Some
      show "last_index c (x # s) = Some i" by simp
    qed
  qed
qed

lemma last_index_None: "last_index c s = None \<longleftrightarrow> c \<notin> set s"
  by (induction s) (auto split: option.splits)

lemma last_index_append [simp]: "c \<notin> set v \<Longrightarrow> last_index c (u @ c # v) = Some (length u)"
  by (auto simp: last_index_Some)

text \<open>
  The parent of a path that starts with a slash, in the one form the file systems need: a
  path is its parent, a slash and a last component.
\<close>

lemma parent_directory_append:
  assumes "CHR ''/'' \<notin> set n" and "u @ CHR ''/'' # n \<noteq> ''/''"
  shows "parent_directory (u @ CHR ''/'' # n) = (if u = [] then ''/'' else u)"
  using assms by (auto simp: parent_directory_def)

lemma absolute_path_cases:
  assumes "p \<noteq> []" and "hd p = CHR ''/''"
  obtains (root) "p = ''/''"
  | (top) n where "p = CHR ''/'' # n" "CHR ''/'' \<notin> set n" "n \<noteq> []" "parent_directory p = ''/''"
  | (nested) u n where "p = u @ CHR ''/'' # n" "CHR ''/'' \<notin> set n" "u \<noteq> []" "hd u = CHR ''/''"
      "parent_directory p = u"
proof -
  have "CHR ''/'' \<in> set p"
    using assms by (cases p) auto
  then obtain u n where p: "p = u @ CHR ''/'' # n" and n: "CHR ''/'' \<notin> set n"
    by (meson split_list_last)
  show ?thesis
  proof (cases "u = []")
    case True
    with p n root top show ?thesis
      by (cases "n = []") (auto simp: parent_directory_append [of n "[]", simplified])
  next
    case False
    then have "p \<noteq> ''/''" using p by (cases u) auto
    moreover have "hd u = CHR ''/''" using assms p False by (cases u) auto
    ultimately show ?thesis
      using nested [of u n] p n False parent_directory_append [of n u] by auto
  qed
qed

lemma parent_below:
  assumes "p \<noteq> []" and "hd p = CHR ''/''" and "parent_directory p \<noteq> ''/''"
  shows "below (parent_directory p) p" and "hd (parent_directory p) = CHR ''/''"
    and "parent_directory p \<noteq> []"
  using assms absolute_path_cases [OF assms(1,2)]
  by (metis below_iff parent_directory_def)+

text \<open>The components of a path and their composition: \<open>/\<close>, or \<open>/c1/c2/...\<close>.\<close>

definition comp_ok :: "string \<Rightarrow> bool" where
  "comp_ok c \<longleftrightarrow> c \<noteq> [] \<and> c \<noteq> ''.'' \<and> c \<noteq> ''..'' \<and> CHR ''/'' \<notin> set c"

fun path_tail :: "string list \<Rightarrow> string" where
  "path_tail [] = []"
| "path_tail [c] = c"
| "path_tail (c # d # cs) = c @ CHR ''/'' # path_tail (d # cs)"

fun split_at :: "char \<Rightarrow> string \<Rightarrow> string list" where
  "split_at c [] = [[]]"
| "split_at c (x # xs) =
     (if x = c then [] # split_at c xs
      else case split_at c xs of [] \<Rightarrow> [[x]] | w # ws \<Rightarrow> (x # w) # ws)"

text \<open>A canonical absolute path: no empty component, no \<open>.\<close> and no \<open>..\<close>.\<close>

definition canonical :: "string \<Rightarrow> bool" where
  "canonical p \<longleftrightarrow> p = ''/'' \<or>
     (p \<noteq> [] \<and> hd p = CHR ''/'' \<and> list_all comp_ok (split_at (CHR ''/'') (tl p)))"

lemma split_at_word: "c \<notin> set w \<Longrightarrow> split_at c w = [w]"
  by (induction w) auto

lemma split_at_append: "c \<notin> set w \<Longrightarrow> split_at c (w @ c # s) = w # split_at c s"
  by (induction w) auto

lemma split_at_nonempty: "split_at c s \<noteq> []"
  by (induction s) (auto split: list.splits)

lemma split_at_path_tail: "cs \<noteq> [] \<Longrightarrow> list_all comp_ok cs \<Longrightarrow> split_at (CHR ''/'') (path_tail cs) = cs"
  by (induction cs rule: path_tail.induct)
     (auto simp: split_at_word split_at_append comp_ok_def)

lemma path_tail_split_at: "path_tail (split_at (CHR ''/'') s) = s"
proof (induction s)
  case (Cons x s)
  then show ?case
    using split_at_nonempty [of "CHR ''/''" s]
    by (cases "split_at (CHR ''/'') s"; cases "tl (split_at (CHR ''/'') s)") auto
qed simp

lemma canonical_path_tail: "list_all comp_ok cs \<Longrightarrow> canonical (CHR ''/'' # path_tail cs)"
  by (cases "cs = []") (auto simp: canonical_def split_at_path_tail)

lemma canonicalE:
  assumes "canonical p"
  obtains cs where "p = CHR ''/'' # path_tail cs" and "list_all comp_ok cs"
proof (cases "p = ''/''")
  case True
  then show ?thesis using that [of "[]"] by simp
next
  case False
  with assms show ?thesis
    using that [of "split_at (CHR ''/'') (tl p)"]
    by (cases p) (auto simp: canonical_def path_tail_split_at)
qed

section \<open>Resolution is canonical, and idempotent\<close>

text \<open>The octets a component list takes in a path, one separator a component.\<close>

definition plen :: "string list \<Rightarrow> nat" where
  "plen cs = sum_list (map (\<lambda>c. length c + 1) cs)"

lemma plen_simps [simp]: "plen [] = 0" "plen (c # cs) = length c + 1 + plen cs"
  "plen (cs @ ds) = plen cs + plen ds"
  by (simp_all add: plen_def)

lemma plen_butlast: "plen (butlast cs) \<le> plen cs"
  by (induction cs) auto

lemma length_path_tail: "cs \<noteq> [] \<Longrightarrow> Suc (length (path_tail cs)) = plen cs"
  by (induction cs rule: path_tail.induct) auto

lemma push_component_ok:
  "list_all comp_ok cs \<Longrightarrow> CHR ''/'' \<notin> set t \<Longrightarrow> length t < FS_PATH_MAX \<Longrightarrow> list_all comp_ok (push_component cs t)"
  by (auto simp: push_component_def strcopy_limit_fits comp_ok_def list_all_iff
      dest: in_set_butlastD)

lemma push_component_plen:
  "length t < FS_PATH_MAX \<Longrightarrow> plen (push_component cs t) \<le> plen cs + length t + 1"
  using plen_butlast [of cs]
  by (auto simp: push_component_def strcopy_limit_fits)

lemma split_components_end:
  "dropWhile (\<lambda>c. c = CHR ''/'') raw = [] \<Longrightarrow> split_components raw cs = cs"
  by (subst split_components.simps) simp

lemma split_components_step:
  assumes "r = dropWhile (\<lambda>c. c = CHR ''/'') raw" and "r \<noteq> []"
    and "t = take (FS_PATH_MAX - 1) (takeWhile (\<lambda>c. c \<noteq> CHR ''/'') r)"
  shows "split_components raw cs = split_components (drop (length t) r) (push_component cs t)"
  by (subst split_components.simps) (simp only: Let_def assms(2) if_False flip: assms(1,3))

lemma split_components_ok:
  "list_all comp_ok cs \<Longrightarrow> list_all comp_ok (split_components raw cs)"
proof (induction raw cs rule: split_components.induct)
  case (1 raw cs)
  define r where "r = dropWhile (\<lambda>c. c = CHR ''/'') raw"
  define t where "t = take (FS_PATH_MAX - 1) (takeWhile (\<lambda>c. c \<noteq> CHR ''/'') r)"
  have "CHR ''/'' \<notin> set t" "length t < FS_PATH_MAX"
    by (auto simp: t_def FS_PATH_MAX_def dest: in_set_takeD set_takeWhileD)
  then have "list_all comp_ok (push_component cs t)"
    using "1.prems" push_component_ok by blast
  then have step: "r \<noteq> [] \<Longrightarrow> list_all comp_ok (split_components (drop (length t) r) (push_component cs t))"
    using "1.IH" [OF r_def _ t_def] by blast
  show ?case
  proof (cases "r = []")
    case True
    with "1.prems" r_def show ?thesis using split_components_end [of raw cs] by simp
  next
    case False
    with step show ?thesis using split_components_step [OF r_def False t_def] by simp
  qed
qed

lemma split_components_plen:
  "length raw < FS_PATH_MAX \<Longrightarrow> raw = [] \<or> hd raw = CHR ''/'' \<Longrightarrow>
   plen (split_components raw cs) \<le> plen cs + length raw"
proof (induction raw cs rule: split_components.induct)
  case (1 raw cs)
  define r where "r = dropWhile (\<lambda>c. c = CHR ''/'') raw"
  define t where "t = take (FS_PATH_MAX - 1) (takeWhile (\<lambda>c. c \<noteq> CHR ''/'') r)"
  show ?case
  proof (cases "r = []")
    case True
    then show ?thesis using split_components_end [of raw cs] r_def by simp
  next
    case False
    then have raw: "raw \<noteq> []" "hd raw = CHR ''/''"
      using "1.prems"(2) by (auto simp: r_def)
    then have len: "Suc (length r) \<le> length raw"
      by (cases raw) (auto simp: r_def length_dropWhile_le)
    then have t: "t = takeWhile (\<lambda>c. c \<noteq> CHR ''/'') r"
      using "1.prems"(1) length_takeWhile_le [of "\<lambda>c. c \<noteq> CHR ''/''" r] by (simp add: t_def)
    then have rest: "drop (length t) r = dropWhile (\<lambda>c. c \<noteq> CHR ''/'') r"
      by (simp add: dropWhile_eq_drop)
    have lt: "length t + length (drop (length t) r) = length r"
      using t length_takeWhile_le [of "\<lambda>c. c \<noteq> CHR ''/''" r] by simp
    have "drop (length t) r = [] \<or> hd (drop (length t) r) = CHR ''/''"
      unfolding rest using hd_dropWhile [of "\<lambda>c. c \<noteq> CHR ''/''" r] by auto
    then have "plen (split_components (drop (length t) r) (push_component cs t)) \<le>
        plen (push_component cs t) + length (drop (length t) r)"
      using "1.IH" [OF r_def False t_def] "1.prems"(1) len by simp
    also have "\<dots> \<le> plen cs + length t + 1 + length (drop (length t) r)"
      using push_component_plen [of t cs] len lt "1.prems"(1) by simp
    also have "\<dots> \<le> plen cs + length raw"
      using len lt by simp
    finally show ?thesis
      using split_components_step [OF r_def False t_def] by simp
  qed
qed

lemma emit_components_fits:
  "length out + length (path_tail cs) < FS_PATH_MAX \<Longrightarrow> emit_components out cs = out @ path_tail cs"
proof (induction cs arbitrary: out rule: path_tail.induct)
  case (3 c d cs)
  then show ?case
    using "3.IH" [of "out @ c @ ''/''"] by (simp add: append_limit_fits)
qed (simp_all add: append_limit_fits)

lemma emit_split:
  assumes "length raw < FS_PATH_MAX" and "raw \<noteq> []" and "hd raw = CHR ''/''"
  shows "emit_components ''/'' (split_components raw []) =
    CHR ''/'' # path_tail (split_components raw [])"
    and "length (path_tail (split_components raw [])) + 1 \<le> length raw"
proof -
  have "plen (split_components raw []) \<le> length raw"
    using split_components_plen [of raw "[]"] assms by simp
  then show *: "length (path_tail (split_components raw [])) + 1 \<le> length raw"
    using length_path_tail [of "split_components raw []"] assms(2)
    by (cases "split_components raw [] = []"; cases raw) auto
  show "emit_components ''/'' (split_components raw []) =
    CHR ''/'' # path_tail (split_components raw [])"
    using * assms(1) by (subst emit_components_fits) auto
qed

lemma resolve_raw_absolute:
  assumes "resolve_raw cwd input = Some raw" and "input \<noteq> []" and "cwd \<noteq> []" and "hd cwd = CHR ''/''"
  shows "raw \<noteq> []" and "hd raw = CHR ''/''" and "length raw < FS_PATH_MAX"
  using assms
  by (auto simp: resolve_raw_def strcopy_limit_eq FS_PATH_MAX_def Let_def hd_append split: if_splits)

lemma split_components_word:
  assumes "CHR ''/'' \<notin> set c" and "c \<noteq> []" and "length c < FS_PATH_MAX" and "s = [] \<or> hd s = CHR ''/''"
  shows "split_components (CHR ''/'' # c @ s) ds = split_components s (push_component ds c)"
proof -
  have r: "c @ s = dropWhile (\<lambda>c. c = CHR ''/'') (CHR ''/'' # c @ s)"
    using assms(1,2) by (cases c) auto
  have "takeWhile (\<lambda>c. c \<noteq> CHR ''/'') (c @ s) = c @ takeWhile (\<lambda>c. c \<noteq> CHR ''/'') s"
    using assms(1) by (intro takeWhile_append2) auto
  also have "takeWhile (\<lambda>c. c \<noteq> CHR ''/'') s = []"
    using assms(4) by (cases s) auto
  finally have "c = take (FS_PATH_MAX - 1) (takeWhile (\<lambda>c. c \<noteq> CHR ''/'') (c @ s))"
    using assms(3) by simp
  from split_components_step [OF r _ this] assms(2) show ?thesis by simp
qed

lemma split_components_canonical:
  "list_all comp_ok cs \<Longrightarrow> list_all (\<lambda>c. length c < FS_PATH_MAX) cs \<Longrightarrow>
   length ds + length cs \<le> COMPONENTS_MAX \<Longrightarrow>
   split_components (CHR ''/'' # path_tail cs) ds = ds @ cs"
proof (induction cs arbitrary: ds rule: path_tail.induct)
  case 1
  show ?case by (simp add: split_components_end)
next
  case (2 c)
  then show ?case
    using split_components_word [of c "[]" ds]
    by (auto simp: comp_ok_def push_component_def strcopy_limit_fits split_components_end)
next
  case (3 c d cs)
  then have "split_components (CHR ''/'' # path_tail (c # d # cs)) ds =
      split_components (CHR ''/'' # path_tail (d # cs)) (ds @ [c])"
    using split_components_word [of c "CHR ''/'' # path_tail (d # cs)" ds]
    by (auto simp: comp_ok_def push_component_def strcopy_limit_fits)
  with "3.IH" [of "ds @ [c]"] "3.prems" show ?case by simp
qed

lemma canonical_bounds:
  assumes "p = CHR ''/'' # path_tail cs" and "length p < FS_PATH_MAX"
  shows "list_all (\<lambda>c. length c < FS_PATH_MAX) cs"
proof -
  have "c \<in> set cs \<Longrightarrow> length c \<le> length (path_tail cs)" for c
    by (induction cs rule: path_tail.induct) auto
  with assms show ?thesis by (fastforce simp: list_all_iff)
qed

text \<open>Resolving any input against an absolute directory gives a canonical path that fits.\<close>

lemma resolve_canonical:
  assumes "resolve_path_from cwd input = Some p" and "input \<noteq> []" and "cwd \<noteq> []" and "hd cwd = CHR ''/''"
  shows "canonical p \<and> length p < FS_PATH_MAX"
proof -
  obtain raw where raw: "resolve_raw cwd input = Some raw"
      and p: "p = emit_components ''/'' (split_components raw [])"
    using assms(1,2) by (auto simp: resolve_path_from_def)
  note raw' = resolve_raw_absolute [OF raw assms(2-4)]
  have "list_all comp_ok (split_components raw [])"
    by (rule split_components_ok) simp
  then show ?thesis
    using p emit_split [OF raw'(3,1,2)] raw'(3) canonical_path_tail by simp
qed

text \<open>A canonical path is a fixed point, whatever the current directory is.\<close>

lemma resolve_fixpoint:
  assumes "canonical p" and "length p < FS_PATH_MAX"
    and "length (split_at (CHR ''/'') (tl p)) \<le> COMPONENTS_MAX"
  shows "resolve_path_from cwd p = Some p"
proof -
  obtain cs where p: "p = CHR ''/'' # path_tail cs" and cs: "list_all comp_ok cs"
    using canonicalE [OF assms(1)] by blast
  have "length cs \<le> COMPONENTS_MAX"
    using assms(3) p cs split_at_path_tail [of cs] by (cases "cs = []") auto
  then have s: "split_components p [] = cs"
    using split_components_canonical [OF cs canonical_bounds [OF p assms(2)], of "[]"] p by simp
  have "resolve_raw cwd p = Some p"
    using p assms(2) by (simp add: resolve_raw_def strcopy_limit_fits)
  then show ?thesis
    using p s emit_split(1) [of p] assms(2) by (simp add: resolve_path_from_def)
qed

text \<open>
  In the root directory the input is appended to a 96-byte array without a check: a relative
  path of 95 or more octets runs over its end. Elsewhere an input that does not fit is
  dropped, and the call resolves to the current directory itself.
\<close>

lemma resolve_root_overflow:
  "input \<noteq> [] \<Longrightarrow> hd input \<noteq> CHR ''/'' \<Longrightarrow> 95 \<le> length input \<Longrightarrow> resolve_path_from ''/'' input = None"
  by (simp add: resolve_path_from_def resolve_raw_def FS_PATH_MAX_def)

section \<open>Properties\<close>

text \<open>Once Enter is pressed, \<open>line_read\<close> returns, and the line it returns fits its buffer with the
  terminator and holds printable characters only, whatever keys and backspaces came before.\<close>

theorem line_read_total:
  assumes "13 \<in> set keys" and "0 < limit"
  shows "\<exists>line rest. line_read limit [] keys = Some (line, rest) \<and> length line < limit \<and> list_all isprint line"
proof -
  obtain r where "line_read limit [] keys = Some r" using line_read_returns [OF assms(1)] by blast
  then show ?thesis using line_read_bounds [of limit "[]" keys] assms(2) by (cases r) auto
qed

theorem line_read_total_witness: "line_read 4 [] [108, 115, 8, 120, 121, 122, 13, 65] = Some (''lxy'', [65])"
proof -
  obtain line rest where "line_read 4 [] [108, 115, 8, 120, 121, 122, 13, 65] = Some (line, rest)"
    using line_read_total [of "[108, 115, 8, 120, 121, 122, 13, 65]" 4] by auto
  moreover have "line_read 4 [] [108, 115, 8, 120, 121, 122, 13, 65] = Some (''lxy'', [65])" by code_simp
  ultimately show ?thesis by simp
qed

text \<open>Joining words and splitting the line again returns the words: for at most as many words as
  the tokenizer keeps, none empty or holding white space, whose line fits the buffer.\<close>

theorem tokenize_join_roundtrip:
  assumes "list_all (\<lambda>w. w \<noteq> [] \<and> (\<forall>c\<in>set w. \<not> isspace c)) ws"
    and "length ws \<le> max_args" and "length (unwords ws) < limit"
  shows "shell_tokenize (shell_join_args 0 ws limit) max_args = ws"
  using tokenize_unwords [OF assms(1), of "[]"] assms(2,3)
  by (simp add: shell_join_fits shell_tokenize_def)

theorem tokenize_join_roundtrip_witness:
  "shell_tokenize (shell_join_args 0 [''cp'', ''/a'', ''/b''] 96) SHELL_ARG_MAX = [''cp'', ''/a'', ''/b'']"
  by (rule tokenize_join_roundtrip) (simp_all add: isspace_def uchar_def SHELL_ARG_MAX_def)



text \<open>With the root as current directory a relative argument of 95 characters or more is
  concatenated past the end of the 96-byte array; the shell's words may have up to 255.\<close>

theorem resolve_path_root_overflow:
  assumes "95 \<le> length input" and "hd input \<noteq> CHR ''/''"
  shows "resolve_path_from ''/'' input = None"
  using assms by (intro resolve_root_overflow) auto

theorem resolve_path_root_overflow_witness: "resolve_path_from ''/'' (replicate 95 (CHR ''a'')) = None"
  by (rule resolve_path_root_overflow) (simp_all add: numeral_nat)

end
