(* ===== verification/NetBytes.thy ===== *)
theory NetBytes
  imports ArmPath Interfaces
begin

text \<open>
  The bottom of the ARM64 network stack, \<open>src/arm64/kernel/main.c\<close>: big-endian fields, IPv4
  addresses and their text, the internet checksum, and the stack's own state with its reset,
  its fixed VirtualBox profile and its random numbers. Buffers are octet lists; the functions
  that take a pointer take the buffer and the offset it stands for.
\<close>

unbundle bit_operations_syntax

definition NET_FRAME_MAX :: nat where "NET_FRAME_MAX = 2048"
definition NET_ETHERTYPE_IPV4 :: u16 where "NET_ETHERTYPE_IPV4 = 0x0800"
definition NET_ETHERTYPE_ARP :: u16 where "NET_ETHERTYPE_ARP = 0x0806"
definition NET_IPPROTO_TCP :: u8 where "NET_IPPROTO_TCP = 6"
definition NET_IPPROTO_UDP :: u8 where "NET_IPPROTO_UDP = 17"

section \<open>Fields\<close>

definition byte_at :: "bytes \<Rightarrow> nat \<Rightarrow> 'a::len word" where
  "byte_at buffer i = of_char (buffer ! i)"

definition net_read_be16 :: "bytes \<Rightarrow> nat \<Rightarrow> u16" where
  "net_read_be16 buffer i = push_bit 8 (byte_at buffer i) OR byte_at buffer (i + 1)"

definition net_read_be32 :: "bytes \<Rightarrow> nat \<Rightarrow> u32" where
  "net_read_be32 buffer i = push_bit 24 (byte_at buffer i) OR push_bit 16 (byte_at buffer (i + 1)) OR
     push_bit 8 (byte_at buffer (i + 2)) OR byte_at buffer (i + 3)"

text \<open>The \<open>uint8_t\<close> conversion of a value.\<close>

definition octet :: "'a::len word \<Rightarrow> char" where
  "octet v = char_of (unat v)"

definition net_write_be16 :: "u16 \<Rightarrow> bytes" where
  "net_write_be16 value = [octet (drop_bit 8 value), octet (value AND 0xFF)]"

definition net_write_be32 :: "u32 \<Rightarrow> bytes" where
  "net_write_be32 value = [octet (drop_bit 24 value), octet (drop_bit 16 value AND 0xFF),
     octet (drop_bit 8 value AND 0xFF), octet (value AND 0xFF)]"

section \<open>Addresses\<close>

definition net_ip_make :: "u8 \<Rightarrow> u8 \<Rightarrow> u8 \<Rightarrow> u8 \<Rightarrow> u32" where
  "net_ip_make a b c d = push_bit 24 (ucast a) OR push_bit 16 (ucast b) OR push_bit 8 (ucast c) OR ucast d"

definition net_ip_to_string :: "u32 \<Rightarrow> nat \<Rightarrow> string" where
  "net_ip_to_string ip limit =
     (let part = u32_to_dec (drop_bit 24 ip AND 0xFF);
          out = strcopy_limit '''' part limit;
          out = (if length out + 2 < limit then out @ ''.'' else out);
          part = u32_to_dec (drop_bit 16 ip AND 0xFF);
          out = (if length out + length part + 2 < limit then out @ part @ ''.'' else out);
          part = u32_to_dec (drop_bit 8 ip AND 0xFF);
          out = (if length out + length part + 2 < limit then out @ part @ ''.'' else out);
          part = u32_to_dec (ip AND 0xFF)
      in if length out + length part + 1 < limit then out @ part else out)"

text \<open>The loop of \<open>net_parse_ipv4_text\<close>; \<open>value\<close> never exceeds 2559, far from wrapping.\<close>

fun ipv4_loop :: "string \<Rightarrow> nat list \<Rightarrow> nat \<Rightarrow> bool \<Rightarrow> (nat list \<times> nat \<times> bool) option" where
  "ipv4_loop [] parts value has_digit = Some (parts, value, has_digit)"
| "ipv4_loop (c # s) parts value has_digit =
     (if isdigit c
      then let value' = value * 10 + nat (digit_val c)
           in if value' > 255 then None else ipv4_loop s parts value' True
      else if c = CHR ''.''
      then if \<not> has_digit \<or> length parts \<ge> 4 then None else ipv4_loop s (parts @ [value]) 0 False
      else None)"

definition net_parse_ipv4_text :: "string \<Rightarrow> u32 option" where
  "net_parse_ipv4_text s =
     (case ipv4_loop s [] 0 False of
        None \<Rightarrow> None
      | Some (parts, value, has_digit) \<Rightarrow>
          if \<not> has_digit \<or> length parts \<noteq> 3 then None
          else Some (net_ip_make (of_nat (parts ! 0)) (of_nat (parts ! 1)) (of_nat (parts ! 2)) (of_nat value)))"

definition net_same_subnet :: "u32 \<Rightarrow> u32 \<Rightarrow> u32 \<Rightarrow> bool" where
  "net_same_subnet left right netmask \<longleftrightarrow> left AND netmask = right AND netmask"

section \<open>The internet checksum\<close>

text \<open>The two loops over the octets: pairs, then a last odd one, summed in 32 bits.\<close>

fun sum_be16 :: "u32 \<Rightarrow> bytes \<Rightarrow> u32" where
  "sum_be16 acc (a # b # data) = sum_be16 (acc + ucast (net_read_be16 [a, b] 0)) data"
| "sum_be16 acc [a] = acc + push_bit 8 (of_char a)"
| "sum_be16 acc [] = acc"

function fold_carry :: "u32 \<Rightarrow> u32" where
  "fold_carry s = (if drop_bit 16 s \<noteq> 0 then fold_carry ((s AND 0xFFFF) + drop_bit 16 s) else s)"
  by auto

definition tcp_pseudo :: "u32 \<Rightarrow> u32 \<Rightarrow> nat \<Rightarrow> bytes" where
  "tcp_pseudo src_ip dst_ip len =
     net_write_be32 src_ip @ net_write_be32 dst_ip @ [NUL, octet NET_IPPROTO_TCP] @ net_write_be16 (of_nat len)"

lemma carry_decreases:
  assumes "drop_bit 16 (s :: u32) \<noteq> 0"
  shows "unat ((s AND 0xFFFF) + drop_bit 16 s) < unat s"
    and "unat ((s AND 0xFFFF) + drop_bit 16 s) = unat s mod 65536 + unat s div 65536"
proof -
  have low: "unat (s AND 0xFFFF) = unat s mod 65536"
    using unat_and_mask [of s 16] by (simp add: mask_eq_exp_minus_1)
  have high: "unat (drop_bit 16 s) = unat s div 65536"
    using unat_drop_bit [of 16 s] by simp
  have "unat s div 65536 < 65536" using unat_u32 [of s] by simp
  then have "unat s mod 65536 + unat s div 65536 < 2 ^ 32"
    using mod_less_divisor [of 65536 "unat s"] by simp
  then show eq: "unat ((s AND 0xFFFF) + drop_bit 16 s) = unat s mod 65536 + unat s div 65536"
    by (simp add: unat_word_ariths low high)
  have "0 < unat (drop_bit 16 s)" using assms by (rule unat_gt_0 [THEN iffD2])
  then have "0 < unat s div 65536" using high by simp
  moreover have "unat s = 65536 * (unat s div 65536) + unat s mod 65536" by simp
  ultimately have "unat s mod 65536 + unat s div 65536 < unat s" by linarith
  then show "unat ((s AND 0xFFFF) + drop_bit 16 s) < unat s" using eq by simp
qed

termination fold_carry
  by (relation "measure unat") (simp, rule in_measure [THEN iffD2], rule carry_decreases(1))

declare fold_carry.simps [simp del]

definition net_checksum :: "bytes \<Rightarrow> u16" where
  "net_checksum data = NOT (ucast (fold_carry (sum_be16 0 data)))"

definition net_tcp_checksum :: "u32 \<Rightarrow> u32 \<Rightarrow> bytes \<Rightarrow> u16" where
  "net_tcp_checksum src_ip dst_ip segment =
     NOT (ucast (fold_carry (sum_be16 (sum_be16 0 (tcp_pseudo src_ip dst_ip (length segment))) segment)))"

section \<open>The state of the stack\<close>

record netstack =
  ns_configured :: bool
  ns_gateway_mac_valid :: bool
  ns_static_profile :: bool
  ns_client_ip :: u32
  ns_subnet_mask :: u32
  ns_gateway_ip :: u32
  ns_dns_ip :: u32
  ns_lease_seconds :: u32
  ns_xid :: u32
  ns_next_port :: u16
  ns_next_ip_id :: u16
  ns_client_mac :: bytes
  ns_gateway_mac :: bytes
  ns_browser_status :: string
  ns_last_host :: string
  ns_last_ip :: string

text \<open>The address texts of \<open>g_network\<close> that follow the stack's state.\<close>

record net = netstack +
  net_ipv4 :: string
  net_subnet_mask :: string
  net_gateway :: string
  net_dns_server :: string
  net_initialized :: bool

definition netstack_sync_strings :: "'a net_scheme \<Rightarrow> 'a net_scheme" where
  "netstack_sync_strings n =
     (if ns_configured n
      then n\<lparr>net_ipv4 := net_ip_to_string (ns_client_ip n) 24,
             net_subnet_mask := net_ip_to_string (ns_subnet_mask n) 24,
             net_gateway := net_ip_to_string (ns_gateway_ip n) 24,
             net_dns_server := net_ip_to_string (ns_dns_ip n) 24\<rparr>
      else n\<lparr>net_ipv4 := ''Unassigned'', net_subnet_mask := ''-'', net_gateway := ''-'', net_dns_server := ''-''\<rparr>)"

definition netstack_reset :: "'a net_scheme \<Rightarrow> 'a net_scheme" where
  "netstack_reset n = netstack_sync_strings
     (n\<lparr>ns_configured := False, ns_gateway_mac_valid := False, ns_static_profile := False,
        ns_client_ip := 0, ns_subnet_mask := 0, ns_gateway_ip := 0, ns_dns_ip := 0,
        ns_lease_seconds := 0, ns_xid := 0, ns_next_port := 49152, ns_next_ip_id := 1,
        ns_client_mac := replicate 6 NUL, ns_gateway_mac := replicate 6 NUL,
        ns_browser_status := ''SNSX HTTP engine is idle.'', ns_last_host := ''-'', ns_last_ip := ''-''\<rparr>)"

definition netstack_apply_virtualbox_nat_profile :: "'a net_scheme \<Rightarrow> 'a net_scheme \<times> bool" where
  "netstack_apply_virtualbox_nat_profile n =
     (if take 3 (ns_client_mac n) \<noteq> [CHR 0x08, CHR 0x00, CHR 0x27] then (n, False)
      else (netstack_sync_strings
        (n\<lparr>ns_configured := True, ns_static_profile := True,
           ns_client_ip := net_ip_make 10 0 2 15, ns_subnet_mask := net_ip_make 255 255 255 0,
           ns_gateway_ip := net_ip_make 10 0 2 2, ns_dns_ip := net_ip_make 10 0 2 3,
           ns_lease_seconds := 0, ns_gateway_mac_valid := False,
           ns_browser_status := strcopy_limit '''' ''SNSX is using the VirtualBox NAT fallback profile and can reach host-backed internet services.'' 128\<rparr>), True))"

definition netstack_random_next :: "'a net_scheme \<Rightarrow> 'a net_scheme \<times> u32" where
  "netstack_random_next n =
     (let x = ns_xid n;
          x = (if x = 0
               then fold (\<lambda>i x. x XOR push_bit (i mod 4 * 8) (byte_at (ns_client_mac n) i)) [0..<6] 0x534E5358
               else x);
          x = x XOR push_bit 13 x;
          x = x XOR drop_bit 17 x;
          x = x XOR push_bit 5 x;
          x = (if x = 0 then 0xA5A55A5A else x)
      in (n\<lparr>ns_xid := x\<rparr>, x))"

section \<open>Reading back what was written\<close>

lemma of_char_octet: "(of_char (octet v) :: 'a::len word) = of_nat (unat v mod 256)"
  by (metis octet_def of_char_of of_nat_of_char)

lemma of_char_octet_bits: "(of_char (octet (v :: 'b::len word)) :: 'a::len word) = take_bit 8 (ucast v)"
proof -
  have "unat v mod 256 = take_bit 8 (unat v)" by (simp add: take_bit_eq_mod)
  then show ?thesis unfolding of_char_octet
    by (intro bit_word_eqI) (simp add: bit_simps bit_of_nat_iff)
qed

lemma and_255: "(v :: 'a::len word) AND 255 = take_bit 8 v"
  by (simp add: take_bit_eq_mask mask_eq_exp_minus_1)

lemma byte_at_cong: "buf ! i = buf' ! j \<Longrightarrow> byte_at buf i = byte_at buf' j"
  by (simp add: byte_at_def)

interpretation be16: field_codec net_write_be16 net_read_be16 2 "\<lambda>_. True"
proof
  fix x off buf
  assume w: "\<And>i. i < 2 \<Longrightarrow> buf ! (off + i) = net_write_be16 x ! i"
  have "buf ! off = octet (drop_bit 8 x)" "buf ! (off + 1) = octet (x AND 0xFF)"
    using w [of 0] w [of 1] by (simp_all add: net_write_be16_def)
  then have "net_read_be16 buf off = push_bit 8 (take_bit 8 (drop_bit 8 x)) OR take_bit 8 (take_bit 8 x)"
    by (simp add: net_read_be16_def byte_at_def of_char_octet_bits and_255)
  also have "\<dots> = x"
    by (rule bit_word_eqI) (auto simp: bit_simps bit_1_iff)
  finally show "net_read_be16 buf off = x" .
next
  fix buf buf' :: bytes and off
  assume "\<And>i. i < 2 \<Longrightarrow> buf ! (off + i) = buf' ! (off + i)"
  from this [of 0] this [of 1] show "net_read_be16 buf off = net_read_be16 buf' off"
    by (simp add: net_read_be16_def byte_at_def)
qed (simp add: net_write_be16_def)

interpretation be32: field_codec net_write_be32 net_read_be32 4 "\<lambda>_. True"
proof
  fix x off buf
  assume w: "\<And>i. i < 4 \<Longrightarrow> buf ! (off + i) = net_write_be32 x ! i"
  have "buf ! off = octet (drop_bit 24 x)" "buf ! (off + 1) = octet (drop_bit 16 x AND 0xFF)"
    "buf ! (off + 2) = octet (drop_bit 8 x AND 0xFF)" "buf ! (off + 3) = octet (x AND 0xFF)"
    using w [of 0] w [of 1] w [of 2] w [of 3] by (simp_all add: net_write_be32_def)
  then have "net_read_be32 buf off = push_bit 24 (take_bit 8 (drop_bit 24 x)) OR
      push_bit 16 (take_bit 8 (take_bit 8 (drop_bit 16 x))) OR push_bit 8 (take_bit 8 (take_bit 8 (drop_bit 8 x))) OR
      take_bit 8 (take_bit 8 x)"
    by (simp add: net_read_be32_def byte_at_def of_char_octet_bits and_255)
  also have "\<dots> = x"
    by (rule bit_word_eqI, rename_tac n, case_tac "n < 8"; case_tac "n < 16"; case_tac "n < 24")
       (auto simp: bit_simps)
  finally show "net_read_be32 buf off = x" .
next
  fix buf buf' :: bytes and off
  assume "\<And>i. i < 4 \<Longrightarrow> buf ! (off + i) = buf' ! (off + i)"
  from this [of 0] this [of 1] this [of 2] this [of 3]
  show "net_read_be32 buf off = net_read_be32 buf' off"
    by (simp add: net_read_be32_def byte_at_def)
qed (simp add: net_write_be32_def)

section \<open>One's complement sums\<close>

definition ones :: "nat \<Rightarrow> nat" where
  "ones n = (if n = 0 then 0 else (n - 1) mod 65535 + 1)"

lemma ones_small: "n < 65536 \<Longrightarrow> ones n = n"
  by (auto simp: ones_def)

lemma ones_step: "ones (n mod 65536 + n div 65536) = ones n"
proof (cases "n = 0")
  case False
  define q r where "q = n div 65536" and "r = n mod 65536"
  have n: "n = 65536 * q + r" by (simp add: q_def r_def)
  have pos: "0 < r + q" using False n by (cases q) auto
  have "n - 1 = (r + q - 1) + 65535 * q" using n pos by linarith
  then have "(n - 1) mod 65535 = (r + q - 1) mod 65535" by simp
  with False pos show ?thesis by (simp add: ones_def flip: q_def r_def)
qed (simp add: ones_def)

lemma unat_fold_carry: "unat (fold_carry s) = ones (unat s)"
proof (induction s rule: fold_carry.induct)
  case (1 s)
  show ?case
  proof (cases "drop_bit 16 s = 0")
    case True
    then have "unat s div 65536 = 0" using unat_drop_bit [of 16 s] by simp
    then have "unat s < 65536" by (simp add: div_eq_0_iff)
    with True show ?thesis by (simp add: fold_carry.simps [of s] ones_small)
  next
    case False
    then have "unat (fold_carry s) = ones (unat s mod 65536 + unat s div 65536)"
      using 1 carry_decreases(2) [OF False] by (simp add: fold_carry.simps [of s])
    then show ?thesis by (simp only: ones_step)
  qed
qed

fun nsum :: "bytes \<Rightarrow> nat" where
  "nsum (a # b # data) = 256 * of_char a + of_char b + nsum data"
| "nsum [a] = 256 * of_char a"
| "nsum [] = 0"

lemma of_char_less: "(of_char c :: nat) < 256"
  by simp

lemma of_char_mod: "256 \<le> m \<Longrightarrow> of_char c mod m = (of_char c :: nat)"
  by (rule mod_less, rule less_le_trans [OF of_char_less])

lemma unat_of_char: "unat (of_char c :: 'a::len word) = of_char c mod 2 ^ LENGTH('a)"
  by (simp add: unsigned_of_nat take_bit_eq_mod flip: of_nat_of_char [where 'a="'a word"])

lemma char_mult_mod: "65536 \<le> m \<Longrightarrow> (of_char c * 256) mod m = (of_char c * 256 :: nat)"
  by (rule mod_less) (use of_char_less [of c] in linarith)

lemma unat_be16: "unat (net_read_be16 [a, b] 0) = 256 * of_char a + of_char b"
proof -
  let ?a = "of_char a :: u16" and ?b = "of_char b :: u16"
  have a: "unat ?a = of_char a" and b: "unat ?b = of_char b"
    by (simp_all add: unat_of_char of_char_mod)
  have nb: "\<not> bit ?b n" if "8 \<le> n" for n
  proof -
    have "?b = take_bit 8 ?b"
      by (rule word_unat_eq_iff [THEN iffD2]) (use b of_char_less [of b] in \<open>simp add: unsigned_take_bit_eq take_bit_nat_eq_self\<close>)
    then show ?thesis using that by (metis bit_take_bit_iff not_le)
  qed
  have "push_bit 8 ?a OR ?b = push_bit 8 ?a + ?b"
    by (rule disjunctive_add [symmetric]) (use nb in \<open>auto simp: bit_simps\<close>)
  moreover have "unat (push_bit 8 ?a) = 256 * of_char a"
    using a by (simp add: push_bit_eq_mult unat_word_ariths char_mult_mod)
  moreover have "256 * of_char a + of_char b < (65536 :: nat)"
    using of_char_less [of a] of_char_less [of b] by linarith
  ultimately show ?thesis
    using b by (simp add: net_read_be16_def byte_at_def unat_word_ariths)
qed

lemma unat_push_char: "unat (push_bit 8 (of_char a :: u32)) = 256 * of_char a"
proof -
  have "unat (of_char a :: u32) = of_char a" by (simp add: unat_of_char of_char_mod)
  then show ?thesis
    by (simp add: push_bit_eq_mult unat_word_ariths char_mult_mod)
qed

lemma nsum_bound: "nsum data \<le> 65535 * length data"
proof (induction data rule: nsum.induct)
  case (1 a b data)
  moreover have "256 * of_char a + of_char b \<le> (131070 :: nat)"
    using of_char_less [of a] of_char_less [of b] by linarith
  ultimately show ?case by simp
next
  case (2 a)
  have "256 * of_char a \<le> (65535 :: nat)" using of_char_less [of a] by linarith
  then show ?case by simp
qed simp

lemma unat_sum_be16:
  "unat acc + nsum data < 2 ^ 32 \<Longrightarrow> unat (sum_be16 acc data) = unat acc + nsum data"
proof (induction acc data rule: sum_be16.induct)
  case (1 acc a b data)
  let ?w = "ucast (net_read_be16 [a, b] 0) :: u32"
  have w: "unat ?w = 256 * of_char a + of_char b"
    using unat_u16 [of "net_read_be16 [a, b] 0"]
    by (simp add: unsigned_ucast_eq take_bit_nat_eq_self flip: unat_be16)
  have "unat (acc + ?w) = unat acc + unat ?w"
    using "1.prems" w by (simp add: unat_word_ariths)
  with 1 w show ?case by simp
next
  case (2 acc a)
  then show ?case by (simp add: unat_word_ariths unat_push_char)
qed simp

lemma nsum_append: "even (length xs) \<Longrightarrow> nsum (xs @ ys) = nsum xs + nsum ys"
  by (induction xs rule: nsum.induct) auto

lemma sum_be16_append: "even (length xs) \<Longrightarrow> sum_be16 (sum_be16 acc xs) ys = sum_be16 acc (xs @ ys)"
  by (induction acc xs rule: sum_be16.induct) auto

text \<open>The TCP checksum is the plain one over the pseudo header and the segment.\<close>

lemma net_tcp_checksum_eq:
  "net_tcp_checksum src_ip dst_ip segment = net_checksum (tcp_pseudo src_ip dst_ip (length segment) @ segment)"
  by (simp add: net_tcp_checksum_def net_checksum_def sum_be16_append tcp_pseudo_def
      net_write_be32_def net_write_be16_def)

lemma ones_le: "ones n \<le> 65535"
proof -
  have "(n - 1) mod 65535 < 65535" by simp
  then show ?thesis unfolding ones_def by (cases "n = 0") auto
qed

lemma unat_not_u16: "unat (NOT (w :: u16)) = 65535 - unat w"
proof -
  have "NOT w = mask 16 - w"
    by (simp add: mask_eq_exp_minus_1 not_eq_complement)
  then show ?thesis
    using unat_u16 [of w] by (simp add: unat_sub_if_size word_le_nat_alt mask_eq_exp_minus_1 word_size)
qed

lemma unat_net_checksum:
  assumes "length data \<le> 65536"
  shows "unat (net_checksum data) = 65535 - ones (nsum data)"
proof -
  have "nsum data < 2 ^ 32" using nsum_bound [of data] assms by simp
  then have s: "unat (fold_carry (sum_be16 0 data)) = ones (nsum data)"
    using unat_sum_be16 [of 0 data] by (simp add: unat_fold_carry)
  have "unat (ucast (fold_carry (sum_be16 0 data)) :: u16) = ones (nsum data)"
    using s ones_le [of "nsum data"] by (simp add: unsigned_ucast_eq take_bit_nat_eq_self)
  then show ?thesis by (simp add: net_checksum_def unat_not_u16)
qed

lemma nsum_be16: "nsum (net_write_be16 c) = unat c"
proof -
  have "net_read_be16 (net_write_be16 c) 0 = c"
    using be16.dec_append [where x = c and pre = "[]" and post = "[]"] by simp
  then show ?thesis
    by (simp add: net_write_be16_def flip: unat_be16)
qed

lemma ones_complement: "0 < n \<or> c \<noteq> 0 \<Longrightarrow> c = 65535 - ones n \<Longrightarrow> ones (n + c) = 65535"
proof -
  assume pos: "0 < n \<or> c \<noteq> 0" and c: "c = 65535 - ones n"
  show ?thesis
  proof (cases "n = 0")
    case True
    then show ?thesis using c by (simp add: ones_def)
  next
    case False
    define m where "m = (n - 1) mod 65535"
    have m: "m < 65535" "ones n = m + 1" using False by (simp_all add: m_def ones_def)
    have "n + c - 1 = (n - 1) + (65534 - m)" using False c m by simp
    moreover have "n - 1 = 65535 * ((n - 1) div 65535) + m" by (simp add: m_def)
    ultimately have "n + c - 1 = 65535 * ((n - 1) div 65535) + 65534" using m by linarith
    then have "(n + c - 1) mod 65535 = 65534" by simp
    then show ?thesis using False by (simp add: ones_def)
  qed
qed

text \<open>A block whose checksum was computed with its checksum field zero and then stored there
  sums to zero.\<close>

lemma checksum_verifies:
  assumes "even (length pre)" and "length pre + 2 + length post \<le> 65536"
  shows "net_checksum (pre @ net_write_be16 (net_checksum (pre @ [NUL, NUL] @ post)) @ post) = 0"
proof -
  let ?zero = "pre @ [NUL, NUL] @ post" and ?n = "nsum pre + nsum post"
  define c where "c = net_checksum ?zero"
  have sums: "nsum ?zero = ?n" "nsum (pre @ net_write_be16 c @ post) = ?n + unat c"
    using assms(1) by (simp_all add: nsum_append net_write_be16_def flip: nsum_be16)
  have c: "unat c = 65535 - ones ?n"
    using unat_net_checksum [of ?zero] assms(2) sums(1) by (simp add: c_def)
  have "ones (?n + unat c) = 65535"
    using c by (intro ones_complement) (auto simp: ones_def)
  moreover have "unat (net_checksum (pre @ net_write_be16 c @ post)) = 65535 - ones (?n + unat c)"
    using unat_net_checksum [of "pre @ net_write_be16 c @ post"] assms(2) sums(2)
    by (simp add: net_write_be16_def)
  ultimately have "unat (net_checksum (pre @ net_write_be16 c @ post)) = 0" by simp
  then show ?thesis by (simp add: c_def unat_eq_0)
qed

section \<open>Dotted decimal\<close>

lemma ipv4_digits:
  "0 < v \<Longrightarrow> v \<le> 255 \<Longrightarrow> ipv4_loop (rev (dec_digits v) @ rest) parts 0 h = ipv4_loop rest parts v True"
proof (induction v arbitrary: rest rule: dec_digits.induct)
  case (1 v)
  let ?c = "char_of (48 + v mod 10)" and ?q = "v div 10"
  have d: "isdigit ?c" "nat (digit_val ?c) = v mod 10" by (simp_all add: isdigit_digit digit_val_digit)
  have v: "?q * 10 + v mod 10 = v" by simp
  have step: "ipv4_loop (?c # rest) parts ?q h' = ipv4_loop rest parts v True" for h'
    using d v "1.prems" by simp
  have digits: "rev (dec_digits v) = rev (dec_digits ?q) @ [?c]"
    using "1.prems" by (subst dec_digits.simps) simp
  show ?case
  proof (cases "?q = 0")
    case True
    then have "dec_digits ?q = []" by (simp add: dec_digits.simps)
    then show ?thesis using digits step True by simp
  next
    case False
    then have "ipv4_loop (rev (dec_digits ?q) @ ?c # rest) parts 0 h = ipv4_loop (?c # rest) parts ?q True"
      using "1.prems" by (intro "1.IH") simp_all
    then show ?thesis using digits step by simp
  qed
qed

lemma ipv4_part:
  assumes "unat v \<le> 255"
  shows "ipv4_loop (u32_to_dec v @ rest) parts 0 False = ipv4_loop rest parts (unat v) True"
proof (cases "v = 0")
  case True
  then show ?thesis by (simp add: u32_to_dec_def isdigit_def uchar_def digit_val_def)
next
  case False
  then have "0 < unat v" by (rule unat_gt_0 [THEN iffD2])
  with False assms show ?thesis by (simp add: u32_to_dec_def ipv4_digits)
qed

lemma part_length: "unat v \<le> 255 \<Longrightarrow> length (u32_to_dec v) \<le> 3"
  using length_dec_digits [of "unat v" 3] by (simp add: u32_to_dec_def)

lemma ip_to_string_eq:
  assumes "17 \<le> limit"
  shows "net_ip_to_string ip limit =
    u32_to_dec (drop_bit 24 ip AND 0xFF) @ ''.'' @ u32_to_dec (drop_bit 16 ip AND 0xFF) @ ''.'' @
    u32_to_dec (drop_bit 8 ip AND 0xFF) @ ''.'' @ u32_to_dec (ip AND 0xFF)"
proof -
  have l: "length (u32_to_dec (v AND 0xFF)) \<le> 3" for v
    by (rule part_length) (simp add: unat_and_255)
  show ?thesis
    using assms l [of "drop_bit 24 ip"] l [of "drop_bit 16 ip"] l [of "drop_bit 8 ip"] l [of ip]
    by (simp add: net_ip_to_string_def Let_def strcopy_limit_fits)
qed

lemma ip_make_parts:
  "net_ip_make (of_nat (unat (drop_bit 24 ip AND 0xFF))) (of_nat (unat (drop_bit 16 ip AND 0xFF)))
     (of_nat (unat (drop_bit 8 ip AND 0xFF))) (of_nat (unat (ip AND 0xFF))) = ip"
proof -
  have c: "(of_nat (unat (v :: u32)) :: u8) = ucast v" for v
    by (rule bit_word_eqI) (simp add: bit_simps)
  show ?thesis
    unfolding net_ip_make_def c and_255
    by (rule bit_word_eqI, rename_tac n, case_tac "n < 8"; case_tac "n < 16"; case_tac "n < 24")
       (auto simp: bit_simps)
qed

lemma parse_ip_to_string: "17 \<le> limit \<Longrightarrow> net_parse_ipv4_text (net_ip_to_string ip limit) = Some ip"
proof -
  assume limit: "17 \<le> limit"
  have u: "unat (v AND 0xFF :: u32) \<le> 255" for v by (simp add: unat_and_255)
  have dot: "\<not> isdigit (CHR ''.'')" by (simp add: isdigit_def uchar_def)
  have "ipv4_loop (net_ip_to_string ip limit) [] 0 False =
      Some ([unat (drop_bit 24 ip AND 0xFF), unat (drop_bit 16 ip AND 0xFF), unat (drop_bit 8 ip AND 0xFF)],
        unat (ip AND 0xFF), True)"
    using ipv4_part [OF u, of ip "[]"] by (simp add: ip_to_string_eq [OF limit] ipv4_part u dot)
  then show ?thesis using ip_make_parts [of ip] by (simp add: net_parse_ipv4_text_def)
qed

section \<open>Random numbers\<close>

lemma random_next_nonzero: "snd (netstack_random_next n) \<noteq> 0 \<and> ns_xid (fst (netstack_random_next n)) = snd (netstack_random_next n)"
  by (simp add: netstack_random_next_def Let_def)

section \<open>Properties\<close>

text \<open>The text the kernel writes for an IPv4 address, in any buffer of 17 octets or more, parses
  back to that address: all four octets, on every address.\<close>

theorem ipv4_text_roundtrip:
  assumes "17 \<le> limit"
  shows "net_parse_ipv4_text (net_ip_to_string ip limit) = Some ip"
  using assms by (rule parse_ip_to_string)

theorem ipv4_text_roundtrip_witness: "net_parse_ipv4_text (net_ip_to_string 0xC0A864FF 24) = Some 0xC0A864FF"
  by (rule ipv4_text_roundtrip) simp

text \<open>C40: The checksum the kernel stores makes its block verify: over a block that holds it at an even
  offset, \<open>net_checksum\<close> of the whole is zero, when it was computed with the field zero.\<close>

theorem checksum_makes_block_verify:
  assumes "even (length pre)" and "length pre + 2 + length post \<le> 65536"
  shows "net_checksum (pre @ net_write_be16 (net_checksum (pre @ [NUL, NUL] @ post)) @ post) = 0"
  using assms by (rule checksum_verifies)

theorem checksum_makes_block_verify_witness:
  "net_checksum (''E'' @ ''x'' @ net_write_be16 (net_checksum (''Ex'' @ [NUL, NUL] @ ''abc'')) @ ''abc'') = 0"
  using checksum_makes_block_verify [of "''Ex''" "''abc''"] by simp

end
