(* ===== verification/NetFrames.thy ===== *)
theory NetFrames
  imports NetBytes
begin

text \<open>
  Frames of the ARM64 network stack, \<open>src/arm64/kernel/main.c\<close>: building and parsing UDP and
  TCP over IPv4, address resolution, and the DHCP exchange. The network device (the e1000
  driver, or the firmware's network protocol) is the parameter \<open>nic\<close> over a device state
  \<open>'d\<close>: sending a frame, draining, and one receive with its time-out. The receive buffer
  \<open>net_rx\<close> is memory: what a frame does not overwrite, and what lies behind the 2048-octet
  array, reads as whatever is there.
\<close>

unbundle bit_operations_syntax

record 'd nic =
  nic_send :: "'d \<Rightarrow> bytes \<Rightarrow> 'd \<times> bool"
  nic_drain :: "'d \<Rightarrow> 'd"
  nic_receive :: "'d \<Rightarrow> 'd \<times> bytes option"

record 'd net_host = net +
  net_device :: 'd
  net_rx :: mem

text \<open>\<open>net_frame_receive(g_net_rx_frame, &frame_len, 25)\<close>: the frame length, if one came.\<close>

definition receive :: "'d nic \<Rightarrow> ('d, 'a) net_host_scheme \<Rightarrow> ('d, 'a) net_host_scheme \<times> nat option" where
  "receive nic h =
     (case nic_receive nic (net_device h) of
        (d, None) \<Rightarrow> (h\<lparr>net_device := d\<rparr>, None)
      | (d, Some frame) \<Rightarrow>
          (h\<lparr>net_device := d, net_rx := (\<lambda>i. if i < length frame then frame ! i else net_rx h i)\<rparr>,
           Some (length frame)))"

definition transmit :: "'d nic \<Rightarrow> bytes \<Rightarrow> ('d, 'a) net_host_scheme \<Rightarrow> ('d, 'a) net_host_scheme \<times> bool" where
  "transmit nic frame h =
     (case nic_send nic (net_device h) frame of (d, ok) \<Rightarrow> (h\<lparr>net_device := d\<rparr>, ok))"

definition drain :: "'d nic \<Rightarrow> ('d, 'a) net_host_scheme \<Rightarrow> ('d, 'a) net_host_scheme" where
  "drain nic h = h\<lparr>net_device := nic_drain nic (net_device h)\<rparr>"

definition rd8 :: "mem \<Rightarrow> nat \<Rightarrow> u8" where "rd8 m i = of_char (m i)"
definition rd16 :: "mem \<Rightarrow> nat \<Rightarrow> u16" where "rd16 m i = net_read_be16 (bytes_at m i 2) 0"
definition rd32 :: "mem \<Rightarrow> nat \<Rightarrow> u32" where "rd32 m i = net_read_be32 (bytes_at m i 4) 0"

section \<open>Building\<close>

text \<open>
  The frame the call leaves in the first \<open>14 + total_length\<close> octets of the buffer; \<open>None\<close>
  when that is more than the transmit buffer holds. \<open>next_ip_id\<close> counts up.
\<close>

definition ip_header :: "bytes \<Rightarrow> nat \<Rightarrow> u16 \<Rightarrow> u8 \<Rightarrow> u32 \<Rightarrow> u32 \<Rightarrow> bytes" where
  "ip_header f total_length ip_id proto src_ip dst_ip =
     (let f = put_at f 14 [CHR 0x45, NUL];
          f = put_at f 16 (net_write_be16 (of_nat total_length));
          f = put_at f 18 (net_write_be16 ip_id);
          f = put_at f 20 (net_write_be16 0);
          f = put_at f 22 [CHR 0x40, octet proto];
          f = put_at f 26 (net_write_be32 src_ip);
          f = put_at f 30 (net_write_be32 dst_ip)
      in put_at f 24 (net_write_be16 (net_checksum (take 20 (drop 14 f)))))"

definition net_build_udp_frame ::
    "'a net_scheme \<Rightarrow> bytes option \<Rightarrow> u32 \<Rightarrow> u32 \<Rightarrow> u16 \<Rightarrow> u16 \<Rightarrow> bytes \<Rightarrow> ('a net_scheme \<times> bytes) option" where
  "net_build_udp_frame n dst_mac src_ip dst_ip src_port dst_port payload =
     (if 14 + 28 + length payload > NET_FRAME_MAX then None
      else let total_length = 20 + 8 + length payload;
               f = replicate (14 + total_length) NUL;
               f = put_at f 0 (replicate 6 (CHR 0xFF));
               f = (case dst_mac of None \<Rightarrow> f | Some mac \<Rightarrow> put_at f 0 mac);
               f = put_at f 6 (ns_client_mac n);
               f = put_at f 12 (net_write_be16 NET_ETHERTYPE_IPV4);
               f = ip_header f total_length (ns_next_ip_id n) NET_IPPROTO_UDP src_ip dst_ip;
               f = put_at f 34 (net_write_be16 src_port);
               f = put_at f 36 (net_write_be16 dst_port);
               f = put_at f 38 (net_write_be16 (of_nat (8 + length payload)));
               f = put_at f 40 (net_write_be16 0);
               f = put_at f 42 payload
           in Some (n\<lparr>ns_next_ip_id := ns_next_ip_id n + 1\<rparr>, f))"

definition net_build_tcp_frame ::
    "'a net_scheme \<Rightarrow> bytes \<Rightarrow> u32 \<Rightarrow> u32 \<Rightarrow> u16 \<Rightarrow> u16 \<Rightarrow> u32 \<Rightarrow> u32 \<Rightarrow> u8 \<Rightarrow> bytes \<Rightarrow>
     ('a net_scheme \<times> bytes) option" where
  "net_build_tcp_frame n dst_mac src_ip dst_ip src_port dst_port seq ack flags payload =
     (if 14 + 40 + length payload > NET_FRAME_MAX then None
      else let total_length = 20 + 20 + length payload;
               f = replicate (14 + total_length) NUL;
               f = put_at f 0 dst_mac;
               f = put_at f 6 (ns_client_mac n);
               f = put_at f 12 (net_write_be16 NET_ETHERTYPE_IPV4);
               f = ip_header f total_length (ns_next_ip_id n) NET_IPPROTO_TCP src_ip dst_ip;
               f = put_at f 34 (net_write_be16 src_port);
               f = put_at f 36 (net_write_be16 dst_port);
               f = put_at f 38 (net_write_be32 seq);
               f = put_at f 42 (net_write_be32 ack);
               f = put_at f 46 [CHR 0x50, octet flags];
               f = put_at f 48 (net_write_be16 4096);
               f = put_at f 50 (net_write_be16 0);
               f = put_at f 52 (net_write_be16 0);
               f = put_at f 54 payload;
               f = put_at f 50 (net_write_be16 (net_tcp_checksum src_ip dst_ip (drop 34 f)))
           in Some (n\<lparr>ns_next_ip_id := ns_next_ip_id n + 1\<rparr>, f))"

section \<open>Parsing\<close>

text \<open>The view of a packet; the payload is an offset into the buffer and a length.\<close>

record udp_view =
  u_src_ip :: u32
  u_dst_ip :: u32
  u_src_port :: u16
  u_dst_port :: u16
  u_payload :: nat
  u_payload_len :: nat

definition net_parse_udp_packet :: "mem \<Rightarrow> nat \<Rightarrow> udp_view option" where
  "net_parse_udp_packet frame frame_len =
     (if frame_len < 42 \<or> rd16 frame 12 \<noteq> NET_ETHERTYPE_IPV4 then None
      else if drop_bit 4 (rd8 frame 14) \<noteq> 4 \<or> rd8 frame 23 \<noteq> NET_IPPROTO_UDP then None
      else let ip_header_len = unat (rd8 frame 14 AND 0x0F) * 4;
               total_length = unat (rd16 frame 16)
      in if frame_len < 14 + ip_header_len + 8 \<or> total_length < ip_header_len + 8 then None
      else let udp = 14 + ip_header_len;
               udp_length = unat (rd16 frame (udp + 4))
      in if udp_length < 8 \<or> udp_length > total_length - ip_header_len then None
      else Some \<lparr>u_src_ip = rd32 frame 26, u_dst_ip = rd32 frame 30,
                 u_src_port = rd16 frame udp, u_dst_port = rd16 frame (udp + 2),
                 u_payload = udp + 8, u_payload_len = udp_length - 8\<rparr>)"

record tcp_view =
  t_src_ip :: u32
  t_dst_ip :: u32
  t_src_port :: u16
  t_dst_port :: u16
  t_seq :: u32
  t_ack :: u32
  t_flags :: u8
  t_payload :: nat
  t_payload_len :: nat

definition net_parse_tcp_packet :: "mem \<Rightarrow> nat \<Rightarrow> tcp_view option" where
  "net_parse_tcp_packet frame frame_len =
     (if frame_len < 54 \<or> rd16 frame 12 \<noteq> NET_ETHERTYPE_IPV4 then None
      else if drop_bit 4 (rd8 frame 14) \<noteq> 4 \<or> rd8 frame 23 \<noteq> NET_IPPROTO_TCP then None
      else let ip_header_len = unat (rd8 frame 14 AND 0x0F) * 4;
               total_length = unat (rd16 frame 16)
      in if frame_len < 14 + ip_header_len + 20 \<or> total_length < ip_header_len + 20 then None
      else let tcp = 14 + ip_header_len;
               tcp_header_len = unat (drop_bit 4 (rd8 frame (tcp + 12)) AND 0x0F) * 4
      in if tcp_header_len < 20 \<or> total_length < ip_header_len + tcp_header_len then None
      else Some \<lparr>t_src_ip = rd32 frame 26, t_dst_ip = rd32 frame 30,
                 t_src_port = rd16 frame tcp, t_dst_port = rd16 frame (tcp + 2),
                 t_seq = rd32 frame (tcp + 4), t_ack = rd32 frame (tcp + 8), t_flags = rd8 frame (tcp + 13),
                 t_payload = tcp + tcp_header_len,
                 t_payload_len = total_length - ip_header_len - tcp_header_len\<rparr>)"

section \<open>Address resolution\<close>

definition arp_request :: "'a net_scheme \<Rightarrow> u32 \<Rightarrow> bytes" where
  "arp_request n target_ip =
     (let f = replicate 42 NUL;
          f = put_at f 0 (replicate 6 (CHR 0xFF));
          f = put_at f 6 (ns_client_mac n);
          f = put_at f 12 (net_write_be16 NET_ETHERTYPE_ARP);
          f = put_at f 14 (net_write_be16 1);
          f = put_at f 16 (net_write_be16 NET_ETHERTYPE_IPV4);
          f = put_at f 18 [CHR 0x06, CHR 0x04];
          f = put_at f 20 (net_write_be16 1);
          f = put_at f 22 (ns_client_mac n);
          f = put_at f 28 (net_write_be32 (ns_client_ip n))
      in put_at f 38 (net_write_be32 target_ip))"

definition arp_reply_for :: "mem \<Rightarrow> nat \<Rightarrow> u32 \<Rightarrow> u32 \<Rightarrow> bool" where
  "arp_reply_for frame frame_len target_ip client_ip \<longleftrightarrow>
     \<not> (frame_len < 42 \<or> rd16 frame 12 \<noteq> NET_ETHERTYPE_ARP) \<and> rd16 frame 20 = 2 \<and>
     rd32 frame 28 = target_ip \<and> rd32 frame 38 = client_ip"

primrec arp_wait ::
    "nat \<Rightarrow> 'd nic \<Rightarrow> u32 \<Rightarrow> ('d, 'a) net_host_scheme \<Rightarrow> ('d, 'a) net_host_scheme \<times> bytes option" where
  "arp_wait 0 nic target_ip h = (h, None)"
| "arp_wait (Suc cycles) nic target_ip h =
     (case receive nic h of
        (h', None) \<Rightarrow> arp_wait cycles nic target_ip h'
      | (h', Some frame_len) \<Rightarrow>
          if arp_reply_for (net_rx h') frame_len target_ip (ns_client_ip h')
          then (h', Some (bytes_at (net_rx h') 22 6))
          else arp_wait cycles nic target_ip h')"

primrec arp_attempts ::
    "nat \<Rightarrow> 'd nic \<Rightarrow> u32 \<Rightarrow> ('d, 'a) net_host_scheme \<Rightarrow> ('d, 'a) net_host_scheme \<times> bytes option" where
  "arp_attempts 0 nic target_ip h = (h, None)"
| "arp_attempts (Suc attempts) nic target_ip h =
     (case transmit nic (arp_request h target_ip) (drain nic h) of
        (h', False) \<Rightarrow> arp_attempts attempts nic target_ip h'
      | (h', True) \<Rightarrow>
          (case arp_wait 40 nic target_ip h' of
             (h'', Some mac) \<Rightarrow> (h'', Some mac)
           | (h'', None) \<Rightarrow> arp_attempts attempts nic target_ip h''))"

definition netstack_arp_resolve ::
    "'d nic \<Rightarrow> u32 \<Rightarrow> ('d, 'a) net_host_scheme \<Rightarrow> ('d, 'a) net_host_scheme \<times> bytes option" where
  "netstack_arp_resolve nic target_ip h =
     (if \<not> ns_configured h \<or> target_ip = 0 then (h, None)
      else if target_ip = ns_client_ip h then (h, Some (ns_client_mac h))
      else arp_attempts 3 nic target_ip h)"

text \<open>Resolving the gateway and remembering its address.\<close>

definition gateway_hop ::
    "'d nic \<Rightarrow> ('d, 'a) net_host_scheme \<Rightarrow> ('d, 'a) net_host_scheme \<times> bytes option" where
  "gateway_hop nic h =
     (if ns_gateway_mac_valid h then (h, Some (ns_gateway_mac h))
      else case netstack_arp_resolve nic (ns_gateway_ip h) h of
        (h', Some mac) \<Rightarrow> (h'\<lparr>ns_gateway_mac := mac, ns_gateway_mac_valid := True\<rparr>, Some mac)
      | (h', None) \<Rightarrow> (h', None))"

definition netstack_next_hop_mac ::
    "'d nic \<Rightarrow> u32 \<Rightarrow> ('d, 'a) net_host_scheme \<Rightarrow> ('d, 'a) net_host_scheme \<times> bytes option" where
  "netstack_next_hop_mac nic dest_ip h =
     (if \<not> ns_configured h then (h, None)
      else if net_same_subnet (ns_client_ip h) dest_ip (ns_subnet_mask h)
      then (case netstack_arp_resolve nic dest_ip h of
              (h', Some mac) \<Rightarrow> (h', Some mac)
            | (h', None) \<Rightarrow>
                if ns_gateway_ip h' \<noteq> 0 \<and> (dest_ip = ns_dns_ip h' \<or> dest_ip = ns_gateway_ip h')
                then gateway_hop nic h' else (h', None))
      else if ns_gateway_mac_valid h then (h, Some (ns_gateway_mac h))
      else if ns_gateway_ip h \<noteq> 0 then gateway_hop nic h
      else (h, None))"

section \<open>DHCP\<close>

record dhcp_offer =
  d_valid :: bool
  d_message_type :: u8
  d_your_ip :: u32
  d_server_id :: u32
  d_subnet_mask :: u32
  d_router :: u32
  d_dns :: u32
  d_lease_seconds :: u32

definition dhcp_option :: "nat \<Rightarrow> bytes \<Rightarrow> bytes" where
  "dhcp_option code data = [char_of code, char_of (length data)] @ data"

text \<open>The octets up to the returned index; \<open>[]\<close> for the return value 0.\<close>

definition netstack_build_dhcp_payload ::
    "'a net_scheme \<Rightarrow> string \<Rightarrow> nat \<Rightarrow> u8 \<Rightarrow> u32 \<Rightarrow> u32 \<Rightarrow> u32 \<Rightarrow> bytes option" where
  "netstack_build_dhcp_payload n hostname limit message_type xid requested_ip server_id =
     (if limit < 256 then Some []
      else let p = replicate 240 NUL;
               p = put_at p 0 [CHR 0x01, CHR 0x01, CHR 0x06, CHR 0x00];
               p = put_at p 4 (net_write_be32 xid);
               p = put_at p 10 (net_write_be16 0x8000);
               p = put_at p 28 (ns_client_mac n);
               p = put_at p 236 [CHR 0x63, CHR 0x82, CHR 0x53, CHR 0x63];
               p = p @ dhcp_option 53 [octet message_type];
               p = (if requested_ip \<noteq> 0 then p @ dhcp_option 50 (net_write_be32 requested_ip) else p);
               p = (if server_id \<noteq> 0 then p @ dhcp_option 54 (net_write_be32 server_id) else p);
               p = p @ dhcp_option 55 [CHR 0x01, CHR 0x03, CHR 0x06, CHR 0x33];
               name = take 31 hostname;
               p = (if name \<noteq> [] then p @ dhcp_option 12 name else p);
               p = p @ [CHR 0xFF]
           in if length p > limit then None else Some p)"

text \<open>The option loop over the payload from an index.\<close>

function dhcp_options :: "bytes \<Rightarrow> nat \<Rightarrow> dhcp_offer \<Rightarrow> dhcp_offer" where
  "dhcp_options payload index offer =
     (if index + 1 < length payload
      then let opt = (byte_at payload index :: u8)
      in if opt = 0 then dhcp_options payload (index + 1) offer
      else if opt = 255 then offer
      else let option_len = unat (byte_at payload (index + 1) :: u8); i = index + 2
      in if i + option_len > length payload then offer
      else dhcp_options payload (i + option_len)
        (if opt = 53 \<and> option_len \<ge> 1 then offer\<lparr>d_message_type := byte_at payload i\<rparr>
         else if opt = 54 \<and> option_len \<ge> 4 then offer\<lparr>d_server_id := net_read_be32 payload i\<rparr>
         else if opt = 1 \<and> option_len \<ge> 4 then offer\<lparr>d_subnet_mask := net_read_be32 payload i\<rparr>
         else if opt = 3 \<and> option_len \<ge> 4 then offer\<lparr>d_router := net_read_be32 payload i\<rparr>
         else if opt = 6 \<and> option_len \<ge> 4 then offer\<lparr>d_dns := net_read_be32 payload i\<rparr>
         else if opt = 51 \<and> option_len \<ge> 4 then offer\<lparr>d_lease_seconds := net_read_be32 payload i\<rparr>
         else offer)
      else offer)"
  by auto
termination
  by (relation "measure (\<lambda>(payload, index, offer). length payload - index)") auto

declare dhcp_options.simps [simp del]

definition no_offer :: dhcp_offer where
  "no_offer = \<lparr>d_valid = False, d_message_type = 0, d_your_ip = 0, d_server_id = 0, d_subnet_mask = 0,
     d_router = 0, d_dns = 0, d_lease_seconds = 0\<rparr>"

text \<open>The checks a reply passes before its fields are read.\<close>

definition dhcp_reply :: "mem \<Rightarrow> nat \<Rightarrow> u32 \<Rightarrow> bytes \<Rightarrow> bytes option" where
  "dhcp_reply frame frame_len xid mac =
     (case net_parse_udp_packet frame frame_len of
        None \<Rightarrow> None
      | Some v \<Rightarrow>
          let payload = bytes_at frame (u_payload v) (u_payload_len v)
          in if u_src_port v \<noteq> 67 \<or> u_dst_port v \<noteq> 68 \<or> u_payload_len v < 244 then None
             else if byte_at payload 0 \<noteq> (2 :: u8) \<or> net_read_be32 payload 4 \<noteq> xid then None
             else if take 6 (drop 28 payload) \<noteq> mac then None
             else if take 4 (drop 236 payload) \<noteq> [CHR 0x63, CHR 0x82, CHR 0x53, CHR 0x63] then None
             else Some payload)"

text \<open>The offer is cleared once, before the loop: a rejected reply leaves its options in it.\<close>

primrec dhcp_wait ::
    "nat \<Rightarrow> 'd nic \<Rightarrow> u32 \<Rightarrow> u8 \<Rightarrow> dhcp_offer \<Rightarrow> ('d, 'a) net_host_scheme \<Rightarrow>
     ('d, 'a) net_host_scheme \<times> dhcp_offer option" where
  "dhcp_wait 0 nic xid expected_type offer h = (h, None)"
| "dhcp_wait (Suc cycles) nic xid expected_type offer h =
     (case receive nic h of
        (h', None) \<Rightarrow> dhcp_wait cycles nic xid expected_type offer h'
      | (h', Some frame_len) \<Rightarrow>
          (case dhcp_reply (net_rx h') frame_len xid (ns_client_mac h') of
             None \<Rightarrow> dhcp_wait cycles nic xid expected_type offer h'
           | Some payload \<Rightarrow>
               let offer' = dhcp_options payload 240 (offer\<lparr>d_your_ip := net_read_be32 payload 16\<rparr>)
               in if d_message_type offer' \<noteq> expected_type
                  then dhcp_wait cycles nic xid expected_type offer' h'
                  else (h', Some (offer'\<lparr>d_valid := True\<rparr>))))"

definition netstack_wait_for_dhcp ::
    "'d nic \<Rightarrow> u32 \<Rightarrow> u8 \<Rightarrow> ('d, 'a) net_host_scheme \<Rightarrow> ('d, 'a) net_host_scheme \<times> dhcp_offer option" where
  "netstack_wait_for_dhcp nic xid expected_type h = dhcp_wait 220 nic xid expected_type no_offer h"

text \<open>One message of the exchange and the wait for its answer.\<close>

definition dhcp_exchange ::
    "'d nic \<Rightarrow> string \<Rightarrow> u8 \<Rightarrow> u8 \<Rightarrow> u32 \<Rightarrow> u32 \<Rightarrow> u32 \<Rightarrow> ('d, 'a) net_host_scheme \<Rightarrow>
     (('d, 'a) net_host_scheme \<times> dhcp_offer option) option" where
  "dhcp_exchange nic hostname message_type reply_type xid requested_ip server_id h =
     (case netstack_build_dhcp_payload h hostname 320 message_type xid requested_ip server_id of
        None \<Rightarrow> None
      | Some payload \<Rightarrow>
          (case net_build_udp_frame h None 0 0xFFFFFFFF 68 67 payload of
             None \<Rightarrow> None
           | Some (h, frame) \<Rightarrow>
               (case transmit nic frame (drain nic h) of
                  (h, False) \<Rightarrow> Some (h, None)
                | (h, True) \<Rightarrow> Some (netstack_wait_for_dhcp nic xid reply_type h))))"

text \<open>\<open>hw_mac\<close> is the address of the e1000 or of the firmware's interface, if there is one.\<close>

definition netstack_renew_dhcp ::
    "'d nic \<Rightarrow> string \<Rightarrow> bytes option \<Rightarrow> ('d, 'a) net_host_scheme \<Rightarrow> (('d, 'a) net_host_scheme \<times> bool) option" where
  "netstack_renew_dhcp nic hostname hw_mac h =
     (if \<not> net_initialized h then Some (h, False)
      else case hw_mac of
        None \<Rightarrow> Some (h, False)
      | Some mac \<Rightarrow>
          let (h, xid) = netstack_random_next (h\<lparr>ns_client_mac := mac\<rparr>)
          in (case dhcp_exchange nic hostname 1 2 xid 0 0 h of
                None \<Rightarrow> None
              | Some (h, None) \<Rightarrow> Some (h, False)
              | Some (h, Some offer) \<Rightarrow>
                  (case dhcp_exchange nic hostname 3 5 xid (d_your_ip offer) (d_server_id offer) h of
                     None \<Rightarrow> None
                   | Some (h, None) \<Rightarrow> Some (h, False)
                   | Some (h, Some offer) \<Rightarrow>
                       Some (netstack_sync_strings (h\<lparr>
                         ns_configured := True, ns_static_profile := False,
                         ns_client_ip := d_your_ip offer,
                         ns_subnet_mask := (if d_subnet_mask offer \<noteq> 0 then d_subnet_mask offer else net_ip_make 255 255 255 0),
                         ns_gateway_ip := d_router offer, ns_dns_ip := d_dns offer,
                         ns_lease_seconds := d_lease_seconds offer, ns_gateway_mac_valid := False,
                         ns_browser_status := ''DHCP lease acquired. SNSX can resolve names and fetch HTTP pages.''\<rparr>), True))))"

section \<open>What the builders put where\<close>

lemma length_be [simp]: "length (net_write_be16 v) = 2" "length (net_write_be32 w) = 4"
  by (simp_all add: net_write_be16_def net_write_be32_def)

lemmas be_put = be16.dec_put be32.dec_put be16.dec_put_other be32.dec_put_other

definition holds :: "mem \<Rightarrow> bytes \<Rightarrow> bool" where
  "holds m f \<longleftrightarrow> (\<forall>i<length f. m i = f ! i)"

lemma rd_holds:
  assumes "holds m f"
  shows "i < length f \<Longrightarrow> rd8 m i = byte_at f i"
    and "i + 2 \<le> length f \<Longrightarrow> rd16 m i = net_read_be16 f i"
    and "i + 4 \<le> length f \<Longrightarrow> rd32 m i = net_read_be32 f i"
  using assms
  by (auto simp: holds_def rd8_def rd16_def rd32_def bytes_at_def byte_at_def net_read_be16_def net_read_be32_def)

lemma bytes_at_holds: "holds m f \<Longrightarrow> i + n \<le> length f \<Longrightarrow> bytes_at m i n = take n (drop i f)"
  by (rule nth_equalityI) (auto simp: holds_def bytes_at_def)

lemma byte_at_octet: "(byte_at f i :: u8) = v" if "f ! i = octet v"
  using that
  by (simp add: byte_at_def of_char_octet_bits word_unat_eq_iff unsigned_take_bit_eq take_bit_nat_eq_self unat_u8)

lemma length_ip_header [simp]: "34 \<le> length f \<Longrightarrow> length (ip_header f t i p s d) = length f"
  by (simp add: ip_header_def Let_def)

lemma ip_header_fields:
  assumes "34 \<le> length f"
  shows "net_read_be16 (ip_header f t i p s d) 16 = of_nat t"
    and "net_read_be32 (ip_header f t i p s d) 26 = s"
    and "net_read_be32 (ip_header f t i p s d) 30 = d"
    and "ip_header f t i p s d ! 14 = CHR 0x45" and "ip_header f t i p s d ! 23 = octet p"
    and "j < 14 \<or> 34 \<le> j \<Longrightarrow> j < length f \<Longrightarrow> ip_header f t i p s d ! j = f ! j"
proof -
  show "net_read_be16 (ip_header f t i p s d) 16 = of_nat t" using assms by (simp add: ip_header_def Let_def be_put)
  show "net_read_be32 (ip_header f t i p s d) 26 = s" using assms by (simp add: ip_header_def Let_def be_put)
  show "net_read_be32 (ip_header f t i p s d) 30 = d" using assms by (simp add: ip_header_def Let_def be_put)
  show "ip_header f t i p s d ! 14 = CHR 0x45" using assms by (simp add: ip_header_def Let_def nth_put_at)
  show "ip_header f t i p s d ! 23 = octet p" using assms by (simp add: ip_header_def Let_def nth_put_at)
  show "ip_header f t i p s d ! j = f ! j" if "j < 14 \<or> 34 \<le> j" "j < length f"
    using that(1)
  proof
    assume "j < 14"
    with assms that(2) show ?thesis by (simp add: ip_header_def Let_def nth_put_at)
  next
    assume "34 \<le> j"
    with assms that(2) show ?thesis by (simp add: ip_header_def Let_def nth_put_at)
  qed
qed

lemma nth_take_drop: "i < n \<Longrightarrow> m + n \<le> length f \<Longrightarrow> take n (drop m f) ! i = f ! (m + i)"
  by simp

lemma block_split:
  assumes "length b = n" and "k + 2 \<le> n"
  shows "b = take k b @ [b ! k, b ! (k + 1)] @ drop (k + 2) b"
proof -
  have "drop k b = b ! k # drop (Suc k) b" "drop (Suc k) b = b ! Suc k # drop (Suc (Suc k)) b"
    using assms by (simp_all add: Cons_nth_drop_Suc)
  then show ?thesis using append_take_drop_id [of k b] by simp
qed

lemma put_checksum_verifies:
  assumes len: "k + 2 \<le> length b" "length b \<le> 65536" and k: "even k" and z: "b ! k = NUL" "b ! (k + 1) = NUL"
  shows "net_checksum (put_at b k (net_write_be16 (net_checksum b))) = 0"
proof -
  have b: "b = take k b @ [NUL, NUL] @ drop (k + 2) b"
    using block_split [OF refl len(1)] z by simp
  have l: "length (take k b) = k" using len by simp
  have "net_checksum (take k b @ net_write_be16 (net_checksum (take k b @ [NUL, NUL] @ drop (k + 2) b)) @ drop (k + 2) b) = 0"
    using len k by (intro checksum_verifies) auto
  then show ?thesis using b len(1) by (simp add: put_at_append)
qed

lemma take_drop_put:
  assumes "m \<le> k" and "k + length bs \<le> m + n" and "m + n \<le> length f"
  shows "take n (drop m (put_at f k bs)) = put_at (take n (drop m f)) (k - m) bs"
  using assms by (intro nth_equalityI) (auto simp: nth_put_at add.commute)

lemma take_drop_put_other:
  assumes "k + length bs \<le> m \<or> m + n \<le> k" and "m + n \<le> length f" and "k + length bs \<le> length f"
  shows "take n (drop m (put_at f k bs)) = take n (drop m f)"
  using assms by (intro nth_equalityI) (auto simp: nth_put_at)

text \<open>The IP header of a built frame verifies when its checksum field was still clear.\<close>

lemma ip_header_verifies:
  assumes "34 \<le> length f" and "f ! 24 = NUL" and "f ! 25 = NUL"
  shows "net_checksum (take 20 (drop 14 (ip_header f t i p s d))) = 0"
proof -
  define g where "g = put_at (put_at (put_at (put_at (put_at (put_at (put_at f 14 [CHR 0x45, NUL])
      16 (net_write_be16 (of_nat t))) 18 (net_write_be16 i)) 20 (net_write_be16 0)) 22 [CHR 0x40, octet p])
      26 (net_write_be32 s)) 30 (net_write_be32 d)"
  have len: "length g = length f" using assms(1) by (simp add: g_def)
  have z: "g ! 24 = NUL" "g ! 25 = NUL" using assms by (simp_all add: g_def nth_put_at)
  have "ip_header f t i p s d = put_at g 24 (net_write_be16 (net_checksum (take 20 (drop 14 g))))"
    by (simp add: ip_header_def g_def Let_def)
  then have "take 20 (drop 14 (ip_header f t i p s d)) =
      put_at (take 20 (drop 14 g)) 10 (net_write_be16 (net_checksum (take 20 (drop 14 g))))"
    using assms(1) len take_drop_put [of 14 24 "net_write_be16 (net_checksum (take 20 (drop 14 g)))" 20 g] by simp
  also have "net_checksum \<dots> = 0"
    using assms(1) len z by (intro put_checksum_verifies) simp_all
  finally show ?thesis .
qed

section \<open>Parsing what was built\<close>

definition eth_header :: "nat \<Rightarrow> bytes option \<Rightarrow> bytes \<Rightarrow> bytes" where
  "eth_header len dst_mac src_mac =
     (let f = replicate len NUL;
          f = (case dst_mac of None \<Rightarrow> put_at f 0 (replicate 6 (CHR 0xFF)) | Some mac \<Rightarrow> put_at f 0 mac);
          f = put_at f 6 src_mac
      in put_at f 12 (net_write_be16 NET_ETHERTYPE_IPV4))"

definition mac_ok :: "bytes \<Rightarrow> bool" where "mac_ok mac \<longleftrightarrow> length mac = 6"

definition dst_mac_ok :: "bytes option \<Rightarrow> bool" where
  "dst_mac_ok d = (case d of None \<Rightarrow> True | Some mac \<Rightarrow> mac_ok mac)"

lemma eth_header_facts:
  assumes "dst_mac_ok d" and "mac_ok s" and "14 \<le> len"
  shows "length (eth_header len d s) = len"
    and "net_read_be16 (eth_header len d s) 12 = NET_ETHERTYPE_IPV4"
    and "14 \<le> j \<Longrightarrow> j < len \<Longrightarrow> eth_header len d s ! j = NUL"
  using assms
  by (simp_all add: eth_header_def Let_def mac_ok_def dst_mac_ok_def be_put nth_put_at split: option.splits)

lemma put_put_same: "length b = length b' \<Longrightarrow> off + length b \<le> length f \<Longrightarrow> put_at (put_at f off b) off b' = put_at f off b'"
  by (rule nth_equalityI) simp_all

lemma udp_frame_eq:
  assumes "net_build_udp_frame n d s_ip d_ip sp dp payload = Some (n', f)" and "dst_mac_ok d"
  shows "f = put_at (put_at (put_at (put_at (put_at
      (ip_header (eth_header (42 + length payload) d (ns_client_mac n)) (28 + length payload) (ns_next_ip_id n)
        NET_IPPROTO_UDP s_ip d_ip)
      34 (net_write_be16 sp)) 36 (net_write_be16 dp)) 38 (net_write_be16 (of_nat (8 + length payload))))
      40 (net_write_be16 0)) 42 payload"
    and "42 + length payload \<le> NET_FRAME_MAX"
  using assms
  by (auto simp: net_build_udp_frame_def Let_def eth_header_def dst_mac_ok_def mac_ok_def put_put_same
      split: if_splits option.splits)

lemma unat_of_nat_u16: "k < 65536 \<Longrightarrow> unat (of_nat k :: u16) = k"
  by (simp add: unsigned_of_nat take_bit_nat_eq_self)

lemma ver_nibble: "drop_bit 4 (0x45 :: u8) = 4" "unat (0x45 AND 0x0F :: u8) = 5"
  by (simp_all add: drop_bit_eq_div)

lemma udp_roundtrip:
  assumes b: "net_build_udp_frame n d s_ip d_ip sp dp payload = Some (n', f)" and d: "dst_mac_ok d"
    and mac: "mac_ok (ns_client_mac n)" and m: "holds m f"
  shows "net_parse_udp_packet m (length f) = Some \<lparr>u_src_ip = s_ip, u_dst_ip = d_ip, u_src_port = sp,
      u_dst_port = dp, u_payload = 42, u_payload_len = length payload\<rparr>"
    and "bytes_at m 42 (length payload) = payload"
    and "net_checksum (take 20 (drop 14 f)) = 0"
proof -
  let ?k = "length payload"
  let ?e = "eth_header (42 + ?k) d (ns_client_mac n)"
  let ?h = "ip_header ?e (28 + ?k) (ns_next_ip_id n) NET_IPPROTO_UDP s_ip d_ip"
  note f = udp_frame_eq [OF b d]
  have k: "?k < 3000" using f(2) by (simp add: NET_FRAME_MAX_def)
  have le: "length ?e = 42 + ?k" using eth_header_facts(1) [OF d mac] by simp
  then have lh: "length ?h = 42 + ?k" by simp
  have lf: "length f = 42 + ?k" unfolding f(1) using lh by simp
  have low: "f ! j = ?h ! j" if "j < 34" for j
    unfolding f(1) using that lh by (simp add: nth_put_at)
  have e12: "net_read_be16 f 12 = NET_ETHERTYPE_IPV4"
  proof -
    have "net_read_be16 f 12 = net_read_be16 ?e 12"
      using low [of 12] low [of 13] ip_header_fields(6) [of ?e 12] ip_header_fields(6) [of ?e 13] le
      by (simp add: net_read_be16_def byte_at_def)
    then show ?thesis using eth_header_facts(2) [OF d mac] by simp
  qed
  have b14: "(byte_at f 14 :: u8) = 0x45"
    using low [of 14] ip_header_fields(4) [of ?e] le by (simp add: byte_at_def)
  have b23: "(byte_at f 23 :: u8) = NET_IPPROTO_UDP"
    using low [of 23] ip_header_fields(5) [of ?e] le by (intro byte_at_octet) simp
  have w16: "net_read_be16 f 16 = of_nat (28 + ?k)" unfolding f(1)
    using lh ip_header_fields(1) [of ?e "28 + ?k"] le by (simp add: be_put)
  have w26: "net_read_be32 f 26 = s_ip" unfolding f(1)
    using lh ip_header_fields(2) [of ?e] le by (simp add: be_put)
  have w30: "net_read_be32 f 30 = d_ip" unfolding f(1)
    using lh ip_header_fields(3) [of ?e] le by (simp add: be_put)
  have w34: "net_read_be16 f 34 = sp" "net_read_be16 f 36 = dp"
    "net_read_be16 f 38 = of_nat (8 + ?k)" unfolding f(1)
    using lh by (simp_all add: be_put)
  have u: "unat (of_nat (28 + ?k) :: u16) = 28 + ?k" "unat (of_nat (8 + ?k) :: u16) = 8 + ?k"
    using k by (simp_all only: unat_of_nat_u16)
  have rd: "rd16 m 12 = NET_ETHERTYPE_IPV4" "rd8 m 14 = 0x45" "rd8 m 23 = NET_IPPROTO_UDP"
    "rd16 m 16 = of_nat (28 + ?k)" "rd16 m 38 = of_nat (8 + ?k)"
    "rd32 m 26 = s_ip" "rd32 m 30 = d_ip" "rd16 m 34 = sp" "rd16 m 36 = dp"
    using rd_holds [OF m] lf e12 b14 b23 w16 w26 w30 w34 by simp_all
  show "net_parse_udp_packet m (length f) = Some \<lparr>u_src_ip = s_ip, u_dst_ip = d_ip, u_src_port = sp,
      u_dst_port = dp, u_payload = 42, u_payload_len = length payload\<rparr>"
    unfolding net_parse_udp_packet_def Let_def rd ver_nibble lf
    using rd u by simp
  show "bytes_at m 42 ?k = payload"
  proof -
    have "bytes_at m 42 ?k = take ?k (drop 42 f)" using m lf by (simp add: bytes_at_holds)
    also have "\<dots> = payload" unfolding f(1) using lh by (intro nth_equalityI) (simp_all add: nth_put_at)
    finally show ?thesis .
  qed
  have "take 20 (drop 14 f) = take 20 (drop 14 ?h)"
    using low lf lh by (intro nth_equalityI) simp_all
  also have "net_checksum \<dots> = 0"
    using le eth_header_facts(3) [OF d mac, of "42 + ?k"] by (intro ip_header_verifies) simp_all
  finally show "net_checksum (take 20 (drop 14 f)) = 0" .
qed

lemma tcp_frame_eq:
  assumes "net_build_tcp_frame n d s_ip d_ip sp dp seq ack flags payload = Some (n', f)"
  obtains g where
    "g = put_at (put_at (put_at (put_at (put_at (put_at (put_at (put_at (put_at
      (ip_header (eth_header (54 + length payload) (Some d) (ns_client_mac n)) (40 + length payload) (ns_next_ip_id n)
        NET_IPPROTO_TCP s_ip d_ip)
      34 (net_write_be16 sp)) 36 (net_write_be16 dp)) 38 (net_write_be32 seq)) 42 (net_write_be32 ack))
      46 [CHR 0x50, octet flags]) 48 (net_write_be16 4096)) 50 (net_write_be16 0)) 52 (net_write_be16 0)) 54 payload"
    and "f = put_at g 50 (net_write_be16 (net_tcp_checksum s_ip d_ip (drop 34 g)))"
    and "54 + length payload \<le> NET_FRAME_MAX"
  using assms
  by (auto simp: net_build_tcp_frame_def Let_def eth_header_def split: if_splits)

lemma drop_put: "m \<le> k \<Longrightarrow> k + length bs \<le> length f \<Longrightarrow> drop m (put_at f k bs) = put_at (drop m f) (k - m) bs"
  using take_drop_put [of m k bs "length f - m" f] by simp

lemma length_tcp_pseudo [simp]: "length (tcp_pseudo s d n) = 12"
  by (simp add: tcp_pseudo_def)

lemma tcp_checksum_stored:
  assumes "length seg = 20 + k" and "k < 3000" and "seg ! 16 = NUL" and "seg ! 17 = NUL"
  shows "net_checksum (tcp_pseudo s d (20 + k) @ put_at seg 16 (net_write_be16 (net_tcp_checksum s d seg))) = 0"
proof -
  let ?b = "tcp_pseudo s d (20 + k) @ seg"
  have "net_tcp_checksum s d seg = net_checksum ?b"
    by (simp add: net_tcp_checksum_eq assms(1))
  moreover have "tcp_pseudo s d (20 + k) @ put_at seg 16 v = put_at ?b 28 v" for v
    by (rule nth_equalityI) (auto simp: nth_append)
  moreover have "net_checksum (put_at ?b 28 (net_write_be16 (net_checksum ?b))) = 0"
    using assms by (intro put_checksum_verifies) (simp_all add: nth_append)
  ultimately show ?thesis by simp
qed

lemma tcp_roundtrip:
  assumes b: "net_build_tcp_frame n d s_ip d_ip sp dp seq ack flags payload = Some (n', f)" and d: "mac_ok d"
    and mac: "mac_ok (ns_client_mac n)" and m: "holds m f"
  shows "net_parse_tcp_packet m (length f) = Some \<lparr>t_src_ip = s_ip, t_dst_ip = d_ip, t_src_port = sp,
      t_dst_port = dp, t_seq = seq, t_ack = ack, t_flags = flags, t_payload = 54, t_payload_len = length payload\<rparr>"
    and "bytes_at m 54 (length payload) = payload"
    and "net_checksum (take 20 (drop 14 f)) = 0"
    and "net_checksum (tcp_pseudo s_ip d_ip (20 + length payload) @ drop 34 f) = 0"
proof -
  let ?k = "length payload"
  let ?e = "eth_header (54 + ?k) (Some d) (ns_client_mac n)"
  let ?h = "ip_header ?e (40 + ?k) (ns_next_ip_id n) NET_IPPROTO_TCP s_ip d_ip"
  obtain g where g: "g = put_at (put_at (put_at (put_at (put_at (put_at (put_at (put_at (put_at ?h
      34 (net_write_be16 sp)) 36 (net_write_be16 dp)) 38 (net_write_be32 seq)) 42 (net_write_be32 ack))
      46 [CHR 0x50, octet flags]) 48 (net_write_be16 4096)) 50 (net_write_be16 0)) 52 (net_write_be16 0)) 54 payload"
    and f: "f = put_at g 50 (net_write_be16 (net_tcp_checksum s_ip d_ip (drop 34 g)))"
    and "54 + ?k \<le> NET_FRAME_MAX"
    using tcp_frame_eq [OF b] by metis
  then have k: "?k < 3000" by (simp add: NET_FRAME_MAX_def)
  have dm: "dst_mac_ok (Some d)" using d by (simp add: dst_mac_ok_def)
  have le: "length ?e = 54 + ?k" using eth_header_facts(1) [OF dm mac] by simp
  then have lh: "length ?h = 54 + ?k" by simp
  have lg: "length g = 54 + ?k" unfolding g using lh by simp
  have lf: "length f = 54 + ?k" unfolding f using lg by simp
  have low: "f ! j = ?h ! j" if "j < 34" for j
    unfolding f g using that lh by (simp add: nth_put_at)
  have e12: "net_read_be16 f 12 = NET_ETHERTYPE_IPV4"
  proof -
    have "net_read_be16 f 12 = net_read_be16 ?e 12"
      using low [of 12] low [of 13] ip_header_fields(6) [of ?e 12] ip_header_fields(6) [of ?e 13] le
      by (simp add: net_read_be16_def byte_at_def)
    then show ?thesis using eth_header_facts(2) [OF dm mac] by simp
  qed
  have b14: "(byte_at f 14 :: u8) = 0x45"
    using low [of 14] ip_header_fields(4) [of ?e] le by (simp add: byte_at_def)
  have b23: "(byte_at f 23 :: u8) = NET_IPPROTO_TCP"
    using low [of 23] ip_header_fields(5) [of ?e] le by (intro byte_at_octet) simp
  have b46: "(byte_at f 46 :: u8) = 0x50"
    unfolding f g using lh by (simp add: byte_at_def nth_put_at)
  have b47: "(byte_at f 47 :: u8) = flags"
    by (rule byte_at_octet) (simp add: f g nth_put_at lh)
  have w16: "net_read_be16 f 16 = of_nat (40 + ?k)" unfolding f g
    using lh ip_header_fields(1) [of ?e "40 + ?k"] le by (simp add: be_put)
  have w26: "net_read_be32 f 26 = s_ip" unfolding f g
    using lh ip_header_fields(2) [of ?e] le by (simp add: be_put)
  have w30: "net_read_be32 f 30 = d_ip" unfolding f g
    using lh ip_header_fields(3) [of ?e] le by (simp add: be_put)
  have w34: "net_read_be16 f 34 = sp" "net_read_be16 f 36 = dp" unfolding f g
    using lh by (simp_all add: be_put)
  have w38: "net_read_be32 f 38 = seq" "net_read_be32 f 42 = ack" unfolding f g
    using lh by (simp_all add: be_put)
  have u: "unat (of_nat (40 + ?k) :: u16) = 40 + ?k"
    using k by (simp only: unat_of_nat_u16)
  have rd: "rd16 m 12 = NET_ETHERTYPE_IPV4" "rd8 m 14 = 0x45" "rd8 m 23 = NET_IPPROTO_TCP"
    "rd16 m 16 = of_nat (40 + ?k)" "rd8 m 46 = 0x50" "rd8 m 47 = flags"
    "rd32 m 26 = s_ip" "rd32 m 30 = d_ip" "rd16 m 34 = sp" "rd16 m 36 = dp" "rd32 m 38 = seq" "rd32 m 42 = ack"
    using rd_holds [OF m] lf e12 b14 b23 b46 b47 w16 w26 w30 w34 w38 by simp_all
  have nib: "unat (drop_bit 4 (0x50 :: u8) AND 0x0F) = 5" by (simp add: drop_bit_eq_div)
  show "net_parse_tcp_packet m (length f) = Some \<lparr>t_src_ip = s_ip, t_dst_ip = d_ip, t_src_port = sp,
      t_dst_port = dp, t_seq = seq, t_ack = ack, t_flags = flags, t_payload = 54, t_payload_len = length payload\<rparr>"
    unfolding net_parse_tcp_packet_def Let_def rd ver_nibble lf
    using rd u nib by simp
  show "bytes_at m 54 ?k = payload"
  proof -
    have "bytes_at m 54 ?k = take ?k (drop 54 f)" using m lf by (simp add: bytes_at_holds)
    also have "\<dots> = payload" unfolding f g using lh by (intro nth_equalityI) (simp_all add: nth_put_at)
    finally show ?thesis .
  qed
  have "take 20 (drop 14 f) = take 20 (drop 14 ?h)"
    using low lf lh by (intro nth_equalityI) simp_all
  also have "net_checksum \<dots> = 0"
    using le eth_header_facts(3) [OF dm mac, of "54 + ?k"] by (intro ip_header_verifies) simp_all
  finally show "net_checksum (take 20 (drop 14 f)) = 0" .
  have seg: "length (drop 34 g) = 20 + ?k" "drop 34 g ! 16 = NUL" "drop 34 g ! 17 = NUL"
    using lg unfolding g by (simp_all add: nth_put_at lh net_write_be16_def octet_def char_of_def)
  have "drop 34 f = put_at (drop 34 g) 16 (net_write_be16 (net_tcp_checksum s_ip d_ip (drop 34 g)))"
    unfolding f using lg by (simp add: drop_put)
  then show "net_checksum (tcp_pseudo s_ip d_ip (20 + ?k) @ drop 34 f) = 0"
    using tcp_checksum_stored [OF seg(1) k seg(2,3)] by simp
qed

section \<open>DHCP options\<close>

text \<open>What one option of a reply does to the offer.\<close>

fun apply_option :: "nat \<times> bytes \<Rightarrow> dhcp_offer \<Rightarrow> dhcp_offer" where
  "apply_option (code, data) offer =
     (if code = 53 \<and> data \<noteq> [] then offer\<lparr>d_message_type := byte_at data 0\<rparr>
      else if length data < 4 then offer
      else if code = 54 then offer\<lparr>d_server_id := net_read_be32 data 0\<rparr>
      else if code = 1 then offer\<lparr>d_subnet_mask := net_read_be32 data 0\<rparr>
      else if code = 3 then offer\<lparr>d_router := net_read_be32 data 0\<rparr>
      else if code = 6 then offer\<lparr>d_dns := net_read_be32 data 0\<rparr>
      else if code = 51 then offer\<lparr>d_lease_seconds := net_read_be32 data 0\<rparr>
      else offer)"

definition option_ok :: "nat \<times> bytes \<Rightarrow> bool" where
  "option_ok opt \<longleftrightarrow> 0 < fst opt \<and> fst opt < 255 \<and> length (snd opt) < 256"

definition option_bytes :: "nat \<times> bytes \<Rightarrow> bytes" where
  "option_bytes opt = dhcp_option (fst opt) (snd opt)"

lemma byte_at_char: "(byte_at buf i :: u8) = of_nat k" if "buf ! i = char_of k" "k < 256"
proof -
  have "(of_char (char_of k) :: u8) = of_nat (k mod 256)" by (metis of_char_of of_nat_of_char)
  then show ?thesis using that by (simp add: byte_at_def)
qed

lemma read_shift: "i + 4 \<le> length d \<Longrightarrow> net_read_be32 (pre @ d @ post) (length pre + i) = net_read_be32 d i"
  by (simp add: net_read_be32_def byte_at_def nth_append)

lemma dhcp_options_step:
  assumes ok: "option_ok (code, data)" and "length pre = index" and "post \<noteq> []"
  shows "dhcp_options (pre @ option_bytes (code, data) @ post) index offer =
    dhcp_options (pre @ option_bytes (code, data) @ post) (index + length (option_bytes (code, data)))
      (apply_option (code, data) offer)"
proof -
  let ?p = "pre @ option_bytes (code, data) @ post"
  have at: "?p ! index = char_of code" "?p ! (index + 1) = char_of (length data)"
    using assms(2) by (simp_all add: option_bytes_def dhcp_option_def nth_append)
  have c: "code < 256" "length data < 256" "0 < code" "code < 255" using ok by (simp_all add: option_ok_def)
  have b: "(byte_at ?p index :: u8) = of_nat code" "(byte_at ?p (index + 1) :: u8) = of_nat (length data)"
    using byte_at_char [OF at(1) c(1)] byte_at_char [OF at(2) c(2)] by simp_all
  have u: "unat (of_nat k :: u8) = k" if "k < 256" for k
    using that by (simp add: unsigned_of_nat take_bit_nat_eq_self)
  have eq: "(of_nat code :: u8) = of_nat k \<longleftrightarrow> code = k" if "k < 256" for k
    using u [OF c(1)] u [OF that] by metis
  have n: "(of_nat code :: u8) = 0 \<longleftrightarrow> False" "(of_nat code :: u8) = 255 \<longleftrightarrow> False"
    "(of_nat code :: u8) = 53 \<longleftrightarrow> code = 53" "(of_nat code :: u8) = 54 \<longleftrightarrow> code = 54"
    "(of_nat code :: u8) = 1 \<longleftrightarrow> code = 1" "(of_nat code :: u8) = 3 \<longleftrightarrow> code = 3"
    "(of_nat code :: u8) = 6 \<longleftrightarrow> code = 6" "(of_nat code :: u8) = 51 \<longleftrightarrow> code = 51"
    using eq [of 0] eq [of 255] eq [of 53] eq [of 54] eq [of 1] eq [of 3] eq [of 6] eq [of 51] c(3,4)
    by simp_all
  have len: "length ?p = index + 2 + length data + length post" "index + 1 < length ?p"
    "length (option_bytes (code, data)) = 2 + length data"
    using assms(2,3) by (simp_all add: option_bytes_def dhcp_option_def)
  have r: "net_read_be32 ?p (index + 2) = net_read_be32 data 0" if "4 \<le> length data"
    using read_shift [of 0 data "pre @ [char_of code, char_of (length data)]" post] that assms(2)
    by (simp add: option_bytes_def dhcp_option_def)
  have r1: "byte_at ?p (index + 2) = (byte_at data 0 :: u8)" if "data \<noteq> []"
    using assms(2) that by (simp add: byte_at_def option_bytes_def dhcp_option_def nth_append)
  define R B where R_def: "R = net_read_be32 ?p (index + 2)" and B_def: "B = (byte_at ?p (index + 2) :: u8)"
  note r = r [folded R_def] and r1 = r1 [folded B_def]
  have step: "dhcp_options ?p index offer = dhcp_options ?p (index + 2 + length data)
    (if code = 53 \<and> length data \<ge> 1 then offer\<lparr>d_message_type := B\<rparr>
     else if code = 54 \<and> length data \<ge> 4 then offer\<lparr>d_server_id := R\<rparr>
     else if code = 1 \<and> length data \<ge> 4 then offer\<lparr>d_subnet_mask := R\<rparr>
     else if code = 3 \<and> length data \<ge> 4 then offer\<lparr>d_router := R\<rparr>
     else if code = 6 \<and> length data \<ge> 4 then offer\<lparr>d_dns := R\<rparr>
     else if code = 51 \<and> length data \<ge> 4 then offer\<lparr>d_lease_seconds := R\<rparr>
     else offer)"
    unfolding dhcp_options.simps [of ?p index offer] Let_def b n u [OF c(2)] R_def B_def
    using len by simp
  have upd: "(if code = 53 \<and> length data \<ge> 1 then offer\<lparr>d_message_type := B\<rparr>
     else if code = 54 \<and> length data \<ge> 4 then offer\<lparr>d_server_id := R\<rparr>
     else if code = 1 \<and> length data \<ge> 4 then offer\<lparr>d_subnet_mask := R\<rparr>
     else if code = 3 \<and> length data \<ge> 4 then offer\<lparr>d_router := R\<rparr>
     else if code = 6 \<and> length data \<ge> 4 then offer\<lparr>d_dns := R\<rparr>
     else if code = 51 \<and> length data \<ge> 4 then offer\<lparr>d_lease_seconds := R\<rparr>
     else offer) = apply_option (code, data) offer"
  proof (cases "4 \<le> length data")
    case True
    then have "data \<noteq> []" "1 \<le> length data" by auto
    with True r r1 show ?thesis by simp
  next
    case False
    then show ?thesis using r1 by (cases data) simp_all
  qed
  show ?thesis unfolding step upd len(3) by (simp add: add.assoc)
qed

lemma dhcp_options_list:
  assumes "list_all option_ok opts" and "length pre = index"
  shows "dhcp_options (pre @ concat (map option_bytes opts) @ [CHR 0xFF]) index offer = fold apply_option opts offer"
  using assms
proof (induction opts arbitrary: pre index offer)
  case Nil
  then show ?case by (simp add: dhcp_options.simps)
next
  case (Cons opt opts)
  obtain code data where opt: "opt = (code, data)" by (cases opt)
  let ?rest = "concat (map option_bytes opts) @ [CHR 0xFF]"
  have "dhcp_options (pre @ option_bytes opt @ ?rest) index offer =
      dhcp_options (pre @ option_bytes opt @ ?rest) (index + length (option_bytes opt)) (apply_option opt offer)"
    unfolding opt using Cons.prems opt by (intro dhcp_options_step) simp_all
  moreover have "dhcp_options ((pre @ option_bytes opt) @ ?rest) (index + length (option_bytes opt)) (apply_option opt offer) =
      fold apply_option opts (apply_option opt offer)"
    using Cons.prems by (intro Cons.IH) simp_all
  ultimately show ?case by simp
qed

section \<open>Properties\<close>

text \<open>A UDP frame the kernel builds parses back to exactly its addresses, ports and payload, and
  its IP header verifies.\<close>

theorem udp_frame_roundtrip:
  assumes "net_build_udp_frame n dst_mac src_ip dst_ip src_port dst_port payload = Some (n', frame)"
    and "dst_mac_ok dst_mac" and "mac_ok (ns_client_mac n)" and "holds m frame"
  shows "net_parse_udp_packet m (length frame) = Some \<lparr>u_src_ip = src_ip, u_dst_ip = dst_ip,
      u_src_port = src_port, u_dst_port = dst_port, u_payload = 42, u_payload_len = length payload\<rparr> \<and>
    bytes_at m 42 (length payload) = payload \<and> net_checksum (take 20 (drop 14 frame)) = 0"
  using udp_roundtrip [OF assms] by simp

definition demo_net :: net where
  "demo_net = netstack_reset \<lparr>ns_configured = True, ns_gateway_mac_valid = False, ns_static_profile = False,
     ns_client_ip = 0, ns_subnet_mask = 0, ns_gateway_ip = 0, ns_dns_ip = 0, ns_lease_seconds = 0, ns_xid = 0,
     ns_next_port = 0, ns_next_ip_id = 0, ns_client_mac = [], ns_gateway_mac = [], ns_browser_status = [],
     ns_last_host = [], ns_last_ip = [], net_ipv4 = [], net_subnet_mask = [], net_gateway = [],
     net_dns_server = [], net_initialized = True\<rparr>"

lemma demo_net_mac: "mac_ok (ns_client_mac demo_net)"
  by (simp add: demo_net_def netstack_reset_def netstack_sync_strings_def mac_ok_def)

theorem udp_frame_roundtrip_witness:
  "\<exists>n' frame. net_build_udp_frame demo_net None 0 0xFFFFFFFF 68 67 ''hi'' = Some (n', frame) \<and>
     net_parse_udp_packet (\<lambda>i. frame ! i) (length frame) = Some \<lparr>u_src_ip = 0, u_dst_ip = 0xFFFFFFFF,
       u_src_port = 68, u_dst_port = 67, u_payload = 42, u_payload_len = 2\<rparr>"
proof -
  obtain n' frame where b: "net_build_udp_frame demo_net None 0 0xFFFFFFFF 68 67 ''hi'' = Some (n', frame)"
    by (simp add: net_build_udp_frame_def Let_def NET_FRAME_MAX_def)
  have "holds (\<lambda>i. frame ! i) frame" by (simp add: holds_def)
  from udp_frame_roundtrip [OF b _ demo_net_mac this] b show ?thesis by (simp add: dst_mac_ok_def)
qed

text \<open>C23: A TCP segment the kernel builds parses back to exactly its addresses, ports, sequence and
  acknowledgement numbers, flags and payload; its IP header verifies, and so does its TCP
  checksum over the pseudo header and the segment.\<close>

theorem tcp_frame_roundtrip:
  assumes "net_build_tcp_frame n dst_mac src_ip dst_ip src_port dst_port seq ack flags payload = Some (n', frame)"
    and "mac_ok dst_mac" and "mac_ok (ns_client_mac n)" and "holds m frame"
  shows "net_parse_tcp_packet m (length frame) = Some \<lparr>t_src_ip = src_ip, t_dst_ip = dst_ip,
      t_src_port = src_port, t_dst_port = dst_port, t_seq = seq, t_ack = ack, t_flags = flags,
      t_payload = 54, t_payload_len = length payload\<rparr> \<and>
    bytes_at m 54 (length payload) = payload \<and> net_checksum (take 20 (drop 14 frame)) = 0 \<and>
    net_checksum (tcp_pseudo src_ip dst_ip (20 + length payload) @ drop 34 frame) = 0"
  using tcp_roundtrip [OF assms] by simp

theorem tcp_frame_roundtrip_witness:
  "\<exists>n' frame. net_build_tcp_frame demo_net ''router'' 1 2 49152 80 7 9 0x18 ''GET'' = Some (n', frame) \<and>
     map_option t_payload_len (net_parse_tcp_packet (\<lambda>i. frame ! i) (length frame)) = Some 3"
proof -
  obtain n' frame where b: "net_build_tcp_frame demo_net ''router'' 1 2 49152 80 7 9 0x18 ''GET'' = Some (n', frame)"
    by (simp add: net_build_tcp_frame_def Let_def NET_FRAME_MAX_def)
  have "holds (\<lambda>i. frame ! i) frame" by (simp add: holds_def)
  from tcp_frame_roundtrip [OF b _ demo_net_mac this] b show ?thesis by (simp add: mac_ok_def)
qed

text \<open>A DHCP reply's options are read in order and each sets exactly its field: on a well-formed
  option area closed by its end marker the parser computes the fold of the single options.\<close>

theorem dhcp_options_functional:
  assumes "list_all option_ok opts" and "length header = 240"
  shows "dhcp_options (header @ concat (map option_bytes opts) @ [CHR 0xFF]) 240 offer = fold apply_option opts offer"
  using assms by (rule dhcp_options_list)

theorem dhcp_options_functional_witness:
  "d_router (dhcp_options (replicate 240 NUL @ concat (map option_bytes [(53, [CHR 0x02]), (3, net_write_be32 0x0A000202)]) @ [CHR 0xFF]) 240 no_offer) = 0x0A000202"
proof -
  have "net_read_be32 (net_write_be32 0x0A000202) 0 = 0x0A000202"
    using be32.dec_append [where x = "0x0A000202" and pre = "[]" and post = "[]"] by simp
  then show ?thesis
    using dhcp_options_functional [of "[(53, [CHR 0x02]), (3, net_write_be32 0x0A000202)]" "replicate 240 NUL" no_offer]
    by (simp add: option_ok_def)
qed

definition short_frame :: mem where
  "short_frame i =
     (if i = 12 then CHR 0x08 else if i = 14 then CHR 0x45 else if i = 16 then CHR 0x05
      else if i = 23 then CHR 0x11 else if i = 38 then CHR 0x04 else NUL)"

text \<open>The UDP parser accepts a datagram whose payload reaches past the received frame: the length
  fields are checked against each other, the total length is never checked against the frame.\<close>

theorem udp_payload_past_frame:
  "map_option (\<lambda>v. (u_payload v, u_payload_len v)) (net_parse_udp_packet short_frame 42) = Some (42, 1016)"
  by (simp add: net_parse_udp_packet_def Let_def rd8_def rd16_def short_frame_def bytes_at_def
      net_read_be16_def byte_at_def NET_ETHERTYPE_IPV4_def NET_IPPROTO_UDP_def drop_bit_eq_div)

end
