(* ===== verification/NetText.thy ===== *)
theory NetText
  imports NetFrames
begin

text \<open>
  Names, addresses and pages of the ARM64 network stack, \<open>src/arm64/kernel/main.c\<close>: DNS
  queries and answers, bounded output, the HTML renderer, URLs and the host bridge, HTTP
  status lines and headers, and the links the browser collects from a page. Texts are list
  readings of C strings; an output buffer of size \<open>n\<close> holds at most \<open>n - 1\<close> characters.
\<close>

unbundle bit_operations_syntax

definition BROWSER_ADDRESS_MAX :: nat where "BROWSER_ADDRESS_MAX = 192"
definition BROWSER_LINK_MAX :: nat where "BROWSER_LINK_MAX = 16"
definition BROWSER_PAGE_MAX :: nat where "BROWSER_PAGE_MAX = 4096"
definition NET_URL_MAX :: nat where "NET_URL_MAX = 768"

section \<open>DNS\<close>

text \<open>The label loop; \<open>None\<close> is its \<open>return false\<close>.\<close>

function dns_labels :: "string \<Rightarrow> bytes \<Rightarrow> bytes option" where
  "dns_labels cursor payload =
     (if cursor = [] then Some payload
      else let segment = takeWhile (\<lambda>c. c \<noteq> CHR ''.'') cursor;
               rest = drop (length segment) cursor
           in if length segment = 0 \<or> length payload + length segment + 2 \<ge> 512 then None
              else dns_labels (if rest \<noteq> [] then tl rest else []) (payload @ [char_of (length segment)] @ segment))"
  by auto
termination
  by (relation "measure (\<lambda>(cursor, payload). length cursor)") auto

declare dns_labels.simps [simp del]

definition dns_query_header :: "u16 \<Rightarrow> bytes" where
  "dns_query_header query_id =
     net_write_be16 query_id @ net_write_be16 0x0100 @ net_write_be16 1 @ replicate 6 NUL"

text \<open>\<open>Some None\<close>: the name is refused. \<open>None\<close>: the terminator and the two fields after it are
  written past the end of the 512-octet payload.\<close>

definition dns_query :: "u16 \<Rightarrow> string \<Rightarrow> bytes option option" where
  "dns_query query_id host =
     (case dns_labels host (dns_query_header query_id) of
        None \<Rightarrow> Some None
      | Some payload \<Rightarrow>
          if length payload + 5 > 512 then None
          else Some (Some (payload @ [NUL] @ net_write_be16 1 @ net_write_be16 1)))"

function dns_skip_name :: "bytes \<Rightarrow> nat \<Rightarrow> nat" where
  "dns_skip_name packet offset =
     (if offset < length packet
      then let len = (byte_at packet offset :: u8)
           in if len = 0 then offset + 1
              else if len AND 0xC0 = 0xC0 then offset + 2
              else dns_skip_name packet (offset + unat len + 1)
      else length packet)"
  by auto
termination
  by (relation "measure (\<lambda>(packet, offset). length packet - offset)") auto

declare dns_skip_name.simps [simp del]

primrec dns_skip_questions :: "nat \<Rightarrow> bytes \<Rightarrow> nat \<Rightarrow> nat" where
  "dns_skip_questions 0 packet offset = offset"
| "dns_skip_questions (Suc questions) packet offset =
     (let offset = dns_skip_name packet offset
      in if offset + 4 > length packet then offset else dns_skip_questions questions packet (offset + 4))"

primrec dns_find_answer :: "nat \<Rightarrow> bytes \<Rightarrow> nat \<Rightarrow> u32 option" where
  "dns_find_answer 0 packet offset = None"
| "dns_find_answer (Suc answers) packet offset =
     (if offset + 10 > length packet then None
      else let offset = dns_skip_name packet offset
           in if offset + 10 > length packet then None
              else let type = net_read_be16 packet offset;
                       class_code = net_read_be16 packet (offset + 2);
                       rdlength = unat (net_read_be16 packet (offset + 8));
                       data = offset + 10
                   in if data + rdlength > length packet then None
                      else if type = 1 \<and> class_code = 1 \<and> rdlength = 4 then Some (net_read_be32 packet data)
                      else dns_find_answer answers packet (data + rdlength))"

text \<open>The answer a received datagram gives, if it is the response awaited.\<close>

definition dns_response :: "mem \<Rightarrow> nat \<Rightarrow> u16 \<Rightarrow> u16 \<Rightarrow> u32 option" where
  "dns_response frame frame_len local_port query_id =
     (case net_parse_udp_packet frame frame_len of
        None \<Rightarrow> None
      | Some v \<Rightarrow>
          let p = bytes_at frame (u_payload v) (u_payload_len v)
          in if u_src_port v \<noteq> 53 \<or> u_dst_port v \<noteq> local_port \<or> u_payload_len v < 12 then None
             else if net_read_be16 p 0 \<noteq> query_id \<or> net_read_be16 p 2 AND 0x8000 = 0 then None
             else dns_find_answer (unat (net_read_be16 p 6)) p
                    (dns_skip_questions (unat (net_read_be16 p 4)) p 12))"

primrec dns_wait ::
    "nat \<Rightarrow> 'd nic \<Rightarrow> u16 \<Rightarrow> u16 \<Rightarrow> ('d, 'a) net_host_scheme \<Rightarrow> ('d, 'a) net_host_scheme \<times> u32 option" where
  "dns_wait 0 nic local_port query_id h = (h, None)"
| "dns_wait (Suc cycles) nic local_port query_id h =
     (case receive nic h of
        (h', None) \<Rightarrow> dns_wait cycles nic local_port query_id h'
      | (h', Some frame_len) \<Rightarrow>
          (case dns_response (net_rx h') frame_len local_port query_id of
             None \<Rightarrow> dns_wait cycles nic local_port query_id h'
           | Some ip \<Rightarrow> (h', Some ip)))"

definition netstack_resolve_dns_name ::
    "'d nic \<Rightarrow> string \<Rightarrow> ('d, 'a) net_host_scheme \<Rightarrow> (('d, 'a) net_host_scheme \<times> u32 option) option" where
  "netstack_resolve_dns_name nic host h =
     (case net_parse_ipv4_text host of
        Some ip \<Rightarrow> Some (h, Some ip)
      | None \<Rightarrow>
          if \<not> ns_configured h \<or> ns_dns_ip h = 0 then Some (h, None)
          else case netstack_next_hop_mac nic (ns_dns_ip h) h of
            (h, None) \<Rightarrow> Some (h, None)
          | (h, Some dest_mac) \<Rightarrow>
              let (h, x) = netstack_random_next h;
                  query_id = ucast (x AND 0xFFFF);
                  local_port = ns_next_port h;
                  h = h\<lparr>ns_next_port := local_port + 1\<rparr>
              in (case dns_query query_id host of
                    None \<Rightarrow> None
                  | Some None \<Rightarrow> Some (h, None)
                  | Some (Some payload) \<Rightarrow>
                      (case net_build_udp_frame h (Some dest_mac) (ns_client_ip h) (ns_dns_ip h) local_port 53 payload of
                         None \<Rightarrow> None
                       | Some (h, frame) \<Rightarrow>
                           (case transmit nic frame (drain nic h) of
                              (h, False) \<Rightarrow> Some (h, None)
                            | (h, True) \<Rightarrow> Some (dns_wait 220 nic local_port query_id h)))))"

section \<open>Bounded text\<close>

definition netstack_append_char :: "string \<Rightarrow> nat \<Rightarrow> char \<Rightarrow> string" where
  "netstack_append_char output output_size ch =
     (if length output + 1 \<ge> output_size then output else output @ [ch])"

definition netstack_append_text :: "string \<Rightarrow> nat \<Rightarrow> string \<Rightarrow> string" where
  "netstack_append_text output output_size s = foldl (\<lambda>out ch. netstack_append_char out output_size ch) output s"

text \<open>The suffix of the text that starts with the first occurrence.\<close>

fun netstack_find_text :: "string \<Rightarrow> string \<Rightarrow> string option" where
  "netstack_find_text s needle =
     (if needle = [] then Some s
      else case s of
        [] \<Rightarrow> None
      | c # rest \<Rightarrow> if take (length needle) s = needle then Some s else netstack_find_text rest needle)"

declare netstack_find_text.simps [simp del]

section \<open>HTML\<close>

fun tag_match :: "string \<Rightarrow> string \<Rightarrow> bool" where
  "tag_match html [] = True"
| "tag_match [] (t # tag_name) = False"
| "tag_match (c # html) (t # tag_name) = (ascii_lower c = ascii_lower t \<and> tag_match html tag_name)"

definition netstack_tag_starts :: "string \<Rightarrow> string \<Rightarrow> bool" where
  "netstack_tag_starts html tag_name =
     (case html of
        CHR ''<'' # rest \<Rightarrow> tag_match (case rest of CHR ''/'' # r \<Rightarrow> r | _ \<Rightarrow> rest) tag_name
      | _ \<Rightarrow> False)"

record html_state =
  in_tag :: bool
  in_script :: bool
  in_style :: bool
  last_space :: bool
  page :: string

definition emit :: "nat \<Rightarrow> string \<Rightarrow> bool \<Rightarrow> html_state \<Rightarrow> html_state" where
  "emit lim s space st = st\<lparr>page := netstack_append_text (page st) lim s, last_space := space\<rparr>"

definition block_tags :: "string list" where
  "block_tags = [''br'', ''p'', ''div'', ''section'', ''article'', ''tr'', ''table'', ''h1'', ''h2'', ''h3'', ''title'']"

text \<open>An opening angle bracket outside a tag, comments apart.\<close>

definition open_tag :: "nat \<Rightarrow> string \<Rightarrow> html_state \<Rightarrow> html_state" where
  "open_tag lim html st =
     (if netstack_tag_starts html ''script'' then st\<lparr>in_tag := True, in_script := True\<rparr>
      else if netstack_tag_starts html ''style'' then st\<lparr>in_tag := True, in_style := True\<rparr>
      else let st = (if list_ex (netstack_tag_starts html) block_tags then emit lim [LF] False st else st);
               st = (if netstack_tag_starts html ''li'' then emit lim (LF # ''* '') False st else st);
               st = (if netstack_tag_starts html ''td'' \<or> netstack_tag_starts html ''th''
                     then emit lim '' | '' True st else st)
           in st\<lparr>in_tag := True\<rparr>)"

definition entities :: "(string \<times> char) list" where
  "entities = [(''&nbsp;'', CHR '' ''), (''&amp;'', CHR ''&''), (''&lt;'', CHR ''<''), (''&gt;'', CHR ''>''),
     (''&quot;'', CHR 0x22), (''&apos;'', CHR 0x27)]"

definition entity_at :: "string \<Rightarrow> (string \<times> char) option" where
  "entity_at html = find (\<lambda>(name, ch). take (length name) html = name) entities"

text \<open>A character outside tags.\<close>

definition text_char :: "nat \<Rightarrow> char \<Rightarrow> html_state \<Rightarrow> html_state" where
  "text_char lim c st =
     (if c = CR then st
      else if c = LF then emit lim [LF] False st
      else if c = CHR '' '' \<or> c = TAB then (if last_space st then st else emit lim '' '' True st)
      else emit lim [c] False st)"

text \<open>One turn of the loop on a nonempty rest: the new state and rest, \<open>None\<close> for \<open>break\<close>.\<close>

definition html_step :: "nat \<Rightarrow> string \<Rightarrow> html_state \<Rightarrow> (html_state \<times> string) option" where
  "html_step lim html st =
     (if in_script st then map_option (\<lambda>e. (st\<lparr>in_script := False\<rparr>, e)) (netstack_find_text html ''</script'')
      else if in_style st then map_option (\<lambda>e. (st\<lparr>in_style := False\<rparr>, e)) (netstack_find_text html ''</style'')
      else if \<not> in_tag st \<and> hd html = CHR ''<'' then
        (if take 4 html = ''<!--''
         then map_option (\<lambda>e. (st, drop 3 e)) (netstack_find_text html ''-->'')
         else Some (open_tag lim html st, tl html))
      else if in_tag st then Some (if hd html = CHR ''>'' then st\<lparr>in_tag := False\<rparr> else st, tl html)
      else case entity_at html of
        Some (name, ch) \<Rightarrow> Some (st\<lparr>page := netstack_append_char (page st) lim ch\<rparr>, drop (length name) html)
      | None \<Rightarrow> Some (text_char lim (hd html) st, tl html))"

lemma find_text_suffix: "netstack_find_text s needle = Some t \<Longrightarrow> \<exists>u. s = u @ t"
proof (induction s)
  case Nil
  then show ?case by (simp add: netstack_find_text.simps split: if_splits)
next
  case (Cons c s)
  show ?case
  proof (cases "netstack_find_text s needle = Some t")
    case True
    with Cons.IH obtain u where "s = u @ t" by blast
    then have "c # s = (c # u) @ t" by simp
    then show ?thesis by blast
  next
    case False
    with Cons.prems have "t = c # s"
      by (subst (asm) netstack_find_text.simps) (auto split: if_splits)
    then show ?thesis by simp
  qed
qed

lemma find_text_prefix: "netstack_find_text s needle = Some t \<Longrightarrow> take (length needle) t = needle"
proof (induction s)
  case Nil
  then show ?case by (simp add: netstack_find_text.simps split: if_splits)
next
  case (Cons c s)
  then show ?case
    by (subst (asm) (2) netstack_find_text.simps) (auto split: if_splits)
qed

lemma find_text_length: "netstack_find_text s needle = Some t \<Longrightarrow> length t \<le> length s"
  using find_text_suffix by fastforce

definition html_measure :: "string \<Rightarrow> html_state \<Rightarrow> nat" where
  "html_measure html st = 3 * length html + (if in_script st then 1 else 0) + (if in_style st then 1 else 0)"

lemma emit_simps [simp]:
  "in_script (emit lim s b st) = in_script st" "in_style (emit lim s b st) = in_style st"
  "in_tag (emit lim s b st) = in_tag st" "page (emit lim s b st) = netstack_append_text (page st) lim s"
  by (simp_all add: emit_def)

lemma entity_nonempty: "entity_at html = Some (name, ch) \<Longrightarrow> name \<noteq> [] \<and> take (length name) html = name"
proof -
  assume "entity_at html = Some (name, ch)"
  then have "(name, ch) \<in> set entities" "take (length name) html = name"
    by (auto simp: entity_at_def find_Some_iff dest: nth_mem)
  then show ?thesis by (auto simp: entities_def)
qed

lemma html_step_decreases:
  assumes "html \<noteq> []" and "html_step lim html st = Some (st', html')"
  shows "html_measure html' st' < html_measure html st"
proof -
  have pos: "length (tl html) = length html - 1" "0 < length html" using assms(1) by simp_all
  consider (script) "in_script st" | (style) "\<not> in_script st" "in_style st"
    | (tag) "\<not> in_script st" "\<not> in_style st" "\<not> in_tag st" "hd html = CHR ''<''"
    | (other) "\<not> in_script st" "\<not> in_style st" "in_tag st \<or> hd html \<noteq> CHR ''<''"
    by blast
  then show ?thesis
  proof cases
    case script
    then show ?thesis using assms(2) find_text_length by (fastforce simp: html_step_def html_measure_def)
  next
    case style
    then show ?thesis using assms(2) find_text_length by (fastforce simp: html_step_def html_measure_def)
  next
    case tag
    show ?thesis
    proof (cases "take 4 html = ''<!--''")
      case True
      then obtain e where e: "netstack_find_text html ''-->'' = Some e" "html' = drop 3 e" "st' = st"
        using tag assms(2) by (auto simp: html_step_def)
      have "length e \<le> length html" "take 3 e = ''-->''"
        using find_text_length [OF e(1)] find_text_prefix [OF e(1)] by (simp_all add: numeral_3_eq_3)
      moreover from this have "3 \<le> length e" by (cases e rule: list.exhaust) (auto dest: arg_cong [where f = length])
      ultimately show ?thesis using e pos by (simp add: html_measure_def)
    next
      case False
      then have "st' = open_tag lim html st" "html' = tl html"
        using tag assms(2) by (simp_all add: html_step_def)
      moreover have "(if in_script (open_tag lim html st) then 1 else 0) + (if in_style (open_tag lim html st) then 1 else 0) \<le> (1::nat)"
        using tag by (simp add: open_tag_def Let_def)
      ultimately show ?thesis using tag assms(1) by (cases html) (auto simp: html_measure_def split: if_splits)
    qed
  next
    case other
    show ?thesis
    proof (cases "in_tag st")
      case True
      then show ?thesis using other assms by (cases html) (auto simp: html_step_def html_measure_def)
    next
      case False
      then show ?thesis
        using other assms entity_nonempty [of html]
        by (cases html) (auto simp: html_step_def html_measure_def text_char_def neq_Nil_conv split: option.splits prod.splits if_splits)
    qed
  qed
qed

function html_loop :: "nat \<Rightarrow> string \<Rightarrow> html_state \<Rightarrow> string" where
  "html_loop lim html st =
     (if html = [] then page st
      else case html_step lim html st of
        None \<Rightarrow> page st
      | Some (st', html') \<Rightarrow> html_loop lim html' st')"
  by auto
termination
  by (relation "measure (\<lambda>(lim, html, st). html_measure html st)") (auto simp: html_step_decreases)

declare html_loop.simps [simp del]

definition html_start :: html_state where
  "html_start = \<lparr>in_tag = False, in_script = False, in_style = False, last_space = False, page = []\<rparr>"

definition netstack_render_html_body :: "string \<Rightarrow> nat \<Rightarrow> string" where
  "netstack_render_html_body html output_size = html_loop output_size html html_start"

section \<open>URLs\<close>

record url =
  url_host :: string
  url_path :: string
  url_port :: u16
  url_https :: bool

text \<open>\<open>Some None\<close>: refused. \<open>None\<close>: the port's digits overflow the \<open>int\<close> of \<open>atoi\<close>.\<close>

definition url_authority :: "bool \<Rightarrow> u16 \<Rightarrow> string \<Rightarrow> nat \<Rightarrow> nat \<Rightarrow> url option option" where
  "url_authority https default_port cursor host_size path_size =
     (let authority = takeWhile (\<lambda>c. c \<noteq> CHR ''/'') cursor;
          path_start = drop (length authority) cursor;
          path = (if path_start = [] then strcopy_limit '''' ''/'' path_size else strcopy_limit '''' path_start path_size)
      in if length authority = 0 \<or> length authority \<ge> host_size then Some None
         else case strchr_s authority (CHR '':'') of
           None \<Rightarrow> Some (Some \<lparr>url_host = authority, url_path = path, url_port = default_port, url_https = https\<rparr>)
         | Some colon \<Rightarrow>
             (case atoi (tl colon) of
                None \<Rightarrow> None
              | Some port \<Rightarrow> Some (Some \<lparr>url_host = takeWhile (\<lambda>c. c \<noteq> CHR '':'') authority, url_path = path,
                  url_port = word_of_int port, url_https = https\<rparr>)))"

definition netstack_parse_url :: "string \<Rightarrow> nat \<Rightarrow> nat \<Rightarrow> url option option" where
  "netstack_parse_url s host_size path_size =
     (if take 7 s = ''http://'' then url_authority False 80 (drop 7 s) host_size path_size
      else if take 8 s = ''https://'' then url_authority True 443 (drop 8 s) host_size path_size
      else Some None)"

definition https_bridge_prefix :: string where
  "https_bridge_prefix = ''http://10.0.2.2:8787/fetch?url=''"

definition unreserved :: "char \<Rightarrow> bool" where
  "unreserved ch \<longleftrightarrow> (uchar (CHR ''A'') \<le> uchar ch \<and> uchar ch \<le> uchar (CHR ''Z'')) \<or>
     (uchar (CHR ''a'') \<le> uchar ch \<and> uchar ch \<le> uchar (CHR ''z'')) \<or> isdigit ch \<or>
     ch = CHR ''-'' \<or> ch = CHR ''_'' \<or> ch = CHR ''.'' \<or> ch = CHR ''~''"

definition percent :: "char \<Rightarrow> string" where
  "percent ch = [CHR ''%'', hex_digits ! (of_char ch div 16 mod 16), hex_digits ! (of_char ch mod 16)]"

fun bridge_loop :: "string \<Rightarrow> string \<Rightarrow> nat \<Rightarrow> string option" where
  "bridge_loop [] out lim = Some out"
| "bridge_loop (ch # s) out lim =
     (if unreserved ch
      then if length out + 1 \<ge> lim then None else bridge_loop s (out @ [ch]) lim
      else if length out + 3 \<ge> lim then None else bridge_loop s (out @ percent ch) lim)"

definition netstack_build_https_bridge_url :: "string \<Rightarrow> nat \<Rightarrow> string option" where
  "netstack_build_https_bridge_url s bridge_url_size =
     (let out = strcopy_limit '''' https_bridge_prefix bridge_url_size
      in if length out + 1 \<ge> bridge_url_size then None else bridge_loop s out bridge_url_size)"

definition netstack_build_dev_bridge_url :: "string \<Rightarrow> nat \<Rightarrow> string option" where
  "netstack_build_dev_bridge_url path bridge_url_size =
     (let out = strcopy_limit '''' ''http://10.0.2.2:8790'' bridge_url_size
      in if path = [] then Some out
         else if length out + length path + 2 \<ge> bridge_url_size then None
         else Some ((if hd path \<noteq> CHR ''/'' then out @ ''/'' else out) @ path))"

section \<open>HTTP responses\<close>

definition netstack_parse_status_code :: "string \<Rightarrow> u32 option" where
  "netstack_parse_status_code status_line =
     (case strchr_s status_line (CHR '' '') of
        None \<Rightarrow> Some 0
      | Some cursor \<Rightarrow> map_option word_of_int (atoi (dropWhile (\<lambda>c. c = CHR '' '') cursor)))"

function netstack_find_header_value :: "string \<Rightarrow> string \<Rightarrow> string option" where
  "netstack_find_header_value line name =
     (if line = [] then None
      else if take (length name) line = name \<and> cchar line (length name) = CHR '':''
      then Some (dropWhile (\<lambda>c. c = CHR '' '') (drop (length name + 1) line))
      else case netstack_find_text line [CR, LF] of
        None \<Rightarrow> None
      | Some line_end \<Rightarrow> netstack_find_header_value (drop 2 line_end) name)"
  by auto
termination
proof (relation "measure (\<lambda>(line, name). length line)", goal_cases)
  case (2 line name line_end)
  then have "length line_end \<le> length line" by (metis find_text_length)
  moreover have "0 < length line" using 2 by simp
  ultimately have "length line_end - 2 < length line" by linarith
  then show ?case by simp
qed simp

declare netstack_find_header_value.simps [simp del]

section \<open>Links\<close>

definition browser_links_add :: "string list \<Rightarrow> string \<Rightarrow> string list" where
  "browser_links_add links address =
     (if address = [] then links
      else if address \<in> set links then links
      else if length links \<ge> BROWSER_LINK_MAX then links
      else links @ [strcopy_limit '''' address BROWSER_ADDRESS_MAX])"

definition link_protocols :: "string list" where
  "link_protocols = [''https://'', ''http://'', ''snsx://'', ''snsxnet://'', ''snsxdiag://'', ''snsx-id://'']"

definition link_end :: "char \<Rightarrow> bool" where
  "link_end c \<longleftrightarrow> c \<in> {LF, CR, CHR '' '', TAB, CHR '')'', CHR '']'', CHR 0x22, CHR 0x27, CHR '','', CHR '';'', CHR ''|''}"

definition text_link :: "string \<Rightarrow> string" where
  "text_link s =
     (let link = take (BROWSER_ADDRESS_MAX - 1) (takeWhile (\<lambda>c. \<not> link_end c) s)
      in rev (dropWhile (\<lambda>c. c = CHR ''.'' \<or> c = CHR '':'' \<or> c = CHR ''>'') (rev link)))"

fun browser_extract_text_links :: "string \<Rightarrow> string list \<Rightarrow> string list" where
  "browser_extract_text_links [] links = links"
| "browser_extract_text_links (c # s) links =
     browser_extract_text_links s
       (foldl (\<lambda>ls protocol. if take (length protocol) (c # s) = protocol
                            then browser_links_add ls (text_link (c # s)) else ls) links link_protocols)"

function browser_extract_html_links :: "string \<Rightarrow> string list \<Rightarrow> string list" where
  "browser_extract_html_links html links =
     (if html = [] then links
      else case netstack_find_text html ''href='' of
        None \<Rightarrow> links
      | Some found \<Rightarrow>
          let href = drop 5 found
          in if href \<noteq> [] \<and> (hd href = CHR 0x22 \<or> hd href = CHR 0x27)
             then let link = take (BROWSER_ADDRESS_MAX - 1) (takeWhile (\<lambda>c. c \<noteq> hd href) (tl href))
                  in browser_extract_html_links (drop (length link) (tl href))
                       (if length link > 0 then browser_links_add links link else links)
             else browser_extract_html_links href links)"
  by auto
termination
proof (relation "measure (\<lambda>(html, links). length html)", goal_cases)
  case (2 html links found href link)
  then have "length found \<le> length html" by (metis find_text_length)
  moreover have "0 < length html" using 2 by simp
  ultimately have "length found - 5 - 1 - length link < length html" by linarith
  then show ?case using 2 by simp
next
  case (3 html links found href)
  then have "length found \<le> length html" by (metis find_text_length)
  moreover have "0 < length html" using 3 by simp
  ultimately have "length found - 5 < length html" by linarith
  then show ?case using 3 by simp
qed simp

declare browser_extract_html_links.simps [simp del]

fun links_summary :: "string list \<Rightarrow> nat \<Rightarrow> string \<Rightarrow> nat \<Rightarrow> string" where
  "links_summary [] i out page_size = out"
| "links_summary (link # links) i out page_size =
     (if length out + length link + 16 \<ge> page_size then out
      else links_summary links (i + 1)
             (out @ ''['' @ u32_to_dec (of_nat (i + 1)) @ ''] '' @ link @ [LF]) page_size)"

definition links_heading :: string where
  "links_heading = [LF, LF] @ ''Links'' @ [LF] @ ''-----'' @ [LF]"

definition browser_append_links_summary :: "string list \<Rightarrow> string \<Rightarrow> nat \<Rightarrow> string" where
  "browser_append_links_summary links out page_size =
     (if page_size = 0 \<or> links = [] then out
      else if length out + 16 \<ge> page_size then out
      else links_summary links 0 (out @ links_heading) page_size)"

definition browser_finalize_page :: "string list \<Rightarrow> string \<Rightarrow> nat \<Rightarrow> string list \<times> string" where
  "browser_finalize_page links out page_size =
     (if out = [] then (links, out)
      else let links = (if links = [] then browser_extract_text_links out links else links)
           in (links, if links \<noteq> [] \<and> netstack_find_text out links_heading = None
                      then browser_append_links_summary links out page_size else out))"

section \<open>Facts about DNS messages\<close>

fun dotted :: "string list \<Rightarrow> string" where
  "dotted [] = []"
| "dotted [l] = l"
| "dotted (l # m # ls) = l @ CHR ''.'' # dotted (m # ls)"

definition dns_name :: "string list \<Rightarrow> bytes" where
  "dns_name ls = concat (map (\<lambda>l. char_of (length l) # l) ls)"

definition label_ok :: "string \<Rightarrow> bool" where
  "label_ok l \<longleftrightarrow> l \<noteq> [] \<and> CHR ''.'' \<notin> set l \<and> length l < 192"

lemma dns_name_simps [simp]:
  "dns_name [] = []" "dns_name (l # ls) = char_of (length l) # l @ dns_name ls"
  by (simp_all add: dns_name_def)

lemma dns_labels_dotted:
  "list_all label_ok ls \<Longrightarrow> length payload + length (dns_name ls) + 1 < 512 \<Longrightarrow>
   dns_labels (dotted ls) payload = Some (payload @ dns_name ls)"
proof (induction ls arbitrary: payload rule: dotted.induct)
  case 1
  show ?case by (simp add: dns_labels.simps)
next
  case (2 l)
  then have tw: "takeWhile (\<lambda>c. c \<noteq> CHR ''.'') l = l" by (auto simp: label_ok_def takeWhile_eq_all_conv)
  show ?case using 2 unfolding dotted.simps dns_labels.simps [of l payload] tw
    by (simp add: label_ok_def Let_def dns_labels.simps [of "[]"])
next
  case (3 l m ls)
  let ?c = "dotted (l # m # ls)"
  have tw: "takeWhile (\<lambda>c. c \<noteq> CHR ''.'') ?c = l"
  proof -
    have "\<forall>x\<in>set l. x \<noteq> CHR ''.''" using "3.prems" by (auto simp: label_ok_def)
    then show ?thesis by (simp add: takeWhile_append)
  qed
  have "dns_labels ?c payload = dns_labels (dotted (m # ls)) (payload @ [char_of (length l)] @ l)"
    using 3 unfolding dns_labels.simps [of ?c payload] tw by (simp add: label_ok_def Let_def)
  also have "\<dots> = Some ((payload @ [char_of (length l)] @ l) @ dns_name (m # ls))"
    using 3 by (intro "3.IH") simp_all
  finally show ?case by simp
qed

lemma word_and_le: "(w AND v :: 'a::len word) \<le> v"
  by (metis and.commute uint_and [folded word_le_def] AND_upper1 word_le_def uint_lt_0 linorder_not_le)

lemma skip_dns_name:
  assumes "list_all label_ok ls"
  shows "dns_skip_name (pre @ dns_name ls @ NUL # post) (length pre) = length pre + length (dns_name ls) + 1"
  using assms
proof (induction ls arbitrary: pre)
  case Nil
  show ?case by (subst dns_skip_name.simps) (simp add: byte_at_def nth_append)
next
  case (Cons l ls)
  let ?p = "pre @ dns_name (l # ls) @ NUL # post" and ?n = "length l"
  have l: "0 < ?n" "?n < 192" using Cons.prems by (simp_all add: label_ok_def)
  have b: "(byte_at ?p (length pre) :: u8) = of_nat ?n"
    using l by (intro byte_at_char) (simp_all add: nth_append)
  have u: "unat (of_nat ?n :: u8) = ?n" using l by (simp add: unsigned_of_nat take_bit_nat_eq_self)
  have "(of_nat ?n :: u8) \<noteq> 0" using u l by (metis unat_0 less_not_refl)
  moreover have "(of_nat ?n :: u8) AND 0xC0 \<noteq> 0xC0"
  proof
    assume "(of_nat ?n :: u8) AND 0xC0 = 0xC0"
    then have "(0xC0 :: u8) \<le> of_nat ?n" using word_and_le [of "0xC0 :: u8" "of_nat ?n"] by (simp add: and.commute)
    then show False using u l by (simp add: word_le_nat_alt)
  qed
  ultimately have "dns_skip_name ?p (length pre) = dns_skip_name ?p (length pre + ?n + 1)"
    using b u by (subst dns_skip_name.simps) (simp add: Let_def)
  moreover have "dns_skip_name ((pre @ char_of ?n # l) @ dns_name ls @ NUL # post) (length (pre @ char_of ?n # l)) =
      length (pre @ char_of ?n # l) + length (dns_name ls) + 1"
    using Cons.prems by (intro Cons.IH) simp
  ultimately show ?case by simp
qed

section \<open>Facts about pages\<close>

lemma append_char_bound: "length out < n \<Longrightarrow> length (netstack_append_char out n c) < n"
  by (simp add: netstack_append_char_def)

lemma append_text_bound: "length out < n \<Longrightarrow> length (netstack_append_text out n s) < n"
  by (induction s arbitrary: out) (simp_all add: netstack_append_text_def append_char_bound)

lemma append_text_eq: "length out < n \<Longrightarrow> netstack_append_text out n s = out @ take (n - 1 - length out) s"
proof (induction s arbitrary: out)
  case (Cons c s)
  show ?case
  proof (cases "length out + 1 < n")
    case True
    then have "n - 1 - length out = Suc (n - 1 - length (out @ [c]))" by simp
    then show ?thesis
      using Cons.IH [of "out @ [c]"] True by (simp add: netstack_append_text_def netstack_append_char_def)
  next
    case False
    then have n: "n - 1 - length out = 0" by simp
    have "netstack_append_text out n (c # s) = netstack_append_text out n s"
      using False by (simp add: netstack_append_text_def netstack_append_char_def)
    then show ?thesis using Cons n by simp
  qed
qed (simp add: netstack_append_text_def)

lemma open_tag_bound: "length (page st) < lim \<Longrightarrow> length (page (open_tag lim html st)) < lim"
  by (simp add: open_tag_def Let_def append_text_bound)

lemma html_step_bound:
  "html_step lim html st = Some (st', html') \<Longrightarrow> length (page st) < lim \<Longrightarrow> length (page st') < lim"
  by (auto simp: html_step_def text_char_def append_char_bound append_text_bound open_tag_bound
      split: if_splits option.splits prod.splits)

lemma html_loop_step: "html \<noteq> [] \<Longrightarrow> html_step lim html st = Some (st', html') \<Longrightarrow>
  html_loop lim html st = html_loop lim html' st'"
  by (subst html_loop.simps) simp

lemma html_loop_bound: "length (page st) < lim \<Longrightarrow> length (html_loop lim html st) < lim"
proof (induction lim html st rule: html_loop.induct)
  case (1 lim html st)
  show ?case
  proof (cases "html = [] \<or> html_step lim html st = None")
    case True
    then show ?thesis using 1 by (subst html_loop.simps) auto
  next
    case False
    then obtain st' html' where s: "html \<noteq> []" "html_step lim html st = Some (st', html')" by auto
    have "length (html_loop lim html' st') < lim"
      using 1 s html_step_bound [OF s(2)] by simp
    then show ?thesis by (simp add: html_loop_step [OF s])
  qed
qed

lemma html_in_tag:
  "in_tag st \<Longrightarrow> \<not> in_script st \<Longrightarrow> \<not> in_style st \<Longrightarrow> CHR ''>'' \<notin> set u \<Longrightarrow>
   html_loop lim (u @ CHR ''>'' # rest) st = html_loop lim rest (st\<lparr>in_tag := False\<rparr>)"
proof (induction u)
  case Nil
  then show ?case using html_loop_step [of "CHR ''>'' # rest" lim st] by (simp add: html_step_def)
next
  case (Cons c u)
  then have "c \<noteq> CHR ''>''" by auto
  with Cons show ?case using html_loop_step [of "c # u @ CHR ''>'' # rest" lim st] by (simp add: html_step_def)
qed

lemma script_is_skipped:
  assumes st: "\<not> in_tag st" "\<not> in_script st" "\<not> in_style st"
    and f: "netstack_find_text (''script'' @ body @ ''</script>'' @ rest) ''</script'' = Some (''</script>'' @ rest)"
  shows "html_loop lim (''<script'' @ body @ ''</script>'' @ rest) st = html_loop lim rest st"
proof -
  let ?tail = "''script'' @ body @ ''</script>'' @ rest"
  let ?s1 = "st\<lparr>in_tag := True, in_script := True\<rparr>" and ?s2 = "st\<lparr>in_tag := True, in_script := False\<rparr>"
  have s: "html_step lim (''<script'' @ body @ ''</script>'' @ rest) st = Some (?s1, ?tail)"
    using st by (simp add: html_step_def open_tag_def netstack_tag_starts_def)
  have "html_loop lim (''<script'' @ body @ ''</script>'' @ rest) st = html_loop lim ?tail ?s1"
    by (rule html_loop_step [OF _ s]) simp
  also have "\<dots> = html_loop lim (''</script>'' @ rest) ?s2"
  proof -
    have "html_step lim ?tail ?s1 = Some (?s2, ''</script>'' @ rest)"
      unfolding html_step_def using f by simp
    then show ?thesis by (rule html_loop_step [rotated]) simp
  qed
  also have "\<dots> = html_loop lim rest (?s2\<lparr>in_tag := False\<rparr>)"
    using html_in_tag [of ?s2 "''</script''" lim rest] st by simp
  also have "?s2\<lparr>in_tag := False\<rparr> = st" using st by (cases st) simp
  finally show ?thesis .
qed

section \<open>Facts about URLs\<close>

fun pct_decode :: "string \<Rightarrow> string" where
  "pct_decode (c # a # b # s) =
     (if c = CHR ''%'' then char_of (16 * hex_digit_val a + hex_digit_val b) # pct_decode s
      else c # pct_decode (a # b # s))"
| "pct_decode s = s"

lemma unreserved_not_percent: "unreserved c \<Longrightarrow> c \<noteq> CHR ''%''"
  by (auto simp: unreserved_def uchar_def isdigit_def)

lemma pct_decode_char: "c \<noteq> CHR ''%'' \<Longrightarrow> pct_decode (c # s) = c # pct_decode s"
proof (cases s)
  case (Cons a t)
  then show "c \<noteq> CHR ''%'' \<Longrightarrow> ?thesis" by (cases t) auto
qed simp

lemma pct_decode_percent: "pct_decode (percent c @ s) = c # pct_decode s"
proof -
  have "(of_char c :: nat) div 16 < 16" using of_char_less [of c] by linarith
  then have "hex_digit_val (hex_digits ! (of_char c div 16 mod 16)) = of_char c div 16"
    "hex_digit_val (hex_digits ! (of_char c mod 16)) = of_char c mod 16"
    by (simp_all add: hex_digit_val_nth)
  moreover have "16 * (of_char c div 16) + of_char c mod 16 = (of_char c :: nat)" by simp
  ultimately show ?thesis by (simp add: percent_def)
qed

lemma bridge_loop_decodes:
  "bridge_loop s out lim = Some r \<Longrightarrow> \<exists>e. r = out @ e \<and> pct_decode e = s \<and> length r < lim \<or> s = [] \<and> r = out"
proof (induction s arbitrary: out)
  case (Cons c s)
  let ?o = "out @ (if unreserved c then [c] else percent c)"
  have "bridge_loop s ?o lim = Some r" and lim: "length ?o < lim"
    using Cons.prems by (auto simp: percent_def split: if_splits)
  then obtain e where e: "r = ?o @ e" "pct_decode e = s" "length r < lim"
    using Cons.IH [of ?o] by (cases "s = []") auto
  have "pct_decode ((if unreserved c then [c] else percent c) @ e) = c # s"
    using e(2) by (simp add: pct_decode_char unreserved_not_percent pct_decode_percent)
  with e show ?case by auto
qed auto

text \<open>An entity does not end a run of white space: the space after it is lost.\<close>

lemma entity_loses_space: "netstack_render_html_body ''R &amp; D'' 64 = ''R &D''"
  by code_simp

section \<open>Properties\<close>



text \<open>The renderer stops on every page and its text, with the terminator, fits the output buffer.\<close>

theorem rendered_page_fits:
  assumes "0 < output_size"
  shows "length (netstack_render_html_body html output_size) < output_size"
  unfolding netstack_render_html_body_def using assms
  by (intro html_loop_bound) (simp add: html_start_def)

theorem rendered_page_fits_witness: "length (netstack_render_html_body ''<p>text</p>'' 3) < 3"
  by (rule rendered_page_fits) simp

text \<open>A bridge URL the kernel builds starts with the bridge's address, fits its buffer with the
  terminator, and carries the whole original URL: decoding its percent escapes gives it back.\<close>

theorem bridge_url_roundtrip:
  assumes "netstack_build_https_bridge_url s n = Some b" and "s \<noteq> []" and "31 < n"
  shows "take 31 b = https_bridge_prefix \<and> pct_decode (drop 31 b) = s \<and> length b < n"
proof -
  have p: "strcopy_limit '''' https_bridge_prefix n = https_bridge_prefix" "length https_bridge_prefix = 31"
    using assms(3) by (simp_all add: strcopy_limit_fits https_bridge_prefix_def)
  then have "bridge_loop s https_bridge_prefix n = Some b"
    using assms(1) by (auto simp: netstack_build_https_bridge_url_def split: if_splits)
  from bridge_loop_decodes [OF this] p assms(2) show ?thesis by auto
qed

theorem bridge_url_roundtrip_witness:
  "\<exists>b. netstack_build_https_bridge_url ''https://a.b/c?d=1'' 768 = Some b \<and> pct_decode (drop 31 b) = ''https://a.b/c?d=1''"
proof -
  have "netstack_build_https_bridge_url ''https://a.b/c?d=1'' 768 \<noteq> None"
    by (simp add: netstack_build_https_bridge_url_def https_bridge_prefix_def strcopy_limit_fits unreserved_def
        uchar_def isdigit_def percent_def)
  then obtain b where "netstack_build_https_bridge_url ''https://a.b/c?d=1'' 768 = Some b" by auto
  with bridge_url_roundtrip [OF this] show ?thesis by simp
qed

text \<open>A URL composed of a host name, a port in decimal and an absolute path is taken apart into
  exactly these, when host and port fit the host buffer and the path fits its own.\<close>

theorem parse_url_roundtrip:
  assumes "host \<noteq> []" and "CHR ''/'' \<notin> set host" and "CHR '':'' \<notin> set host"
    and "length host + 11 < host_size" and "unat port < 65536" and "CHR ''/'' # path = p" and "length p < path_size"
  shows "netstack_parse_url (''http://'' @ host @ '':'' @ u32_to_dec port @ p) host_size path_size =
    Some (Some \<lparr>url_host = host, url_path = p, url_port = ucast port, url_https = False\<rparr>)"
proof -
  let ?a = "host @ '':'' @ u32_to_dec port"
  have digits: "c \<noteq> CHR ''/'' \<and> c \<noteq> CHR '':''" if "c \<in> set (u32_to_dec port)" for c
    using u32_to_dec_isdigit [OF that] by (auto simp: isdigit_def uchar_def)
  then have noslash: "\<forall>c\<in>set ?a. c \<noteq> CHR ''/''" using assms(2) by auto
  have tw: "takeWhile (\<lambda>c. c \<noteq> CHR ''/'') (?a @ p) = ?a"
  proof -
    have "takeWhile (\<lambda>c. c \<noteq> CHR ''/'') (?a @ p) = ?a @ takeWhile (\<lambda>c. c \<noteq> CHR ''/'') p"
      by (rule takeWhile_append2) (use noslash in blast)
    then show ?thesis using assms(6) by auto
  qed
  have host: "takeWhile (\<lambda>c. c \<noteq> CHR '':'') ?a = host"
  proof -
    have "takeWhile (\<lambda>c. c \<noteq> CHR '':'') (host @ '':'' @ u32_to_dec port) =
        host @ takeWhile (\<lambda>c. c \<noteq> CHR '':'') ('':'' @ u32_to_dec port)"
      by (rule takeWhile_append2) (use assms(3) in blast)
    then show ?thesis by simp
  qed
  have len: "length ?a < host_size" "?a \<noteq> []" using assms(1,4) u32_to_dec_length [of port] by auto
  have colon: "strchr_s ?a (CHR '':'') = Some (CHR '':'' # u32_to_dec port)"
    using assms(3) by (simp add: strchr_s_append)
  have port: "atoi (u32_to_dec port) = Some (int (unat port))"
    using assms(5) by (intro atoi_u32_to_dec) simp
  have path: "strcopy_limit '''' p path_size = p" using assms(7) by (rule strcopy_limit_fits)
  have p: "p \<noteq> []" using assms(6) by auto
  have cast: "(word_of_int (int (unat port)) :: u16) = ucast port"
    by (rule bit_word_eqI) (simp add: bit_simps)
  have auth: "url_authority False 80 (?a @ p) host_size path_size =
      Some (Some \<lparr>url_host = host, url_path = p, url_port = ucast port, url_https = False\<rparr>)"
    unfolding url_authority_def tw host colon Let_def
    using len p path port cast by simp
  show ?thesis using auth by (simp add: netstack_parse_url_def)
qed

theorem parse_url_roundtrip_witness:
  "netstack_parse_url (''http://'' @ ''10.0.2.2'' @ '':'' @ u32_to_dec 8790 @ ''/run'') 64 512 =
     Some (Some \<lparr>url_host = ''10.0.2.2'', url_path = ''/run'', url_port = ucast (8790 :: u32), url_https = False\<rparr>)"
  by (rule parse_url_roundtrip [where path = "''run''"]) simp_all

text \<open>A query for a host name of labels (none empty, each shorter than 192 octets) holds the name
  label by label after the 12-octet header, and skipping that name, as the code does on the echoed
  question, lands exactly on the type and class fields.\<close>

theorem dns_query_name_wellformed:
  assumes "list_all label_ok ls" and "length (dns_name ls) < 495"
  shows "dns_query query_id (dotted ls) =
      Some (Some (dns_query_header query_id @ dns_name ls @ NUL # net_write_be16 1 @ net_write_be16 1)) \<and>
    dns_skip_name (dns_query_header query_id @ dns_name ls @ NUL # net_write_be16 1 @ net_write_be16 1) 12 =
      12 + length (dns_name ls) + 1"
proof -
  have h: "length (dns_query_header query_id) = 12" by (simp add: dns_query_header_def)
  have "dns_labels (dotted ls) (dns_query_header query_id) = Some (dns_query_header query_id @ dns_name ls)"
    using assms h by (intro dns_labels_dotted) simp_all
  then show ?thesis
    using assms(2) h skip_dns_name [OF assms(1), of "dns_query_header query_id"]
    by (simp add: dns_query_def)
qed

theorem dns_query_name_wellformed_witness:
  "dns_skip_name (dns_query_header 7 @ dns_name [''snsx'', ''os''] @ NUL # net_write_be16 1 @ net_write_be16 1) 12 = 21"
  using dns_query_name_wellformed [of "[''snsx'', ''os'']" 7] by (simp add: label_ok_def)

text \<open>A name whose labels fill the 512-octet query to its last checked octet is accepted, and the
  terminator, type and class are then written past the end of the array.\<close>

theorem dns_query_overflow:
  assumes "label_ok a" and "label_ok b" and "label_ok c" and "length a + length b + length c = 495"
  shows "dns_query query_id (dotted [a, b, c]) = None"
proof -
  have h: "length (dns_query_header query_id) = 12" by (simp add: dns_query_header_def)
  have "dns_labels (dotted [a, b, c]) (dns_query_header query_id) = Some (dns_query_header query_id @ dns_name [a, b, c])"
    using assms h by (intro dns_labels_dotted) simp_all
  then show ?thesis using assms(4) h by (simp add: dns_query_def)
qed

theorem dns_query_overflow_witness:
  "dns_query 1 (dotted [replicate 165 (CHR ''a''), replicate 165 (CHR ''b''), replicate 165 (CHR ''c'')]) = None"
  by (rule dns_query_overflow) (simp_all add: label_ok_def)

end
