(* ===== verification/NetHttp.thy ===== *)
theory NetHttp
  imports NetText
begin

text \<open>
  The HTTP client of the ARM64 kernel, \<open>src/arm64/kernel/main.c\<close>: sending a stream in
  segments, the request text, the TCP handshake, collecting the response, redirects and the
  page shown. \<open>network_refresh\<close> (firmware and drivers) is the parameter \<open>refresh\<close>. A fetch
  follows redirects by calling itself; the model counts the calls with fuel, and
  \<open>OutOfFuel\<close> is a chain of redirects longer than the fuel given.
\<close>

unbundle bit_operations_syntax

definition NET_HTTP_BUFFER_MAX :: nat where "NET_HTTP_BUFFER_MAX = 8192"
definition NET_HTTP_REQUEST_MAX :: nat where "NET_HTTP_REQUEST_MAX = 1024"
definition NET_TCP_SEGMENT_MAX :: nat where "NET_TCP_SEGMENT_MAX = 1024"
definition NET_TCP_FIN :: u8 where "NET_TCP_FIN = 0x01"
definition NET_TCP_SYN :: u8 where "NET_TCP_SYN = 0x02"
definition NET_TCP_RST :: u8 where "NET_TCP_RST = 0x04"
definition NET_TCP_PSH :: u8 where "NET_TCP_PSH = 0x08"
definition NET_TCP_ACK :: u8 where "NET_TCP_ACK = 0x10"

record 'd http_host = "'d net_host" +
  h_links :: "string list"

text \<open>The peer of a connection, as the functions pass it along.\<close>

record peer =
  p_mac :: bytes
  p_ip :: u32
  p_local_port :: u16
  p_remote_port :: u16

text \<open>Building and sending one segment; \<open>None\<close> when it does not fit the transmit buffer.\<close>

definition send_segment ::
    "'d nic \<Rightarrow> peer \<Rightarrow> u32 \<Rightarrow> u32 \<Rightarrow> u8 \<Rightarrow> bytes \<Rightarrow> ('d, 'a) net_host_scheme \<Rightarrow>
     (('d, 'a) net_host_scheme \<times> bool) option" where
  "send_segment nic peer seq ack flags payload h =
     (case net_build_tcp_frame h (p_mac peer) (ns_client_ip h) (p_ip peer) (p_local_port peer)
             (p_remote_port peer) seq ack flags payload of
        None \<Rightarrow> None
      | Some (h, frame) \<Rightarrow> Some (transmit nic frame h))"

function netstack_tcp_send_stream ::
    "'d nic \<Rightarrow> peer \<Rightarrow> u32 \<Rightarrow> u32 \<Rightarrow> bytes \<Rightarrow> ('d, 'a) net_host_scheme \<Rightarrow>
     (('d, 'a) net_host_scheme \<times> u32 \<times> bool) option" where
  "netstack_tcp_send_stream nic peer seq remote_seq data h =
     (if data = [] then Some (h, seq, True)
      else let chunk = take NET_TCP_SEGMENT_MAX data
           in case send_segment nic peer seq remote_seq (NET_TCP_ACK OR NET_TCP_PSH) chunk h of
             None \<Rightarrow> None
           | Some (h, False) \<Rightarrow> Some (h, seq, False)
           | Some (h, True) \<Rightarrow>
               netstack_tcp_send_stream nic peer (seq + of_nat (length chunk)) remote_seq
                 (drop (length chunk) data) h)"
  by auto
termination
  by (relation "measure (\<lambda>(nic, peer, seq, rseq, data, h). length data)") (auto simp: NET_TCP_SEGMENT_MAX_def)

declare netstack_tcp_send_stream.simps [simp del]

section \<open>The request\<close>

definition CRLF :: string where "CRLF = [CR, LF]"

text \<open>The composition in \<open>g_net_http_request\<close>; \<open>None\<close> when the \<open>strcat\<close>s overrun it.\<close>

definition http_request_text :: "string \<Rightarrow> string \<Rightarrow> string \<Rightarrow> string option \<Rightarrow> bytes \<Rightarrow> string option" where
  "http_request_text method path host content_type body =
     (let r = strcopy_limit '''' method NET_HTTP_REQUEST_MAX @ '' '' @ path @ '' HTTP/1.0'' @ CRLF @ ''Host: '' @ host @ CRLF @
            ''User-Agent: SNSX/0.3'' @ CRLF @ ''Connection: close'' @ CRLF @
            ''Accept: text/html, text/plain, application/json'' @ CRLF;
          r = (if body \<noteq> []
               then r @ ''Content-Type: '' @ (case content_type of Some t \<Rightarrow> t | None \<Rightarrow> ''text/plain'') @ CRLF @
                    ''Content-Length: '' @ u32_to_dec (of_nat (length body)) @ CRLF
               else r) @ CRLF
      in if length r + 1 > NET_HTTP_REQUEST_MAX then None else Some r)"

section \<open>Connecting\<close>

definition from_peer :: "peer \<Rightarrow> u32 \<Rightarrow> tcp_view \<Rightarrow> bool" where
  "from_peer peer client_ip v \<longleftrightarrow> t_src_ip v = p_ip peer \<and> t_dst_ip v = client_ip \<and>
     t_src_port v = p_remote_port peer \<and> t_dst_port v = p_local_port peer"

text \<open>One receive of either loop: the segment from the peer, if one came.\<close>

definition receive_segment ::
    "'d nic \<Rightarrow> peer \<Rightarrow> ('d, 'a) net_host_scheme \<Rightarrow> ('d, 'a) net_host_scheme \<times> bool \<times> tcp_view option" where
  "receive_segment nic peer h =
     (case receive nic h of
        (h, None) \<Rightarrow> (h, False, None)
      | (h, Some frame_len) \<Rightarrow>
          (case net_parse_tcp_packet (net_rx h) frame_len of
             None \<Rightarrow> (h, True, None)
           | Some v \<Rightarrow> (h, True, if from_peer peer (ns_client_ip h) v then Some v else None)))"

datatype handshake = Open u32 u32 | Failed string | Timeout

text \<open>What follows the peer's SYN-ACK: acknowledge, send the request, send the body.\<close>

definition send_request ::
    "'d nic \<Rightarrow> peer \<Rightarrow> u32 \<Rightarrow> u32 \<Rightarrow> string \<Rightarrow> bytes \<Rightarrow> ('d, 'a) net_host_scheme \<Rightarrow>
     (('d, 'a) net_host_scheme \<times> handshake) option" where
  "send_request nic peer seq remote_seq request body h =
     (case send_segment nic peer seq remote_seq NET_TCP_ACK [] h of
        None \<Rightarrow> None
      | Some (h, _) \<Rightarrow>
          (case netstack_tcp_send_stream nic peer seq remote_seq request h of
             None \<Rightarrow> None
           | Some (h, seq, False) \<Rightarrow> Some (h, Failed ''HTTP request transmit failed.'')
           | Some (h, seq, True) \<Rightarrow>
               (case netstack_tcp_send_stream nic peer seq remote_seq body h of
                  None \<Rightarrow> None
                | Some (h, seq, False) \<Rightarrow> Some (h, Failed ''HTTP body transmit failed.'')
                | Some (h, seq, True) \<Rightarrow> Some (h, Open seq remote_seq))))"

primrec handshake_loop ::
    "nat \<Rightarrow> 'd nic \<Rightarrow> peer \<Rightarrow> u32 \<Rightarrow> string \<Rightarrow> bytes \<Rightarrow> ('d, 'a) net_host_scheme \<Rightarrow>
     (('d, 'a) net_host_scheme \<times> handshake) option" where
  "handshake_loop 0 nic peer seq request body h = Some (h, Timeout)"
| "handshake_loop (Suc cycles) nic peer seq request body h =
     (case receive_segment nic peer h of
        (h', _, Some v) \<Rightarrow>
          if t_flags v AND (NET_TCP_SYN OR NET_TCP_ACK) = NET_TCP_SYN OR NET_TCP_ACK \<and> t_ack v = seq + 1
          then send_request nic peer (seq + 1) (t_seq v + 1) request body h'
          else handshake_loop cycles nic peer seq request body h'
      | (h', _, None) \<Rightarrow> handshake_loop cycles nic peer seq request body h')"

section \<open>The response\<close>

text \<open>Taking a segment: its payload when it is the next one, and whether to acknowledge.\<close>

definition take_payload :: "mem \<Rightarrow> tcp_view \<Rightarrow> bytes \<Rightarrow> u32 \<Rightarrow> bytes \<times> u32 \<times> bool" where
  "take_payload rx v response remote_seq =
     (if t_payload_len v > 0 \<and> t_seq v = remote_seq
      then let copy = (if length response + t_payload_len v \<ge> NET_HTTP_BUFFER_MAX
                       then NET_HTTP_BUFFER_MAX - length response - 1 else t_payload_len v)
           in (response @ bytes_at rx (t_payload v) copy, remote_seq + of_nat (t_payload_len v), True)
      else (response, remote_seq, False))"

definition is_fin :: "tcp_view \<Rightarrow> bool" where "is_fin v \<longleftrightarrow> t_flags v AND NET_TCP_FIN \<noteq> 0"

text \<open>The receive loop: the response so far, or the message of a reset. \<open>wait_cycle\<close> counts up.\<close>

primrec collect_loop ::
    "nat \<Rightarrow> nat \<Rightarrow> 'd nic \<Rightarrow> peer \<Rightarrow> u32 \<Rightarrow> u32 \<Rightarrow> bytes \<Rightarrow> bool \<Rightarrow> ('d, 'a) net_host_scheme \<Rightarrow>
     (('d, 'a) net_host_scheme \<times> (string + bytes \<times> bool)) option" where
  "collect_loop 0 wait_cycle nic peer seq remote_seq response have_data h = Some (h, Inr (response, have_data))"
| "collect_loop (Suc cycles) wait_cycle nic peer seq remote_seq response have_data h =
     (case receive_segment nic peer h of
        (h', False, _) \<Rightarrow>
          if have_data \<and> wait_cycle > 60 then Some (h', Inr (response, have_data))
          else collect_loop cycles (wait_cycle + 1) nic peer seq remote_seq response have_data h'
      | (h', True, None) \<Rightarrow> collect_loop cycles (wait_cycle + 1) nic peer seq remote_seq response have_data h'
      | (h', True, Some v) \<Rightarrow>
          if t_flags v AND NET_TCP_RST \<noteq> 0 then Some (h', Inl ''Remote host reset the TCP session.'')
          else (case take_payload (net_rx h') v response remote_seq of
            (response, remote_seq, taken) \<Rightarrow>
              let have_data = (have_data \<or> taken);
                  remote_seq = (if is_fin v then remote_seq + 1 else remote_seq)
              in (case (if t_payload_len v > 0 \<or> is_fin v
                        then map_option fst (send_segment nic peer seq remote_seq NET_TCP_ACK [] h')
                        else Some h') of
                    None \<Rightarrow> None
                  | Some h'' \<Rightarrow>
                      if is_fin v then Some (h'', Inr (response, have_data))
                      else collect_loop cycles (wait_cycle + 1) nic peer seq remote_seq response have_data h'')))"

text \<open>One exchange with the host of a URL: an error message, or the response's text.\<close>

definition http_transfer ::
    "'d nic \<Rightarrow> (('d, 'a) net_host_scheme \<Rightarrow> ('d, 'a) net_host_scheme) \<Rightarrow> string \<Rightarrow> url \<Rightarrow> string option \<Rightarrow> bytes \<Rightarrow>
     ('d, 'a) net_host_scheme \<Rightarrow> (('d, 'a) net_host_scheme \<times> (string + string)) option" where
  "http_transfer nic refresh method u content_type body h =
     (let h = (if ns_configured h then h else refresh h)
      in if \<not> ns_configured h then Some (h, Inl ''SNSX is offline. Run CONNECT in Network Center first.'')
         else case (case netstack_resolve_dns_name nic (url_host u) h of
                      Some (h, None) \<Rightarrow> netstack_resolve_dns_name nic (url_host u) (refresh h)
                    | r \<Rightarrow> r) of
           None \<Rightarrow> None
         | Some (h, None) \<Rightarrow> Some (h, Inl ''DNS lookup failed for that host.'')
         | Some (h, Some remote_ip) \<Rightarrow>
             (case netstack_next_hop_mac nic remote_ip h of
                (h, None) \<Rightarrow> Some (h, Inl ''SNSX could not resolve a MAC address for that destination.'')
              | (h, Some dest_mac) \<Rightarrow>
                  let h = h\<lparr>ns_last_host := strcopy_limit '''' (url_host u) 64,
                            ns_last_ip := net_ip_to_string remote_ip 24,
                            ns_browser_status := ''Opening TCP session and requesting the remote page.''\<rparr>
                  in (case http_request_text method (url_path u) (url_host u) content_type body of
                        None \<Rightarrow> None
                      | Some request \<Rightarrow>
                          let peer = \<lparr>p_mac = dest_mac, p_ip = remote_ip, p_local_port = ns_next_port h,
                                p_remote_port = url_port u\<rparr>;
                              (h, seq) = netstack_random_next (h\<lparr>ns_next_port := ns_next_port h + 1\<rparr>)
                          in (case send_segment nic peer seq 0 NET_TCP_SYN [] (drain nic h) of
                                None \<Rightarrow> None
                              | Some (h, False) \<Rightarrow> Some (h, Inl ''TCP SYN transmit failed.'')
                              | Some (h, True) \<Rightarrow>
                                  (case handshake_loop 220 nic peer seq request body h of
                                     None \<Rightarrow> None
                                   | Some (h, Failed m) \<Rightarrow> Some (h, Inl m)
                                   | Some (h, Timeout) \<Rightarrow> Some (h, Inl ''TCP handshake failed.'')
                                   | Some (h, Open seq remote_seq) \<Rightarrow>
                                       (case collect_loop 520 0 nic peer seq remote_seq [] False h of
                                          None \<Rightarrow> None
                                        | Some (h, Inl m) \<Rightarrow> Some (h, Inl m)
                                        | Some (h, Inr (response, have_data)) \<Rightarrow>
                                            Some (h, if have_data
                                              then Inr (takeWhile (\<lambda>c. c \<noteq> NUL) response)
                                              else Inl ''The remote host did not return any HTTP payload.'')))))))"

section \<open>Redirects and pages\<close>

definition status_line_of :: "string \<Rightarrow> string" where
  "status_line_of response =
     (case netstack_find_text response CRLF of
        None \<Rightarrow> ''HTTP response''
      | Some line_end \<Rightarrow> take (min (length response - length line_end) 95) response)"

definition headers_end :: "string \<Rightarrow> string option" where
  "headers_end response = netstack_find_text response (CRLF @ CRLF)"

definition header_of :: "string \<Rightarrow> string \<Rightarrow> string option" where
  "header_of response name =
     (if headers_end response = None then None else netstack_find_header_value response name)"

text \<open>The address to go on with, if the response is a redirect the client follows; \<open>None\<close> when
  the digits of the status overflow.\<close>

definition redirect_target :: "string \<Rightarrow> string \<Rightarrow> string \<Rightarrow> string option option" where
  "redirect_target method s response =
     (case netstack_parse_status_code (status_line_of response) of
        None \<Rightarrow> None
      | Some code \<Rightarrow>
          Some (case header_of response ''Location'' of
                  None \<Rightarrow> None
                | Some location \<Rightarrow>
                    let target = take (NET_URL_MAX - 1) (takeWhile (\<lambda>c. c \<noteq> CR \<and> c \<noteq> LF) location)
                    in if 300 \<le> code \<and> code < 400 \<and> method = ''GET'' \<and> target \<noteq> [] \<and> target \<noteq> s
                       then Some target else None))"

definition response_body :: "string \<Rightarrow> string" where
  "response_body response = (case headers_end response of Some e \<Rightarrow> drop 4 e | None \<Rightarrow> response)"

definition is_html :: "string \<Rightarrow> bool" where
  "is_html response =
     (case header_of response ''Content-Type'' of
        None \<Rightarrow> False
      | Some t \<Rightarrow> take 9 t = ''text/html'' \<or> take 17 t = ''application/xhtml'')"

text \<open>The text of the page and the links collected from it.\<close>

definition http_page :: "string \<Rightarrow> string \<Rightarrow> string \<Rightarrow> nat \<Rightarrow> string list \<Rightarrow> string list \<times> string" where
  "http_page response host last_ip output_size links =
     (let body = response_body response;
          (rendered, links) =
            (if is_html response
             then let r = netstack_render_html_body body BROWSER_PAGE_MAX
                  in (r, browser_extract_text_links r (browser_extract_html_links body links))
             else let r = strcopy_limit '''' body BROWSER_PAGE_MAX
                  in (r, browser_extract_text_links r links));
          out = foldl (\<lambda>out s. netstack_append_text out output_size s) ''''
            [status_line_of response, LF # ''Host: '', host, '' ('', last_ip, '')'' @ [LF, LF], rendered]
      in (links, browser_append_links_summary links out output_size))"

definition HTTPS_BRIDGE_DOWN :: string where
  "HTTPS_BRIDGE_DOWN = ''SNSX could not reach the HTTPS bridge. On the host Mac, run `make https-bridge` and try again.''"

primrec netstack_http_request_text ::
    "nat \<Rightarrow> 'd nic \<Rightarrow> (('d, 'a) http_host_scheme \<Rightarrow> ('d, 'a) http_host_scheme) \<Rightarrow>
     string \<Rightarrow> string \<Rightarrow> string option \<Rightarrow> bytes \<Rightarrow> nat \<Rightarrow> ('d, 'a) http_host_scheme \<Rightarrow>
     (('d, 'a) http_host_scheme \<times> string \<times> bool) outcome" where
  "netstack_http_request_text 0 nic refresh method s content_type body output_size h = OutOfFuel"
| "netstack_http_request_text (Suc fuel) nic refresh method s content_type body output_size h =
     (let h = h\<lparr>h_links := []\<rparr>; fail = (\<lambda>h m. Done (h, strcopy_limit '''' m output_size, False))
      in case netstack_parse_url s 64 512 of
        None \<Rightarrow> Undefined
      | Some None \<Rightarrow> fail h ''Browser supports snsx:// pages, http:// URLs, and https:// via the SNSX bridge.''
      | Some (Some u) \<Rightarrow>
          if url_https u then
            (if method \<noteq> ''GET'' \<or> body \<noteq> [] then fail h ''HTTPS bridge currently supports GET requests only.''
             else case netstack_build_https_bridge_url s NET_URL_MAX of
               None \<Rightarrow> fail h ''HTTPS bridge URL is too long for this SNSX browser build.''
             | Some bridge_url \<Rightarrow>
                 (case netstack_http_request_text fuel nic refresh ''GET'' bridge_url None [] output_size
                         (h\<lparr>ns_browser_status := ''Requesting HTTPS page through the SNSX host bridge.''\<rparr>) of
                    Done (h, out, True) \<Rightarrow>
                      Done (h\<lparr>ns_last_host := url_host u, ns_last_ip := ''via bridge'',
                              ns_browser_status := ''Remote page fetched over HTTPS through the SNSX host bridge.''\<rparr>, out, True)
                  | Done (h, out, False) \<Rightarrow> fail h HTTPS_BRIDGE_DOWN
                  | Undefined \<Rightarrow> Undefined
                  | OutOfFuel \<Rightarrow> OutOfFuel))
          else
            (case http_transfer nic refresh method u content_type body h of
               None \<Rightarrow> Undefined
             | Some (h, Inl m) \<Rightarrow> fail h m
             | Some (h, Inr response) \<Rightarrow>
                 (case redirect_target method s response of
                    None \<Rightarrow> Undefined
                  | Some (Some target) \<Rightarrow>
                      netstack_http_request_text fuel nic refresh ''GET'' target None [] output_size h
                  | Some None \<Rightarrow>
                      (case http_page response (url_host u) (ns_last_ip h) output_size (h_links h) of
                         (links, out) \<Rightarrow>
                           Done (h\<lparr>h_links := links, ns_browser_status := ''Remote page fetched over plain HTTP.''\<rparr>, out, True)))))"

definition netstack_http_fetch_text where
  "netstack_http_fetch_text fuel nic refresh s output_size h =
     netstack_http_request_text fuel nic refresh ''GET'' s None [] output_size h"

section \<open>Facts about transfers\<close>

text \<open>A device that records what it is given and never receives.\<close>

definition log_nic :: "bytes list nic" where
  "log_nic = \<lparr>nic_send = (\<lambda>d f. (d @ [f], True)), nic_drain = id, nic_receive = (\<lambda>d. (d, None))\<rparr>"

definition mem_of :: "bytes \<Rightarrow> mem" where
  "mem_of f i = (if i < length f then f ! i else NUL)"

text \<open>What a receiver that collects segments as \<open>collect_loop\<close> does makes of a frame.\<close>

definition deliver :: "bytes \<Rightarrow> bytes \<times> u32 \<Rightarrow> bytes \<times> u32" where
  "deliver frame = (\<lambda>(response, remote_seq).
     case net_parse_tcp_packet (mem_of frame) (length frame) of
       None \<Rightarrow> (response, remote_seq)
     | Some v \<Rightarrow> (case take_payload (mem_of frame) v response remote_seq of (r, s, _) \<Rightarrow> (r, s)))"

lemma holds_mem_of: "holds (mem_of f) f"
  by (simp add: holds_def mem_of_def)

lemma build_tcp_keeps:
  "net_build_tcp_frame h m s d sp dp seq ack fl pl = Some (h', f) \<Longrightarrow> \<exists>i. h' = h\<lparr>ns_next_ip_id := i\<rparr>"
  by (auto simp: net_build_tcp_frame_def Let_def split: if_splits)

lemma build_tcp_some:
  "length pl \<le> 1024 \<Longrightarrow> \<exists>h' f. net_build_tcp_frame h m s d sp dp seq ack fl pl = Some (h', f)"
  by (simp add: net_build_tcp_frame_def Let_def NET_FRAME_MAX_def)

lemma deliver_next:
  assumes "net_build_tcp_frame h (p_mac peer) src (p_ip peer) lp rp seq ack fl chunk = Some (h', f)"
    and "mac_ok (p_mac peer)" and "mac_ok (ns_client_mac h)" and "chunk \<noteq> []"
    and "length response + length chunk < NET_HTTP_BUFFER_MAX"
  shows "deliver f (response, seq) = (response @ chunk, seq + of_nat (length chunk))"
  using tcp_roundtrip [OF assms(1-3) holds_mem_of] assms(4,5)
  by (simp add: deliver_def take_payload_def)

text \<open>A device that takes every frame and carries the frames in order; \<open>log_nic\<close> is one, the e1000 driver another.\<close>

locale frame_carrier =
  fixes nic :: "'d nic" and ready :: "'d \<Rightarrow> bool" and wire :: "'d \<Rightarrow> bytes list"
  assumes carries: "ready d \<Longrightarrow> 0 < length f \<Longrightarrow> length f \<le> NET_FRAME_MAX \<Longrightarrow>
    \<exists>d'. nic_send nic d f = (d', True) \<and> ready d' \<and> wire d' = wire d @ [f]"

lemma tcp_frame_size:
  assumes "net_build_tcp_frame h m s d sp dp seq ack fl pl = Some (h', f)"
    and "mac_ok m" and "mac_ok (ns_client_mac h)"
  shows "0 < length f \<and> length f \<le> NET_FRAME_MAX"
proof -
  have e: "length (eth_header (54 + length pl) (Some m) (ns_client_mac h)) = 54 + length pl"
    using assms(2,3) by (intro eth_header_facts(1)) (simp_all add: dst_mac_ok_def)
  show ?thesis using assms(1) by (rule tcp_frame_eq) (simp add: e)
qed

context frame_carrier begin

lemma stream:
  fixes h :: "('d, 'a) net_host_scheme"
  assumes "mac_ok (p_mac peer)" and "mac_ok (ns_client_mac h)" and "ready (net_device h)"
    and "length response + length data < NET_HTTP_BUFFER_MAX"
  shows "\<exists>h' frames. netstack_tcp_send_stream nic peer seq rseq data h = Some (h', seq + of_nat (length data), True) \<and>
    ready (net_device h') \<and> wire (net_device h') = wire (net_device h) @ frames \<and>
    fold deliver frames (response, seq) = (response @ data, seq + of_nat (length data))"
  using assms(2-4)
proof (induction "length data" arbitrary: data seq h response rule: less_induct)
  case less
  show ?case
  proof (cases "data = []")
    case True
    then show ?thesis using less.prems(2) by (subst netstack_tcp_send_stream.simps) (auto intro: exI [of _ "[]"])
  next
    case False
    define chunk where "chunk = take NET_TCP_SEGMENT_MAX data"
    define rest where "rest = drop (length chunk) data"
    have chunk: "chunk \<noteq> []" "length chunk \<le> 1024" "data = chunk @ rest" "length rest < length data"
      using False by (auto simp: chunk_def rest_def NET_TCP_SEGMENT_MAX_def min_def)
    obtain h1 f where b: "net_build_tcp_frame h (p_mac peer) (ns_client_ip h) (p_ip peer) (p_local_port peer)
        (p_remote_port peer) seq rseq (NET_TCP_ACK OR NET_TCP_PSH) chunk = Some (h1, f)"
      using build_tcp_some [OF chunk(2)] by blast
    obtain i where i: "h1 = h\<lparr>ns_next_ip_id := i\<rparr>" using build_tcp_keeps [OF b] by blast
    obtain d' where d': "nic_send nic (net_device h) f = (d', True)" "ready d'" "wire d' = wire (net_device h) @ [f]"
      using carries [OF less.prems(2)] tcp_frame_size [OF b assms(1) less.prems(1)] by blast
    let ?h2 = "h1\<lparr>net_device := d'\<rparr>"
    have send: "send_segment nic peer seq rseq (NET_TCP_ACK OR NET_TCP_PSH) chunk h = Some (?h2, True)"
      using b d'(1) i by (simp add: send_segment_def transmit_def)
    have step: "netstack_tcp_send_stream nic peer seq rseq data h =
        netstack_tcp_send_stream nic peer (seq + of_nat (length chunk)) rseq rest ?h2"
      using False send
      by (subst netstack_tcp_send_stream.simps) (simp add: Let_def flip: chunk_def rest_def)
    have "deliver f (response, seq) = (response @ chunk, seq + of_nat (length chunk))"
      using b assms(1) less.prems chunk by (intro deliver_next) auto
    moreover obtain h' frames where
      "netstack_tcp_send_stream nic peer (seq + of_nat (length chunk)) rseq rest ?h2 =
        Some (h', seq + of_nat (length chunk) + of_nat (length rest), True)"
      "ready (net_device h')" "wire (net_device h') = wire (net_device ?h2) @ frames"
      "fold deliver frames (response @ chunk, seq + of_nat (length chunk)) =
        ((response @ chunk) @ rest, seq + of_nat (length chunk) + of_nat (length rest))"
      using less.hyps [OF chunk(4), of ?h2 "response @ chunk" "seq + of_nat (length chunk)"] less.prems chunk(3) i d'(2)
      by auto
    ultimately show ?thesis
      using step i chunk(3) d'(3) by (intro exI [of _ h'] exI [of _ "f # frames"]) (simp add: algebra_simps)
  qed
qed

end

interpretation log_wire: frame_carrier log_nic "\<lambda>d. True" "\<lambda>d. d"
  by unfold_locales (simp add: log_nic_def)

lemma stream_delivered_from:
  fixes h :: "(bytes list, 'a) net_host_scheme"
  assumes "mac_ok (p_mac peer)" and "mac_ok (ns_client_mac h)"
    and "length response + length data < NET_HTTP_BUFFER_MAX"
  shows "\<exists>h' frames. netstack_tcp_send_stream log_nic peer seq rseq data h =
      Some (h', seq + of_nat (length data), True) \<and> net_device h' = net_device h @ frames \<and>
    fold deliver frames (response, seq) = (response @ data, seq + of_nat (length data))"
  using log_wire.stream [OF assms(1,2) _ assms(3)] by auto

lemma take_payload_bound:
  "take_payload rx v response seq = (r, s, t) \<Longrightarrow> length response < NET_HTTP_BUFFER_MAX \<Longrightarrow> length r < NET_HTTP_BUFFER_MAX"
  by (auto simp: take_payload_def Let_def bytes_at_def split: if_splits)

lemma collect_loop_bound:
  "collect_loop n w nic peer seq rseq response dt h = Some (h', Inr (r, b)) \<Longrightarrow>
   length response < NET_HTTP_BUFFER_MAX \<Longrightarrow> length r < NET_HTTP_BUFFER_MAX"
  by (induction n arbitrary: w rseq response dt h)
     (auto simp: Let_def split: prod.splits bool.splits option.splits if_splits dest: take_payload_bound)

lemma redirect_not_get: "method \<noteq> ''GET'' \<Longrightarrow> redirect_target method s r \<in> {None, Some None}"
  by (auto simp: redirect_target_def Let_def split: option.splits)

section \<open>Properties\<close>

text \<open>What is sent as a stream arrives: a sequence of octets that fits the receiver's buffer, cut
  into segments and framed, is put together again exactly by a receiver that takes the segments the
  way the kernel takes a response, and both sides end at the sequence number past the last octet.\<close>

theorem stream_delivered:
  fixes h :: "(bytes list, 'a) net_host_scheme"
  assumes "mac_ok (p_mac peer)" and "mac_ok (ns_client_mac h)" and "length data < NET_HTTP_BUFFER_MAX"
  shows "\<exists>h' frames. netstack_tcp_send_stream log_nic peer seq rseq data h =
      Some (h', seq + of_nat (length data), True) \<and> net_device h' = net_device h @ frames \<and>
    fold deliver frames ([], seq) = (data, seq + of_nat (length data))"
  using stream_delivered_from [of peer h "[]" data seq rseq] assms by simp

definition demo_host :: "bytes list net_host" where
  "demo_host = net.extend demo_net \<lparr>net_device = [], net_rx = (\<lambda>i. NUL)\<rparr>"

lemma demo_host_simps [simp]: "ns_client_mac demo_host = ns_client_mac demo_net" "net_device demo_host = []"
  by (simp_all add: demo_host_def net.defs)

theorem stream_delivered_witness:
  "\<exists>h' frames. netstack_tcp_send_stream log_nic \<lparr>p_mac = ''router'', p_ip = 2, p_local_port = 49152, p_remote_port = 80\<rparr>
      0xFFFFFFFF 9 (replicate 3000 (CHR ''x'')) demo_host = Some (h', 2999, True) \<and>
    fold deliver frames ([], 0xFFFFFFFF) = (replicate 3000 (CHR ''x''), 2999)"
proof -
  have w: "(4294970295 :: u32) = 2999" by simp
  show ?thesis
    unfolding w [symmetric]
  using stream_delivered [of "\<lparr>p_mac = ''router'', p_ip = 2, p_local_port = 49152, p_remote_port = 80\<rparr>" demo_host
      "replicate 3000 (CHR ''x'')" "0xFFFFFFFF" 9] demo_net_mac
    by (auto simp: mac_ok_def NET_HTTP_BUFFER_MAX_def)
qed

text \<open>However much a server sends, the response kept leaves room for its terminator in the
  8192-octet buffer.\<close>

theorem response_fits:
  assumes "collect_loop 520 0 nic peer seq remote_seq [] False h = Some (h', Inr (response, have_data))"
  shows "length response < 8192"
  using collect_loop_bound [OF assms] by (simp add: NET_HTTP_BUFFER_MAX_def)

theorem response_fits_witness:
  "\<exists>h' response b. collect_loop 520 0 log_nic \<lparr>p_mac = ''router'', p_ip = 2, p_local_port = 49152, p_remote_port = 80\<rparr>
     1 2 [] False demo_host = Some (h', Inr (response, b)) \<and> length response < 8192"
proof -
  have quiet: "collect_loop n w log_nic p s r [] False h = Some (h, Inr ([], False))" for n w p s r and h :: "bytes list net_host"
    by (induction n arbitrary: w) (simp_all add: receive_segment_def receive_def log_nic_def)
  from response_fits [OF quiet] quiet show ?thesis by blast
qed

lemma not_get_returns:
  assumes "method \<noteq> ''GET''"
  shows "netstack_http_request_text (Suc fuel) nic refresh method s content_type body output_size h \<noteq> OutOfFuel"
proof (cases "netstack_parse_url s 64 512")
  case (Some p)
  show ?thesis
  proof (cases "\<exists>u. p = Some u \<and> \<not> url_https u")
    case True
    then obtain u where u: "p = Some u" "\<not> url_https u" by blast
    show ?thesis
    proof (cases "http_transfer nic refresh method u content_type body (h\<lparr>h_links := []\<rparr>)")
      case t: (Some t)
      obtain h' r where "t = (h', r)" by force
      then show ?thesis
        using Some u t redirect_not_get [OF assms, of s "projr r"]
        by (cases r) (auto split: prod.splits)
    qed (use Some u in simp)
  next
    case False
    with Some assms show ?thesis by (cases p) (simp_all add: Let_def)
  qed
qed simp

text \<open>A request that is not a GET always comes back: only a GET follows redirects, so one
  activation of the function suffices whatever the servers answer.\<close>

theorem post_returns:
  assumes "method \<noteq> ''GET''"
  shows "netstack_http_request_text (Suc fuel) nic refresh method s content_type body output_size h \<noteq> OutOfFuel"
  using assms by (rule not_get_returns)

theorem post_returns_witness:
  "netstack_http_request_text (Suc 0) log_nic id ''POST'' ''http://a/'' None ''x'' 64 (net_host.extend demo_host \<lparr>h_links = []\<rparr>)
     \<noteq> OutOfFuel"
  by (rule post_returns) simp

end
