(* ===== verification/E1000.thy ===== *)
theory E1000
  imports NetHttp
begin

text \<open>
  The driver of the e1000 network adapter and the layer that sends and receives frames, in
  \<open>src/arm64/kernel/main.c\<close>. The adapter shares memory with the driver: the two descriptor rings and
  their buffers. That memory with the adapter's own state \<open>'d\<close> is the record \<open>card\<close>. The adapter acts when it is
  accessed through the firmware's PCI protocol (\<open>pci_io\<close>, whose functions may be missing) and while the
  firmware's \<open>stall\<close> lets time pass; each of these is a parameter that may change the whole card. The addresses
  of the rings and buffers, chosen by the linker, are in \<open>firmware\<close> too.
\<close>

unbundle bit_operations_syntax

type_synonym u64 = "64 word"

section \<open>Descriptors, card and driver\<close>

record rx_desc =
  rx_addr :: u64
  rx_length :: u16
  rx_checksum :: u16
  rx_status :: u8
  rx_errors :: u8
  rx_special :: u16

record tx_desc =
  tx_addr :: u64
  tx_length :: u16
  tx_cso :: u8
  tx_cmd :: u8
  tx_status :: u8
  tx_css :: u8
  tx_special :: u16

record 'd card =
  rx_ring :: "rx_desc list"
  tx_ring :: "tx_desc list"
  rx_buffers :: "bytes list"
  tx_buffers :: "bytes list"
  adapter :: 'd

text \<open>Registers by bar and offset; configuration space by offset and number of octets, None if the call fails.\<close>

record 'd pci_io =
  mem_read :: "(u8 \<Rightarrow> nat \<Rightarrow> 'd card \<Rightarrow> 'd card \<times> u32) option"
  mem_write :: "(u8 \<Rightarrow> nat \<Rightarrow> u32 \<Rightarrow> 'd card \<Rightarrow> 'd card) option"
  io_read :: "(u8 \<Rightarrow> nat \<Rightarrow> 'd card \<Rightarrow> 'd card \<times> u32) option"
  io_write :: "(u8 \<Rightarrow> nat \<Rightarrow> u32 \<Rightarrow> 'd card \<Rightarrow> 'd card) option"
  config_read :: "(nat \<Rightarrow> nat \<Rightarrow> 'd card \<Rightarrow> 'd card \<times> bytes option) option"
  config_write :: "(nat \<Rightarrow> u16 \<Rightarrow> 'd card \<Rightarrow> 'd card) option"

text \<open>The handles with the PCI protocol, None where the search fails, and for each handle its protocol.\<close>

record 'd firmware =
  pci_handles :: "'d pci_io option list option"
  stall_service :: "(nat \<Rightarrow> 'd card \<Rightarrow> 'd card) option"
  rx_ring_at :: u64
  tx_ring_at :: u64
  rx_buffer_at :: "nat \<Rightarrow> u64"
  tx_buffer_at :: "nat \<Rightarrow> u64"

record 'd e1000_driver =
  present :: bool
  use_mmio :: bool
  initialized :: bool
  link_up :: bool
  bar_index :: u8
  vendor_id :: u16
  device_id :: u16
  pci :: "'d pci_io option"
  tx_tail :: nat
  rx_head :: nat
  mac :: "u8 list"
  card :: "'d card"

definition RX_RING :: nat where "RX_RING = 32"
definition TX_RING :: nat where "TX_RING = 8"

definition stall :: "'d firmware \<Rightarrow> nat \<Rightarrow> 'd e1000_driver \<Rightarrow> 'd e1000_driver" where
  "stall fw microseconds g =
     (case stall_service fw of None \<Rightarrow> g | Some f \<Rightarrow> g\<lparr>card := f microseconds (card g)\<rparr>)"

section \<open>Registers\<close>

definition E1000_CTRL :: nat where "E1000_CTRL = 0x0000"
definition E1000_STATUS :: nat where "E1000_STATUS = 0x0008"
definition E1000_EERD :: nat where "E1000_EERD = 0x0014"
definition E1000_ICR :: nat where "E1000_ICR = 0x00C0"
definition E1000_IMC :: nat where "E1000_IMC = 0x00D8"
definition E1000_RCTL :: nat where "E1000_RCTL = 0x0100"
definition E1000_TCTL :: nat where "E1000_TCTL = 0x0400"
definition E1000_TIPG :: nat where "E1000_TIPG = 0x0410"
definition E1000_RDBAL :: nat where "E1000_RDBAL = 0x2800"
definition E1000_RDBAH :: nat where "E1000_RDBAH = 0x2804"
definition E1000_RDLEN :: nat where "E1000_RDLEN = 0x2808"
definition E1000_RDH :: nat where "E1000_RDH = 0x2810"
definition E1000_RDT :: nat where "E1000_RDT = 0x2818"
definition E1000_TDBAL :: nat where "E1000_TDBAL = 0x3800"
definition E1000_TDBAH :: nat where "E1000_TDBAH = 0x3804"
definition E1000_TDLEN :: nat where "E1000_TDLEN = 0x3808"
definition E1000_TDH :: nat where "E1000_TDH = 0x3810"
definition E1000_TDT :: nat where "E1000_TDT = 0x3818"
definition E1000_RAL :: nat where "E1000_RAL = 0x5400"
definition E1000_RAH :: nat where "E1000_RAH = 0x5404"

definition e1000_reg_read32 :: "nat \<Rightarrow> 'd e1000_driver \<Rightarrow> 'd e1000_driver \<times> u32" where
  "e1000_reg_read32 offset g =
     (case pci g of
        None \<Rightarrow> (g, 0)
      | Some p \<Rightarrow>
          if \<not> present g then (g, 0)
          else case (if use_mmio g then mem_read p else io_read p) of
            None \<Rightarrow> (g, 0)
          | Some f \<Rightarrow> (case f (bar_index g) offset (card g) of (c, value) \<Rightarrow> (g\<lparr>card := c\<rparr>, value)))"

definition e1000_reg_write32 :: "nat \<Rightarrow> u32 \<Rightarrow> 'd e1000_driver \<Rightarrow> 'd e1000_driver" where
  "e1000_reg_write32 offset value g =
     (case pci g of
        None \<Rightarrow> g
      | Some p \<Rightarrow>
          if \<not> present g then g
          else case (if use_mmio g then mem_write p else io_write p) of
            None \<Rightarrow> g
          | Some f \<Rightarrow> g\<lparr>card := f (bar_index g) offset value (card g)\<rparr>)"

text \<open>Writes to registers, in order.\<close>

definition reg_writes :: "(nat \<times> u32) list \<Rightarrow> 'd e1000_driver \<Rightarrow> 'd e1000_driver" where
  "reg_writes ws g = fold (\<lambda>(offset, value). e1000_reg_write32 offset value) ws g"

section \<open>The hardware address\<close>

fun eeprom_poll :: "nat \<Rightarrow> 'd firmware \<Rightarrow> 'd e1000_driver \<Rightarrow> 'd e1000_driver \<times> u16" where
  "eeprom_poll 0 fw g = (g, 0)"
| "eeprom_poll (Suc n) fw g =
     (case e1000_reg_read32 E1000_EERD g of (g, value) \<Rightarrow>
        if value AND push_bit 4 1 \<noteq> 0 then (g, ucast (drop_bit 16 value)) else eeprom_poll n fw (stall fw 50 g))"

definition e1000_eeprom_read :: "'d firmware \<Rightarrow> u8 \<Rightarrow> 'd e1000_driver \<Rightarrow> 'd e1000_driver \<times> u16" where
  "e1000_eeprom_read fw address g =
     eeprom_poll 1000 fw (e1000_reg_write32 E1000_EERD (0x00000001 OR push_bit 8 (ucast address)) g)"

definition zero_mac :: "u8 list" where "zero_mac = [0, 0, 0, 0, 0, 0]"
definition ff_mac :: "u8 list" where "ff_mac = [0xFF, 0xFF, 0xFF, 0xFF, 0xFF, 0xFF]"

definition mac_of_registers :: "u32 \<Rightarrow> u32 \<Rightarrow> u8 list" where
  "mac_of_registers ral rah =
     [ucast (ral AND 0xFF), ucast (drop_bit 8 ral AND 0xFF), ucast (drop_bit 16 ral AND 0xFF), ucast (drop_bit 24 ral AND 0xFF),
      ucast (rah AND 0xFF), ucast (drop_bit 8 rah AND 0xFF)]"

definition mac_of_eeprom :: "u16 \<Rightarrow> u16 \<Rightarrow> u16 \<Rightarrow> u8 list" where
  "mac_of_eeprom word0 word1 word2 =
     [ucast (word0 AND 0xFF), ucast (drop_bit 8 word0), ucast (word1 AND 0xFF), ucast (drop_bit 8 word1),
      ucast (word2 AND 0xFF), ucast (drop_bit 8 word2)]"

definition e1000_read_mac :: "'d firmware \<Rightarrow> 'd e1000_driver \<Rightarrow> 'd e1000_driver \<times> u8 list" where
  "e1000_read_mac fw g =
     (case e1000_reg_read32 E1000_RAL g of (g, ral) \<Rightarrow>
      case e1000_reg_read32 E1000_RAH g of (g, rah) \<Rightarrow>
      if mac_of_registers ral rah = zero_mac \<or> mac_of_registers ral rah = ff_mac then
        (case e1000_eeprom_read fw 0 g of (g, word0) \<Rightarrow>
         case e1000_eeprom_read fw 1 g of (g, word1) \<Rightarrow>
         case e1000_eeprom_read fw 2 g of (g, word2) \<Rightarrow> (g, mac_of_eeprom word0 word1 word2))
      else (g, mac_of_registers ral rah))"

definition e1000_mac_is_valid :: "u8 list \<Rightarrow> bool" where
  "e1000_mac_is_valid m \<longleftrightarrow> m \<noteq> zero_mac \<and> m \<noteq> ff_mac \<and> m ! 0 AND 0x01 = 0"

definition e1000_build_fallback_mac :: "'d e1000_driver \<Rightarrow> u8 list" where
  "e1000_build_fallback_mac g = [0x02, 0x53, 0x4E, 0x53, 0x58, ucast ((device_id g XOR 0xA5) AND 0xFF)]"

definition e1000_program_mac :: "u8 list \<Rightarrow> 'd e1000_driver \<Rightarrow> 'd e1000_driver" where
  "e1000_program_mac m =
     reg_writes
       [(E1000_RAL, ucast (m ! 0) OR push_bit 8 (ucast (m ! 1)) OR push_bit 16 (ucast (m ! 2)) OR push_bit 24 (ucast (m ! 3))),
        (E1000_RAH, ucast (m ! 4) OR push_bit 8 (ucast (m ! 5)) OR 0x80000000)]"

section \<open>Finding the adapter\<close>

definition le16 :: "bytes \<Rightarrow> nat \<Rightarrow> u16" where
  "le16 b i = of_char (b ! i) OR push_bit 8 (of_char (b ! (i + 1)))"

definition le32 :: "bytes \<Rightarrow> nat \<Rightarrow> u32" where
  "le32 b i = of_char (b ! i) OR push_bit 8 (of_char (b ! (i + 1))) OR push_bit 16 (of_char (b ! (i + 2))) OR push_bit 24 (of_char (b ! (i + 3)))"

definition on_pci :: "('d card \<Rightarrow> 'd card) \<Rightarrow> 'd e1000_driver \<Rightarrow> 'd e1000_driver" where
  "on_pci f g = g\<lparr>card := f (card g)\<rparr>"

text \<open>What a read leaves in a buffer that held zeros.\<close>

definition filled :: "nat \<Rightarrow> bytes \<Rightarrow> bytes" where
  "filled n bs = take n (bs @ replicate n NUL)"

definition e1000_enable_pci_bus_mastering :: "'d e1000_driver \<Rightarrow> 'd e1000_driver" where
  "e1000_enable_pci_bus_mastering g =
     (case pci g of
        None \<Rightarrow> g
      | Some p \<Rightarrow>
          (case (config_read p, config_write p) of
             (Some rd, Some wr) \<Rightarrow>
               if \<not> present g then g
               else (case rd 0x04 2 (card g) of
                  (c, None) \<Rightarrow> g\<lparr>card := c\<rparr>
                | (c, Some command) \<Rightarrow> g\<lparr>card := wr 0x04 (le16 (filled 2 command) 0 OR 0x0007) c\<rparr>)
           | _ \<Rightarrow> g))"

definition supported :: "bytes \<Rightarrow> bool" where
  "supported config \<longleftrightarrow> config ! 11 = CHR 0x02 \<and> le16 config 0 = 0x8086 \<and> le16 config 2 \<in> {0x100E, 0x100F, 0x1010, 0x1011}"

definition adopt :: "'d pci_io \<Rightarrow> bytes \<Rightarrow> 'd e1000_driver \<Rightarrow> 'd e1000_driver" where
  "adopt p config g =
     (let bar0 = le32 config 0x10; bar1 = le32 config 0x14;
          g = g\<lparr>present := True, pci := Some p, vendor_id := le16 config 0, device_id := le16 config 2\<rparr>
      in if bar0 AND 1 = 0 then g\<lparr>use_mmio := True, bar_index := 0\<rparr>
         else if bar1 AND 1 \<noteq> 0 then g\<lparr>use_mmio := False, bar_index := 1\<rparr>
         else g\<lparr>use_mmio := False, bar_index := 0\<rparr>)"

fun probe_loop :: "'d pci_io option list \<Rightarrow> 'd e1000_driver \<Rightarrow> 'd e1000_driver" where
  "probe_loop [] g = g"
| "probe_loop (None # handles) g = probe_loop handles g"
| "probe_loop (Some p # handles) g =
     (case config_read p of
        None \<Rightarrow> probe_loop handles g
      | Some rd \<Rightarrow>
          (case rd 0 64 (card g) of
             (c, None) \<Rightarrow> probe_loop handles (g\<lparr>card := c\<rparr>)
           | (c, Some config) \<Rightarrow>
               if supported (filled 64 config) then adopt p (filled 64 config) (g\<lparr>card := c\<rparr>) else probe_loop handles (g\<lparr>card := c\<rparr>)))"

text \<open>The driver after its \<open>memset\<close>.\<close>

definition no_adapter :: "'d card \<Rightarrow> 'd e1000_driver" where
  "no_adapter c =
     \<lparr>present = False, use_mmio = False, initialized = False, link_up = False, bar_index = 0, vendor_id = 0, device_id = 0,
      pci = None, tx_tail = 0, rx_head = 0, mac = zero_mac, card = c\<rparr>"

definition e1000_probe :: "'d firmware \<Rightarrow> 'd e1000_driver \<Rightarrow> 'd e1000_driver \<times> bool" where
  "e1000_probe fw g =
     (case pci_handles fw of
        None \<Rightarrow> (no_adapter (card g), False)
      | Some handles \<Rightarrow> let g = probe_loop handles (no_adapter (card g)) in (g, present g))"

section \<open>Starting the adapter\<close>

definition fresh_rings :: "'d firmware \<Rightarrow> 'd card \<Rightarrow> 'd card" where
  "fresh_rings fw c =
     c\<lparr>rx_ring := map (\<lambda>i. \<lparr>rx_addr = rx_buffer_at fw i, rx_length = 0, rx_checksum = 0, rx_status = 0, rx_errors = 0, rx_special = 0\<rparr>) [0..<RX_RING],
       tx_ring := map (\<lambda>i. \<lparr>tx_addr = tx_buffer_at fw i, tx_length = 0, tx_cso = 0, tx_cmd = 0, tx_status = 0x01, tx_css = 0, tx_special = 0\<rparr>) [0..<TX_RING],
       rx_buffers := replicate RX_RING (replicate 2048 NUL),
       tx_buffers := replicate TX_RING (replicate NET_FRAME_MAX NUL)\<rparr>"

definition read_link :: "'d e1000_driver \<Rightarrow> 'd e1000_driver" where
  "read_link g = (case e1000_reg_read32 E1000_STATUS g of (g, status) \<Rightarrow> g\<lparr>link_up := (status AND 0x00000002 \<noteq> 0)\<rparr>)"

text \<open>Interrupts off, reset, link up.\<close>

definition reset_adapter :: "'d firmware \<Rightarrow> 'd e1000_driver \<Rightarrow> 'd e1000_driver" where
  "reset_adapter fw g =
     (case e1000_reg_read32 E1000_ICR (e1000_reg_write32 E1000_IMC 0xFFFFFFFF g) of (g, _) \<Rightarrow>
      case e1000_reg_read32 E1000_CTRL g of (g, ctrl) \<Rightarrow>
      case e1000_reg_read32 E1000_CTRL (stall fw 20000 (e1000_reg_write32 E1000_CTRL (ctrl OR 0x04000000) g)) of (g, ctrl) \<Rightarrow>
      e1000_reg_write32 E1000_CTRL (ctrl OR 0x00000040 OR 0x00000020) g)"

definition ring_registers :: "'d firmware \<Rightarrow> (nat \<times> u32) list" where
  "ring_registers fw =
     [(E1000_RDBAL, ucast (rx_ring_at fw)), (E1000_RDBAH, ucast (drop_bit 32 (rx_ring_at fw))),
      (E1000_RDLEN, of_nat (16 * RX_RING)), (E1000_RDH, 0), (E1000_RDT, of_nat (RX_RING - 1)),
      (E1000_TDBAL, ucast (tx_ring_at fw)), (E1000_TDBAH, ucast (drop_bit 32 (tx_ring_at fw))),
      (E1000_TDLEN, of_nat (16 * TX_RING)), (E1000_TDH, 0), (E1000_TDT, 0),
      (E1000_TIPG, 0x0060200A), (E1000_TCTL, 0x00000002 OR 0x00000008 OR push_bit 4 15 OR push_bit 12 64),
      (E1000_RCTL, 0x00000002 OR 0x00008000 OR 0x04000000)]"

definition e1000_initialize :: "'d firmware \<Rightarrow> 'd e1000_driver \<Rightarrow> 'd e1000_driver \<times> bool" where
  "e1000_initialize fw g =
     (if \<not> present g then (g, False)
      else let g = e1000_enable_pci_bus_mastering g
      in if initialized g then (read_link g, True)
      else let g = reg_writes (ring_registers fw) (reset_adapter fw (on_pci (fresh_rings fw) g))
      in case e1000_read_mac fw (g\<lparr>tx_tail := 0, rx_head := 0\<rparr>) of (g, m) \<Rightarrow>
         let m = (if e1000_mac_is_valid m then m else e1000_build_fallback_mac g)
         in ((read_link (e1000_program_mac m (g\<lparr>mac := m\<rparr>)))\<lparr>initialized := True\<rparr>, True))"

section \<open>Frames through the adapter\<close>

definition tx_status_of :: "'d e1000_driver \<Rightarrow> nat \<Rightarrow> u8" where
  "tx_status_of g i = tx_status (tx_ring (card g) ! i)"

fun wait_sent :: "nat \<Rightarrow> 'd firmware \<Rightarrow> nat \<Rightarrow> 'd e1000_driver \<Rightarrow> 'd e1000_driver \<times> bool" where
  "wait_sent 0 fw slot g = (g, False)"
| "wait_sent (Suc n) fw slot g = (if tx_status_of g slot AND 0x01 \<noteq> 0 then (g, True) else wait_sent n fw slot (stall fw 10 g))"

text \<open>The frame copied to its buffer, the descriptor filled in: end of packet, check sum, report status.\<close>

definition post_frame :: "bytes \<Rightarrow> nat \<Rightarrow> 'd card \<Rightarrow> 'd card" where
  "post_frame frame slot c =
     c\<lparr>tx_buffers := (tx_buffers c)[slot := put_at (tx_buffers c ! slot) 0 frame],
       tx_ring := (tx_ring c)[slot := (tx_ring c ! slot)\<lparr>tx_length := of_nat (length frame), tx_cmd := 0x01 OR 0x02 OR 0x08, tx_status := 0\<rparr>]\<rparr>"

definition e1000_send_frame :: "'d firmware \<Rightarrow> bytes \<Rightarrow> 'd e1000_driver \<Rightarrow> 'd e1000_driver \<times> bool" where
  "e1000_send_frame fw frame g =
     (if \<not> initialized g \<or> length frame = 0 \<or> length frame > NET_FRAME_MAX then (g, False)
      else if tx_status_of g (tx_tail g) AND 0x01 = 0 then (g, False)
      else let next_tail = (tx_tail g + 1) mod TX_RING
      in case wait_sent 1000 fw (tx_tail g)
                (e1000_reg_write32 E1000_TDT (of_nat next_tail) (on_pci (post_frame frame (tx_tail g)) g)) of
           (g, ok) \<Rightarrow> (g\<lparr>tx_tail := next_tail\<rparr>, ok))"

text \<open>A frame taken from the slot at the head of the receive ring.\<close>

definition take_frame :: "'d e1000_driver \<Rightarrow> 'd e1000_driver \<times> bytes" where
  "take_frame g =
     (let slot = rx_head g; desc = rx_ring (card g) ! slot;
          frame = take (min (unat (rx_length desc)) NET_FRAME_MAX) (rx_buffers (card g) ! slot);
          g = on_pci (\<lambda>c. c\<lparr>rx_ring := (rx_ring c)[slot := desc\<lparr>rx_status := 0\<rparr>]\<rparr>) g;
          g = e1000_reg_write32 E1000_RDT (of_nat slot) g
      in (g\<lparr>rx_head := (slot + 1) mod RX_RING\<rparr>, frame))"

function receive_wait :: "nat \<Rightarrow> 'd firmware \<Rightarrow> nat \<Rightarrow> 'd e1000_driver \<Rightarrow> 'd e1000_driver \<times> bytes option" where
  "receive_wait waited fw timeout_ms g =
     (if waited > timeout_ms then (g, None)
      else if rx_status (rx_ring (card g) ! rx_head g) AND 0x01 \<noteq> 0
      then (case take_frame g of (g, frame) \<Rightarrow> (g, Some frame))
      else receive_wait (waited + 10) fw timeout_ms (stall fw 10000 g))"
  by pat_completeness auto
termination by (relation "measure (\<lambda>(waited, fw, timeout_ms, g). timeout_ms + 1 - waited)") auto

declare receive_wait.simps [simp del]

definition e1000_receive_frame :: "'d firmware \<Rightarrow> nat \<Rightarrow> 'd e1000_driver \<Rightarrow> 'd e1000_driver \<times> bytes option" where
  "e1000_receive_frame fw timeout_ms g = (if \<not> initialized g then (g, None) else receive_wait 0 fw timeout_ms g)"

text \<open>Draining ends with the first wait in vain or an empty frame; None: frames keep coming.\<close>

partial_function (option) e1000_drain :: "'d firmware \<Rightarrow> 'd e1000_driver \<Rightarrow> 'd e1000_driver option" where
  "e1000_drain fw g =
     (let r = e1000_receive_frame fw 1 g
      in case snd r of
           None \<Rightarrow> Some (fst r)
         | Some frame \<Rightarrow> if frame = [] then Some (fst r) else e1000_drain fw (fst r))"

section \<open>Frames through the adapter or the firmware\<close>

text \<open>The firmware's network protocol over the same card record, its functions possibly missing.\<close>

datatype efi_status = EFI_SUCCESS | EFI_NOT_READY | EFI_DEVICE_ERROR | EFI_BAD_BUFFER_SIZE | EFI_OTHER

record 'd simple_network =
  snp_transmit :: "(bytes \<Rightarrow> 'd card \<Rightarrow> 'd card \<times> efi_status) option"
  snp_get_status :: "('d card \<Rightarrow> 'd card) option"
  snp_receive :: "(nat \<Rightarrow> 'd card \<Rightarrow> 'd card \<times> bytes \<times> efi_status) option"

definition net_frame_send :: "'d simple_network option \<Rightarrow> 'd firmware \<Rightarrow> bytes \<Rightarrow> 'd e1000_driver \<Rightarrow> 'd e1000_driver \<times> bool" where
  "net_frame_send protocol fw frame g =
     (if initialized g then e1000_send_frame fw frame g
      else case protocol of
        None \<Rightarrow> (g, False)
      | Some np \<Rightarrow>
          (case snp_transmit np of
             None \<Rightarrow> (g, False)
           | Some f \<Rightarrow>
               if length frame = 0 \<or> length frame > NET_FRAME_MAX then (g, False)
               else (case f frame (card g) of (c, status) \<Rightarrow>
                 (g\<lparr>card := (case snp_get_status np of None \<Rightarrow> c | Some f \<Rightarrow> f c)\<rparr>, status = EFI_SUCCESS))))"

partial_function (option) snp_drain ::
  "(nat \<Rightarrow> 'd card \<Rightarrow> 'd card \<times> bytes \<times> efi_status) \<Rightarrow> 'd e1000_driver \<Rightarrow> 'd e1000_driver option" where
  "snp_drain f g =
     (let r = f NET_FRAME_MAX (card g); g' = g\<lparr>card := fst r\<rparr>
      in if snd (snd r) \<noteq> EFI_SUCCESS \<or> fst (snd r) = [] then Some g' else snp_drain f g')"

definition net_frame_drain :: "'d simple_network option \<Rightarrow> 'd firmware \<Rightarrow> 'd e1000_driver \<Rightarrow> 'd e1000_driver option" where
  "net_frame_drain protocol fw g =
     (if initialized g then e1000_drain fw g
      else case Option.bind protocol snp_receive of None \<Rightarrow> Some g | Some f \<Rightarrow> snp_drain f g)"

function snp_wait ::
  "nat \<Rightarrow> (nat \<Rightarrow> 'd card \<Rightarrow> 'd card \<times> bytes \<times> efi_status) \<Rightarrow> 'd firmware \<Rightarrow> nat \<Rightarrow> 'd e1000_driver \<Rightarrow> 'd e1000_driver \<times> bytes option" where
  "snp_wait waited f fw timeout_ms g =
     (if waited > timeout_ms then (g, None)
      else case f NET_FRAME_MAX (card g) of (c, frame, status) \<Rightarrow>
        if status = EFI_SUCCESS then (g\<lparr>card := c\<rparr>, Some frame)
        else if status \<noteq> EFI_NOT_READY \<and> status \<noteq> EFI_DEVICE_ERROR \<and> status \<noteq> EFI_BAD_BUFFER_SIZE then (g\<lparr>card := c\<rparr>, None)
        else snp_wait (waited + 10) f fw timeout_ms (stall fw 10000 (g\<lparr>card := c\<rparr>)))"
  by pat_completeness auto
termination by (relation "measure (\<lambda>(waited, f, fw, timeout_ms, g). timeout_ms + 1 - waited)") auto

declare snp_wait.simps [simp del]

definition net_frame_receive ::
  "'d simple_network option \<Rightarrow> 'd firmware \<Rightarrow> nat \<Rightarrow> 'd e1000_driver \<Rightarrow> 'd e1000_driver \<times> bytes option" where
  "net_frame_receive protocol fw timeout_ms g =
     (if initialized g then e1000_receive_frame fw timeout_ms g
      else case Option.bind protocol snp_receive of None \<Rightarrow> (g, None) | Some f \<Rightarrow> snp_wait 0 f fw timeout_ms g)"

section \<open>The driver's invariant\<close>

text \<open>The sizes of the shared memory, which nothing changes.\<close>

definition card_ok :: "'d card \<Rightarrow> bool" where
  "card_ok c \<longleftrightarrow> length (rx_ring c) = RX_RING \<and> length (tx_ring c) = TX_RING \<and>
     length (rx_buffers c) = RX_RING \<and> (\<forall>b\<in>set (rx_buffers c). length b = 2048) \<and>
     length (tx_buffers c) = TX_RING \<and> (\<forall>b\<in>set (tx_buffers c). length b = NET_FRAME_MAX)"

text \<open>Hardware and firmware write to the memory; they do not resize it.\<close>

definition honest_pci :: "'d pci_io \<Rightarrow> bool" where
  "honest_pci p \<longleftrightarrow> (\<forall>c. card_ok c \<longrightarrow>
     (\<forall>f b off. mem_read p = Some f \<longrightarrow> card_ok (fst (f b off c))) \<and> (\<forall>f b off v. mem_write p = Some f \<longrightarrow> card_ok (f b off v c)) \<and>
     (\<forall>f b off. io_read p = Some f \<longrightarrow> card_ok (fst (f b off c))) \<and> (\<forall>f b off v. io_write p = Some f \<longrightarrow> card_ok (f b off v c)) \<and>
     (\<forall>f off n. config_read p = Some f \<longrightarrow> card_ok (fst (f off n c))) \<and> (\<forall>f off v. config_write p = Some f \<longrightarrow> card_ok (f off v c)))"

definition honest_firmware :: "'d firmware \<Rightarrow> bool" where
  "honest_firmware fw \<longleftrightarrow>
     (\<forall>f us c. stall_service fw = Some f \<longrightarrow> card_ok c \<longrightarrow> card_ok (f us c)) \<and>
     (\<forall>handles p. pci_handles fw = Some handles \<longrightarrow> Some p \<in> set handles \<longrightarrow> honest_pci p)"

definition honest_network :: "'d simple_network option \<Rightarrow> bool" where
  "honest_network protocol \<longleftrightarrow> (\<forall>np c. protocol = Some np \<longrightarrow> card_ok c \<longrightarrow>
     (\<forall>f frame. snp_transmit np = Some f \<longrightarrow> card_ok (fst (f frame c))) \<and> (\<forall>f. snp_get_status np = Some f \<longrightarrow> card_ok (f c)) \<and>
     (\<forall>f n. snp_receive np = Some f \<longrightarrow> card_ok (fst (f n c)) \<and> (snd (snd (f n c)) = EFI_SUCCESS \<longrightarrow> length (fst (snd (f n c))) \<le> n)))"

definition driver_ok :: "'d e1000_driver \<Rightarrow> bool" where
  "driver_ok g \<longleftrightarrow> card_ok (card g) \<and> tx_tail g < TX_RING \<and> rx_head g < RX_RING \<and>
     (\<forall>p. pci g = Some p \<longrightarrow> honest_pci p) \<and> (initialized g \<longrightarrow> present g \<and> length (mac g) = 6 \<and> e1000_mac_is_valid (mac g))"

text \<open>What the driver keeps beside its card while it uses the adapter.\<close>

definition same_driver :: "'d e1000_driver \<Rightarrow> 'd e1000_driver \<Rightarrow> bool" where
  "same_driver g g' \<longleftrightarrow> (\<exists>c. g' = g\<lparr>card := c\<rparr> \<and> (card_ok (card g) \<longrightarrow> card_ok c))"

lemma same_refl [intro, simp]: "same_driver g g"
  by (auto simp: same_driver_def intro: exI [of _ "card g"])

lemma same_trans: "same_driver g g' \<Longrightarrow> same_driver g' g'' \<Longrightarrow> same_driver g g''"
  by (auto simp: same_driver_def)

lemma same_driver_ok: "same_driver g g' \<Longrightarrow> driver_ok g \<Longrightarrow> driver_ok g'"
  by (auto simp: same_driver_def driver_ok_def)

lemma same_fields:
  assumes "same_driver g g'"
  shows "present g' = present g" "initialized g' = initialized g" "pci g' = pci g" "tx_tail g' = tx_tail g" "rx_head g' = rx_head g"
    "mac g' = mac g" "device_id g' = device_id g"
  using assms by (auto simp: same_driver_def)

definition honest_driver :: "'d e1000_driver \<Rightarrow> bool" where
  "honest_driver g \<longleftrightarrow> (\<forall>p. pci g = Some p \<longrightarrow> honest_pci p)"

lemma honest_same: "same_driver g g' \<Longrightarrow> honest_driver g' = honest_driver g"
  by (simp add: honest_driver_def same_fields)

lemma driver_honest [simp]: "driver_ok g \<Longrightarrow> honest_driver g"
  by (simp add: driver_ok_def honest_driver_def)

lemma same_card: "(card_ok (card g) \<Longrightarrow> card_ok c) \<Longrightarrow> same_driver g (g\<lparr>card := c\<rparr>)"
  by (auto simp: same_driver_def)

lemma honest_pciD:
  assumes "honest_pci p" "card_ok c"
  shows "mem_read p = Some rd \<Longrightarrow> card_ok (fst (rd b off c))" "mem_write p = Some wr \<Longrightarrow> card_ok (wr b off v c)"
    "io_read p = Some rd \<Longrightarrow> card_ok (fst (rd b off c))" "io_write p = Some wr \<Longrightarrow> card_ok (wr b off v c)"
    "config_read p = Some crd \<Longrightarrow> card_ok (fst (crd off n c))" "config_write p = Some cwr \<Longrightarrow> card_ok (cwr off w c)"
  using assms by (simp_all add: honest_pci_def)

lemma stall_same: "honest_firmware fw \<Longrightarrow> same_driver g (stall fw us g)"
  by (cases "stall_service fw") (auto simp: stall_def honest_firmware_def intro!: same_card)

lemma read_same:
  assumes "honest_driver g"
  shows "same_driver g (fst (e1000_reg_read32 off g))"
proof (cases "\<exists>p f. pci g = Some p \<and> present g \<and> (if use_mmio g then mem_read p else io_read p) = Some f")
  case True
  then obtain p f where f: "pci g = Some p" "present g" "(if use_mmio g then mem_read p else io_read p) = Some f" by blast
  then have "honest_pci p" using assms by (simp add: honest_driver_def)
  then have "card_ok (card g) \<Longrightarrow> card_ok (fst (f (bar_index g) off (card g)))"
    using honest_pciD(1,3) f(3) by (cases "use_mmio g") auto
  then show ?thesis using f by (simp add: e1000_reg_read32_def split_beta same_card)
qed (auto simp: e1000_reg_read32_def split: option.split)

lemma write_same:
  assumes "honest_driver g"
  shows "same_driver g (e1000_reg_write32 off v g)"
proof (cases "\<exists>p f. pci g = Some p \<and> present g \<and> (if use_mmio g then mem_write p else io_write p) = Some f")
  case True
  then obtain p f where f: "pci g = Some p" "present g" "(if use_mmio g then mem_write p else io_write p) = Some f" by blast
  then have "honest_pci p" using assms by (simp add: honest_driver_def)
  then have "card_ok (card g) \<Longrightarrow> card_ok (f (bar_index g) off v (card g))"
    using honest_pciD(2,4) f(3) by (cases "use_mmio g") auto
  then show ?thesis using f by (simp add: e1000_reg_write32_def same_card)
qed (auto simp: e1000_reg_write32_def split: option.split)

lemma writes_same: "honest_driver g \<Longrightarrow> same_driver g (reg_writes ws g)"
proof (induction ws arbitrary: g)
  case (Cons w ws)
  have s: "same_driver g (e1000_reg_write32 (fst w) (snd w) g)" using write_same [OF Cons.prems] .
  then have "same_driver (e1000_reg_write32 (fst w) (snd w) g) (reg_writes ws (e1000_reg_write32 (fst w) (snd w) g))"
    using Cons.IH Cons.prems honest_same [OF s] by simp
  then show ?case using same_trans [OF s] by (simp add: reg_writes_def split_beta)
qed (simp add: reg_writes_def)

lemma poll_same: "honest_firmware fw \<Longrightarrow> honest_driver g \<Longrightarrow> same_driver g (fst (eeprom_poll n fw g))"
proof (induction n arbitrary: g)
  case (Suc n)
  obtain g1 v where r: "e1000_reg_read32 E1000_EERD g = (g1, v)" by (cases "e1000_reg_read32 E1000_EERD g")
  have s: "same_driver g g1" using read_same [OF Suc.prems(2), of E1000_EERD] by (simp add: r)
  have t: "same_driver g (stall fw 50 g1)" using same_trans [OF s stall_same [OF Suc.prems(1)]] .
  then show ?case using Suc.IH [OF Suc.prems(1), of "stall fw 50 g1"] Suc.prems(2) honest_same [OF t] s same_trans [OF t]
    by (simp add: r)
qed simp

lemma eeprom_same:
  assumes "honest_firmware fw" "honest_driver g"
  shows "same_driver g (fst (e1000_eeprom_read fw a g))"
proof -
  have s: "same_driver g (e1000_reg_write32 E1000_EERD (0x00000001 OR push_bit 8 (ucast a)) g)" by (rule write_same [OF assms(2)])
  show ?thesis unfolding e1000_eeprom_read_def
    using same_trans [OF s poll_same [OF assms(1)]] honest_same [OF s] assms(2) by blast
qed

lemma mac_same: "honest_firmware fw \<Longrightarrow> honest_driver g \<Longrightarrow> same_driver g (fst (e1000_read_mac fw g)) \<and> length (snd (e1000_read_mac fw g)) = 6"
proof -
  assume h: "honest_firmware fw" "honest_driver g"
  obtain g1 ral where r1: "e1000_reg_read32 E1000_RAL g = (g1, ral)" by (cases "e1000_reg_read32 E1000_RAL g")
  obtain g2 rah where r2: "e1000_reg_read32 E1000_RAH g1 = (g2, rah)" by (cases "e1000_reg_read32 E1000_RAH g1")
  obtain g3 w0 where r3: "e1000_eeprom_read fw 0 g2 = (g3, w0)" by (cases "e1000_eeprom_read fw 0 g2")
  obtain g4 w1 where r4: "e1000_eeprom_read fw 1 g3 = (g4, w1)" by (cases "e1000_eeprom_read fw 1 g3")
  obtain g5 w2 where r5: "e1000_eeprom_read fw 2 g4 = (g5, w2)" by (cases "e1000_eeprom_read fw 2 g4")
  have s1: "same_driver g g1" using read_same [OF h(2), of E1000_RAL] by (simp add: r1)
  have s2: "same_driver g g2" using same_trans [OF s1] read_same [of g1 E1000_RAH] honest_same [OF s1] h(2) by (simp add: r2)
  have s3: "same_driver g g3" using same_trans [OF s2] eeprom_same [OF h(1), of g2 0] honest_same [OF s2] h(2) by (simp add: r3)
  have s4: "same_driver g g4" using same_trans [OF s3] eeprom_same [OF h(1), of g3 1] honest_same [OF s3] h(2) by (simp add: r4)
  have s5: "same_driver g g5" using same_trans [OF s4] eeprom_same [OF h(1), of g4 2] honest_same [OF s4] h(2) by (simp add: r5)
  show ?thesis using s2 s5
    by (simp add: e1000_read_mac_def r1 r2 r3 r4 r5 mac_of_registers_def mac_of_eeprom_def)
qed

lemma master_same: "honest_driver g \<Longrightarrow> same_driver g (e1000_enable_pci_bus_mastering g)"
proof (cases "pci g")
  case (Some p)
  assume "honest_driver g"
  then have h: "honest_pci p" using Some by (simp add: honest_driver_def)
  show ?thesis
  proof (cases "config_read p = None \<or> config_write p = None \<or> \<not> present g")
    case False
    then obtain rd wr where f: "config_read p = Some rd" "config_write p = Some wr" "present g" by auto
    obtain c v where r: "rd 4 2 (card g) = (c, v)" by (cases "rd 4 2 (card g)")
    have c: "card_ok (card g) \<Longrightarrow> card_ok c" using honest_pciD(5) [OF h _ f(1), of "card g" 4 2] r by simp
    then have "card_ok (card g) \<Longrightarrow> card_ok (wr 4 w c)" for w using honest_pciD(6) [OF h _ f(2)] by blast
    then show ?thesis using c f r Some by (cases v) (simp_all add: e1000_enable_pci_bus_mastering_def same_card)
  qed (use Some in \<open>auto simp: e1000_enable_pci_bus_mastering_def split: option.split\<close>)
qed (simp add: e1000_enable_pci_bus_mastering_def)

lemma reset_same: "honest_firmware fw \<Longrightarrow> honest_driver g \<Longrightarrow> same_driver g (reset_adapter fw g)"
proof -
  assume h: "honest_firmware fw" "honest_driver g"
  let ?g0 = "e1000_reg_write32 E1000_IMC 0xFFFFFFFF g"
  obtain g1 v1 where r1: "e1000_reg_read32 E1000_ICR ?g0 = (g1, v1)" by (cases "e1000_reg_read32 E1000_ICR ?g0")
  obtain g2 v2 where r2: "e1000_reg_read32 E1000_CTRL g1 = (g2, v2)" by (cases "e1000_reg_read32 E1000_CTRL g1")
  let ?g3 = "stall fw 20000 (e1000_reg_write32 E1000_CTRL (v2 OR 0x04000000) g2)"
  obtain g4 v4 where r4: "e1000_reg_read32 E1000_CTRL ?g3 = (g4, v4)" by (cases "e1000_reg_read32 E1000_CTRL ?g3")
  have s0: "same_driver g ?g0" using write_same [OF h(2)] .
  have s1: "same_driver g g1" using same_trans [OF s0] read_same [of ?g0 E1000_ICR] honest_same [OF s0] h(2) by (simp add: r1)
  have s2: "same_driver g g2" using same_trans [OF s1] read_same [of g1 E1000_CTRL] honest_same [OF s1] h(2) by (simp add: r2)
  have s3: "same_driver g ?g3"
    using same_trans [OF same_trans [OF s2 write_same] stall_same [OF h(1)]] honest_same [OF s2] h(2) by blast
  have s4: "same_driver g g4" using same_trans [OF s3] read_same [of ?g3 E1000_CTRL] honest_same [OF s3] h(2) by (simp add: r4)
  show ?thesis using same_trans [OF s4 write_same] honest_same [OF s4] h(2) by (simp add: reset_adapter_def r1 r2 r4)
qed

lemma fallback_valid: "e1000_mac_is_valid (e1000_build_fallback_mac g) \<and> length (e1000_build_fallback_mac g) = 6"
  by (simp add: e1000_mac_is_valid_def e1000_build_fallback_mac_def zero_mac_def ff_mac_def)

lemma fresh_ok: "card_ok (fresh_rings fw c)"
  by (simp add: card_ok_def fresh_rings_def NET_FRAME_MAX_def)

lemma read_link_ok: "driver_ok g \<Longrightarrow> driver_ok (read_link g)"
  using same_driver_ok [OF read_same, of g E1000_STATUS] by (simp add: read_link_def driver_ok_def split_beta)

lemma initialize_ok:
  assumes "honest_firmware fw" "driver_ok g"
  shows "driver_ok (fst (e1000_initialize fw g)) \<and> (snd (e1000_initialize fw g) \<longrightarrow> initialized (fst (e1000_initialize fw g)))"
proof (cases "present g \<and> \<not> initialized g")
  case True
  let ?g1 = "e1000_enable_pci_bus_mastering g"
  have s1: "same_driver g ?g1" using master_same [OF driver_honest [OF assms(2)]] .
  then have g1: "driver_ok ?g1" using same_driver_ok assms(2) by blast
  let ?g2 = "on_pci (fresh_rings fw) ?g1"
  have g2: "driver_ok ?g2" using g1 fresh_ok by (simp add: driver_ok_def on_pci_def)
  let ?g3 = "reg_writes (ring_registers fw) (reset_adapter fw ?g2)"
  have s3: "same_driver ?g2 ?g3"
    using same_trans [OF reset_same [OF assms(1) driver_honest [OF g2]] writes_same]
      honest_same [OF reset_same [OF assms(1) driver_honest [OF g2]]] driver_honest [OF g2] by blast
  have g3: "driver_ok ?g3" using same_driver_ok [OF s3 g2] .
  let ?g4 = "?g3\<lparr>tx_tail := 0, rx_head := 0\<rparr>"
  have g4: "driver_ok ?g4" using g3 by (simp add: driver_ok_def TX_RING_def RX_RING_def)
  obtain g5 m where r: "e1000_read_mac fw ?g4 = (g5, m)" by (cases "e1000_read_mac fw ?g4")
  have m: "same_driver ?g4 g5" "length m = 6" using mac_same [OF assms(1) driver_honest [OF g4]] by (simp_all add: r)
  have g5: "driver_ok g5" using same_driver_ok [OF m(1) g4] .
  define k where "k = (if e1000_mac_is_valid m then m else e1000_build_fallback_mac g5)"
  have k: "e1000_mac_is_valid k" "length k = 6" using m(2) fallback_valid [of g5] by (auto simp: k_def)
  have p5: "present g5" using same_fields(1) [OF m(1)] same_fields(1) [OF s3] same_fields(1) [OF s1] True by (simp add: on_pci_def)
  have g6: "driver_ok (g5\<lparr>mac := k\<rparr>)" using g5 k by (auto simp: driver_ok_def)
  have s7: "same_driver (g5\<lparr>mac := k\<rparr>) (e1000_program_mac k (g5\<lparr>mac := k\<rparr>))"
    unfolding e1000_program_mac_def by (rule writes_same [OF driver_honest [OF g6]])
  have g7: "driver_ok (e1000_program_mac k (g5\<lparr>mac := k\<rparr>))" using same_driver_ok [OF s7 g6] .
  let ?g8 = "read_link (e1000_program_mac k (g5\<lparr>mac := k\<rparr>))"
  have "present ?g8 \<and> mac ?g8 = k"
    using same_fields [OF s7] p5 same_fields [OF read_same [OF driver_honest [OF g7]], of E1000_STATUS]
    by (simp add: read_link_def split_beta)
  then have "driver_ok (?g8\<lparr>initialized := True\<rparr>)" using read_link_ok [OF g7] k by (simp add: driver_ok_def)
  moreover have "\<not> initialized ?g1" using same_fields(2) [OF s1] True by simp
  ultimately show ?thesis using True by (simp add: e1000_initialize_def Let_def r flip: k_def)
next
  case False
  have s1: "same_driver g (e1000_enable_pci_bus_mastering g)" using master_same [OF driver_honest [OF assms(2)]] .
  have "driver_ok (read_link (e1000_enable_pci_bus_mastering g))" using read_link_ok same_driver_ok [OF s1 assms(2)] by blast
  moreover have "initialized (read_link g) = initialized g" for g :: "'a e1000_driver"
    by (auto simp: read_link_def e1000_reg_read32_def split: option.splits prod.splits)
  ultimately show ?thesis using False assms(2) same_fields(2) [OF s1] by (auto simp: e1000_initialize_def Let_def)
qed

lemma probe_loop_ok:
  "driver_ok g \<Longrightarrow> \<not> initialized g \<Longrightarrow> (\<forall>p. Some p \<in> set handles \<longrightarrow> honest_pci p) \<Longrightarrow>
   driver_ok (probe_loop handles g) \<and> \<not> initialized (probe_loop handles g)"
proof (induction handles g rule: probe_loop.induct)
  case (3 p handles g)
  have h: "honest_pci p" using "3.prems"(3) by simp
  have ok: "driver_ok (g\<lparr>card := c\<rparr>)" if "card_ok c" for c using "3.prems"(1) that by (simp add: driver_ok_def)
  show ?case
  proof (cases "config_read p")
    case (Some rd)
    obtain c v where r: "rd 0 64 (card g) = (c, v)" by (cases "rd 0 64 (card g)")
    have c: "card_ok c" using honest_pciD(5) [OF h _ Some, of "card g" 0 64] "3.prems"(1) r by (simp add: driver_ok_def)
    have "driver_ok (adopt p x (g\<lparr>card := c\<rparr>)) \<and> \<not> initialized (adopt p x (g\<lparr>card := c\<rparr>))" for x
      using ok [OF c] h "3.prems"(2) by (simp add: adopt_def Let_def driver_ok_def)
    then show ?thesis using "3.IH"(2,3) [OF Some r [symmetric]] ok [OF c] "3.prems"(2,3) Some r
      by (auto split: option.split)
  qed (use 3 in simp)
qed simp_all

lemma probe_ok:
  assumes "honest_firmware fw" "driver_ok g"
  shows "driver_ok (fst (e1000_probe fw g))"
proof -
  have "driver_ok (no_adapter (card g)) \<and> \<not> initialized (no_adapter (card g))"
    using assms(2) by (simp add: driver_ok_def no_adapter_def TX_RING_def RX_RING_def)
  then show ?thesis using probe_loop_ok [of "no_adapter (card g)"] assms(1)
    by (auto simp: e1000_probe_def honest_firmware_def Let_def split: option.split)
qed

lemma wait_same: "honest_firmware fw \<Longrightarrow> same_driver g (fst (wait_sent n fw slot g))"
proof (induction n arbitrary: g)
  case (Suc n)
  show ?case using same_trans [OF stall_same [OF Suc.prems] Suc.IH [OF Suc.prems]] by simp
qed simp

lemma update_all: "\<forall>x\<in>set xs. P x \<Longrightarrow> (i < length xs \<Longrightarrow> P v) \<Longrightarrow> \<forall>x\<in>set (xs[i := v]). P x"
  using set_update_subset_insert [of xs i v] list_update_beyond [of xs i v] by (cases "i < length xs") auto

lemma card_ok_update:
  assumes "card_ok c"
  shows "card_ok (post_frame frame slot c)" "card_ok (c\<lparr>rx_ring := (rx_ring c)[slot := d]\<rparr>)"
proof -
  have "\<forall>b\<in>set ((tx_buffers c)[slot := put_at (tx_buffers c ! slot) 0 frame]). length b = NET_FRAME_MAX"
    by (rule update_all) (use assms in \<open>simp_all add: card_ok_def\<close>)
  then show "card_ok (post_frame frame slot c)" using assms by (simp add: card_ok_def post_frame_def)
qed (use assms in \<open>simp add: card_ok_def\<close>)

lemma send_ok:
  assumes "honest_firmware fw" "driver_ok g"
  shows "driver_ok (fst (e1000_send_frame fw frame g))"
proof -
  let ?g1 = "on_pci (post_frame frame (tx_tail g)) g" and ?next = "(tx_tail g + 1) mod TX_RING"
  have g1: "driver_ok ?g1" using assms(2) card_ok_update(1) by (auto simp: driver_ok_def on_pci_def)
  have s: "same_driver ?g1 (fst (wait_sent 1000 fw (tx_tail g) (e1000_reg_write32 E1000_TDT (of_nat ?next) ?g1)))"
    using same_trans [OF write_same wait_same] driver_honest [OF g1] assms(1) by blast
  have "driver_ok ((fst (wait_sent 1000 fw (tx_tail g) (e1000_reg_write32 E1000_TDT (of_nat ?next) ?g1)))\<lparr>tx_tail := ?next\<rparr>)"
    using same_driver_ok [OF s g1] by (simp add: driver_ok_def TX_RING_def)
  then show ?thesis using assms(2) by (simp add: e1000_send_frame_def Let_def split_beta)
qed

lemma take_frame_ok:
  assumes "driver_ok g"
  shows "driver_ok (fst (take_frame g)) \<and> length (snd (take_frame g)) \<le> NET_FRAME_MAX"
proof -
  let ?d = "rx_ring (card g) ! rx_head g"
  let ?g1 = "on_pci (\<lambda>c. c\<lparr>rx_ring := (rx_ring c)[rx_head g := ?d\<lparr>rx_status := 0\<rparr>]\<rparr>) g"
  have g1: "driver_ok ?g1" using assms card_ok_update(2) by (auto simp: driver_ok_def on_pci_def)
  have "driver_ok ((e1000_reg_write32 E1000_RDT (of_nat (rx_head g)) ?g1)\<lparr>rx_head := (rx_head g + 1) mod RX_RING\<rparr>)"
    using same_driver_ok [OF write_same [OF driver_honest [OF g1]] g1] by (simp add: driver_ok_def RX_RING_def)
  then show ?thesis by (simp add: take_frame_def Let_def)
qed

lemma receive_wait_ok:
  "honest_firmware fw \<Longrightarrow> driver_ok g \<Longrightarrow>
   driver_ok (fst (receive_wait w fw t g)) \<and> (\<forall>f. snd (receive_wait w fw t g) = Some f \<longrightarrow> length f \<le> NET_FRAME_MAX)"
proof (induction w fw t g rule: receive_wait.induct)
  case (1 w fw t g)
  show ?case
  proof (cases "w > t")
    case False
    show ?thesis
    proof (cases "rx_status (rx_ring (card g) ! rx_head g) AND 0x01 \<noteq> 0")
      case True
      then show ?thesis using take_frame_ok [OF 1(3)] False by (subst (1 2) receive_wait.simps) (auto simp: split_beta)
    next
      case no: False
      then have "receive_wait w fw t g = receive_wait (w + 10) fw t (stall fw 10000 g)"
        using False by (subst receive_wait.simps) simp
      then show ?thesis using 1(1) [OF False no 1(2) same_driver_ok [OF stall_same [OF 1(2)] 1(3)]] by simp
    qed
  qed (subst (1 2) receive_wait.simps, use 1 in simp)
qed

lemma receive_ok:
  "honest_firmware fw \<Longrightarrow> driver_ok g \<Longrightarrow>
   driver_ok (fst (e1000_receive_frame fw t g)) \<and> (\<forall>f. snd (e1000_receive_frame fw t g) = Some f \<longrightarrow> length f \<le> NET_FRAME_MAX)"
  using receive_wait_ok [of fw g 0 t] by (cases "initialized g") (simp_all add: e1000_receive_frame_def)

lemma drain_ok: "e1000_drain fw g = Some g' \<Longrightarrow> honest_firmware fw \<Longrightarrow> driver_ok g \<Longrightarrow> driver_ok g'"
proof (induction fw g g' rule: e1000_drain.raw_induct [rotated, consumes 1])
  case (1 drain fw g g')
  have ok: "driver_ok (fst (e1000_receive_frame fw 1 g))" using receive_ok [OF 1(3,4)] by blast
  show ?case using 1(1) [OF _ 1(3) ok] 1(2) ok
    by (auto simp: Let_def split: option.splits if_splits)
qed

lemma net_send_ok:
  assumes "honest_firmware fw" "honest_network protocol" "driver_ok g"
  shows "driver_ok (fst (net_frame_send protocol fw frame g))"
proof (cases "initialized g")
  case False
  have up: "driver_ok (g\<lparr>card := c\<rparr>)" if "card_ok c" for c using assms(3) that by (simp add: driver_ok_def)
  have c: "card_ok (card g)" using assms(3) by (simp add: driver_ok_def)
  show ?thesis
  proof (cases "protocol = None \<or> snp_transmit (the protocol) = None")
    case False
    then obtain np f where p: "protocol = Some np" "snp_transmit np = Some f" by auto
    have c1: "card_ok (fst (f frame (card g)))" using assms(2) p c unfolding honest_network_def by blast
    then have "card_ok (f' (fst (f frame (card g))))" if "snp_get_status np = Some f'" for f'
      using assms(2) p that unfolding honest_network_def by blast
    then show ?thesis using p \<open>\<not> initialized g\<close> assms(3) up c1
      by (auto simp: net_frame_send_def split_beta split: option.split)
  qed (use \<open>\<not> initialized g\<close> assms(3) in \<open>auto simp: net_frame_send_def split: option.split\<close>)
qed (use assms send_ok in \<open>simp add: net_frame_send_def\<close>)

lemma snp_drain_ok:
  "snp_drain f g = Some g' \<Longrightarrow> (\<forall>n c. card_ok c \<longrightarrow> card_ok (fst (f n c))) \<Longrightarrow> driver_ok g \<Longrightarrow> driver_ok g'"
proof (induction f g g' rule: snp_drain.raw_induct [rotated, consumes 1])
  case (1 drain f g g')
  have ok: "driver_ok (g\<lparr>card := fst (f NET_FRAME_MAX (card g))\<rparr>)" using 1(3,4) by (simp add: driver_ok_def)
  show ?case using 1(1) [OF _ 1(3) ok] 1(2) ok by (auto simp: Let_def split: if_splits)
qed

lemma snp_wait_ok:
  "honest_firmware fw \<Longrightarrow> (\<forall>n c. card_ok c \<longrightarrow> card_ok (fst (f n c)) \<and> (snd (snd (f n c)) = EFI_SUCCESS \<longrightarrow> length (fst (snd (f n c))) \<le> n)) \<Longrightarrow>
   driver_ok g \<Longrightarrow> driver_ok (fst (snp_wait w f fw t g)) \<and> (\<forall>x. snd (snp_wait w f fw t g) = Some x \<longrightarrow> length x \<le> NET_FRAME_MAX)"
proof (induction w f fw t g rule: snp_wait.induct)
  case (1 w f fw t g)
  obtain c x status where r: "f NET_FRAME_MAX (card g) = (c, x, status)" by (metis prod_cases3)
  have c: "card_ok c" "status = EFI_SUCCESS \<Longrightarrow> length x \<le> NET_FRAME_MAX"
    using 1(3,4) r by (metis driver_ok_def fst_conv snd_conv)+
  have ok: "driver_ok (g\<lparr>card := c\<rparr>)" using 1(4) c by (simp add: driver_ok_def)
  show ?case
  proof (cases "w > t \<or> status = EFI_SUCCESS \<or> status = EFI_OTHER")
    case True
    then show ?thesis using ok c 1(4) r by (subst (1 2) snp_wait.simps) auto
  next
    case False
    then have retry: "\<not> (status \<noteq> EFI_NOT_READY \<and> status \<noteq> EFI_DEVICE_ERROR \<and> status \<noteq> EFI_BAD_BUFFER_SIZE)" by (cases status) auto
    have eq: "snp_wait w f fw t g = snp_wait (w + 10) f fw t (stall fw 10000 (g\<lparr>card := c\<rparr>))"
      using False retry r by (subst snp_wait.simps) (cases status; simp)
    have "driver_ok (stall fw 10000 (g\<lparr>card := c\<rparr>))" using same_driver_ok [OF stall_same [OF 1(2)] ok] .
    then show ?thesis using 1(1) [OF _ r [symmetric] refl _ retry 1(2,3)] False eq by simp
  qed
qed

section \<open>Runs of the driver\<close>

datatype driver_op = Probe | Initialize | Transmit bytes | Drain | Receive nat

fun driver_step :: "'d simple_network option \<Rightarrow> 'd firmware \<Rightarrow> driver_op \<Rightarrow> 'd e1000_driver \<Rightarrow> ('d e1000_driver \<times> bytes option) option" where
  "driver_step protocol fw Probe g = Some (fst (e1000_probe fw g), None)"
| "driver_step protocol fw Initialize g = Some (fst (e1000_initialize fw g), None)"
| "driver_step protocol fw (Transmit frame) g = Some (fst (net_frame_send protocol fw frame g), None)"
| "driver_step protocol fw Drain g = map_option (\<lambda>g. (g, None)) (net_frame_drain protocol fw g)"
| "driver_step protocol fw (Receive timeout_ms) g = Some (net_frame_receive protocol fw timeout_ms g)"

fun driver_run :: "'d simple_network option \<Rightarrow> 'd firmware \<Rightarrow> driver_op list \<Rightarrow> 'd e1000_driver \<Rightarrow> ('d e1000_driver \<times> bytes list) option" where
  "driver_run protocol fw [] g = Some (g, [])"
| "driver_run protocol fw (op # ops) g =
     (case driver_step protocol fw op g of
        None \<Rightarrow> None
      | Some (g, frame) \<Rightarrow> map_option (\<lambda>(g, frames). (g, (case frame of None \<Rightarrow> frames | Some f \<Rightarrow> f # frames))) (driver_run protocol fw ops g))"

lemma step_driver_ok:
  assumes "driver_step protocol fw op g = Some (g', frame)" "honest_firmware fw" "honest_network protocol" "driver_ok g"
  shows "driver_ok g' \<and> (\<forall>f. frame = Some f \<longrightarrow> length f \<le> NET_FRAME_MAX)"
proof -
  have snp: "(\<forall>n c. card_ok c \<longrightarrow> card_ok (fst (f n c)) \<and> (snd (snd (f n c)) = EFI_SUCCESS \<longrightarrow> length (fst (snd (f n c))) \<le> n))"
    if "Option.bind protocol snp_receive = Some f" for f
    using assms(3) that unfolding honest_network_def bind_eq_Some_conv by blast
  show ?thesis
  proof (cases op)
    case Drain
    have "driver_ok h" if "net_frame_drain protocol fw g = Some h" for h
    proof (cases "initialized g \<or> Option.bind protocol snp_receive = None")
      case True
      then show ?thesis using that drain_ok [OF _ assms(2,4)] assms(4) by (auto simp: net_frame_drain_def split: if_splits)
    next
      case False
      then obtain f where f: "Option.bind protocol snp_receive = Some f" "\<not> initialized g" by auto
      then have "snp_drain f g = Some h" using that by (simp add: net_frame_drain_def)
      then show ?thesis by (rule snp_drain_ok) (use snp [OF f(1)] assms(4) in auto)
    qed
    then show ?thesis using assms(1) Drain by auto
  next
    case (Receive t)
    have "driver_ok (fst (net_frame_receive protocol fw t g)) \<and>
        (\<forall>f. snd (net_frame_receive protocol fw t g) = Some f \<longrightarrow> length f \<le> NET_FRAME_MAX)"
    proof (cases "initialized g \<or> Option.bind protocol snp_receive = None")
      case True
      then show ?thesis using receive_ok [OF assms(2,4)] assms(4) by (auto simp: net_frame_receive_def)
    next
      case False
      then obtain f where f: "Option.bind protocol snp_receive = Some f" "\<not> initialized g" by auto
      then show ?thesis using snp_wait_ok [OF assms(2) snp [OF f(1)] assms(4)] by (simp add: net_frame_receive_def)
    qed
    then show ?thesis using assms(1) Receive by (metis driver_step.simps(5) fst_conv option.inject snd_conv)
  qed (use assms probe_ok initialize_ok net_send_ok in auto)
qed


end
