(* ===== verification/E1000Wire.thy ===== *)
theory E1000Wire
  imports E1000
begin

text \<open>
  What the e1000 driver does over an adapter that works as its manual says: frames leave in the order they are sent
  and are handed up in the order they came, and the stream of the HTTP client goes through it. The manual's side is
  \<open>sends_posted\<close> and \<open>keeps_received\<close>; a model of an adapter at the end meets both.
\<close>

unbundle bit_operations_syntax

section \<open>Sending in order\<close>

definition passes :: "'d firmware \<Rightarrow> nat \<Rightarrow> 'd card \<Rightarrow> 'd card" where
  "passes fw microseconds c = (case stall_service fw of None \<Rightarrow> c | Some f \<Rightarrow> f microseconds c)"

definition after_write :: "'d e1000_driver \<Rightarrow> nat \<Rightarrow> nat \<Rightarrow> 'd card \<Rightarrow> 'd card" where
  "after_write g offset v c = card (e1000_reg_write32 offset (of_nat v) (g\<lparr>card := c\<rparr>))"

lemma stall_passes: "stall fw us g = g\<lparr>card := passes fw us (card g)\<rparr>"
  by (simp add: stall_def passes_def split: option.split)

lemma write_after: "e1000_reg_write32 offset (of_nat v) g = g\<lparr>card := after_write g offset v (card g)\<rparr>"
  by (auto simp: after_write_def e1000_reg_write32_def split: option.split)

lemma after_write_path [simp]:
  "after_write (g\<lparr>card := c\<rparr>) = after_write g" "after_write (g\<lparr>tx_tail := t\<rparr>) = after_write g" "after_write (g\<lparr>rx_head := t\<rparr>) = after_write g"
  by (intro ext; auto simp: after_write_def e1000_reg_write32_def split: option.split)+

text \<open>
  The adapter as its manual has it, for a driver that gives it one descriptor at a time. Idle at a slot and given the
  next one as the tail, it sends the octets the slot's descriptor stands for, within the time the driver waits, sets
  the descriptor's done bit and no other memory, and is idle at the next slot.
\<close>

definition sends_posted :: "'d firmware \<Rightarrow> 'd e1000_driver \<Rightarrow> (nat \<Rightarrow> 'd \<Rightarrow> bool) \<Rightarrow> ('d \<Rightarrow> bytes list) \<Rightarrow> bool" where
  "sends_posted fw g idle wire \<longleftrightarrow>
     (\<forall>c t. card_ok c \<longrightarrow> t < TX_RING \<longrightarrow> idle t (adapter c) \<longrightarrow>
        tx_status (tx_ring c ! t) = 0 \<longrightarrow> tx_cmd (tx_ring c ! t) AND 0x01 \<noteq> 0 \<longrightarrow> unat (tx_length (tx_ring c ! t)) \<le> NET_FRAME_MAX \<longrightarrow>
        (\<exists>k<1000. \<exists>status d'.
           (\<forall>j<k. tx_status (tx_ring ((passes fw 10 ^^ j) (after_write g E1000_TDT ((t + 1) mod TX_RING) c)) ! t) AND 0x01 = 0) \<and>
           status AND 0x01 \<noteq> 0 \<and> idle ((t + 1) mod TX_RING) d' \<and>
           wire d' = wire (adapter c) @ [take (unat (tx_length (tx_ring c ! t))) (tx_buffers c ! t)] \<and>
           (passes fw 10 ^^ k) (after_write g E1000_TDT ((t + 1) mod TX_RING) c) =
             c\<lparr>tx_ring := (tx_ring c)[t := (tx_ring c ! t)\<lparr>tx_status := status\<rparr>], adapter := d'\<rparr>))"

definition tx_ready :: "'d firmware \<Rightarrow> (nat \<Rightarrow> 'd \<Rightarrow> bool) \<Rightarrow> ('d \<Rightarrow> bytes list) \<Rightarrow> 'd e1000_driver \<Rightarrow> bool" where
  "tx_ready fw idle wire g \<longleftrightarrow>
     initialized g \<and> tx_tail g < TX_RING \<and> card_ok (card g) \<and> (\<forall>d\<in>set (tx_ring (card g)). tx_status d AND 0x01 \<noteq> 0) \<and>
     idle (tx_tail g) (adapter (card g)) \<and> sends_posted fw g idle wire"

lemma wait_sent_done:
  "k < n \<Longrightarrow> (\<forall>j<k. tx_status (tx_ring ((passes fw 10 ^^ j) (card g)) ! slot) AND 0x01 = 0) \<Longrightarrow>
   tx_status (tx_ring ((passes fw 10 ^^ k) (card g)) ! slot) AND 0x01 \<noteq> 0 \<Longrightarrow>
   wait_sent n fw slot g = (g\<lparr>card := (passes fw 10 ^^ k) (card g)\<rparr>, True)"
proof (induction n arbitrary: g k)
  case (Suc n)
  show ?case
  proof (cases k)
    case 0
    then show ?thesis using Suc.prems(3) by (simp add: tx_status_of_def)
  next
    case (Suc j)
    have now: "tx_status_of g slot AND 0x01 = 0" using Suc.prems(2) Suc by (force simp: tx_status_of_def)
    have "wait_sent n fw slot (stall fw 10 g) = ((stall fw 10 g)\<lparr>card := (passes fw 10 ^^ j) (card (stall fw 10 g))\<rparr>, True)"
    proof (rule Suc.IH)
      show "\<forall>i<j. tx_status (tx_ring ((passes fw 10 ^^ i) (card (stall fw 10 g))) ! slot) AND 0x01 = 0"
      proof (intro allI impI)
        fix i assume "i < j"
        then show "tx_status (tx_ring ((passes fw 10 ^^ i) (card (stall fw 10 g))) ! slot) AND 0x01 = 0"
          using spec [OF Suc.prems(2), of "Suc i"] Suc by (simp add: stall_passes funpow_swap1)
      qed
    qed (use Suc.prems(1,3) Suc in \<open>simp_all add: stall_passes funpow_swap1\<close>)
    then show ?thesis using now Suc by (simp add: stall_passes funpow_swap1)
  qed
qed simp

lemma take_put_at: "length f \<le> length b \<Longrightarrow> take (length f) (put_at b 0 f) = f"
  by (rule nth_equalityI) (simp_all add: nth_put_at)

lemma send_carries:
  assumes "tx_ready fw idle wire g" "0 < length frame" "length frame \<le> NET_FRAME_MAX"
  shows "\<exists>g'. e1000_send_frame fw frame g = (g', True) \<and> tx_ready fw idle wire g' \<and>
    wire (adapter (card g')) = wire (adapter (card g)) @ [frame]"
proof -
  let ?t = "tx_tail g" and ?next = "(tx_tail g + 1) mod TX_RING"
  let ?c = "post_frame frame ?t (card g)"
  have r: "initialized g" "?t < TX_RING" "card_ok (card g)" "idle ?t (adapter (card g))" "sends_posted fw g idle wire"
    "\<forall>d\<in>set (tx_ring (card g)). tx_status d AND 0x01 \<noteq> 0"
    using assms(1) by (simp_all add: tx_ready_def)
  have len: "length (tx_ring (card g)) = TX_RING" "length (tx_buffers (card g)) = TX_RING" "length (tx_buffers (card g) ! ?t) = NET_FRAME_MAX"
    using r(2,3) by (simp_all add: card_ok_def)
  have ok: "card_ok ?c" by (rule card_ok_update(1) [OF r(3)])
  have n: "unat (of_nat (length frame) :: u16) = length frame" using assms(3) by (simp add: unat_of_nat NET_FRAME_MAX_def)
  have d: "tx_status (tx_ring ?c ! ?t) = 0" "tx_cmd (tx_ring ?c ! ?t) AND 0x01 \<noteq> 0" "unat (tx_length (tx_ring ?c ! ?t)) = length frame"
    "take (length frame) (tx_buffers ?c ! ?t) = frame" "idle ?t (adapter ?c)" "adapter ?c = adapter (card g)"
    using len r(2,4) n assms(3) by (simp_all add: post_frame_def take_put_at)
  obtain k status d' where k: "k < 1000"
    "\<forall>j<k. tx_status (tx_ring ((passes fw 10 ^^ j) (after_write g E1000_TDT ?next ?c)) ! ?t) AND 0x01 = 0"
    "status AND 0x01 \<noteq> 0" "idle ?next d'" "wire d' = wire (adapter (card g)) @ [frame]"
    "(passes fw 10 ^^ k) (after_write g E1000_TDT ?next ?c) = ?c\<lparr>tx_ring := (tx_ring ?c)[?t := (tx_ring ?c ! ?t)\<lparr>tx_status := status\<rparr>], adapter := d'\<rparr>"
    using r(5) [unfolded sends_posted_def, rule_format, OF ok r(2) d(5,1,2)] d(3,4,6) assms(3) by auto
  let ?g1 = "e1000_reg_write32 E1000_TDT (of_nat ?next) (on_pci (post_frame frame ?t) g)"
  have g1: "?g1 = g\<lparr>card := after_write g E1000_TDT ?next ?c\<rparr>" by (simp add: write_after on_pci_def)
  let ?c' = "?c\<lparr>tx_ring := (tx_ring ?c)[?t := (tx_ring ?c ! ?t)\<lparr>tx_status := status\<rparr>], adapter := d'\<rparr>"
  have sent: "wait_sent 1000 fw ?t ?g1 = (g\<lparr>card := ?c'\<rparr>, True)"
  proof -
    have q: "card ?g1 = after_write g E1000_TDT ?next ?c" unfolding g1 by simp
    have "tx_status (tx_ring ?c' ! ?t) = status" using len(1) r(2) by (simp add: post_frame_def)
    then have "wait_sent 1000 fw ?t ?g1 = (?g1\<lparr>card := (passes fw 10 ^^ k) (card ?g1)\<rparr>, True)"
      using k(2,3) by (intro wait_sent_done [OF k(1)]) (simp_all only: q k(6), simp_all)
    then show ?thesis unfolding q k(6) unfolding g1 by simp
  qed
  have free: "tx_status_of g ?t AND 0x01 \<noteq> 0" using r(2,6) len(1) by (simp add: tx_status_of_def)
  have send: "e1000_send_frame fw frame g = (g\<lparr>card := ?c', tx_tail := ?next\<rparr>, True)"
    using r(1) assms(2,3) free sent by (simp add: e1000_send_frame_def Let_def)
  have "card_ok ?c'" using ok by (simp add: card_ok_def)
  moreover have "\<forall>d\<in>set (tx_ring ?c'). tx_status d AND 0x01 \<noteq> 0"
    using r(6) k(3) by (simp add: post_frame_def) (rule update_all; simp)
  moreover have "sends_posted fw (g\<lparr>card := ?c', tx_tail := ?next\<rparr>) idle wire" using r(5) by (simp add: sends_posted_def)
  ultimately have "tx_ready fw idle wire (g\<lparr>card := ?c', tx_tail := ?next\<rparr>)"
    using r(1) k(4) by (simp add: tx_ready_def TX_RING_def)
  then show ?thesis using send k(5) by simp
qed

text \<open>The device of the network stack: the layer above, with its receive time-out and some way of draining.\<close>

definition driver_nic :: "'d simple_network option \<Rightarrow> 'd firmware \<Rightarrow> ('d e1000_driver \<Rightarrow> 'd e1000_driver) \<Rightarrow> 'd e1000_driver nic" where
  "driver_nic protocol fw drained =
     \<lparr>nic_send = \<lambda>g frame. net_frame_send protocol fw frame g, nic_drain = drained, nic_receive = net_frame_receive protocol fw 25\<rparr>"

lemma driver_carries: "frame_carrier (driver_nic protocol fw drained) (tx_ready fw idle wire) (\<lambda>g. wire (adapter (card g)))"
proof
  fix g f
  assume "tx_ready fw idle wire g" "0 < length (f :: bytes)" "length f \<le> NET_FRAME_MAX"
  then show "\<exists>d'. nic_send (driver_nic protocol fw drained) g f = (d', True) \<and> tx_ready fw idle wire d' \<and>
      wire (adapter (card d')) = wire (adapter (card g)) @ [f]"
    using send_carries by (simp add: driver_nic_def net_frame_send_def tx_ready_def)
qed


section \<open>Receiving in order\<close>

text \<open>Frames that wait in the receive ring from a slot on.\<close>

definition awaiting :: "'d card \<Rightarrow> nat \<Rightarrow> bytes list \<Rightarrow> bool" where
  "awaiting c head frames \<longleftrightarrow> length (rx_ring c) = RX_RING \<and> length frames < RX_RING \<and>
     (\<forall>i<length frames. length (frames ! i) \<le> NET_FRAME_MAX \<and>
        rx_status (rx_ring c ! ((head + i) mod RX_RING)) AND 0x01 \<noteq> 0 \<and>
        unat (rx_length (rx_ring c ! ((head + i) mod RX_RING))) = length (frames ! i) \<and>
        take (length (frames ! i)) (rx_buffers c ! ((head + i) mod RX_RING)) = frames ! i)"

text \<open>An adapter that does not touch the frames it has handed over when it is given a slot back.\<close>

definition keeps_received :: "'d e1000_driver \<Rightarrow> bool" where
  "keeps_received g \<longleftrightarrow> (\<forall>c head frames v. awaiting c head frames \<longrightarrow> awaiting (after_write g E1000_RDT v c) head frames)"

lemma take_awaiting:
  assumes "awaiting (card g) (rx_head g) (f # frames)" "rx_head g < RX_RING" "keeps_received g"
  shows "\<exists>c. take_frame g = (g\<lparr>card := c, rx_head := (rx_head g + 1) mod RX_RING\<rparr>, f) \<and> awaiting c ((rx_head g + 1) mod RX_RING) frames"
proof -
  let ?h = "rx_head g"
  let ?c = "(card g)\<lparr>rx_ring := (rx_ring (card g))[?h := (rx_ring (card g) ! ?h)\<lparr>rx_status := 0\<rparr>]\<rparr>"
  have a: "length (rx_ring (card g)) = RX_RING" "length frames + 1 < RX_RING"
    "\<And>i. i < Suc (length frames) \<Longrightarrow> length ((f # frames) ! i) \<le> NET_FRAME_MAX \<and>
        rx_status (rx_ring (card g) ! ((?h + i) mod RX_RING)) AND 0x01 \<noteq> 0 \<and>
        unat (rx_length (rx_ring (card g) ! ((?h + i) mod RX_RING))) = length ((f # frames) ! i) \<and>
        take (length ((f # frames) ! i)) (rx_buffers (card g) ! ((?h + i) mod RX_RING)) = (f # frames) ! i"
    using assms(1) by (auto simp: awaiting_def)
  have f: "take (min (unat (rx_length (rx_ring (card g) ! ?h))) NET_FRAME_MAX) (rx_buffers (card g) ! ?h) = f"
    using a(3) [of 0] assms(2) by simp
  have "awaiting ?c ((?h + 1) mod RX_RING) frames"
    unfolding awaiting_def
  proof (intro conjI allI impI)
    fix i assume i: "i < length frames"
    have s: "((?h + 1) mod RX_RING + i) mod RX_RING = (?h + Suc i) mod RX_RING" by (simp add: mod_add_left_eq)
    have ne: "?h \<noteq> (?h + Suc i) mod RX_RING"
    proof
      assume "?h = (?h + Suc i) mod RX_RING"
      then have "(?h + Suc i) mod RX_RING = (?h + 0) mod RX_RING" using assms(2) by simp
      then have "Suc i mod RX_RING = 0" by (metis add_diff_cancel_left' mod_eq_dvd_iff_nat le_add1 dvd_imp_mod_0 add_0_right)
      then show False using i a(2) by simp
    qed
    show "length (frames ! i) \<le> NET_FRAME_MAX"
      "rx_status (rx_ring ?c ! (((?h + 1) mod RX_RING + i) mod RX_RING)) AND 0x01 \<noteq> 0"
      "unat (rx_length (rx_ring ?c ! (((?h + 1) mod RX_RING + i) mod RX_RING))) = length (frames ! i)"
      "take (length (frames ! i)) (rx_buffers ?c ! (((?h + 1) mod RX_RING + i) mod RX_RING)) = frames ! i"
      unfolding s using a(3) [of "Suc i"] i ne by simp_all
  qed (use a in simp_all)
  then have "awaiting (after_write g E1000_RDT ?h ?c) ((?h + 1) mod RX_RING) frames" using assms(3) by (simp add: keeps_received_def)
  then show ?thesis using f
    by (intro exI [of _ "after_write g E1000_RDT ?h ?c"]) (simp add: take_frame_def Let_def on_pci_def write_after)
qed


section \<open>An adapter\<close>

text \<open>
  A model of the adapter that works at once: its state is the slot it is idle at and the frames it has sent. Its firmware
  shows one handle without and one with the adapter behind it.
\<close>

type_synonym demo = "nat \<times> bytes list"

definition demo_write :: "u8 \<Rightarrow> nat \<Rightarrow> u32 \<Rightarrow> demo card \<Rightarrow> demo card" where
  "demo_write b off v c =
     (if off = E1000_TDT \<and> unat v \<noteq> fst (adapter c)
      then let t = fst (adapter c); d = tx_ring c ! t
           in c\<lparr>tx_ring := (tx_ring c)[t := d\<lparr>tx_status := 1\<rparr>],
                adapter := ((t + 1) mod TX_RING, snd (adapter c) @ [take (unat (tx_length d)) (tx_buffers c ! t)])\<rparr>
      else c)"

definition demo_config :: bytes where
  "demo_config = [CHR 0x86, CHR 0x80, CHR 0x0E, CHR 0x10] @ replicate 7 NUL @ [CHR 0x02] @ replicate 52 NUL"

definition demo_pci :: "demo pci_io" where
  "demo_pci =
     \<lparr>mem_read = Some (\<lambda>b off c. (c, if off = E1000_RAL then 0x00270008 else if off = E1000_RAH then 0x0201 else 0)),
      mem_write = Some demo_write, io_read = None, io_write = None,
      config_read = Some (\<lambda>off n c. (c, Some (take n (drop off demo_config)))), config_write = None\<rparr>"

definition demo_firmware :: "demo firmware" where
  "demo_firmware =
     \<lparr>pci_handles = Some [None, Some demo_pci], stall_service = None, rx_ring_at = 0x1000, tx_ring_at = 0x2000,
      rx_buffer_at = (\<lambda>i. 0x10000 + 2048 * of_nat i), tx_buffer_at = (\<lambda>i. 0x20000 + 2048 * of_nat i)\<rparr>"

definition blank :: "demo card" where
  "blank = \<lparr>rx_ring = [], tx_ring = [], rx_buffers = [], tx_buffers = [], adapter = (0, [])\<rparr>"

definition demo_found :: "demo e1000_driver" where
  "demo_found = fst (e1000_probe demo_firmware (no_adapter (fresh_rings demo_firmware blank)))"

definition demo_driver :: "demo e1000_driver" where
  "demo_driver = fst (e1000_initialize demo_firmware demo_found)"

lemma demo_supported: "supported (filled 64 (take 64 (drop 0 demo_config)))" "filled 64 (take 64 (drop 0 demo_config)) = demo_config"
  "le32 demo_config 0x10 AND 1 = 0"
proof -
  show e: "filled 64 (take 64 (drop 0 demo_config)) = demo_config" by (simp add: demo_config_def filled_def)
  have n: "demo_config ! 11 = CHR 0x02" "demo_config ! 0 = CHR 0x86" "demo_config ! 1 = CHR 0x80" "demo_config ! 2 = CHR 0x0E" "demo_config ! 3 = CHR 0x10"
    "demo_config ! 16 = NUL" "demo_config ! 17 = NUL" "demo_config ! 18 = NUL" "demo_config ! 19 = NUL"
    by (simp_all add: demo_config_def nth_append numeral_eq_Suc)
  show "supported (filled 64 (take 64 (drop 0 demo_config)))" unfolding e supported_def le16_def using n by simp
  show "le32 demo_config 0x10 AND 1 = 0" unfolding le32_def using n by simp
qed

lemma demo_found_eq:
  "demo_found = (no_adapter (fresh_rings demo_firmware blank))\<lparr>present := True, pci := Some demo_pci, vendor_id := le16 demo_config 0,
     device_id := le16 demo_config 2, use_mmio := True, bar_index := 0\<rparr>"
  unfolding demo_found_def e1000_probe_def
  using demo_supported by (simp add: demo_firmware_def demo_pci_def no_adapter_def adopt_def Let_def)

definition demo_path :: "demo e1000_driver \<Rightarrow> bool" where
  "demo_path g \<longleftrightarrow> present g \<and> use_mmio g \<and> pci g = Some demo_pci"

lemma demo_access:
  assumes "demo_path g"
  shows "e1000_reg_write32 off v g = g\<lparr>card := demo_write (bar_index g) off v (card g)\<rparr>"
    "e1000_reg_read32 off g = (g, if off = E1000_RAL then 0x00270008 else if off = E1000_RAH then 0x0201 else 0)"
    "e1000_enable_pci_bus_mastering g = g"
  using assms by (simp_all add: demo_path_def e1000_reg_write32_def e1000_reg_read32_def demo_pci_def e1000_enable_pci_bus_mastering_def)

lemma demo_other: "demo_path g \<Longrightarrow> off \<noteq> E1000_TDT \<or> unat v = fst (adapter (card g)) \<Longrightarrow> e1000_reg_write32 off v g = g"
  by (auto simp: demo_access demo_write_def)

lemma demo_writes: "demo_path g \<Longrightarrow> list_all (\<lambda>(off, v). off \<noteq> E1000_TDT \<or> unat v = fst (adapter (card g))) ws \<Longrightarrow> reg_writes ws g = g"
  by (induction ws) (simp_all add: reg_writes_def split_beta demo_other)

lemma demo_reset: "demo_path g \<Longrightarrow> reset_adapter demo_firmware g = g"
  by (simp add: reset_adapter_def demo_other demo_access(2) stall_def demo_firmware_def E1000_TDT_def E1000_IMC_def E1000_CTRL_def)

lemma demo_driver_eq: "demo_driver = demo_found\<lparr>mac := [0x08, 0x00, 0x27, 0x00, 0x01, 0x02], initialized := True, link_up := False\<rparr>"
proof -
  have f: "demo_path demo_found" "\<not> initialized demo_found" "adapter (card demo_found) = (0, [])"
    "on_pci (fresh_rings demo_firmware) demo_found = demo_found" "tx_tail demo_found = 0" "rx_head demo_found = 0"
    by (simp_all add: demo_found_eq demo_path_def no_adapter_def on_pci_def fresh_rings_def blank_def)
  have w: "reg_writes (ring_registers demo_firmware) demo_found = demo_found"
    by (rule demo_writes [OF f(1)]) (simp add: ring_registers_def f(3) E1000_TDT_def E1000_RDBAL_def E1000_RDBAH_def E1000_RDLEN_def
      E1000_RDH_def E1000_RDT_def E1000_TDBAL_def E1000_TDBAH_def E1000_TDLEN_def E1000_TDH_def E1000_TIPG_def E1000_TCTL_def E1000_RCTL_def)
  let ?m = "[0x08, 0x00, 0x27, 0x00, 0x01, 0x02] :: u8 list"
  have z: "demo_found\<lparr>tx_tail := 0, rx_head := 0\<rparr> = demo_found" using f(5,6) by simp
  have regs: "mac_of_registers 0x00270008 0x0201 = ?m" by (simp add: mac_of_registers_def) 
  have m: "e1000_read_mac demo_firmware demo_found = (demo_found, ?m)"
  proof -
    have "e1000_reg_read32 E1000_RAL demo_found = (demo_found, 0x00270008)" "e1000_reg_read32 E1000_RAH demo_found = (demo_found, 0x0201)"
      unfolding demo_access(2) [OF f(1)] by (simp_all add: E1000_RAL_def E1000_RAH_def)
    then show ?thesis by (simp add: e1000_read_mac_def regs zero_mac_def ff_mac_def)
  qed
  have v: "e1000_mac_is_valid ?m" by (simp add: e1000_mac_is_valid_def zero_mac_def ff_mac_def)
  have p: "demo_path (demo_found\<lparr>mac := ?m\<rparr>)" using f(1) by (simp add: demo_path_def)
  have prog: "e1000_program_mac ?m (demo_found\<lparr>mac := ?m\<rparr>) = demo_found\<lparr>mac := ?m\<rparr>"
    unfolding e1000_program_mac_def by (rule demo_writes [OF p]) (simp add: E1000_RAL_def E1000_RAH_def E1000_TDT_def)
  have l: "read_link (demo_found\<lparr>mac := ?m\<rparr>) = demo_found\<lparr>mac := ?m, link_up := False\<rparr>"
    unfolding read_link_def demo_access(2) [OF p] by (simp add: E1000_RAL_def E1000_RAH_def E1000_STATUS_def)
  have "present demo_found" using f(1) by (simp add: demo_path_def)
  then show ?thesis
    unfolding demo_driver_def e1000_initialize_def Let_def
    by (simp add: demo_access(3) [OF f(1)] f(2,4) demo_reset [OF f(1)] w z m v prog l)
qed

lemma demo_card: "card demo_driver = fresh_rings demo_firmware blank"
  by (simp add: demo_driver_eq demo_found_eq no_adapter_def)

lemma demo_tx_ready: "tx_ready demo_firmware (\<lambda>t d. fst d = t) snd demo_driver"
proof -
  have p: "demo_path demo_driver" by (simp add: demo_driver_eq demo_found_eq demo_path_def no_adapter_def)
  have a: "after_write demo_driver E1000_TDT v c = demo_write (bar_index demo_driver) E1000_TDT (of_nat v) c" for v c
    using p by (simp add: after_write_def demo_access(1) demo_path_def)
  have "sends_posted demo_firmware demo_driver (\<lambda>t d. fst d = t) snd"
    unfolding sends_posted_def
  proof (intro allI impI)
    fix c :: "demo card" and t
    assume h: "t < TX_RING" "fst (adapter c) = t"
    have n: "unat (of_nat ((t + 1) mod TX_RING) :: u32) = (t + 1) mod TX_RING"
      by (simp add: unat_of_nat TX_RING_def)
    have "(t + 1) mod TX_RING \<noteq> t" using h(1) by (auto simp: TX_RING_def mod_Suc)
    then have "after_write demo_driver E1000_TDT ((t + 1) mod TX_RING) c =
        c\<lparr>tx_ring := (tx_ring c)[t := (tx_ring c ! t)\<lparr>tx_status := 1\<rparr>],
          adapter := ((t + 1) mod TX_RING, snd (adapter c) @ [take (unat (tx_length (tx_ring c ! t))) (tx_buffers c ! t)])\<rparr>"
      unfolding a demo_write_def n using h(2) by (simp add: Let_def)
    then show "\<exists>k<1000. \<exists>status d'.
           (\<forall>j<k. tx_status (tx_ring ((passes demo_firmware 10 ^^ j) (after_write demo_driver E1000_TDT ((t + 1) mod TX_RING) c)) ! t) AND 0x01 = 0) \<and>
           status AND 0x01 \<noteq> 0 \<and> fst d' = (t + 1) mod TX_RING \<and>
           snd d' = snd (adapter c) @ [take (unat (tx_length (tx_ring c ! t))) (tx_buffers c ! t)] \<and>
           (passes demo_firmware 10 ^^ k) (after_write demo_driver E1000_TDT ((t + 1) mod TX_RING) c) =
             c\<lparr>tx_ring := (tx_ring c)[t := (tx_ring c ! t)\<lparr>tx_status := status\<rparr>], adapter := d'\<rparr>"
      by (intro exI [of _ 0] conjI exI [of _ 1] exI) simp_all
  qed
  moreover have "\<forall>d\<in>set (tx_ring (card demo_driver)). tx_status d AND 0x01 \<noteq> 0" unfolding demo_card by (auto simp: fresh_rings_def)
  moreover have "initialized demo_driver" "tx_tail demo_driver = 0" by (simp_all add: demo_driver_eq demo_found_eq no_adapter_def)
  moreover have "card_ok (card demo_driver)" "adapter (card demo_driver) = (0, [])"
    unfolding demo_card by (rule fresh_ok) (simp add: fresh_rings_def blank_def)
  ultimately show ?thesis by (simp add: tx_ready_def TX_RING_def)
qed

text \<open>A host with this driver as its device.\<close>

definition adapter_host :: "demo e1000_driver net_host" where
  "adapter_host = net.extend demo_net \<lparr>net_device = demo_driver, net_rx = (\<lambda>i. NUL)\<rparr>"


lemma demo_honest: "honest_firmware demo_firmware" "honest_network None"
proof -
  have "card_ok (demo_write b off v c)" if "card_ok c" for b off v c
    using that by (simp add: demo_write_def Let_def card_ok_def)
  then have "honest_pci demo_pci" by (simp add: honest_pci_def demo_pci_def)
  then show "honest_firmware demo_firmware" by (simp add: honest_firmware_def demo_firmware_def)
qed (simp add: honest_network_def)


text \<open>Two frames in the last and the first slot of the receive ring.\<close>

definition full_slot :: "nat \<Rightarrow> rx_desc" where
  "full_slot n = \<lparr>rx_addr = 0, rx_length = of_nat n, rx_checksum = 0, rx_status = 1, rx_errors = 0, rx_special = 0\<rparr>"

definition received_driver :: "demo e1000_driver" where
  "received_driver = demo_driver\<lparr>rx_head := 31, card := (card demo_driver)
     \<lparr>rx_ring := (rx_ring (card demo_driver))[31 := full_slot 2, 0 := full_slot 3],
      rx_buffers := (rx_buffers (card demo_driver))[31 := ''ab'' @ replicate 2046 NUL, 0 := ''cde'' @ replicate 2045 NUL]\<rparr>\<rparr>"


end
