(* ===== verification/ArmFs.thy ===== *)
theory ArmFs
  imports ArmPath Interfaces
begin

text \<open>
  The RAM file system of the ARM64 kernel, \<open>src/arm64/kernel/main.c\<close>: a flat table of
  entries with absolute paths. The state \<open>kernel\<close> holds the live part of \<open>g_fs\<close> (the first
  \<open>g_fs_count\<close> entries; the rest of the array is never read) and \<open>g_persist\<close>, whose dirty
  flag every mutation sets. An entry's \<open>e_data\<close> is the live prefix of its 16384-byte array;
  the octets after it are zero after every write. A call that reports failure returns
  \<open>False\<close> beside the state. \<open>fs_move\<close> is \<open>None\<close> where its unchecked \<open>strcat\<close> writes past the
  end of an entry's path array.
\<close>

definition FS_MAX_ENTRIES :: nat where "FS_MAX_ENTRIES = 160"
definition FS_MAX_FILE_SIZE :: nat where "FS_MAX_FILE_SIZE = 16384"
definition FILE_MANAGER_VIEW_MAX :: nat where "FILE_MANAGER_VIEW_MAX = 48"
definition ARM_FS_TEXT :: nat where "ARM_FS_TEXT = 1"
definition ARM_FS_DIR :: nat where "ARM_FS_DIR = 2"

record arm_fs_entry =
  e_path :: string
  e_data :: bytes
  e_size :: nat
  e_type :: nat

record persist_state =
  p_available :: bool
  p_dirty :: bool
  p_installed :: bool
  p_volume_index :: nat
  p_status :: string

record kernel =
  g_fs :: "arm_fs_entry list"
  g_persist :: persist_state

definition persist_mark_dirty :: "'a kernel_scheme \<Rightarrow> 'a kernel_scheme" where
  "persist_mark_dirty st =
     (if p_available (g_persist st) then st\<lparr>g_persist := (g_persist st)\<lparr>p_dirty := True\<rparr>\<rparr> else st)"

section \<open>Lookup\<close>

fun find_index :: "string \<Rightarrow> arm_fs_entry list \<Rightarrow> nat option" where
  "find_index path [] = None"
| "find_index path (e # es) =
     (if e_path e = path then Some 0 else map_option Suc (find_index path es))"

definition fs_find :: "'a kernel_scheme \<Rightarrow> string \<Rightarrow> arm_fs_entry option" where
  "fs_find st path = map_option (\<lambda>i. g_fs st ! i) (find_index path (g_fs st))"

definition fs_parent_exists :: "'a kernel_scheme \<Rightarrow> string \<Rightarrow> bool" where
  "fs_parent_exists st path =
     (let parent = parent_directory (strcopy_limit '''' path FS_PATH_MAX)
      in if parent = '''' \<or> parent = ''/'' then True
         else case fs_find st parent of None \<Rightarrow> False | Some entry \<Rightarrow> e_type entry = ARM_FS_DIR)"

definition fs_has_children :: "'a kernel_scheme \<Rightarrow> string \<Rightarrow> bool" where
  "fs_has_children st path =
     (if path = ''/'' then g_fs st \<noteq> [] else list_ex (\<lambda>e. below path (e_path e)) (g_fs st))"

text \<open>\<open>fs_list\<close>: the entries one level below a directory, in table order, at most
  \<open>max_results\<close> of them.\<close>

definition is_child :: "string \<Rightarrow> arm_fs_entry \<Rightarrow> bool" where
  "is_child directory e =
     (if directory = ''/'' then CHR ''/'' \<notin> set (drop 1 (e_path e))
      else below directory (e_path e) \<and> CHR ''/'' \<notin> set (drop (length directory + 1) (e_path e)))"

definition fs_list :: "'a kernel_scheme \<Rightarrow> string \<Rightarrow> nat \<Rightarrow> arm_fs_entry list" where
  "fs_list st directory max_results = take max_results (filter (is_child directory) (g_fs st))"

definition fs_count_children :: "'a kernel_scheme \<Rightarrow> string \<Rightarrow> nat" where
  "fs_count_children st path = length (fs_list st path FILE_MANAGER_VIEW_MAX)"

section \<open>Mutation\<close>

definition fs_push :: "'a kernel_scheme \<Rightarrow> string \<Rightarrow> nat \<Rightarrow> 'a kernel_scheme option" where
  "fs_push st path type =
     (if length (g_fs st) \<ge> FS_MAX_ENTRIES \<or> length path + 1 > FS_PATH_MAX then None
      else Some (st\<lparr>g_fs := g_fs st @
        [\<lparr>e_path = strcopy_limit '''' path FS_PATH_MAX, e_data = [], e_size = 0, e_type = type\<rparr>]\<rparr>))"

text \<open>Storing \<open>size\<close> octets in the entry at an index: \<open>memset\<close>, \<open>memcpy\<close>, the size field.\<close>

definition store_at :: "'a kernel_scheme \<Rightarrow> nat \<Rightarrow> bytes \<Rightarrow> nat \<Rightarrow> 'a kernel_scheme" where
  "store_at st i data type =
     st\<lparr>g_fs := (g_fs st)[i := (g_fs st ! i)\<lparr>e_data := data, e_size := length data, e_type := type\<rparr>]\<rparr>"

definition fs_write :: "'a kernel_scheme \<Rightarrow> string \<Rightarrow> bytes \<Rightarrow> nat \<Rightarrow> 'a kernel_scheme \<times> bool" where
  "fs_write st path data type =
     (if path = [] \<or> hd path \<noteq> CHR ''/'' \<or> length data > FS_MAX_FILE_SIZE \<or> type = ARM_FS_DIR
      then (st, False)
      else case find_index path (g_fs st) of
        Some i \<Rightarrow>
          if e_type (g_fs st ! i) = ARM_FS_DIR then (st, False)
          else (persist_mark_dirty (store_at st i data type), True)
      | None \<Rightarrow>
          if \<not> fs_parent_exists st path then (st, False)
          else case fs_push st path type of
            None \<Rightarrow> (st, False)
          | Some st' \<Rightarrow>
              (persist_mark_dirty (store_at st' (length (g_fs st') - 1) data type), True))"

definition fs_write_if_changed ::
    "'a kernel_scheme \<Rightarrow> string \<Rightarrow> bytes \<Rightarrow> nat \<Rightarrow> 'a kernel_scheme \<times> bool" where
  "fs_write_if_changed st path data type =
     (case fs_find st path of
        Some entry \<Rightarrow>
          if e_type entry = type \<and> e_size entry = length data \<and>
             (data = [] \<or> take (length data) (e_data entry) = data)
          then (st, True) else fs_write st path data type
      | None \<Rightarrow> fs_write st path data type)"

definition fs_mkdir :: "'a kernel_scheme \<Rightarrow> string \<Rightarrow> 'a kernel_scheme \<times> bool" where
  "fs_mkdir st path =
     (if path = [] \<or> hd path \<noteq> CHR ''/'' \<or> path = ''/'' then (st, False)
      else case fs_find st path of
        Some entry \<Rightarrow> (st, e_type entry = ARM_FS_DIR)
      | None \<Rightarrow>
          if \<not> fs_parent_exists st path then (st, False)
          else case fs_push st path ARM_FS_DIR of
            None \<Rightarrow> (st, False)
          | Some st' \<Rightarrow> (persist_mark_dirty st', True))"

definition fs_remove :: "'a kernel_scheme \<Rightarrow> string \<Rightarrow> 'a kernel_scheme \<times> bool" where
  "fs_remove st path =
     (if path = [] \<or> hd path \<noteq> CHR ''/'' \<or> path = ''/'' then (st, False)
      else case find_index path (g_fs st) of
        Some i \<Rightarrow>
          if e_type (g_fs st ! i) = ARM_FS_DIR \<and> fs_has_children st path then (st, False)
          else (persist_mark_dirty (st\<lparr>g_fs := take i (g_fs st) @ drop (Suc i) (g_fs st)\<rparr>), True)
      | None \<Rightarrow> (st, False))"

definition fs_copy :: "'a kernel_scheme \<Rightarrow> string \<Rightarrow> string \<Rightarrow> 'a kernel_scheme \<times> bool" where
  "fs_copy st source destination =
     (case fs_find st source of
        None \<Rightarrow> (st, False)
      | Some src \<Rightarrow>
          if e_type src = ARM_FS_DIR \<or> fs_find st destination \<noteq> None then (st, False)
          else fs_write st destination (take (e_size src) (e_data src)) (e_type src))"

text \<open>
  The \<open>source\<close> pointer of \<open>fs_move\<close> is either a buffer of the caller or the path field of a
  table entry (the Files app passes \<open>entry->path\<close>). In the second case the loop reads it
  again after it has renamed that entry.
\<close>

datatype path_arg = Buffer string | EntryPath nat

fun arg_text :: "arm_fs_entry list \<Rightarrow> path_arg \<Rightarrow> string" where
  "arg_text es (Buffer s) = s"
| "arg_text es (EntryPath j) = e_path (es ! j)"

text \<open>
  One turn of the loop at index \<open>i\<close>. The test compares the first \<open>source_len\<close> octets of the
  path with those of \<open>source\<close> as it reads now; the replaced suffix starts at \<open>source_len\<close>.
\<close>

definition move_step ::
    "path_arg \<Rightarrow> nat \<Rightarrow> string \<Rightarrow> nat \<Rightarrow> arm_fs_entry list \<Rightarrow> arm_fs_entry list option" where
  "move_step source source_len destination i es =
     (let path = e_path (es ! i); src = arg_text es source
      in if path = src \<or>
            (take source_len path = take source_len src \<and> cchar path source_len = CHR ''/'')
         then let suffix = strcopy_limit '''' (drop source_len path) FS_PATH_MAX;
                  base = strcopy_limit '''' destination FS_PATH_MAX
              in if length base + length suffix + 1 > FS_PATH_MAX then None
                 else Some (es[i := (es ! i)\<lparr>e_path := base @ suffix\<rparr>])
         else Some es)"

fun move_loop ::
    "path_arg \<Rightarrow> nat \<Rightarrow> string \<Rightarrow> nat list \<Rightarrow> arm_fs_entry list \<Rightarrow> arm_fs_entry list option" where
  "move_loop source source_len destination [] es = Some es"
| "move_loop source source_len destination (i # is) es =
     (case move_step source source_len destination i es of
        None \<Rightarrow> None
      | Some es' \<Rightarrow> move_loop source source_len destination is es')"

definition fs_move ::
    "'a kernel_scheme \<Rightarrow> path_arg \<Rightarrow> string \<Rightarrow> ('a kernel_scheme \<times> bool) option" where
  "fs_move st source destination =
     (let src_text = arg_text (g_fs st) source
      in case fs_find st src_text of
        None \<Rightarrow> Some (st, False)
      | Some src \<Rightarrow>
          if fs_find st destination \<noteq> None \<or> \<not> fs_parent_exists st destination
          then Some (st, False)
          else let source_len = length src_text
          in if e_type src = ARM_FS_DIR \<and> below src_text destination then Some (st, False)
             else map_option (\<lambda>es. (persist_mark_dirty (st\<lparr>g_fs := es\<rparr>), True))
                    (move_loop source source_len destination [0 ..< length (g_fs st)] (g_fs st)))"

definition fs_append_line :: "'a kernel_scheme \<Rightarrow> string \<Rightarrow> string \<Rightarrow> 'a kernel_scheme \<times> bool" where
  "fs_append_line st path line =
     (let append = (\<lambda>old.
        if old \<noteq> [] \<and> last old \<noteq> LF
        then if length old + 1 \<ge> FS_MAX_FILE_SIZE then (st, False)
             else if length (old @ [LF]) + length line + 1 > FS_MAX_FILE_SIZE then (st, False)
             else fs_write st path ((old @ [LF]) @ line @ [LF]) ARM_FS_TEXT
        else if length old + length line + 1 > FS_MAX_FILE_SIZE then (st, False)
             else fs_write st path (old @ line @ [LF]) ARM_FS_TEXT)
      in case fs_find st path of
        Some entry \<Rightarrow>
          if e_type entry = ARM_FS_DIR then (st, False)
          else append (take (e_size entry) (e_data entry))
      | None \<Rightarrow> if \<not> fs_parent_exists st path then (st, False) else append [])"

section \<open>Well-formed tables\<close>

text \<open>What every entry satisfies on its own.\<close>

definition entry_ok :: "arm_fs_entry \<Rightarrow> bool" where
  "entry_ok e \<longleftrightarrow> e_path e \<noteq> [] \<and> hd (e_path e) = CHR ''/'' \<and> length (e_path e) < FS_PATH_MAX \<and>
     e_size e = length (e_data e) \<and> e_size e \<le> FS_MAX_FILE_SIZE \<and>
     (e_type e = ARM_FS_DIR \<longrightarrow> e_data e = [])"

text \<open>The parent of the path is the root or a directory of the table.\<close>

definition has_parent_in :: "arm_fs_entry list \<Rightarrow> string \<Rightarrow> bool" where
  "has_parent_in es path \<longleftrightarrow> parent_directory path = ''/'' \<or>
     list_ex (\<lambda>d. e_path d = parent_directory path \<and> e_type d = ARM_FS_DIR) es"

definition fs_ok :: "arm_fs_entry list \<Rightarrow> bool" where
  "fs_ok es \<longleftrightarrow> length es \<le> FS_MAX_ENTRIES \<and> distinct (map e_path es) \<and>
     list_all entry_ok es \<and> list_all (\<lambda>e. has_parent_in es (e_path e)) es"

text \<open>A directory stands in the table before the entries it holds.\<close>

fun parents_seen :: "arm_fs_entry list \<Rightarrow> arm_fs_entry list \<Rightarrow> bool" where
  "parents_seen seen [] \<longleftrightarrow> True"
| "parents_seen seen (e # es) \<longleftrightarrow> has_parent_in seen (e_path e) \<and> parents_seen (seen @ [e]) es"

definition parents_first :: "arm_fs_entry list \<Rightarrow> bool" where
  "parents_first es \<longleftrightarrow> parents_seen [] es"

text \<open>The content and type a lookup finds.\<close>

definition fs_read :: "'a kernel_scheme \<Rightarrow> string \<Rightarrow> (bytes \<times> nat) option" where
  "fs_read st path = map_option (\<lambda>e. (take (e_size e) (e_data e), e_type e)) (fs_find st path)"

section \<open>Lookup facts\<close>

lemma find_index_None: "find_index path es = None \<longleftrightarrow> path \<notin> e_path ` set es"
  by (induction es) auto

lemma find_index_Some:
  "find_index path es = Some i \<Longrightarrow> i < length es \<and> e_path (es ! i) = path"
  by (induction es arbitrary: i) (auto split: if_splits)

lemma find_index_distinct:
  "distinct (map e_path es) \<Longrightarrow> i < length es \<Longrightarrow> find_index (e_path (es ! i)) es = Some i"
proof (induction es arbitrary: i)
  case (Cons e es)
  show ?case
  proof (cases i)
    case (Suc j)
    with Cons.prems have "e_path (es ! j) \<in> e_path ` set es" by auto
    then have "e_path e \<noteq> e_path (es ! j)" using Cons.prems(1) by auto
    with Suc Cons show ?thesis by simp
  qed simp
qed simp

lemma find_index_append:
  "find_index path (es @ es') =
    (case find_index path es of Some i \<Rightarrow> Some i
     | None \<Rightarrow> map_option (\<lambda>i. length es + i) (find_index path es'))"
  by (induction es; cases "find_index path es'") (auto split: option.splits)

lemma find_index_cong: "map e_path es = map e_path es' \<Longrightarrow> find_index path es = find_index path es'"
proof (induction es arbitrary: es')
  case (Cons e es)
  then show ?case by (cases es') auto
qed simp

text \<open>On a table with distinct paths a lookup finds exactly the entry with that path.\<close>

lemma fs_find_eq_Some:
  assumes "distinct (map e_path (g_fs st))"
  shows "fs_find st path = Some e \<longleftrightarrow> e \<in> set (g_fs st) \<and> e_path e = path"
proof
  assume "fs_find st path = Some e"
  then show "e \<in> set (g_fs st) \<and> e_path e = path"
    by (auto simp: fs_find_def dest!: find_index_Some)
next
  assume "e \<in> set (g_fs st) \<and> e_path e = path"
  then obtain i where "i < length (g_fs st)" "g_fs st ! i = e" "e_path e = path"
    by (auto simp: in_set_conv_nth)
  with find_index_distinct [OF assms, of i] show "fs_find st path = Some e"
    by (simp add: fs_find_def)
qed

lemma fs_find_eq_None: "fs_find st path = None \<longleftrightarrow> path \<notin> e_path ` set (g_fs st)"
  by (simp add: fs_find_def find_index_None)

lemma fs_find_mem: "fs_find st path = Some e \<Longrightarrow> e \<in> set (g_fs st) \<and> e_path e = path"
  by (auto simp: fs_find_def dest!: find_index_Some)

section \<open>What the table depends on\<close>

lemma g_fs_mark [simp]: "g_fs (persist_mark_dirty st) = g_fs st"
  by (simp add: persist_mark_dirty_def)

lemma fs_find_mark [simp]: "fs_find (persist_mark_dirty st) = fs_find st"
  by (simp add: fs_find_def fun_eq_iff)

definition entry_key :: "arm_fs_entry \<Rightarrow> string \<times> bool" where
  "entry_key e = (e_path e, e_type e = ARM_FS_DIR)"

lemma has_parent_in_iff:
  "has_parent_in es path \<longleftrightarrow> parent_directory path = ''/'' \<or>
     (parent_directory path, True) \<in> entry_key ` set es"
  by (auto simp: has_parent_in_def list_ex_iff entry_key_def image_iff)

lemma has_parent_in_mono: "has_parent_in es path \<Longrightarrow> set es \<subseteq> set es' \<Longrightarrow> has_parent_in es' path"
  by (auto simp: has_parent_in_iff)

lemma has_parent_in_cong:
  "map entry_key es = map entry_key es' \<Longrightarrow> has_parent_in es path = has_parent_in es' path"
  by (simp add: has_parent_in_iff flip: set_map)

lemma parents_seen_cong:
  "map entry_key seen = map entry_key seen' \<Longrightarrow> map entry_key es = map entry_key es' \<Longrightarrow>
   parents_seen seen es = parents_seen seen' es'"
proof (induction es arbitrary: seen seen' es')
  case (Cons e es)
  then obtain e' es'' where es': "es' = e' # es''" by (cases es') auto
  with Cons.prems have key: "entry_key e = entry_key e'" by simp
  have "parents_seen (seen @ [e]) es = parents_seen (seen' @ [e']) es''"
    using Cons.prems es' by (intro Cons.IH) simp_all
  moreover have "e_path e = e_path e'" using key by (simp add: entry_key_def)
  ultimately show ?case using es' has_parent_in_cong [OF Cons.prems(1)] by simp
qed simp

lemma parents_seen_append:
  "parents_seen seen (es @ es') \<longleftrightarrow> parents_seen seen es \<and> parents_seen (seen @ es) es'"
  by (induction es arbitrary: seen) auto

lemma parents_seen_mono: "parents_seen seen es \<Longrightarrow> set seen \<subseteq> set seen' \<Longrightarrow> parents_seen seen' es"
proof (induction es arbitrary: seen seen')
  case (Cons e es)
  have "parents_seen (seen' @ [e]) es"
    by (rule Cons.IH [of "seen @ [e]"]) (use Cons.prems in auto)
  moreover have "has_parent_in seen' (e_path e)"
    by (rule has_parent_in_mono [of seen]) (use Cons.prems in simp_all)
  ultimately show ?case by simp
qed simp

lemma parents_seen_remove:
  "parents_seen (seen @ x # mid) es \<Longrightarrow> \<forall>e\<in>set es. parent_directory (e_path e) \<noteq> e_path x \<or> parent_directory (e_path e) = ''/'' \<Longrightarrow>
   parents_seen (seen @ mid) es"
proof (induction es arbitrary: mid)
  case (Cons e es)
  have "has_parent_in (seen @ mid) (e_path e)"
    using Cons.prems by (auto simp: has_parent_in_iff entry_key_def)
  moreover have "parents_seen (seen @ (mid @ [e])) es"
    by (rule Cons.IH) (use Cons.prems in auto)
  ultimately show ?case by simp
qed simp

lemma parents_first_append [simp]:
  "parents_first (es @ [e]) \<longleftrightarrow> parents_first es \<and> has_parent_in es (e_path e)"
  by (simp add: parents_first_def parents_seen_append)

section \<open>Preservation, on tables\<close>

lemma fs_ok_append:
  assumes "fs_ok es" and "entry_ok e" and "e_path e \<notin> e_path ` set es"
    and "has_parent_in es (e_path e)" and "length es < FS_MAX_ENTRIES"
  shows "fs_ok (es @ [e])"
  using assms has_parent_in_mono [of es _ "es @ [e]"]
  by (auto simp: fs_ok_def list_all_iff)

lemma update_same_key:
  "i < length es \<Longrightarrow> entry_key e = entry_key (es ! i) \<Longrightarrow> map entry_key (es[i := e]) = map entry_key es"
  by (metis list_update_id map_update nth_map)

lemma fs_ok_same_key:
  assumes "fs_ok es" and "map entry_key es' = map entry_key es" and "list_all entry_ok es'"
  shows "fs_ok es'"
proof -
  have paths: "map e_path es' = map e_path es"
    using arg_cong [OF assms(2), of "map fst"] by (simp add: entry_key_def comp_def)
  have "list_all (\<lambda>e. has_parent_in es' (e_path e)) es' \<longleftrightarrow> list_all (has_parent_in es) (map e_path es')"
    using has_parent_in_cong [OF assms(2)] by (simp add: list_all_iff)
  also have "\<dots>"
    using assms(1) by (simp add: paths fs_ok_def list_all_iff)
  finally have "list_all (\<lambda>e. has_parent_in es' (e_path e)) es'" .
  moreover have "length es' = length es"
    using arg_cong [OF assms(2), of length] by simp
  ultimately show ?thesis
    using assms paths by (simp add: fs_ok_def)
qed

lemma split_at_index: "i < length es \<Longrightarrow> es = take i es @ es ! i # drop (Suc i) es"
  by (simp add: id_take_nth_drop)

lemma child_below:
  assumes "entry_ok e" and "parent_directory (e_path e) = d" and "d \<noteq> ''/''"
  shows "below d (e_path e)"
  using assms parent_below(1) [of "e_path e"] by (auto simp: entry_ok_def)

text \<open>Removing an entry that no other entry has for its parent.\<close>

lemma fs_ok_remove:
  assumes ok: "fs_ok (us @ x # vs)"
    and leaf: "\<forall>e\<in>set (us @ vs). parent_directory (e_path e) = e_path x \<longrightarrow> parent_directory (e_path e) = ''/''"
  shows "fs_ok (us @ vs)"
proof -
  have "has_parent_in (us @ vs) (e_path e)" if "e \<in> set (us @ vs)" for e
  proof -
    have "has_parent_in (us @ x # vs) (e_path e)"
      using ok that by (auto simp: fs_ok_def list_all_iff)
    with leaf that show ?thesis
      by (auto simp: has_parent_in_iff entry_key_def)
  qed
  with ok show ?thesis by (auto simp: fs_ok_def list_all_iff)
qed

lemma parents_first_remove:
  assumes "parents_first (us @ x # vs)"
    and "\<forall>e\<in>set (us @ vs). parent_directory (e_path e) = e_path x \<longrightarrow> parent_directory (e_path e) = ''/''"
  shows "parents_first (us @ vs)"
  using assms parents_seen_remove [of us x "[]" vs]
  by (auto simp: parents_first_def parents_seen_append)

section \<open>The operations keep the table well formed\<close>

lemma entry_update:
  "e\<lparr>e_data := d, e_size := n, e_type := t\<rparr> = \<lparr>e_path = e_path e, e_data = d, e_size = n, e_type = t\<rparr>"
  by (cases e) simp

lemma parent_exists_iff:
  assumes "distinct (map e_path (g_fs st))" and "length path < FS_PATH_MAX"
    and "path \<noteq> []" and "hd path = CHR ''/''"
  shows "fs_parent_exists st path \<longleftrightarrow> has_parent_in (g_fs st) path"
proof (cases "parent_directory path = ''/''")
  case True
  then show ?thesis
    using assms(2) by (simp add: fs_parent_exists_def has_parent_in_def strcopy_limit_fits)
next
  case False
  have "parent_directory path \<noteq> []"
    using parent_below(3) [OF assms(3,4) False] .
  then have "fs_parent_exists st path \<longleftrightarrow>
      (\<exists>e. fs_find st (parent_directory path) = Some e \<and> e_type e = ARM_FS_DIR)"
    using False assms(2)
    by (auto simp: fs_parent_exists_def strcopy_limit_fits Let_def split: option.splits)
  with False show ?thesis
    by (auto simp: fs_find_eq_Some [OF assms(1)] has_parent_in_def list_ex_iff)
qed

lemma fs_push_Some:
  "fs_push st path type = Some st' \<longleftrightarrow>
    length (g_fs st) < FS_MAX_ENTRIES \<and> length path < FS_PATH_MAX \<and>
    st' = st\<lparr>g_fs := g_fs st @ [\<lparr>e_path = path, e_data = [], e_size = 0, e_type = type\<rparr>]\<rparr>"
  by (auto simp: fs_push_def strcopy_limit_fits)

text \<open>A successful write, in one of its two forms: the entry is replaced, or appended.\<close>

lemma fs_write_cases:
  assumes "fs_write st path data type = (st', True)"
  obtains (replace) i where "i < length (g_fs st)" "e_path (g_fs st ! i) = path"
      "find_index path (g_fs st) = Some i" "e_type (g_fs st ! i) \<noteq> ARM_FS_DIR" "type \<noteq> ARM_FS_DIR"
      "length data \<le> FS_MAX_FILE_SIZE" "path \<noteq> []" "hd path = CHR ''/''"
      "g_fs st' = (g_fs st)[i := \<lparr>e_path = path, e_data = data, e_size = length data, e_type = type\<rparr>]"
    | (create) "path \<notin> e_path ` set (g_fs st)" "length (g_fs st) < FS_MAX_ENTRIES" "length path < FS_PATH_MAX"
      "fs_parent_exists st path" "type \<noteq> ARM_FS_DIR" "length data \<le> FS_MAX_FILE_SIZE"
      "path \<noteq> []" "hd path = CHR ''/''"
      "g_fs st' = g_fs st @ [\<lparr>e_path = path, e_data = data, e_size = length data, e_type = type\<rparr>]"
proof -
  have guards: "path \<noteq> []" "hd path = CHR ''/''" "length data \<le> FS_MAX_FILE_SIZE" "type \<noteq> ARM_FS_DIR"
    using assms by (auto simp: fs_write_def split: if_splits)
  show ?thesis
  proof (cases "find_index path (g_fs st)")
    case None
    with assms guards obtain st1 where "fs_parent_exists st path" "fs_push st path type = Some st1"
        "st' = persist_mark_dirty (store_at st1 (length (g_fs st1) - 1) data type)"
      by (auto simp: fs_write_def split: if_splits option.splits)
    with None guards show ?thesis
      by (intro create) (auto simp: fs_push_Some store_at_def find_index_None)
  next
    case (Some i)
    with assms guards have "e_type (g_fs st ! i) \<noteq> ARM_FS_DIR"
        "st' = persist_mark_dirty (store_at st i data type)"
      by (auto simp: fs_write_def split: if_splits)
    with Some find_index_Some [OF Some] guards show ?thesis
      by (intro replace [of i]) (auto simp: store_at_def entry_update)
  qed
qed

lemma fs_write_False: "fs_write st path data type = (st', False) \<Longrightarrow> st' = st"
  by (auto simp: fs_write_def split: if_splits option.splits)

lemma entry_ok_new:
  "length path < FS_PATH_MAX \<Longrightarrow> path \<noteq> [] \<Longrightarrow> hd path = CHR ''/'' \<Longrightarrow> length data \<le> FS_MAX_FILE_SIZE \<Longrightarrow>
   type = ARM_FS_DIR \<longrightarrow> data = [] \<Longrightarrow>
   entry_ok \<lparr>e_path = path, e_data = data, e_size = length data, e_type = type\<rparr>"
  by (simp add: entry_ok_def)

lemma fs_ok_distinct: "fs_ok es \<Longrightarrow> distinct (map e_path es)"
  by (simp add: fs_ok_def)

lemma fs_ok_entry: "fs_ok es \<Longrightarrow> e \<in> set es \<Longrightarrow> entry_ok e"
  by (simp add: fs_ok_def list_all_iff)

lemma fs_ok_unique: "fs_ok es \<Longrightarrow> x \<in> set es \<Longrightarrow> y \<in> set es \<Longrightarrow> e_path x = e_path y \<Longrightarrow> x = y"
  by (auto simp: fs_ok_def distinct_map inj_on_def)

lemma fs_write_ok [inv_intros]:
  assumes ok: "fs_ok (g_fs st)" and w: "fs_write st path data type = (st', b)"
  shows "fs_ok (g_fs st') \<and> (parents_first (g_fs st) \<longrightarrow> parents_first (g_fs st'))"
proof (cases b)
  case False
  with w have "st' = st" by (simp add: fs_write_False)
  with ok show ?thesis by simp
next
  case True
  with w have "fs_write st path data type = (st', True)" by simp
  then show ?thesis
  proof (cases rule: fs_write_cases)
    case (replace i)
    let ?e = "\<lparr>e_path = path, e_data = data, e_size = length data, e_type = type\<rparr>"
    have key: "map entry_key (g_fs st') = map entry_key (g_fs st)"
      unfolding replace using replace by (intro update_same_key) (simp_all add: entry_key_def)
    have "entry_ok ?e"
      using fs_ok_entry [OF ok nth_mem [OF replace(1)]] replace by (auto simp: entry_ok_def)
    then have "list_all entry_ok (g_fs st')"
      using fs_ok_entry [OF ok] set_update_subset_insert [of "g_fs st" i ?e]
      unfolding replace list_all_iff by blast
    then show ?thesis
      using fs_ok_same_key [OF ok key] parents_seen_cong [OF refl key] by (simp add: parents_first_def)
  next
    case create
    then have "has_parent_in (g_fs st) path"
      using parent_exists_iff [OF fs_ok_distinct [OF ok]] by blast
    with create fs_ok_append [OF ok entry_ok_new] show ?thesis by simp
  qed
qed

lemma fs_mkdir_cases:
  assumes "fs_mkdir st path = (st', b)"
  obtains (same) "st' = st" "b \<Longrightarrow> \<exists>e. fs_find st path = Some e \<and> e_type e = ARM_FS_DIR"
    | (create) "b" "path \<notin> e_path ` set (g_fs st)" "length (g_fs st) < FS_MAX_ENTRIES"
      "length path < FS_PATH_MAX" "fs_parent_exists st path" "path \<noteq> []" "hd path = CHR ''/''" "path \<noteq> ''/''"
      "g_fs st' = g_fs st @ [\<lparr>e_path = path, e_data = [], e_size = 0, e_type = ARM_FS_DIR\<rparr>]"
proof (cases "fs_find st path")
  case (Some e)
  then have "st' = st" "b \<Longrightarrow> \<exists>e. fs_find st path = Some e \<and> e_type e = ARM_FS_DIR"
    using assms by (auto simp: fs_mkdir_def split: if_splits)
  then show thesis by (rule same)
next
  case None
  note new = None [unfolded fs_find_eq_None]
  show thesis
  proof (cases b)
    case False
    then have "st' = st" using assms None by (auto simp: fs_mkdir_def split: if_splits option.splits)
    then show thesis using False same by simp
  next
    case True
    then obtain st1 where s1: "path \<noteq> []" "hd path = CHR ''/''" "path \<noteq> ''/''" "fs_parent_exists st path"
        "fs_push st path ARM_FS_DIR = Some st1" "st' = persist_mark_dirty st1"
      using assms None by (auto simp: fs_mkdir_def split: if_splits option.splits)
    then show thesis
      using True new by (intro create) (simp_all add: fs_push_Some)
  qed
qed

lemma fs_mkdir_ok [inv_intros]:
  assumes ok: "fs_ok (g_fs st)" and m: "fs_mkdir st path = (st', b)"
  shows "fs_ok (g_fs st') \<and> (parents_first (g_fs st) \<longrightarrow> parents_first (g_fs st'))"
  using m
proof (cases rule: fs_mkdir_cases)
  case same
  with ok show ?thesis by simp
next
  case create
  then have "has_parent_in (g_fs st) path"
    using parent_exists_iff [OF fs_ok_distinct [OF ok]] by blast
  with create fs_ok_append [OF ok entry_ok_new [of path "[]" ARM_FS_DIR]] show ?thesis by simp
qed

lemma fs_remove_cases:
  assumes "fs_remove st path = (st', True)"
  obtains us x vs where "g_fs st = us @ x # vs" "e_path x = path" "path \<noteq> ''/''" "path \<noteq> []" "hd path = CHR ''/''"
    "e_type x = ARM_FS_DIR \<longrightarrow> list_all (\<lambda>e. \<not> below path (e_path e)) (us @ x # vs)"
    "g_fs st' = us @ vs"
proof -
  obtain i where i: "find_index path (g_fs st) = Some i" "path \<noteq> ''/''" "path \<noteq> []" "hd path = CHR ''/''"
      "\<not> (e_type (g_fs st ! i) = ARM_FS_DIR \<and> fs_has_children st path)"
      "st' = persist_mark_dirty (st\<lparr>g_fs := take i (g_fs st) @ drop (Suc i) (g_fs st)\<rparr>)"
    using assms by (auto simp: fs_remove_def split: if_splits option.splits)
  note fi = find_index_Some [OF i(1)]
  show ?thesis
    using i fi split_at_index [of i "g_fs st"]
    by (intro that [of "take i (g_fs st)" "g_fs st ! i" "drop (Suc i) (g_fs st)"])
       (auto simp: fs_has_children_def list_all_iff list_ex_iff)
qed

lemma fs_remove_False: "fs_remove st path = (st', False) \<Longrightarrow> st' = st"
  by (auto simp: fs_remove_def split: if_splits option.splits)

text \<open>No entry has a removed one for its parent: files hold nothing, directories are empty.\<close>

lemma removed_is_leaf:
  assumes ok: "fs_ok (us @ x # vs)" and "e_path x \<noteq> ''/''"
    and "e_type x = ARM_FS_DIR \<longrightarrow> list_all (\<lambda>e. \<not> below (e_path x) (e_path e)) (us @ x # vs)"
  shows "\<forall>e\<in>set (us @ vs). parent_directory (e_path e) = e_path x \<longrightarrow> parent_directory (e_path e) = ''/''"
proof (intro ballI impI, rule ccontr)
  fix e assume e: "e \<in> set (us @ vs)" "parent_directory (e_path e) = e_path x"
    "parent_directory (e_path e) \<noteq> ''/''"
  then have "entry_ok e" "has_parent_in (us @ x # vs) (e_path e)"
    using ok by (auto simp: fs_ok_def list_all_iff)
  then have "below (e_path x) (e_path e)" using e by (auto intro: child_below)
  moreover have "e_type x = ARM_FS_DIR"
  proof -
    from \<open>has_parent_in (us @ x # vs) (e_path e)\<close> e(2) assms(2)
    obtain d where "d \<in> set (us @ x # vs)" "e_path d = e_path x" "e_type d = ARM_FS_DIR"
      unfolding has_parent_in_def list_ex_iff by metis
    then show ?thesis using fs_ok_unique [OF ok, of d x] by simp
  qed
  ultimately show False using assms(3) e(1) by (auto simp: list_all_iff)
qed

lemma fs_remove_ok [inv_intros]:
  assumes ok: "fs_ok (g_fs st)" and r: "fs_remove st path = (st', b)"
  shows "fs_ok (g_fs st') \<and> (parents_first (g_fs st) \<longrightarrow> parents_first (g_fs st'))"
proof (cases b)
  case False
  with r have "st' = st" by (simp add: fs_remove_False)
  with ok show ?thesis by simp
next
  case True
  with r have "fs_remove st path = (st', True)" by simp
  then show ?thesis
  proof (cases rule: fs_remove_cases)
    case (1 us x vs)
    with removed_is_leaf [of us x vs] ok
    show ?thesis
      using fs_ok_remove [of us x vs] parents_first_remove [of us x vs] by auto
  qed
qed

section \<open>The table as a finite map\<close>

lemma entry_ok_take [simp]: "entry_ok e \<Longrightarrow> take (e_size e) (e_data e) = e_data e"
  by (simp add: entry_ok_def)

lemma entry_ok_dir: "entry_ok e \<Longrightarrow> e_type e = ARM_FS_DIR \<Longrightarrow> e_data e = [] \<and> e_size e = 0"
  by (simp add: entry_ok_def)

lemma fs_read_None: "fs_read st path = None \<longleftrightarrow> path \<notin> e_path ` set (g_fs st)"
  by (simp add: fs_read_def fs_find_eq_None)

lemma fs_read_mark [simp]: "fs_read (persist_mark_dirty st) = fs_read st"
  by (simp add: fs_read_def fun_eq_iff)

lemma fs_find_cong: "g_fs st = g_fs st' \<Longrightarrow> fs_find st path = fs_find st' path"
  by (simp add: fs_find_def)

lemma fs_find_snoc:
  assumes "g_fs st' = g_fs st @ [e]" and "e_path e \<notin> e_path ` set (g_fs st)"
  shows "fs_find st' path = (if path = e_path e then Some e else fs_find st path)"
proof (cases "find_index path (g_fs st)")
  case None
  then show ?thesis using assms(1) by (simp add: fs_find_def find_index_append nth_append)
next
  case (Some i)
  note fi = find_index_Some [OF Some]
  then have "i < length (g_fs st)" "path \<noteq> e_path e"
    using assms(2) by (metis imageI nth_mem)+
  with Some show ?thesis using assms(1) by (simp add: fs_find_def find_index_append nth_append)
qed

lemma fs_find_update:
  assumes "g_fs st' = (g_fs st)[i := e]" and "find_index (e_path e) (g_fs st) = Some i"
  shows "fs_find st' path = (if path = e_path e then Some e else fs_find st path)"
proof -
  note fi = find_index_Some [OF assms(2)]
  have "map e_path ((g_fs st)[i := e]) = map e_path (g_fs st)"
    unfolding map_update using fi by (metis list_update_id nth_map)
  then have idx: "find_index path (g_fs st') = find_index path (g_fs st)"
    unfolding assms(1) by (rule find_index_cong)
  show ?thesis
  proof (cases "find_index path (g_fs st)")
    case None
    then show ?thesis using idx assms(2) by (auto simp: fs_find_def)
  next
    case (Some j)
    then have "path = e_path e \<longleftrightarrow> j = i"
      using find_index_Some [OF Some] fi Some assms(2) by auto
    then show ?thesis
      using Some idx assms(1) fi by (auto simp: fs_find_def)
  qed
qed

lemma fs_read_write:
  assumes ok: "fs_ok (g_fs st)" and w: "fs_write st path data type = (st', True)"
  shows "fs_read st' = (fs_read st)(path \<mapsto> (data, type))"
  using w
proof (cases rule: fs_write_cases)
  case (replace i)
  then show ?thesis
    using fs_find_update [OF replace(9)] by (auto simp: fs_read_def)
next
  case create
  then show ?thesis
    using fs_find_snoc [OF create(9)] by (auto simp: fs_read_def)
qed

lemma fs_read_mkdir:
  assumes ok: "fs_ok (g_fs st)" and m: "fs_mkdir st path = (st', True)"
  shows "fs_read st' = (fs_read st)(path \<mapsto> ([], ARM_FS_DIR))"
  using m
proof (cases rule: fs_mkdir_cases)
  case same
  then obtain e where e: "fs_find st path = Some e" "e_type e = ARM_FS_DIR" by auto
  then have "entry_ok e" using fs_ok_entry [OF ok] fs_find_mem by blast
  with e have "e_size e = 0" "e_data e = []" by (simp_all add: entry_ok_dir)
  with e same show ?thesis by (auto simp: fs_read_def)
next
  case create
  then show ?thesis
    using fs_find_snoc [OF create(9)] by (auto simp: fs_read_def)
qed

lemma fs_read_remove:
  assumes ok: "fs_ok (g_fs st)" and r: "fs_remove st path = (st', True)"
  shows "fs_read st' = (fs_read st)(path := None)"
  using r
proof (cases rule: fs_remove_cases)
  case (1 us x vs)
  have d: "distinct (map e_path (us @ x # vs))" "distinct (map e_path (us @ vs))"
    using fs_ok_distinct [OF ok] 1 by auto
  have "fs_find st' q = ((fs_find st)(path := None)) q" for q
  proof (cases "fs_find st' q")
    case None
    then have "q = path \<or> fs_find st q = None"
      using 1 by (auto simp: fs_find_eq_None)
    with None show ?thesis by auto
  next
    case (Some e)
    then have "e \<in> set (us @ vs)" "e_path e = q"
      using fs_find_mem [OF Some] 1 by auto
    moreover have "path \<notin> e_path ` set (us @ vs)" using d(1) 1 by auto
    moreover have "fs_find st q = Some e"
      using fs_find_eq_Some [of st q e] d 1 calculation by auto
    ultimately show ?thesis using Some by (metis fun_upd_other imageI)
  qed
  then show ?thesis by (auto simp: fs_read_def fun_eq_iff)
qed

lemma fs_mkdir_False: "fs_mkdir st path = (st', False) \<Longrightarrow> st' = st"
  by (erule fs_mkdir_cases) auto

section \<open>The composite operations\<close>

lemma fs_write_if_changed_cases:
  assumes ok: "fs_ok (g_fs st)" and w: "fs_write_if_changed st path data type = (st', b)"
  obtains (same) "b" "st' = st" "fs_read st path = Some (data, type)"
    | (stored) "fs_write st path data type = (st', b)"
proof (cases "fs_find st path")
  case None
  then show thesis using w stored by (simp add: fs_write_if_changed_def)
next
  case (Some e)
  then have e: "entry_ok e" using fs_ok_entry [OF ok] fs_find_mem by blast
  show thesis
  proof (cases "e_type e = type \<and> e_size e = length data \<and> (data = [] \<or> take (length data) (e_data e) = data)")
    case True
    then have "e_data e = data" using e by (auto simp: entry_ok_def)
    with True Some w e show thesis
      by (intro same) (auto simp: fs_write_if_changed_def fs_read_def)
  next
    case False
    with Some w show thesis by (intro stored) (simp add: fs_write_if_changed_def)
  qed
qed

lemma fs_write_if_changed_ok [inv_intros]:
  assumes ok: "fs_ok (g_fs st)" and w: "fs_write_if_changed st path data type = (st', b)"
  shows "fs_ok (g_fs st') \<and> (parents_first (g_fs st) \<longrightarrow> parents_first (g_fs st'))"
  using fs_write_if_changed_cases [OF ok w] ok fs_write_ok [OF ok] by metis

lemma fs_read_write_if_changed:
  assumes ok: "fs_ok (g_fs st)" and w: "fs_write_if_changed st path data type = (st', True)"
  shows "fs_read st' = (fs_read st)(path \<mapsto> (data, type))"
  using ok w
proof (cases rule: fs_write_if_changed_cases)
  case same
  then show ?thesis by auto
next
  case stored
  then show ?thesis by (rule fs_read_write [OF ok])
qed

lemma fs_copy_cases:
  assumes ok: "fs_ok (g_fs st)" and c: "fs_copy st source destination = (st', b)"
  obtains (refused) "\<not> b" "st' = st"
    | (stored) d t where "fs_read st source = Some (d, t)" "t \<noteq> ARM_FS_DIR"
        "fs_read st destination = None" "fs_write st destination d t = (st', b)"
  using assms fs_find_eq_None [of st destination]
  by (auto simp: fs_copy_def fs_read_def split: option.splits if_splits)

lemma fs_copy_ok [inv_intros]:
  assumes ok: "fs_ok (g_fs st)" and c: "fs_copy st source destination = (st', b)"
  shows "fs_ok (g_fs st') \<and> (parents_first (g_fs st) \<longrightarrow> parents_first (g_fs st'))"
  using fs_copy_cases [OF ok c] ok fs_write_ok [OF ok] by metis

lemma fs_copy_read:
  assumes ok: "fs_ok (g_fs st)" and c: "fs_copy st source destination = (st', True)"
  shows "fs_read st' = (fs_read st)(destination := fs_read st source)"
  using fs_copy_cases [OF ok c] fs_read_write [OF ok] by metis

text \<open>What \<open>fs_append_line\<close> writes: the old text, a line feed if it does not end in one, the line.\<close>

definition appended :: "bytes \<Rightarrow> string \<Rightarrow> bytes" where
  "appended old line = (if old \<noteq> [] \<and> last old \<noteq> LF then old @ [LF] else old) @ line @ [LF]"

lemma fs_append_line_cases:
  assumes ok: "fs_ok (g_fs st)" and a: "fs_append_line st path line = (st', b)"
  obtains (refused) "\<not> b" "st' = st"
    | (stored) old where "old = (case fs_read st path of None \<Rightarrow> [] | Some (d, t) \<Rightarrow> d)"
        "length (appended old line) \<le> FS_MAX_FILE_SIZE" "fs_write st path (appended old line) ARM_FS_TEXT = (st', b)"
proof (cases "fs_find st path")
  case None
  then show thesis
    using a refused stored [of "[]"]
    by (auto simp: fs_append_line_def appended_def fs_read_def split: if_splits)
next
  case (Some e)
  then have "entry_ok e" using fs_ok_entry [OF ok] fs_find_mem by blast
  then show thesis
    using a Some refused stored [of "e_data e"]
    by (auto simp: fs_append_line_def appended_def fs_read_def Let_def split: if_splits)
qed

lemma fs_append_line_ok [inv_intros]:
  assumes ok: "fs_ok (g_fs st)" and a: "fs_append_line st path line = (st', b)"
  shows "fs_ok (g_fs st') \<and> (parents_first (g_fs st) \<longrightarrow> parents_first (g_fs st'))"
  using fs_append_line_cases [OF ok a] ok fs_write_ok [OF ok] by metis

section \<open>Ancestors\<close>

text \<open>Whatever lies above an entry, the root apart, is a directory of the table.\<close>

lemma ancestor_is_dir:
  assumes ok: "fs_ok es" and "e \<in> set es" and "below p (e_path e)" and "p \<noteq> []" and "p \<noteq> ''/''"
  shows "\<exists>d\<in>set es. e_path d = p \<and> e_type d = ARM_FS_DIR"
  using assms(2,3)
proof (induction "length (e_path e)" arbitrary: e rule: less_induct)
  case less
  then obtain t where t: "e_path e = p @ CHR ''/'' # t" by (auto elim: belowE)
  have eok: "e_path e \<noteq> []" "hd (e_path e) = CHR ''/''" and par: "has_parent_in es (e_path e)"
    using ok less.prems by (auto simp: fs_ok_def list_all_iff entry_ok_def)
  show ?case
  proof (cases "CHR ''/'' \<in> set t")
    case False
    then have "parent_directory (e_path e) = p"
      using t assms(4) parent_directory_append [of t p] by (cases p) auto
    with par assms(5) show ?thesis by (auto simp: has_parent_in_def list_ex_iff)
  next
    case True
    then obtain u n where u: "t = u @ CHR ''/'' # n" "CHR ''/'' \<notin> set n"
      by (meson split_list_last)
    then have pd: "parent_directory (e_path e) = p @ CHR ''/'' # u"
      using t assms(4) parent_directory_append [of n "p @ CHR ''/'' # u"] by (cases p) auto
    moreover have "p @ CHR ''/'' # u \<noteq> ''/''" using assms(4) by (cases p) auto
    ultimately obtain d where d: "d \<in> set es" "e_path d = p @ CHR ''/'' # u"
      using par by (auto simp: has_parent_in_def list_ex_iff)
    then show ?thesis
      using less.hyps [of d] t u by (auto simp: below_iff)
  qed
qed

section \<open>Renaming\<close>

text \<open>What renaming \<open>s\<close> to \<open>d\<close> does to an entry, when the source text stays fixed.\<close>

definition moves :: "string \<Rightarrow> arm_fs_entry \<Rightarrow> bool" where
  "moves s e \<longleftrightarrow> e_path e = s \<or> below s (e_path e)"

definition renamed :: "string \<Rightarrow> string \<Rightarrow> arm_fs_entry \<Rightarrow> arm_fs_entry" where
  "renamed s d e = (if moves s e then e\<lparr>e_path := d @ drop (length s) (e_path e)\<rparr> else e)"

definition rename_fits :: "string \<Rightarrow> string \<Rightarrow> arm_fs_entry \<Rightarrow> bool" where
  "rename_fits s d e \<longleftrightarrow> moves s e \<longrightarrow> length d + length (e_path e) - length s < FS_PATH_MAX"

lemma move_step_buffer:
  assumes "i < length es" and "entry_ok (es ! i)" and "length d < FS_PATH_MAX"
  shows "move_step (Buffer s) (length s) d i es =
    (if rename_fits s d (es ! i) then Some (es[i := renamed s d (es ! i)]) else None)"
proof -
  let ?p = "e_path (es ! i)"
  have cond: "(?p = s \<or> (take (length s) ?p = take (length s) s \<and> cchar ?p (length s) = CHR ''/''))
      \<longleftrightarrow> moves s (es ! i)"
    by (simp add: moves_def below_def)
  have len: "length s \<le> length ?p" if "moves s (es ! i)"
    using that below_longer [of s ?p] by (auto simp: moves_def)
  have "length ?p < FS_PATH_MAX" using assms(2) by (simp add: entry_ok_def)
  then have cp: "strcopy_limit '''' (drop (length s) ?p) FS_PATH_MAX = drop (length s) ?p"
      "strcopy_limit '''' d FS_PATH_MAX = d"
    using assms(3) by (auto intro: strcopy_limit_fits)
  show ?thesis
    unfolding move_step_def Let_def arg_text.simps cond cp
    using len assms(1) by (auto simp: rename_fits_def renamed_def list_update_id)
qed

lemma move_loop_buffer:
  assumes "list_all entry_ok vs" and "length d < FS_PATH_MAX"
  shows "move_loop (Buffer s) (length s) d [length us ..< length us + length vs] (us @ vs) =
    (if list_all (rename_fits s d) vs then Some (us @ map (renamed s d) vs) else None)"
  using assms(1)
proof (induction vs arbitrary: us)
  case (Cons v vs)
  have "[length us ..< length us + length (v # vs)] =
      length us # [length (us @ [w]) ..< length (us @ [w]) + length vs]" for w :: arm_fs_entry
    by (simp add: upt_conv_Cons del: upt_Suc)
  note upt = this [of "renamed s d v"]
  have step: "move_step (Buffer s) (length s) d (length us) (us @ v # vs) =
      (if rename_fits s d v then Some (us @ renamed s d v # vs) else None)"
    using move_step_buffer [of "length us" "us @ v # vs" d s] Cons.prems assms(2) by simp
  show ?case
    unfolding upt move_loop.simps step
    using Cons.IH [of "us @ [renamed s d v]"] Cons.prems by simp
qed simp

text \<open>
  Renaming through a caller's buffer: refused, or it renames the whole subtree, or
  some renamed path is longer than the array that holds it.
\<close>

lemma fs_move_buffer:
  assumes ok: "fs_ok (g_fs st)" and d: "length d < FS_PATH_MAX"
  shows "fs_move st (Buffer s) d =
    (case fs_find st s of None \<Rightarrow> Some (st, False)
     | Some src \<Rightarrow>
         if fs_find st d \<noteq> None \<or> \<not> fs_parent_exists st d \<or> (e_type src = ARM_FS_DIR \<and> below s d)
         then Some (st, False)
         else if list_all (rename_fits s d) (g_fs st)
         then Some (persist_mark_dirty (st\<lparr>g_fs := map (renamed s d) (g_fs st)\<rparr>), True)
         else None)"
proof -
  have "list_all entry_ok (g_fs st)" using ok by (simp add: fs_ok_def)
  then have "move_loop (Buffer s) (length s) d [0 ..< length (g_fs st)] (g_fs st) =
    (if list_all (rename_fits s d) (g_fs st) then Some (map (renamed s d) (g_fs st)) else None)"
    using move_loop_buffer [OF _ d, of "g_fs st" s "[]"] by simp
  then show ?thesis
    by (simp add: fs_move_def Let_def split: option.splits)
qed

lemma renamed_key [simp]:
  "e_type (renamed s d e) = e_type e" "e_size (renamed s d e) = e_size e" "e_data (renamed s d e) = e_data e"
  by (simp_all add: renamed_def)

lemma renamed_path:
  "e_path (renamed s d e) = (if moves s e then d @ drop (length s) (e_path e) else e_path e)"
  by (simp add: renamed_def)

lemma moves_suffix: "moves s e \<Longrightarrow> drop (length s) (e_path e) = [] \<or> hd (drop (length s) (e_path e)) = CHR ''/''"
  by (auto simp: moves_def below_iff)

lemma moves_split: "moves s e \<Longrightarrow> e_path e = s @ drop (length s) (e_path e)"
  by (auto simp: moves_def below_iff)

lemma renamed_moved_path:
  assumes ok: "fs_ok es" and new: "d \<notin> e_path ` set es" and "d \<noteq> []" "d \<noteq> ''/''"
    and "x \<in> set es" "y \<in> set es" "moves s x" "\<not> moves s y"
  shows "e_path (renamed s d x) \<noteq> e_path y"
proof
  assume *: "e_path (renamed s d x) = e_path y"
  then have "e_path y = d @ drop (length s) (e_path x)"
    using assms(7) by (simp add: renamed_path)
  then have "e_path y = d \<or> below d (e_path y)"
    using moves_suffix [OF assms(7)]
    by (cases "drop (length s) (e_path x)") (simp_all add: below_iff)
  then show False
    using new assms(6) ancestor_is_dir [OF ok assms(6) _ assms(3,4)] by (auto simp: image_iff)
qed

lemma renamed_distinct:
  assumes ok: "fs_ok es" and new: "d \<notin> e_path ` set es" and d: "d \<noteq> []" "d \<noteq> ''/''"
  shows "distinct (map e_path (map (renamed s d) es))"
proof -
  have "x = y" if "x \<in> set es" "y \<in> set es" "e_path (renamed s d x) = e_path (renamed s d y)" for x y
  proof -
    have "moves s x = moves s y"
      using renamed_moved_path [OF ok new d] that by (metis renamed_path)
    then have "e_path x = e_path y"
      using that(3) moves_split [of s x] moves_split [of s y] by (auto simp: renamed_path split: if_splits)
    with that ok show ?thesis by (blast intro: fs_ok_unique)
  qed
  moreover have "distinct es" using fs_ok_distinct [OF ok] by (simp add: distinct_map)
  ultimately show ?thesis by (auto simp: distinct_map inj_on_def comp_def)
qed

lemma renamed_entry_ok:
  assumes "entry_ok e" and "rename_fits s d e" and "d \<noteq> []" "hd d = CHR ''/''"
  shows "entry_ok (renamed s d e)"
proof (cases "moves s e")
  case True
  then have "length s \<le> length (e_path e)" by (metis moves_split le_add1 length_append)
  with True assms show ?thesis by (simp add: entry_ok_def renamed_path rename_fits_def hd_append)
qed (use assms in \<open>simp add: renamed_def\<close>)

lemma parent_directory_below:
  assumes "below s p" and "s \<noteq> []" and "d \<noteq> []"
  shows "(parent_directory p = s \<or> below s (parent_directory p)) \<and>
    parent_directory (d @ drop (length s) p) = d @ drop (length s) (parent_directory p)"
proof -
  obtain t where t: "p = s @ CHR ''/'' # t" using assms(1) by (auto elim: belowE)
  show ?thesis
  proof (cases "CHR ''/'' \<in> set t")
    case False
    then show ?thesis
      using t assms parent_directory_append [of t s] parent_directory_append [of t d]
      by (cases s; cases d) auto
  next
    case True
    then obtain u n where u: "t = u @ CHR ''/'' # n" "CHR ''/'' \<notin> set n"
      by (meson split_list_last)
    then show ?thesis
      using t assms parent_directory_append [of n "s @ CHR ''/'' # u"] parent_directory_append [of n "d @ CHR ''/'' # u"]
      by (cases s; cases d) (auto simp: below_iff)
  qed
qed

lemma renamed_in: "e \<in> set es \<Longrightarrow> renamed s d e \<in> set (map (renamed s d) es)"
  by simp

lemma has_parent_renamed:
  assumes ok: "fs_ok es" and new: "has_parent_in es d" and s: "s \<noteq> []" "s \<noteq> ''/''" and d: "d \<noteq> []" "hd d = CHR ''/''"
    and nodesc: "\<forall>src\<in>set es. e_path src = s \<longrightarrow> e_type src = ARM_FS_DIR \<longrightarrow> \<not> below s d"
    and e: "e \<in> set es"
  shows "has_parent_in (map (renamed s d) es) (e_path (renamed s d e))"
proof -
  have keep: "has_parent_in (map (renamed s d) es) p"
    if "has_parent_in es p" "\<And>x. x \<in> set es \<Longrightarrow> moves s x \<Longrightarrow> e_path x = parent_directory p \<Longrightarrow> e_type x = ARM_FS_DIR \<Longrightarrow> parent_directory p \<noteq> ''/'' \<Longrightarrow> False" for p
  proof -
    note asm = that
    show ?thesis
    proof (cases "parent_directory p = ''/''")
    case True
    then show ?thesis by (simp add: has_parent_in_def)
  next
    case False
    then obtain x where x: "x \<in> set es" "e_path x = parent_directory p" "e_type x = ARM_FS_DIR"
      using asm(1) unfolding has_parent_in_def list_ex_iff by blast
    then have "\<not> moves s x" using asm(2) False by blast
    with x show ?thesis
      by (auto simp: has_parent_in_def list_ex_iff renamed_path intro!: bexI [of _ x])
    qed
  qed
  have entry: "has_parent_in es (e_path e)" "e_path e \<noteq> []" "hd (e_path e) = CHR ''/''"
    using ok e by (auto simp: fs_ok_def list_all_iff entry_ok_def)
  consider (self) "e_path e = s" | (inside) "below s (e_path e)" | (outside) "\<not> moves s e"
    by (auto simp: moves_def)
  then show ?thesis
  proof cases
    case self
    then have path: "e_path (renamed s d e) = d" by (simp add: renamed_path moves_def)
    show ?thesis unfolding path
    proof (rule keep [OF new])
      fix x assume x: "x \<in> set es" "moves s x" "e_path x = parent_directory d" "e_type x = ARM_FS_DIR"
        "parent_directory d \<noteq> ''/''"
      have bd: "below (parent_directory d) d" by (rule parent_below(1) [OF d x(5)])
      then have sd: "below s d" using x(2,3) below_trans by (auto simp: moves_def)
      have "\<exists>y\<in>set es. e_path y = s \<and> e_type y = ARM_FS_DIR"
        using x s ancestor_is_dir [OF ok x(1)] by (auto simp: moves_def)
      with nodesc sd show False by blast
    qed
  next
    case inside
    note pd = parent_directory_below [OF inside s(1) d(1)]
    have moved: "moves s e" using inside by (simp add: moves_def)
    have "parent_directory (e_path e) \<noteq> ''/''"
      using pd s by (cases s) (auto simp: below_iff)
    then obtain x where x: "x \<in> set es" "e_path x = parent_directory (e_path e)" "e_type x = ARM_FS_DIR"
      using entry(1) by (auto simp: has_parent_in_def list_ex_iff)
    then have "moves s x" using pd by (auto simp: moves_def)
    then have "e_path (renamed s d x) = parent_directory (e_path (renamed s d e))"
      using pd x moved by (simp add: renamed_path)
    then show ?thesis
      using x by (auto simp: has_parent_in_def list_ex_iff intro!: bexI [of _ x])
  next
    case outside
    then have path: "e_path (renamed s d e) = e_path e" by (simp add: renamed_path)
    show ?thesis unfolding path
    proof (rule keep [OF entry(1)])
      fix x assume x: "x \<in> set es" "moves s x" "e_path x = parent_directory (e_path e)" "parent_directory (e_path e) \<noteq> ''/''"
      then have "below (e_path x) (e_path e)" using parent_below(1) [OF entry(2,3)] by simp
      then have "moves s e" using x(2) below_trans by (auto simp: moves_def)
      with outside show False by simp
    qed
  qed
qed

lemma fs_move_ok:
  assumes ok: "fs_ok (g_fs st)" and s: "s \<noteq> ''/''"
    and d: "length d < FS_PATH_MAX" "d \<noteq> []" "hd d = CHR ''/''" "d \<noteq> ''/''"
    and m: "fs_move st (Buffer s) d = Some (st', b)"
  shows "fs_ok (g_fs st')"
proof (cases b)
  case False
  then have "st' = st"
    using m unfolding fs_move_buffer [OF ok d(1)] by (auto split: option.splits if_splits)
  with ok show ?thesis by simp
next
  case True
  then obtain src where src: "fs_find st s = Some src" "fs_find st d = None" "fs_parent_exists st d"
      "\<not> (e_type src = ARM_FS_DIR \<and> below s d)" "list_all (rename_fits s d) (g_fs st)"
      "g_fs st' = map (renamed s d) (g_fs st)"
    using m unfolding fs_move_buffer [OF ok d(1)] by (auto split: option.splits if_splits)
  note mem = fs_find_mem [OF src(1)]
  then have "s \<noteq> []" using fs_ok_entry [OF ok] by (auto simp: entry_ok_def)
  moreover have "has_parent_in (g_fs st) d"
    using src(3) parent_exists_iff [OF fs_ok_distinct [OF ok] d(1-3)] by simp
  moreover have "\<forall>x\<in>set (g_fs st). e_path x = s \<longrightarrow> e_type x = ARM_FS_DIR \<longrightarrow> \<not> below s d"
    using src(4) mem fs_ok_unique [OF ok] by blast
  ultimately have par: "\<forall>e\<in>set (g_fs st). has_parent_in (g_fs st') (e_path (renamed s d e))"
    using has_parent_renamed [OF ok] s d src(6) by simp
  have "list_all entry_ok (g_fs st')"
    using src(5,6) renamed_entry_ok [OF _ _ d(2,3)] fs_ok_entry [OF ok] by (simp add: list_all_iff)
  moreover have "distinct (map e_path (g_fs st'))"
    using renamed_distinct [OF ok _ d(2,4)] src(2,6) by (simp add: fs_find_eq_None)
  ultimately show ?thesis
    using par ok by (simp add: fs_ok_def src(6) list_all_iff)
qed

text \<open>After a rename the subtree is found under the new name and no longer under the old one.\<close>

lemma fs_move_read:
  assumes ok: "fs_ok (g_fs st)" and s: "s \<noteq> ''/''"
    and d: "length d < FS_PATH_MAX" "d \<noteq> []" "hd d = CHR ''/''" "d \<noteq> ''/''"
    and m: "fs_move st (Buffer s) d = Some (st', True)" and t: "t = [] \<or> hd t = CHR ''/''"
  shows "fs_read st' (d @ t) = fs_read st (s @ t)"
proof -
  obtain src where src: "fs_find st d = None" "g_fs st' = map (renamed s d) (g_fs st)"
    using m unfolding fs_move_buffer [OF ok d(1)] by (auto split: option.splits if_splits)
  have ok': "fs_ok (g_fs st')" by (rule fs_move_ok [OF ok s d m])
  note find = fs_find_eq_Some [OF fs_ok_distinct [OF ok]] fs_find_eq_Some [OF fs_ok_distinct [OF ok']]
  show ?thesis
  proof (cases "fs_find st (s @ t)")
    case (Some e)
    then have e: "e \<in> set (g_fs st)" "e_path e = s @ t" by (simp_all add: find)
    then have "moves s e" using t by (cases t) (auto simp: moves_def below_iff)
    then have "fs_find st' (d @ t) = Some (renamed s d e)"
      using e src(2) by (simp add: find renamed_path)
    with Some show ?thesis by (simp add: fs_read_def)
  next
    case None
    have "fs_find st' (d @ t) = None"
    proof (rule ccontr)
      assume "fs_find st' (d @ t) \<noteq> None"
      then obtain e where e: "e \<in> set (g_fs st)" "e_path (renamed s d e) = d @ t"
        using src(2) by (auto simp: find)
      show False
      proof (cases "moves s e")
        case True
        then have "e_path e = s @ t"
          using e(2) moves_split [OF True] by (simp add: renamed_path)
        with None e(1) show False by (metis fs_find_eq_None imageI)
      next
        case False
        then have "e_path e = d \<or> below d (e_path e)"
          using e(2) t by (cases t) (auto simp: renamed_path below_iff)
        then show False
          using src(1) e(1) ancestor_is_dir [OF ok e(1) _ d(2,4)] by (auto simp: fs_find_eq_None image_iff)
      qed
    qed
    with None show ?thesis by (simp add: fs_read_def)
  qed
qed

section \<open>The table keeps its promises\<close>

text \<open>The operations the rest of the kernel calls on the table, as one value.\<close>

datatype fs_op =
    OpWrite string bytes nat
  | OpWriteIfChanged string bytes nat
  | OpMkdir string
  | OpRemove string
  | OpCopy string string
  | OpAppendLine string string

fun fs_step :: "'a kernel_scheme \<Rightarrow> fs_op \<Rightarrow> 'a kernel_scheme \<times> bool" where
  "fs_step st (OpWrite path data type) = fs_write st path data type"
| "fs_step st (OpWriteIfChanged path data type) = fs_write_if_changed st path data type"
| "fs_step st (OpMkdir path) = fs_mkdir st path"
| "fs_step st (OpRemove path) = fs_remove st path"
| "fs_step st (OpCopy source destination) = fs_copy st source destination"
| "fs_step st (OpAppendLine path line) = fs_append_line st path line"

text \<open>What each operation means on a finite map from paths to contents and types.\<close>

fun abs_step :: "(string \<rightharpoonup> bytes \<times> nat) \<Rightarrow> fs_op \<Rightarrow> (string \<rightharpoonup> bytes \<times> nat)" where
  "abs_step m (OpWrite path data type) = m(path \<mapsto> (data, type))"
| "abs_step m (OpWriteIfChanged path data type) = m(path \<mapsto> (data, type))"
| "abs_step m (OpMkdir path) = m(path \<mapsto> ([], ARM_FS_DIR))"
| "abs_step m (OpRemove path) = m(path := None)"
| "abs_step m (OpCopy source destination) = m(destination := m source)"
| "abs_step m (OpAppendLine path line) =
     m(path \<mapsto> (appended (case m path of None \<Rightarrow> [] | Some (d, t) \<Rightarrow> d) line, ARM_FS_TEXT))"

lemma fs_append_line_read:
  assumes ok: "fs_ok (g_fs st)" and a: "fs_append_line st path line = (st', True)"
  shows "fs_read st' = abs_step (fs_read st) (OpAppendLine path line)"
  using fs_append_line_cases [OF ok a] fs_read_write [OF ok] by (metis abs_step.simps(6))

lemmas fs_op_ok = fs_write_ok fs_write_if_changed_ok fs_mkdir_ok fs_remove_ok fs_copy_ok fs_append_line_ok

lemmas fs_op_read = fs_read_write fs_read_write_if_changed fs_read_mkdir fs_read_remove fs_copy_read
  fs_append_line_read

lemma fs_step_ok:
  assumes ok: "fs_ok (g_fs st)" and s: "fs_step st op = (st', b)"
  shows "fs_ok (g_fs st') \<and> (parents_first (g_fs st) \<longrightarrow> parents_first (g_fs st'))"
  using s fs_op_ok [OF ok] by (cases op) simp_all

lemma fs_step_True:
  assumes ok: "fs_ok (g_fs st)" and s: "fs_step st op = (st', True)"
  shows "fs_read st' = abs_step (fs_read st) op"
  using s fs_op_read [OF ok] by (cases op) simp_all

lemma fs_step_False:
  assumes ok: "fs_ok (g_fs st)" and s: "fs_step st op = (st', False)"
  shows "st' = st"
proof (cases op)
  case (OpWriteIfChanged path data type)
  with s show ?thesis using fs_write_if_changed_cases [OF ok] fs_write_False by (metis fs_step.simps(2))
next
  case (OpCopy source destination)
  with s show ?thesis using fs_copy_cases [OF ok] fs_write_False by (metis fs_step.simps(5))
next
  case (OpAppendLine path line)
  with s show ?thesis using fs_append_line_cases [OF ok] fs_write_False by (metis fs_step.simps(6))
qed (use s fs_write_False fs_mkdir_False fs_remove_False in \<open>auto\<close>)

interpretation arm_table: file_table "\<lambda>st. fs_ok (g_fs st)" fs_read fs_step abs_step
  by unfold_locales (auto dest: fs_step_ok fs_step_True fs_step_False)

section \<open>Concrete tables\<close>

definition dir_entry :: "string \<Rightarrow> arm_fs_entry" where
  "dir_entry p = \<lparr>e_path = p, e_data = [], e_size = 0, e_type = ARM_FS_DIR\<rparr>"

definition file_entry :: "string \<Rightarrow> string \<Rightarrow> arm_fs_entry" where
  "file_entry p t = \<lparr>e_path = p, e_data = t, e_size = length t, e_type = ARM_FS_TEXT\<rparr>"

definition no_disk :: persist_state where
  "no_disk = \<lparr>p_available = False, p_dirty = False, p_installed = False, p_volume_index = 0, p_status = ''live''\<rparr>"

definition kernel_of :: "arm_fs_entry list \<Rightarrow> kernel" where
  "kernel_of es = \<lparr>g_fs = es, g_persist = no_disk\<rparr>"

definition demo_table :: "arm_fs_entry list" where
  "demo_table = [dir_entry ''/a'', dir_entry ''/a/b'', file_entry ''/a/b/f'' ''one'', file_entry ''/g'' ''two'', dir_entry ''/z'']"

lemmas demo_defs = demo_table_def dir_entry_def file_entry_def kernel_of_def no_disk_def

lemma demo_ok: "fs_ok (g_fs (kernel_of demo_table)) \<and> parents_first (g_fs (kernel_of demo_table))"
  by code_simp

section \<open>Properties\<close>

text \<open>C1: From any well-formed table, a sequence of write, write-if-changed, mkdir, remove, copy
  and append-line calls acts on the files exactly as the same sequence acts on a finite map from
  paths to contents: a call that reports success has its full effect on that one path, a call
  that reports failure has none.\<close>

theorem fs_run_refines_map:
  assumes "fs_ok (g_fs st)" and "run_ops fs_step st ops = (st', bs)"
  shows "fs_read st' = abs_run abs_step (fs_read st) ops bs"
  using assms by (rule arm_table.run_refines)

definition demo_ops :: "fs_op list" where
  "demo_ops = [OpMkdir ''/a/c'', OpWrite ''/a/c/n'' ''xy'' ARM_FS_TEXT, OpWrite ''/q/n'' ''no'' ARM_FS_TEXT,
     OpCopy ''/a/c/n'' ''/m'', OpRemove ''/a/c'', OpAppendLine ''/m'' ''z'']"

lemma demo_run: "snd (run_ops fs_step (kernel_of demo_table) demo_ops) = [True, True, False, True, False, True]"
  by code_simp

theorem fs_run_refines_map_witness:
  "fs_read (fst (run_ops fs_step (kernel_of demo_table) demo_ops)) ''/m'' = Some (''xy'' @ [LF] @ ''z'' @ [LF], ARM_FS_TEXT)"
proof -
  have "run_ops fs_step (kernel_of demo_table) demo_ops =
      (fst (run_ops fs_step (kernel_of demo_table) demo_ops), [True, True, False, True, False, True])"
    using demo_run by (metis prod.collapse)
  note fs_run_refines_map [OF conjunct1 [OF demo_ok] this]
  moreover have "abs_run abs_step (fs_read (kernel_of demo_table)) demo_ops [True, True, False, True, False, True] ''/m'' =
      Some (''xy'' @ [LF] @ ''z'' @ [LF], ARM_FS_TEXT)"
    by (simp add: demo_ops_def appended_def)
  ultimately show ?thesis by simp
qed

text \<open>C2: Well-formedness of the table (at most 160 entries, distinct absolute paths that fit
  their arrays, sizes that match the contents, every parent a directory of the table, and a
  directory stored before what it holds) survives every sequence of these calls, failing ones
  included.\<close>

theorem fs_run_keeps_table:
  assumes "fs_ok (g_fs st)" and "parents_first (g_fs st)" and "run_ops fs_step st ops = (st', bs)"
  shows "fs_ok (g_fs st') \<and> parents_first (g_fs st')"
  using assms
proof (induction ops arbitrary: st bs)
  case (Cons op ops)
  obtain st1 b where s1: "fs_step st op = (st1, b)" by (cases "fs_step st op")
  then obtain bs' where "run_ops fs_step st1 ops = (st', bs')"
    using Cons.prems by (auto split: prod.splits)
  with Cons.IH fs_step_ok [OF Cons.prems(1) s1] Cons.prems(2) show ?case by blast
qed simp

theorem fs_run_keeps_table_witness:
  "fs_ok (g_fs (fst (run_ops fs_step (kernel_of demo_table) demo_ops)))"
  using fs_run_keeps_table [of "kernel_of demo_table" demo_ops] demo_ok by (metis prod.collapse)



text \<open>A rename through a caller's buffer writes past an entry's path array exactly when it is
  not refused and some path of the moved subtree would be 96 octets or longer under its new name:
  \<open>fs_move\<close> has no length check.\<close>

theorem fs_move_overflow_iff:
  assumes "fs_ok (g_fs st)" and "length d < FS_PATH_MAX"
  shows "fs_move st (Buffer s) d = None \<longleftrightarrow>
    (\<exists>src. fs_find st s = Some src \<and> fs_find st d = None \<and> fs_parent_exists st d \<and>
       \<not> (e_type src = ARM_FS_DIR \<and> below s d)) \<and>
    (\<exists>e\<in>set (g_fs st). moves s e \<and> length d + (length (e_path e) - length s) \<ge> FS_PATH_MAX)"
proof -
  have "length s \<le> length (e_path e)" if "moves s e" for e
    using that by (metis moves_split le_add1 length_append)
  then have "list_all (rename_fits s d) (g_fs st) \<longleftrightarrow>
    \<not> (\<exists>e\<in>set (g_fs st). moves s e \<and> length d + (length (e_path e) - length s) \<ge> FS_PATH_MAX)"
    by (fastforce simp: list_all_iff rename_fits_def not_le)
  then show ?thesis
    unfolding fs_move_buffer [OF assms] by (auto split: option.splits)
qed

definition long_name :: string where "long_name = CHR ''/'' # replicate 92 (CHR ''n'')"

theorem fs_move_overflow_witness: "fs_move (kernel_of demo_table) (Buffer ''/a'') long_name = None"
proof -
  have "length long_name < FS_PATH_MAX" by code_simp
  note iff = fs_move_overflow_iff [OF conjunct1 [OF demo_ok] this]
  have "fs_find (kernel_of demo_table) ''/a'' = Some (dir_entry ''/a'')" by code_simp
  moreover have "fs_find (kernel_of demo_table) long_name = None" by code_simp
  moreover have "fs_parent_exists (kernel_of demo_table) long_name" by code_simp
  moreover have "\<not> below ''/a'' long_name" by code_simp
  moreover have "file_entry ''/a/b/f'' ''one'' \<in> set (g_fs (kernel_of demo_table))" by code_simp
  moreover have "moves ''/a'' (file_entry ''/a/b/f'' ''one'') \<and>
      length long_name + (length (e_path (file_entry ''/a/b/f'' ''one'')) - length ''/a'') \<ge> FS_PATH_MAX"
    by code_simp
  ultimately show ?thesis using iff by blast
qed

text \<open>The Files app renames through \<open>entry->path\<close> itself. The loop then compares with a path it
  has already replaced: the directory \<open>/aa\<close> with the file \<open>/aa/f\<close> renamed to \<open>/bb\<close> leaves the
  file under the old name with no parent, so the table is no longer well formed, while the same
  rename through a buffer moves both.\<close>

theorem fs_move_alias_orphans:
  "map_option (\<lambda>r. (map e_path (g_fs (fst r)), fs_ok (g_fs (fst r)), snd r))
     (fs_move (kernel_of [dir_entry ''/aa'', file_entry ''/aa/f'' ''x'']) (EntryPath 0) ''/bb'') =
   Some ([''/bb'', ''/aa/f''], False, True) \<and>
   map_option (\<lambda>r. (map e_path (g_fs (fst r)), fs_ok (g_fs (fst r)), snd r))
     (fs_move (kernel_of [dir_entry ''/aa'', file_entry ''/aa/f'' ''x'']) (Buffer ''/aa'') ''/bb'') =
   Some ([''/bb'', ''/bb/f''], True, True)"
  by code_simp

end
