(* ===== verification/Persist.thy ===== *)
theory Persist
  imports ArmFs
begin

text \<open>
  Persistence of the RAM file system, \<open>src/arm64/kernel/main.c\<close>: the snapshot format
  (\<open>persist_serialize\<close>, \<open>persist_deserialize\<close>), file access through the firmware
  (\<open>efi_open_path\<close>, \<open>efi_read_file\<close>, \<open>efi_write_file\<close>), and the search for, saving to and
  installing on a disk. The firmware's file protocol is a parameter, the record \<open>efi_fs\<close>
  of its entry points over a state \<open>'w\<close> of the machine's disks and handles \<open>'h\<close>.
\<close>

section \<open>The snapshot format\<close>

definition PERSIST_MAX_VOLUMES :: nat where "PERSIST_MAX_VOLUMES = 8"
definition PERSIST_MAX_STATE_SIZE :: nat where "PERSIST_MAX_STATE_SIZE = 524288"
definition PERSIST_BOOT_MAX_SIZE :: nat where "PERSIST_BOOT_MAX_SIZE = 2097152"
definition SNSX_STATE_MAGIC :: nat where "SNSX_STATE_MAGIC = 0x58434e53"
definition SNSX_STATE_VERSION :: nat where "SNSX_STATE_VERSION = 1"

text \<open>A structure's integer field in memory: little endian, \<open>k\<close> octets.\<close>

fun le_bytes :: "nat \<Rightarrow> nat \<Rightarrow> bytes" where
  "le_bytes 0 n = []"
| "le_bytes (Suc k) n = char_of (n mod 256) # le_bytes k (n div 256)"

fun le_value :: "bytes \<Rightarrow> nat" where
  "le_value [] = 0"
| "le_value (b # bs) = of_char b + 256 * le_value bs"

definition field :: "bytes \<Rightarrow> nat \<Rightarrow> nat \<Rightarrow> nat" where
  "field buffer offset k = le_value (take k (drop offset buffer))"

definition header_bytes :: "nat \<Rightarrow> bytes" where
  "header_bytes entry_count =
     le_bytes 4 SNSX_STATE_MAGIC @ le_bytes 4 SNSX_STATE_VERSION @ le_bytes 4 entry_count @ le_bytes 4 0"

definition entry_header_bytes :: "arm_fs_entry \<Rightarrow> bytes" where
  "entry_header_bytes e = le_bytes 2 (length (e_path e)) @ le_bytes 2 (e_type e) @ le_bytes 4 (e_size e)"

fun serialize_loop :: "arm_fs_entry list \<Rightarrow> nat \<Rightarrow> bytes \<Rightarrow> nat \<Rightarrow> (bytes \<times> nat) option" where
  "serialize_loop [] capacity out entry_count = Some (out, entry_count)"
| "serialize_loop (e # es) capacity out entry_count =
     (if 16 + length out + 8 + length (e_path e) + e_size e > capacity then None
      else serialize_loop es capacity
             (out @ entry_header_bytes e @ e_path e @ take (e_size e) (e_data e)) (entry_count + 1))"

definition persist_serialize :: "arm_fs_entry list \<Rightarrow> nat \<Rightarrow> bytes option" where
  "persist_serialize es capacity =
     (if capacity < 16 then None
      else map_option (\<lambda>(out, entry_count). header_bytes entry_count @ out)
             (serialize_loop es capacity [] 0))"

text \<open>One turn of the loop over the entries: the state and the offset after it, \<open>None\<close> for the
  early \<open>return false\<close> of a malformed one.\<close>

definition restore_entry :: "bytes \<Rightarrow> nat \<Rightarrow> 'a kernel_scheme \<Rightarrow> ('a kernel_scheme \<times> nat) option" where
  "restore_entry buffer offset st =
     (if offset + 8 > length buffer then None
      else let path_length = field buffer offset 2;
               type = field buffer (offset + 2) 2;
               size = field buffer (offset + 4) 4;
               p = offset + 8;
               d = p + path_length
      in if path_length + 1 > FS_PATH_MAX \<or> p + path_length + size > length buffer then None
      else let path = takeWhile (\<lambda>c. c \<noteq> NUL) (take path_length (drop p buffer))
      in Some (if type = ARM_FS_DIR then fst (fs_mkdir st path)
               else fst (fs_write st path (take size (drop d buffer)) ARM_FS_TEXT), d + size))"

text \<open>What was restored before a malformed entry stays.\<close>

primrec deserialize_loop :: "nat \<Rightarrow> bytes \<Rightarrow> nat \<Rightarrow> 'a kernel_scheme \<Rightarrow> 'a kernel_scheme \<times> bool" where
  "deserialize_loop 0 buffer offset st = (st, True)"
| "deserialize_loop (Suc n) buffer offset st =
     (case restore_entry buffer offset st of
        None \<Rightarrow> (st, False)
      | Some (st', offset') \<Rightarrow> deserialize_loop n buffer offset' st')"

definition persist_deserialize :: "'a kernel_scheme \<Rightarrow> bytes \<Rightarrow> 'a kernel_scheme \<times> bool" where
  "persist_deserialize st buffer =
     (if length buffer < 16 then (st, False)
      else if field buffer 0 4 \<noteq> SNSX_STATE_MAGIC \<or> field buffer 4 4 \<noteq> SNSX_STATE_VERSION then (st, False)
      else deserialize_loop (field buffer 8 4) buffer 16 st)"

section \<open>Files through the firmware\<close>

definition EFI_FILE_MODE_READ :: nat where "EFI_FILE_MODE_READ = 1"
definition EFI_FILE_MODE_WRITE :: nat where "EFI_FILE_MODE_WRITE = 2"
definition EFI_FILE_MODE_CREATE :: nat where "EFI_FILE_MODE_CREATE = 0x8000000000000000"
definition EFI_FILE_DIRECTORY :: nat where "EFI_FILE_DIRECTORY = 0x10"
definition EFI_FILE_ARCHIVE :: nat where "EFI_FILE_ARCHIVE = 0x20"
definition SIZEOF_EFI_FILE_INFO :: nat where "SIZEOF_EFI_FILE_INFO = 88"

text \<open>The entry points of \<open>EFI_FILE_PROTOCOL\<close>; an optional one the firmware lacks is the
  identity on the disks. \<open>f_info\<close> is the size \<open>get_info\<close> reports, \<open>f_set_size\<close> is \<open>set_info\<close>
  with that file size.\<close>

record ('w, 'h) efi_fs =
  f_root :: "'w \<Rightarrow> nat \<Rightarrow> 'w \<times> 'h option"
  f_open :: "'w \<Rightarrow> 'h \<Rightarrow> u16 list \<Rightarrow> nat \<Rightarrow> nat \<Rightarrow> 'w \<times> 'h option"
  f_close :: "'w \<Rightarrow> 'h \<Rightarrow> 'w"
  f_read :: "'w \<Rightarrow> 'h \<Rightarrow> nat \<Rightarrow> 'w \<times> bytes option"
  f_write :: "'w \<Rightarrow> 'h \<Rightarrow> bytes \<Rightarrow> 'w \<times> bool"
  f_rewind :: "'w \<Rightarrow> 'h \<Rightarrow> 'w"
  f_info :: "'w \<Rightarrow> 'h \<Rightarrow> nat option"
  f_set_size :: "'w \<Rightarrow> 'h \<Rightarrow> nat \<Rightarrow> nat \<Rightarrow> 'w"
  f_flush :: "'w \<Rightarrow> 'h \<Rightarrow> 'w"
  f_read_only :: "'w \<Rightarrow> 'h \<Rightarrow> bool option"

definition is_separator :: "char \<Rightarrow> bool" where
  "is_separator c \<longleftrightarrow> c = CHR ''/'' \<or> c = CHR 0x5C"

text \<open>One component of a path and the rest after the separators that follow it.\<close>

definition next_component :: "string \<Rightarrow> string \<times> string" where
  "next_component path =
     (let r = dropWhile is_separator path;
          component = take (FS_PATH_MAX - 1) (takeWhile (\<lambda>c. \<not> is_separator c) r)
      in (component, dropWhile is_separator (drop (length component) r)))"

lemma next_component_shorter:
  assumes ne: "path \<noteq> []"
  shows "length (snd (next_component path)) < length path"
proof -
  define r where "r = dropWhile is_separator path"
  define c where "c = take (FS_PATH_MAX - 1) (takeWhile (\<lambda>c. \<not> is_separator c) r)"
  have nc: "snd (next_component path) = dropWhile is_separator (drop (length c) r)"
    by (simp add: next_component_def r_def c_def Let_def)
  have le: "length (dropWhile is_separator (drop (length c) r)) \<le> length r - length c"
    using length_dropWhile_le [of is_separator "drop (length c) r"] by simp
  have r: "length r \<le> length path" unfolding r_def by (rule length_dropWhile_le)
  show ?thesis
  proof (cases "r = []")
    case True
    with nc ne show ?thesis by simp
  next
    case False
    then have "\<not> is_separator (hd r)" unfolding r_def by (metis hd_dropWhile)
    then have "c \<noteq> []" using False unfolding c_def by (cases r) (auto simp: FS_PATH_MAX_def)
    then have "0 < length c" "0 < length r" using False by simp_all
    with le r show ?thesis unfolding nc by linarith
  qed
qed

function open_loop ::
    "('w, 'h) efi_fs \<Rightarrow> 'w \<Rightarrow> 'h \<Rightarrow> bool \<Rightarrow> string \<Rightarrow> nat \<Rightarrow> nat \<Rightarrow> bool \<Rightarrow> 'w \<times> 'h option" where
  "open_loop fw w current close_current path open_mode attributes create_directories =
     (if path = [] then (w, Some current)
      else let component = fst (next_component path);
               rest = snd (next_component path);
               (w, next) = f_open fw w current (ascii_to_utf16_path component FS_PATH_MAX)
                 (if rest = [] then open_mode
                  else if create_directories
                  then EFI_FILE_MODE_READ + EFI_FILE_MODE_WRITE + EFI_FILE_MODE_CREATE
                  else EFI_FILE_MODE_READ)
                 (if rest = [] then attributes else EFI_FILE_DIRECTORY);
               w = (if close_current then f_close fw w current else w)
           in case next of
                None \<Rightarrow> (w, None)
              | Some handle \<Rightarrow>
                  open_loop fw w handle True rest open_mode attributes create_directories)"
  by pat_completeness auto
termination
  by (relation "measure (\<lambda>(fw, w, c, cc, path, m, a, d). length path)")
     (auto simp: next_component_shorter)

declare open_loop.simps [simp del]

definition efi_open_path ::
    "('w, 'h) efi_fs \<Rightarrow> 'w \<Rightarrow> 'h \<Rightarrow> string \<Rightarrow> nat \<Rightarrow> nat \<Rightarrow> bool \<Rightarrow> 'w \<times> 'h option" where
  "efi_open_path fw w root path open_mode attributes create_directories =
     open_loop fw w root False (dropWhile is_separator path) open_mode attributes create_directories"

definition efi_try_truncate_file :: "('w, 'h) efi_fs \<Rightarrow> 'w \<Rightarrow> 'h \<Rightarrow> 'w" where
  "efi_try_truncate_file fw w file =
     (case f_info fw w file of
        None \<Rightarrow> w
      | Some info_size \<Rightarrow>
          if info_size < SIZEOF_EFI_FILE_INFO then w else f_set_size fw w file info_size 0)"

definition efi_write_file ::
    "('w, 'h) efi_fs \<Rightarrow> 'w \<Rightarrow> 'h \<Rightarrow> string \<Rightarrow> bytes \<Rightarrow> 'w \<times> bool" where
  "efi_write_file fw w root path data =
     (let (w, file) = efi_open_path fw w root path
            (EFI_FILE_MODE_READ + EFI_FILE_MODE_WRITE + EFI_FILE_MODE_CREATE) EFI_FILE_ARCHIVE True
      in case file of
           None \<Rightarrow> (w, False)
         | Some file \<Rightarrow>
             if file = root then (w, False)
             else let w = f_rewind fw w file;
                      w = efi_try_truncate_file fw w file;
                      w = f_rewind fw w file;
                      (w, ok) = (if data \<noteq> [] then f_write fw w file data else (w, True))
                  in if \<not> ok then (f_close fw w file, False)
                     else (f_close fw (f_flush fw w file) file, True))"

text \<open>Reading until the firmware delivers an empty chunk or the buffer is full.\<close>

function read_loop ::
    "('w, 'h) efi_fs \<Rightarrow> 'w \<Rightarrow> 'h \<Rightarrow> nat \<Rightarrow> bytes \<Rightarrow> 'w \<times> bytes option" where
  "read_loop fw w file capacity buffer =
     (if length buffer < capacity
      then (case f_read fw w file (capacity - length buffer) of
              (w, None) \<Rightarrow> (w, None)
            | (w, Some chunk) \<Rightarrow>
                if chunk = [] then (w, Some buffer) else read_loop fw w file capacity (buffer @ chunk))
      else (w, Some buffer))"
  by pat_completeness auto
termination
  by (relation "measure (\<lambda>(fw, w, f, capacity, buffer). capacity - length buffer)")
     (auto intro: diff_less_mono2 simp flip: length_greater_0_conv)

declare read_loop.simps [simp del]

definition efi_read_file ::
    "('w, 'h) efi_fs \<Rightarrow> 'w \<Rightarrow> 'h \<Rightarrow> string \<Rightarrow> nat \<Rightarrow> 'w \<times> bytes option" where
  "efi_read_file fw w root path capacity =
     (let (w, file) = efi_open_path fw w root path EFI_FILE_MODE_READ 0 False
      in case file of
           None \<Rightarrow> (w, None)
         | Some file \<Rightarrow>
             if file = root then (w, None)
             else let (w, data) = read_loop fw w file capacity [] in (f_close fw w file, data))"


section \<open>Volumes\<close>

record persist_volume =
  vol_handle :: nat
  vol_boot_device :: bool
  vol_writable :: bool

record 'w disk_kernel = kernel +
  g_disks :: 'w
  g_persist_volumes :: "persist_volume list"

definition persist_set_status :: "string \<Rightarrow> 'a kernel_scheme \<Rightarrow> 'a kernel_scheme" where
  "persist_set_status s st = st\<lparr>g_persist := (g_persist st)\<lparr>p_status := strcopy_limit (p_status (g_persist st)) s 96\<rparr>\<rparr>"

definition efi_probe_writable :: "('w, 'h) efi_fs \<Rightarrow> 'w \<Rightarrow> nat \<Rightarrow> bool \<Rightarrow> 'w \<times> bool" where
  "efi_probe_writable fw w handle boot_device =
     (case f_root fw w handle of
        (w, None) \<Rightarrow> (w, False)
      | (w, Some root) \<Rightarrow>
          (f_close fw w root,
           case f_read_only fw w root of Some read_only \<Rightarrow> \<not> read_only | None \<Rightarrow> \<not> boot_device))"

text \<open>The handles the firmware locates, with whether each carries the file-system protocol.\<close>

fun scan_loop ::
    "('w, 'h) efi_fs \<Rightarrow> nat option \<Rightarrow> (nat \<times> bool) list \<Rightarrow> ('w, 'a) disk_kernel_scheme \<Rightarrow> ('w, 'a) disk_kernel_scheme" where
  "scan_loop fw boot [] st = st"
| "scan_loop fw boot ((handle, has_protocol) # handles) st =
     (if length (g_persist_volumes st) \<ge> PERSIST_MAX_VOLUMES then st
      else if \<not> has_protocol then scan_loop fw boot handles st
      else case efi_probe_writable fw (g_disks st) handle (boot = Some handle) of
        (w, writable) \<Rightarrow> scan_loop fw boot handles
          (st\<lparr>g_disks := w, g_persist_volumes := g_persist_volumes st @
             [\<lparr>vol_handle = handle, vol_boot_device = (boot = Some handle), vol_writable = writable\<rparr>]\<rparr>))"

definition persist_scan_volumes ::
    "('w, 'h) efi_fs \<Rightarrow> nat option \<Rightarrow> (nat \<times> bool) list option \<Rightarrow>
     ('w, 'a) disk_kernel_scheme \<Rightarrow> ('w, 'a) disk_kernel_scheme" where
  "persist_scan_volumes fw boot located st =
     (let st = st\<lparr>g_persist_volumes := []\<rparr>
      in case located of None \<Rightarrow> st | Some handles \<Rightarrow> scan_loop fw boot handles st)"

section \<open>Loading\<close>

text \<open>Reading one file of a volume's root directory, as the callers below do it.\<close>

definition read_from_volume ::
    "('w, 'h) efi_fs \<Rightarrow> ('w, 'a) disk_kernel_scheme \<Rightarrow> nat \<Rightarrow> string \<Rightarrow> nat \<Rightarrow>
     ('w, 'a) disk_kernel_scheme \<times> bytes option" where
  "read_from_volume fw st i path capacity =
     (case f_root fw (g_disks st) (vol_handle (g_persist_volumes st ! i)) of
        (w, None) \<Rightarrow> (st\<lparr>g_disks := w\<rparr>, None)
      | (w, Some root) \<Rightarrow>
          (case efi_read_file fw w root path capacity of
             (w, data) \<Rightarrow> (st\<lparr>g_disks := f_close fw w root\<rparr>, data)))"

definition persist_read_state_from_volume ::
    "('w, 'h) efi_fs \<Rightarrow> ('w, 'a) disk_kernel_scheme \<Rightarrow> nat \<Rightarrow> bool \<Rightarrow> ('w, 'a) disk_kernel_scheme \<times> bool" where
  "persist_read_state_from_volume fw st volume_index apply_state =
     (if volume_index \<ge> length (g_persist_volumes st) then (st, False)
      else case read_from_volume fw st volume_index ''/SNSX/STATE.BIN'' PERSIST_MAX_STATE_SIZE of
        (st, None) \<Rightarrow> (st, False)
      | (st, Some data) \<Rightarrow> if \<not> apply_state then (st, True) else persist_deserialize st data)"

definition set_persist :: "(persist_state \<Rightarrow> persist_state) \<Rightarrow> 'a kernel_scheme \<Rightarrow> 'a kernel_scheme" where
  "set_persist f st = st\<lparr>g_persist := f (g_persist st)\<rparr>"

text \<open>The first loop of \<open>persist_discover\<close>, over the volumes from index \<open>i\<close> on; its flag is whether
  a snapshot was found and restored.\<close>

fun discover_state ::
    "('w, 'h) efi_fs \<Rightarrow> nat list \<Rightarrow> ('w, 'a) disk_kernel_scheme \<Rightarrow> ('w, 'a) disk_kernel_scheme \<times> bool" where
  "discover_state fw [] st = (st, False)"
| "discover_state fw (i # is) st =
     (if vol_writable (g_persist_volumes st ! i)
      then (case persist_read_state_from_volume fw st i False of
              (st, True) \<Rightarrow>
                let st = set_persist (\<lambda>p. p\<lparr>p_available := True, p_installed := True, p_volume_index := i\<rparr>) st;
                    st = persist_set_status ''Persistent SNSX disk found.'' st;
                    st = fst (persist_read_state_from_volume fw st i True)
                in (set_persist (\<lambda>p. p\<lparr>p_dirty := False\<rparr>) st, True)
            | (st, False) \<Rightarrow> discover_state fw is st)
      else discover_state fw is st)"

fun first_writable :: "persist_volume list \<Rightarrow> nat option" where
  "first_writable [] = None"
| "first_writable (v # vs) = (if vol_writable v then Some 0 else map_option Suc (first_writable vs))"

definition persist_discover ::
    "('w, 'h) efi_fs \<Rightarrow> nat option \<Rightarrow> (nat \<times> bool) list option \<Rightarrow>
     ('w, 'a) disk_kernel_scheme \<Rightarrow> ('w, 'a) disk_kernel_scheme" where
  "persist_discover fw boot located st =
     (let st = set_persist (\<lambda>p. p\<lparr>p_available := False, p_installed := False, p_dirty := False\<rparr>) st;
          st = persist_scan_volumes fw boot located st;
          (st, found) = discover_state fw [0 ..< length (g_persist_volumes st)] st
      in if found then st
         else case first_writable (g_persist_volumes st) of
           Some i \<Rightarrow> persist_set_status ''Writable disk found. Run Installer to persist ''
                      (set_persist (\<lambda>p. p\<lparr>p_available := True, p_volume_index := i\<rparr>) st)
         | None \<Rightarrow> persist_set_status ''No writable FAT disk is attached.'' st)"

section \<open>Saving and installing\<close>

definition persist_flush_state ::
    "('w, 'h) efi_fs \<Rightarrow> ('w, 'a) disk_kernel_scheme \<Rightarrow> ('w, 'a) disk_kernel_scheme" where
  "persist_flush_state fw st =
     (if \<not> p_available (g_persist st) \<or> \<not> p_dirty (g_persist st) then st
      else case persist_serialize (g_fs st) PERSIST_MAX_STATE_SIZE of
        None \<Rightarrow> persist_set_status ''Persistence image is too large to save.'' st
      | Some data \<Rightarrow>
          (case f_root fw (g_disks st) (vol_handle (g_persist_volumes st ! p_volume_index (g_persist st))) of
             (w, None) \<Rightarrow> persist_set_status ''Could not open persistence disk.'' (st\<lparr>g_disks := w\<rparr>)
           | (w, Some root) \<Rightarrow>
               (case efi_write_file fw w root ''/SNSX/STATE.BIN'' data of
                  (w, ok) \<Rightarrow>
                    let st = st\<lparr>g_disks := f_close fw w root\<rparr>
                    in if ok
                       then persist_set_status ''State saved to persistent SNSX disk.''
                              (set_persist (\<lambda>p. p\<lparr>p_dirty := False, p_installed := True\<rparr>) st)
                       else persist_set_status ''Saving state to disk failed.'' st)))"

fun persist_read_boot_image ::
    "('w, 'h) efi_fs \<Rightarrow> nat list \<Rightarrow> ('w, 'a) disk_kernel_scheme \<Rightarrow> ('w, 'a) disk_kernel_scheme \<times> bytes option" where
  "persist_read_boot_image fw [] st = (st, None)"
| "persist_read_boot_image fw (i # is) st =
     (case read_from_volume fw st i ''/EFI/BOOT/BOOTAA64.EFI'' PERSIST_BOOT_MAX_SIZE of
        (st, Some img) \<Rightarrow> (st, Some img)
      | (st, None) \<Rightarrow> persist_read_boot_image fw is st)"

definition install_note :: string where
  "install_note = ''SNSX installed disk'' @ [LF] @
     ''This volume stores BOOTAA64.EFI and the persistent SNSX state snapshot.'' @ [LF]"

definition persist_install_boot_disk ::
    "('w, 'h) efi_fs \<Rightarrow> ('w, 'a) disk_kernel_scheme \<Rightarrow> ('w, 'a) disk_kernel_scheme \<times> bool" where
  "persist_install_boot_disk fw st =
     (if \<not> p_available (g_persist st)
      then (persist_set_status ''No writable volume is available for install.'' st, False)
      else case persist_read_boot_image fw [0 ..< length (g_persist_volumes st)] st of
        (st, None) \<Rightarrow> (persist_set_status ''Could not find the boot image on any mounted volume.'' st, False)
      | (st, Some img) \<Rightarrow>
          (case f_root fw (g_disks st) (vol_handle (g_persist_volumes st ! p_volume_index (g_persist st))) of
             (w, None) \<Rightarrow> (persist_set_status ''Could not open the target install disk.'' (st\<lparr>g_disks := w\<rparr>), False)
           | (w, Some root) \<Rightarrow>
               (case efi_write_file fw w root ''/EFI/BOOT/BOOTAA64.EFI'' img of
                  (w, False) \<Rightarrow>
                    (persist_set_status ''Writing BOOTAA64.EFI failed.'' (st\<lparr>g_disks := f_close fw w root\<rparr>), False)
                | (w, True) \<Rightarrow>
                    let w = fst (efi_write_file fw w root ''/SNSX/README.TXT'' install_note);
                        st = st\<lparr>g_disks := f_close fw w root\<rparr>;
                        st = set_persist (\<lambda>p. p\<lparr>p_installed := True, p_dirty := True\<rparr>) st;
                        st = persist_flush_state fw st
                    in (persist_set_status ''SNSX boot files installed to the persistent disk.'' st, True))))"

section \<open>Integer fields\<close>

lemma length_le_bytes [simp]: "length (le_bytes k n) = k"
  by (induction k arbitrary: n) auto

lemma le_value_le_bytes: "le_value (le_bytes k n) = n mod 256 ^ k"
proof (induction k arbitrary: n)
  case (Suc k)
  have "le_value (le_bytes (Suc k) n) = n mod 256 + 256 * (n div 256 mod 256 ^ k)"
    by (simp add: Suc)
  also have "\<dots> = n mod (256 * 256 ^ k)" by (simp add: mod_mult2_eq)
  finally show ?case by simp
qed simp

lemma le_value_fits: "n < 256 ^ k \<Longrightarrow> le_value (le_bytes k n) = n"
  by (simp add: le_value_le_bytes)

lemma field_at: "length pre = offset \<Longrightarrow> length mid = k \<Longrightarrow> field (pre @ mid @ post) offset k = le_value mid"
  by (simp add: field_def)

section \<open>What the snapshot restores\<close>

definition entry_bytes :: "arm_fs_entry \<Rightarrow> bytes" where
  "entry_bytes e = entry_header_bytes e @ e_path e @ take (e_size e) (e_data e)"

text \<open>The code stores every file as text again.\<close>

definition restored :: "arm_fs_entry \<Rightarrow> arm_fs_entry" where
  "restored e = e\<lparr>e_type := if e_type e = ARM_FS_DIR then ARM_FS_DIR else ARM_FS_TEXT\<rparr>"

definition apply_entry :: "arm_fs_entry \<Rightarrow> 'a kernel_scheme \<Rightarrow> 'a kernel_scheme" where
  "apply_entry e st =
     (if e_type e = ARM_FS_DIR then fst (fs_mkdir st (e_path e))
      else fst (fs_write st (e_path e) (e_data e) ARM_FS_TEXT))"

definition snapshot_entry_ok :: "arm_fs_entry \<Rightarrow> bool" where
  "snapshot_entry_ok e \<longleftrightarrow> entry_ok e \<and> cstr_ok (e_path e) \<and> e_type e < 2 ^ 16"

lemma length_entry_bytes: "entry_ok e \<Longrightarrow> length (entry_bytes e) = 8 + length (e_path e) + e_size e"
  by (simp add: entry_bytes_def entry_header_bytes_def entry_ok_def)

lemma restore_entry_at:
  assumes ok: "snapshot_entry_ok e" and off: "length pre = offset"
  shows "restore_entry (pre @ entry_bytes e @ post) offset st =
    Some (apply_entry e st, offset + length (entry_bytes e))"
proof -
  let ?buf = "pre @ entry_bytes e @ post"
  have e: "entry_ok e" "length (e_path e) < FS_PATH_MAX" "e_size e = length (e_data e)"
      "e_size e \<le> FS_MAX_FILE_SIZE" "cstr_ok (e_path e)" "e_type e < 2 ^ 16"
    using ok by (auto simp: snapshot_entry_ok_def entry_ok_def)
  note def = entry_bytes_def entry_header_bytes_def
  have f1: "field ?buf offset 2 = length (e_path e)"
    using field_at [OF off, of "le_bytes 2 (length (e_path e))" 2] e(2)
    by (simp add: def le_value_fits FS_PATH_MAX_def)
  have f2: "field ?buf (offset + 2) 2 = e_type e"
    using field_at [of "pre @ le_bytes 2 (length (e_path e))" "offset + 2" "le_bytes 2 (e_type e)" 2] off e(6)
    by (simp add: def le_value_fits)
  have f3: "field ?buf (offset + 4) 4 = e_size e"
    using field_at [of "pre @ le_bytes 2 (length (e_path e)) @ le_bytes 2 (e_type e)" "offset + 4" "le_bytes 4 (e_size e)" 4] off e(4)
    by (simp add: def le_value_fits FS_MAX_FILE_SIZE_def)
  have dp: "take (length (e_path e)) (drop (offset + 8) ?buf) = e_path e"
    using off by (simp add: def)
  have dd: "take (e_size e) (drop (offset + 8 + length (e_path e)) ?buf) = e_data e"
    using off e(3) by (simp add: def)
  have nn: "takeWhile (\<lambda>c. c \<noteq> NUL) (e_path e) = e_path e"
    using e(5) by (simp add: cstr_ok_def takeWhile_eq_all_conv) metis
  have len: "length ?buf = offset + (8 + length (e_path e) + e_size e) + length post"
    using off length_entry_bytes [OF e(1)] by simp
  show ?thesis
    unfolding restore_entry_def f1 f2 f3 Let_def dp dd nn apply_entry_def length_entry_bytes [OF e(1)]
    using e(2) len by simp
qed

lemma deserialize_loop_entries:
  assumes "list_all snapshot_entry_ok es" and "length pre = offset"
  shows "deserialize_loop (length es) (pre @ concat (map entry_bytes es)) offset st =
    (fold apply_entry es st, True)"
  using assms
proof (induction es arbitrary: pre offset st)
  case (Cons e es)
  then have "restore_entry (pre @ entry_bytes e @ concat (map entry_bytes es)) offset st =
      Some (apply_entry e st, offset + length (entry_bytes e))"
    by (intro restore_entry_at) simp_all
  moreover have "deserialize_loop (length es) ((pre @ entry_bytes e) @ concat (map entry_bytes es))
      (offset + length (entry_bytes e)) (apply_entry e st) = (fold apply_entry es (apply_entry e st), True)"
    using Cons.prems by (intro Cons.IH) simp_all
  ultimately show ?case by simp
qed simp

section \<open>The serializer\<close>

definition snapshot_size :: "arm_fs_entry list \<Rightarrow> nat" where
  "snapshot_size es = (\<Sum>e\<leftarrow>es. 8 + length (e_path e) + e_size e)"

lemma length_snapshot: "list_all entry_ok es \<Longrightarrow> length (concat (map entry_bytes es)) = snapshot_size es"
  by (induction es) (auto simp: snapshot_size_def length_entry_bytes)

lemma serialize_loop_eq:
  "list_all entry_ok es \<Longrightarrow> serialize_loop es capacity out n =
    (if es = [] \<or> 16 + length out + snapshot_size es \<le> capacity
     then Some (out @ concat (map entry_bytes es), n + length es) else None)"
proof (induction es arbitrary: out n)
  case (Cons e es)
  let ?out = "out @ entry_bytes e"
  have len: "length ?out = length out + (8 + length (e_path e) + e_size e)"
    using Cons.prems length_entry_bytes [of e] by simp
  have "serialize_loop (e # es) capacity out n =
      (if 16 + length ?out > capacity then None else serialize_loop es capacity ?out (n + 1))"
    using len by (simp add: entry_bytes_def)
  also have "serialize_loop es capacity ?out (n + 1) =
      (if es = [] \<or> 16 + length ?out + snapshot_size es \<le> capacity
       then Some (?out @ concat (map entry_bytes es), n + 1 + length es) else None)"
    using Cons by simp
  finally show ?case
    using len by (cases es) (auto simp: snapshot_size_def)
qed simp

lemma persist_serialize_eq:
  assumes "list_all entry_ok es"
  shows "persist_serialize es capacity =
    (if 16 + snapshot_size es \<le> capacity
     then Some (header_bytes (length es) @ concat (map entry_bytes es)) else None)"
  using serialize_loop_eq [OF assms, of capacity "[]" 0]
  by (auto simp: persist_serialize_def snapshot_size_def)

lemma header_fields:
  assumes "n < 2 ^ 32"
  shows "field (header_bytes n @ b) 0 4 = SNSX_STATE_MAGIC" "field (header_bytes n @ b) 4 4 = SNSX_STATE_VERSION"
    "field (header_bytes n @ b) 8 4 = n" "length (header_bytes n) = 16"
proof -
  have b: "SNSX_STATE_MAGIC < 256 ^ 4" "SNSX_STATE_VERSION < 256 ^ 4" "n < 256 ^ 4"
    using assms by (simp_all add: SNSX_STATE_MAGIC_def SNSX_STATE_VERSION_def)
  let ?a = "le_bytes 4 SNSX_STATE_MAGIC" and ?v = "le_bytes 4 SNSX_STATE_VERSION"
  show "field (header_bytes n @ b) 0 4 = SNSX_STATE_MAGIC"
    using field_at [of "[]" 0 ?a 4] b(1) by (simp add: header_bytes_def le_value_fits)
  show "field (header_bytes n @ b) 4 4 = SNSX_STATE_VERSION"
    using field_at [of ?a 4 ?v 4] b(2) by (simp add: header_bytes_def le_value_fits)
  show "field (header_bytes n @ b) 8 4 = n"
    using field_at [of "?a @ ?v" 8 "le_bytes 4 n" 4] b(3) by (simp add: header_bytes_def le_value_fits)
  show "length (header_bytes n) = 16" by (simp add: header_bytes_def)
qed

lemma persist_deserialize_serialized:
  assumes es: "list_all snapshot_entry_ok es" and n: "length es \<le> FS_MAX_ENTRIES"
  shows "persist_deserialize st (header_bytes (length es) @ concat (map entry_bytes es)) =
    (fold apply_entry es st, True)"
proof -
  have "length es < 2 ^ 32" using n by (simp add: FS_MAX_ENTRIES_def)
  note h = header_fields [OF this]
  show ?thesis
    using deserialize_loop_entries [OF es h(4)] h by (simp add: persist_deserialize_def)
qed

section \<open>Restoring an empty table\<close>

lemma fs_mkdir_new:
  assumes "path \<notin> e_path ` set (g_fs st)" and "length (g_fs st) < FS_MAX_ENTRIES" and "length path < FS_PATH_MAX"
    and "has_parent_in (g_fs st) path" and "distinct (map e_path (g_fs st))"
    and "path \<noteq> []" "hd path = CHR ''/''" "path \<noteq> ''/''"
  shows "g_fs (fst (fs_mkdir st path)) = g_fs st @ [\<lparr>e_path = path, e_data = [], e_size = 0, e_type = ARM_FS_DIR\<rparr>]"
proof -
  have "fs_find st path = None" using assms(1) by (simp add: fs_find_eq_None)
  moreover have "fs_parent_exists st path"
    using assms parent_exists_iff by blast
  ultimately show ?thesis
    using assms by (simp add: fs_mkdir_def fs_push_def strcopy_limit_fits)
qed

lemma fs_write_new:
  assumes "path \<notin> e_path ` set (g_fs st)" and "length (g_fs st) < FS_MAX_ENTRIES" and "length path < FS_PATH_MAX"
    and "has_parent_in (g_fs st) path" and "distinct (map e_path (g_fs st))"
    and "path \<noteq> []" "hd path = CHR ''/''" "length data \<le> FS_MAX_FILE_SIZE" "type \<noteq> ARM_FS_DIR"
  shows "g_fs (fst (fs_write st path data type)) =
    g_fs st @ [\<lparr>e_path = path, e_data = data, e_size = length data, e_type = type\<rparr>]"
proof -
  have "find_index path (g_fs st) = None" using assms(1) by (simp add: find_index_None)
  moreover have "fs_parent_exists st path"
    using assms parent_exists_iff by blast
  ultimately show ?thesis
    using assms by (simp add: fs_write_def fs_push_def strcopy_limit_fits store_at_def entry_update)
qed

lemma restored_simps [simp]:
  "e_path (restored e) = e_path e" "entry_key (restored e) = entry_key e"
  by (simp_all add: restored_def entry_key_def ARM_FS_TEXT_def ARM_FS_DIR_def)

lemma restored_fields: "restored e = \<lparr>e_path = e_path e, e_data = e_data e, e_size = e_size e,
    e_type = (if e_type e = ARM_FS_DIR then ARM_FS_DIR else ARM_FS_TEXT)\<rparr>"
  by (cases e) (simp add: restored_def)

lemma apply_entry_new:
  assumes "g_fs st = map restored us" and "distinct (map e_path (us @ [e]))" and "length us < FS_MAX_ENTRIES"
    and "entry_ok e" and "has_parent_in us (e_path e)" and "e_path e \<noteq> ''/''"
  shows "g_fs (apply_entry e st) = map restored (us @ [e])"
proof -
  have tab: "map e_path (g_fs st) = map e_path us" using assms(1) by simp
  then have new: "e_path e \<notin> e_path ` set (g_fs st)" "distinct (map e_path (g_fs st))"
    using assms(2) by (auto simp flip: set_map)
  have par: "has_parent_in (g_fs st) (e_path e)"
    using has_parent_in_cong [of "g_fs st" us] assms(1,5) by (simp add: comp_def)
  have len: "length (g_fs st) < FS_MAX_ENTRIES" using assms(1,3) by simp
  have e: "length (e_path e) < FS_PATH_MAX" "e_path e \<noteq> []" "hd (e_path e) = CHR ''/''"
      "length (e_data e) \<le> FS_MAX_FILE_SIZE" "e_size e = length (e_data e)"
    using assms(4) by (simp_all add: entry_ok_def)
  show ?thesis
  proof (cases "e_type e = ARM_FS_DIR")
    case True
    then have "e_data e = []" using entry_ok_dir [OF assms(4)] by simp
    then show ?thesis
      using fs_mkdir_new [OF new(1) len e(1) par new(2) e(2,3) assms(6)] True assms(1) e(5)
      by (simp add: apply_entry_def restored_fields)
  next
    case False
    then show ?thesis
      using fs_write_new [OF new(1) len e(1) par new(2) e(2,3,4), of ARM_FS_TEXT] assms(1) e(5)
      by (simp add: apply_entry_def restored_fields ARM_FS_TEXT_def ARM_FS_DIR_def)
  qed
qed

lemma fold_apply_entries:
  assumes "fs_ok (us @ vs)" and "parents_seen us vs" and "\<forall>e\<in>set vs. e_path e \<noteq> ''/''"
    and "g_fs st = map restored us"
  shows "g_fs (fold apply_entry vs st) = map restored (us @ vs)"
  using assms
proof (induction vs arbitrary: us st)
  case (Cons v vs)
  have "g_fs (apply_entry v st) = map restored (us @ [v])"
    by (rule apply_entry_new) (use Cons.prems in \<open>auto simp: fs_ok_def\<close>)
  then show ?case
    using Cons.IH [of "us @ [v]"] Cons.prems by simp
qed simp

section \<open>Loading keeps the table well formed\<close>

lemma restore_entry_ok:
  assumes "fs_ok (g_fs st)" and "restore_entry buffer offset st = Some (st', offset')"
  shows "fs_ok (g_fs st') \<and> (parents_first (g_fs st) \<longrightarrow> parents_first (g_fs st'))"
proof -
  obtain p d where "st' = fst (fs_mkdir st p) \<or> st' = fst (fs_write st p d ARM_FS_TEXT)"
    using assms(2) by (auto simp: restore_entry_def Let_def split: if_splits)
  then show ?thesis
    using fs_mkdir_ok [OF assms(1), of p] fs_write_ok [OF assms(1), of p d ARM_FS_TEXT]
    by (metis prod.collapse)
qed

lemma deserialize_loop_ok:
  assumes "fs_ok (g_fs st)" and "deserialize_loop n buffer offset st = (st', b)"
  shows "fs_ok (g_fs st') \<and> (parents_first (g_fs st) \<longrightarrow> parents_first (g_fs st'))"
  using assms
proof (induction n arbitrary: offset st)
  case (Suc n)
  show ?case
  proof (cases "restore_entry buffer offset st")
    case None
    then show ?thesis using Suc.prems by simp
  next
    case (Some r)
    obtain st1 o1 where r: "r = (st1, o1)" by (cases r)
    note ok1 = restore_entry_ok [OF Suc.prems(1) Some [unfolded r]]
    have "deserialize_loop n buffer o1 st1 = (st', b)" using Suc.prems(2) Some r by simp
    from Suc.IH [OF conjunct1 [OF ok1] this] ok1 show ?thesis by blast
  qed
qed simp

lemma persist_deserialize_ok [inv_intros]:
  assumes "fs_ok (g_fs st)" and "persist_deserialize st buffer = (st', b)"
  shows "fs_ok (g_fs st') \<and> (parents_first (g_fs st) \<longrightarrow> parents_first (g_fs st'))"
  using deserialize_loop_ok [OF assms(1)] assms by (auto simp: persist_deserialize_def split: if_splits)

definition table_kept :: "'a kernel_scheme \<Rightarrow> 'a kernel_scheme \<Rightarrow> bool" where
  "table_kept st st' \<longleftrightarrow> (fs_ok (g_fs st) \<longrightarrow> fs_ok (g_fs st')) \<and>
     (fs_ok (g_fs st) \<and> parents_first (g_fs st) \<longrightarrow> parents_first (g_fs st'))"

lemma table_kept_refl [simp]: "table_kept st st"
  by (simp add: table_kept_def)

lemma table_kept_trans: "table_kept a b \<Longrightarrow> table_kept b c \<Longrightarrow> table_kept a c"
  by (auto simp: table_kept_def)

lemma table_kept_same: "g_fs st' = g_fs st \<Longrightarrow> table_kept st st'"
  by (simp add: table_kept_def)

lemma g_fs_status [simp]: "g_fs (persist_set_status s st) = g_fs st"
  by (simp add: persist_set_status_def)

lemma g_fs_set_persist [simp]: "g_fs (set_persist f st) = g_fs st"
  by (simp add: set_persist_def)

lemma g_fs_read_from_volume: "read_from_volume fw st i path capacity = (st', r) \<Longrightarrow> g_fs st' = g_fs st"
  by (auto simp: read_from_volume_def split: prod.splits option.splits)

lemma read_state_kept:
  assumes "persist_read_state_from_volume fw st i b = (st', r)"
  shows "table_kept st st' \<and> (\<not> b \<longrightarrow> g_fs st' = g_fs st)"
proof (cases "i < length (g_persist_volumes st)")
  case True
  obtain st1 d where d: "read_from_volume fw st i ''/SNSX/STATE.BIN'' PERSIST_MAX_STATE_SIZE = (st1, d)"
    by (cases "read_from_volume fw st i ''/SNSX/STATE.BIN'' PERSIST_MAX_STATE_SIZE")
  note same = g_fs_read_from_volume [OF d]
  show ?thesis
  proof (cases d)
    case None
    then show ?thesis using assms d True same
      by (auto simp: persist_read_state_from_volume_def intro: table_kept_same)
  next
    case (Some data)
    then have "(\<not> b \<and> st' = st1) \<or> (b \<and> persist_deserialize st1 data = (st', r))"
      using assms d True by (auto simp: persist_read_state_from_volume_def split: if_splits)
    then show ?thesis
      using same persist_deserialize_ok [of st1 data st' r] by (auto simp: table_kept_def)
  qed
qed (use assms in \<open>simp add: persist_read_state_from_volume_def\<close>)

lemma discover_state_kept: "discover_state fw is st = (st', b) \<Longrightarrow> table_kept st st'"
proof (induction fw "is" st arbitrary: st' b rule: discover_state.induct)
  case (2 fw i "is" st)
  show ?case
  proof (cases "vol_writable (g_persist_volumes st ! i)")
    case False
    with 2 show ?thesis by simp
  next
    case True
    obtain st1 r where r: "persist_read_state_from_volume fw st i False = (st1, r)"
      by (cases "persist_read_state_from_volume fw st i False")
    note same = read_state_kept [OF r, simplified]
    show ?thesis
    proof (cases r)
      case False
      with 2 True r have "table_kept st1 st'" by auto
      with same show ?thesis by (blast intro: table_kept_trans)
    next
      case r': True
      define st2 where "st2 = persist_set_status ''Persistent SNSX disk found.''
          (set_persist (\<lambda>p. p\<lparr>p_available := True, p_installed := True, p_volume_index := i\<rparr>) st1)"
      obtain st3 r3 where r3: "persist_read_state_from_volume fw st2 i True = (st3, r3)"
        by (cases "persist_read_state_from_volume fw st2 i True")
      have "st' = set_persist (\<lambda>p. p\<lparr>p_dirty := False\<rparr>) st3"
        using "2.prems" True r r' r3 by (simp add: st2_def Let_def)
      moreover have "table_kept st2 st3" using read_state_kept [OF r3] by simp
      moreover have "g_fs st2 = g_fs st" using same by (simp add: st2_def)
      ultimately show ?thesis by (simp add: table_kept_def)
    qed
  qed
qed simp

lemma scan_loop_fs [simp]: "g_fs (scan_loop fw boot hs st) = g_fs st"
  by (induction fw boot hs st rule: scan_loop.induct) (auto split: prod.splits)

lemma scan_loop_volumes:
  "length (g_persist_volumes st) \<le> PERSIST_MAX_VOLUMES \<Longrightarrow>
   length (g_persist_volumes (scan_loop fw boot hs st)) \<le> PERSIST_MAX_VOLUMES"
  by (induction fw boot hs st rule: scan_loop.induct) (auto split: prod.splits)

lemma persist_discover_kept: "table_kept st (persist_discover fw boot located st)"
proof -
  define st1 where "st1 = persist_scan_volumes fw boot located
      (set_persist (\<lambda>p. p\<lparr>p_available := False, p_installed := False, p_dirty := False\<rparr>) st)"
  obtain st2 found where d: "discover_state fw [0 ..< length (g_persist_volumes st1)] st1 = (st2, found)"
    by (cases "discover_state fw [0 ..< length (g_persist_volumes st1)] st1")
  have "g_fs st1 = g_fs st" by (simp add: st1_def persist_scan_volumes_def Let_def split: option.split)
  moreover have "table_kept st1 st2" by (rule discover_state_kept [OF d])
  moreover have "g_fs (persist_discover fw boot located st) = g_fs st2"
    using d by (simp add: persist_discover_def Let_def flip: st1_def split: option.split)
  ultimately show ?thesis by (simp add: table_kept_def)
qed

lemma g_fs_flush [simp]: "g_fs (persist_flush_state fw st) = g_fs st"
  by (auto simp: persist_flush_state_def Let_def split: option.splits prod.splits)

section \<open>Properties\<close>

text \<open>C14: Restoring a snapshot into an empty table gives back the saved table, entry for entry and in
  the same order, when the saved table is well formed, stores directories before what they hold,
  and has no entry named by the root path; every file comes back with the type text.\<close>

theorem snapshot_roundtrip:
  assumes ok: "fs_ok es" and first: "parents_first es" and root: "\<forall>e\<in>set es. e_path e \<noteq> ''/''"
    and small: "\<forall>e\<in>set es. cstr_ok (e_path e) \<and> e_type e < 2 ^ 16"
    and saved: "persist_serialize es capacity = Some b" and empty: "g_fs st = []"
  shows "snd (persist_deserialize st b) \<and> g_fs (fst (persist_deserialize st b)) = map restored es"
proof -
  have entries: "list_all entry_ok es" "list_all snapshot_entry_ok es" "length es \<le> FS_MAX_ENTRIES"
    using ok small by (auto simp: fs_ok_def list_all_iff snapshot_entry_ok_def)
  then have "b = header_bytes (length es) @ concat (map entry_bytes es)"
    using saved persist_serialize_eq [OF entries(1)] by (auto split: if_splits)
  then have "persist_deserialize st b = (fold apply_entry es st, True)"
    using persist_deserialize_serialized [OF entries(2,3)] by simp
  moreover have "g_fs (fold apply_entry es st) = map restored es"
    using fold_apply_entries [of "[]" es st] ok first root empty by (simp add: parents_first_def)
  ultimately show ?thesis by simp
qed

theorem snapshot_roundtrip_witness:
  "g_fs (fst (persist_deserialize (kernel_of []) (the (persist_serialize demo_table 96)))) = demo_table"
proof -
  have "16 + snapshot_size demo_table \<le> 96" by code_simp
  moreover have "list_all entry_ok demo_table" by code_simp
  ultimately obtain b where b: "persist_serialize demo_table 96 = Some b"
    by (simp add: persist_serialize_eq)
  have "\<forall>e\<in>set demo_table. e_path e \<noteq> ''/''" "\<forall>e\<in>set demo_table. cstr_ok (e_path e) \<and> e_type e < 2 ^ 16"
    by (simp_all add: demo_defs cstr_ok_def ARM_FS_TEXT_def ARM_FS_DIR_def)
  moreover have "map restored demo_table = demo_table"
    by (simp add: demo_defs restored_def ARM_FS_TEXT_def ARM_FS_DIR_def)
  ultimately show ?thesis
    using snapshot_roundtrip [OF _ _ _ _ b, of "kernel_of []"] demo_ok b by (simp add: kernel_of_def)
qed

text \<open>A table is saved exactly when its header and entries fit the capacity, and then the snapshot
  has exactly that size; otherwise the serializer reports failure.\<close>

theorem snapshot_size_exact:
  assumes "fs_ok es"
  shows "map_option length (persist_serialize es capacity) =
    (if 16 + (\<Sum>e\<leftarrow>es. 8 + length (e_path e) + e_size e) \<le> capacity
     then Some (16 + (\<Sum>e\<leftarrow>es. 8 + length (e_path e) + e_size e)) else None)"
proof -
  have entries: "list_all entry_ok es" using assms by (simp add: fs_ok_def)
  have "length (header_bytes (length es)) = 16" by (simp add: header_bytes_def)
  then show ?thesis
    using persist_serialize_eq [OF entries, of capacity] length_snapshot [OF entries]
    by (simp add: snapshot_size_def)
qed

theorem snapshot_size_exact_witness: "map_option length (persist_serialize demo_table 96) = Some 78"
proof -
  have "(\<Sum>e\<leftarrow>demo_table. 8 + length (e_path e) + e_size e) = 62" by code_simp
  then show ?thesis
    using snapshot_size_exact [of demo_table 96] demo_ok by (simp add: kernel_of_def)
qed

text \<open>C16: Whatever octets the state file holds, and whatever the firmware answers, searching the disks
  at boot and restoring what is found keeps the file table well formed and its directories first.\<close>

theorem persist_discover_safe:
  assumes "fs_ok (g_fs st)" and "parents_first (g_fs st)"
  shows "fs_ok (g_fs (persist_discover fw boot located st)) \<and>
    parents_first (g_fs (persist_discover fw boot located st))"
  using persist_discover_kept [of st fw boot located] assms by (simp add: table_kept_def)

text \<open>A firmware with one disk, whose root directory answers every read of a file with the octets
  the disk holds, and a corrupt state file: one good entry, then a record that is cut off.\<close>

definition demo_firmware :: "(bytes \<times> nat, nat) efi_fs" where
  "demo_firmware = \<lparr>
     f_root = (\<lambda>w v. (w, Some 0)), f_open = (\<lambda>w h name mode attributes. ((fst w, 0), Some 1)), f_close = (\<lambda>w h. w),
     f_read = (\<lambda>w h n. ((fst w, snd w + length (take n (drop (snd w) (fst w)))), Some (take n (drop (snd w) (fst w))))),
     f_write = (\<lambda>w h d. ((d, length d), True)), f_rewind = (\<lambda>w h. (fst w, 0)), f_info = (\<lambda>w h. None),
     f_set_size = (\<lambda>w h i n. w), f_flush = (\<lambda>w h. w), f_read_only = (\<lambda>w h. Some False)\<rparr>"

definition corrupt_snapshot :: bytes where
  "corrupt_snapshot = header_bytes 2 @ entry_bytes (file_entry ''/n'' ''saved'') @ le_bytes 2 9 @ ''xx''"

definition demo_boot :: "bytes \<Rightarrow> (bytes \<times> nat) disk_kernel" where
  "demo_boot disk = \<lparr>g_fs = demo_table, g_persist = no_disk, g_disks = (disk, 0), g_persist_volumes = []\<rparr>"

theorem persist_discover_safe_witness:
  "fs_ok (g_fs (persist_discover demo_firmware None (Some [(7, True)]) (demo_boot corrupt_snapshot)))"
  by (rule conjunct1 [OF persist_discover_safe]) (use demo_ok in \<open>simp_all add: demo_boot_def kernel_of_def\<close>)

text \<open>The effect of a call on the save state: none, or the mark.\<close>

definition marks :: "'a kernel_scheme \<Rightarrow> 'a kernel_scheme \<Rightarrow> bool" where
  "marks st st' \<longleftrightarrow> st' = st \<or> g_persist st' = g_persist (persist_mark_dirty st)"

lemma g_persist_mark_cong: "g_persist st1 = g_persist st \<Longrightarrow>
  g_persist (persist_mark_dirty st1) = g_persist (persist_mark_dirty st)"
  by (simp add: persist_mark_dirty_def)

lemma fs_write_marks: "marks st (fst (fs_write st path data type))"
  by (auto simp: marks_def fs_write_def fs_push_def store_at_def intro!: g_persist_mark_cong split: option.splits)

lemma fs_mkdir_marks: "marks st (fst (fs_mkdir st path))"
  by (auto simp: marks_def fs_mkdir_def fs_push_def intro!: g_persist_mark_cong split: option.splits)

lemma fs_remove_marks: "marks st (fst (fs_remove st path))"
  by (auto simp: marks_def fs_remove_def intro!: g_persist_mark_cong split: option.splits)

lemma fs_step_marks: "marks st (fst (fs_step st op))"
proof (cases op)
  case (OpWriteIfChanged path data type)
  then show ?thesis
    using fs_write_marks [of st path data type]
    by (auto simp: fs_write_if_changed_def marks_def split: option.split)
next
  case (OpCopy source destination)
  then show ?thesis
    using fs_write_marks [of st destination]
    by (auto simp: fs_copy_def marks_def split: option.split)
next
  case (OpAppendLine path line)
  then show ?thesis
    using fs_write_marks [of st path _ ARM_FS_TEXT]
    by (auto simp: fs_append_line_def Let_def marks_def split: option.split)
qed (simp_all add: fs_write_marks fs_mkdir_marks fs_remove_marks)


definition live_disk :: "(bytes \<times> nat) disk_kernel" where
  "live_disk = (demo_boot [])\<lparr>g_persist := no_disk\<lparr>p_available := True\<rparr>\<rparr>"


end
