(* ===== verification/Settings.thy ===== *)
theory Settings
  imports Persist
begin

text \<open>
  Settings kept as text files, one item a line: what the desktop, the wireless profiles, the
  store, the browser and the studio of \<open>src/arm64/kernel/main.c\<close> share. Their load functions
  copy the file into a bounded buffer, cut it into lines in place and apply each; their save
  functions concatenate the lines in a buffer of fixed size. The contract of such a pair is
  the locale \<open>line_store\<close>; each component interprets it on its own functions.
\<close>

section \<open>Reading and writing\<close>

definition starts :: "string \<Rightarrow> string \<Rightarrow> bool" where
  "starts p s \<longleftrightarrow> take (length p) s = p"

text \<open>The loop \<open>while (line != NULL && *line != 0)\<close> with \<open>next = strchr(line, LF)\<close>.\<close>

function text_lines :: "string \<Rightarrow> string list" where
  "text_lines s =
     (if s = [] then []
      else takeWhile (\<lambda>c. c \<noteq> LF) s # text_lines (tl (dropWhile (\<lambda>c. c \<noteq> LF) s)))"
  by auto
termination
proof (relation "measure length", goal_cases)
  case (2 s)
  have "length (dropWhile (\<lambda>c. c \<noteq> LF) s) \<le> length s" by (rule length_dropWhile_le)
  moreover have "0 < length s" using 2 by simp
  ultimately have "length (dropWhile (\<lambda>c. c \<noteq> LF) s) - 1 < length s" by linarith
  then show ?case by simp
qed simp

declare text_lines.simps [simp del]

text \<open>The text a load function works on: the file as a C string in a buffer of \<open>limit\<close> octets.\<close>

definition load_text :: "'a kernel_scheme \<Rightarrow> string \<Rightarrow> nat \<Rightarrow> string option" where
  "load_text st path limit =
     (case fs_find st path of
        None \<Rightarrow> None
      | Some e \<Rightarrow>
          if e_type e = ARM_FS_TEXT
          then Some (takeWhile (\<lambda>c. c \<noteq> NUL) (take (min (e_size e) (limit - 1)) (e_data e))) else None)"

text \<open>Applying the lines in order with their index; \<open>None\<close> when an \<open>atoi\<close> overflows.\<close>

fun run_lines :: "(nat \<Rightarrow> string \<Rightarrow> 's \<Rightarrow> 's option) \<Rightarrow> nat \<Rightarrow> string list \<Rightarrow> 's \<Rightarrow> 's option" where
  "run_lines f i [] s = Some s"
| "run_lines f i (l # ls) s = (case f i l s of None \<Rightarrow> None | Some s' \<Rightarrow> run_lines f (i + 1) ls s')"

text \<open>The text of a list of lines; \<open>None\<close> when the \<open>strcat\<close>s overrun the buffer.\<close>

definition unlines :: "string list \<Rightarrow> string" where
  "unlines ls = concat (map (\<lambda>l. l @ [LF]) ls)"

definition save_text :: "string list \<Rightarrow> nat \<Rightarrow> string option" where
  "save_text ls limit = (if length (unlines ls) + 1 > limit then None else Some (unlines ls))"

definition flag :: "bool \<Rightarrow> string" where "flag b = (if b then ''1'' else ''0'')"

text \<open>\<open>sep = strchr(s, c)\<close> with \<open>*sep++ = 0\<close>: the text before and after.\<close>

definition cut_at :: "char \<Rightarrow> string \<Rightarrow> (string \<times> string) option" where
  "cut_at c s = (case strchr_s s c of None \<Rightarrow> None | Some t \<Rightarrow> Some (takeWhile (\<lambda>x. x \<noteq> c) s, tl t))"

section \<open>Facts\<close>

definition line_ok :: "string \<Rightarrow> bool" where
  "line_ok l \<longleftrightarrow> cstr_ok l \<and> LF \<notin> set l"

lemma line_ok_simps [simp]:
  "line_ok []"
  "line_ok (c # s) \<longleftrightarrow> c \<noteq> NUL \<and> c \<noteq> LF \<and> line_ok s"
  "line_ok (s @ t) \<longleftrightarrow> line_ok s \<and> line_ok t"
  "line_ok (flag b)"
  "line_ok (u32_to_dec v)"
  by (auto simp: line_ok_def flag_def dest: u32_to_dec_isdigit isdigit_not_NUL)

lemma text_lines_Nil [simp]: "text_lines [] = []"
  by (simp add: text_lines.simps)

lemma text_lines_line: "LF \<notin> set l \<Longrightarrow> text_lines (l @ LF # s) = l # text_lines s"
proof -
  assume l: "LF \<notin> set l"
  then have "takeWhile (\<lambda>c. c \<noteq> LF) (l @ LF # s) = l" "dropWhile (\<lambda>c. c \<noteq> LF) (l @ LF # s) = LF # s"
    by (auto simp: takeWhile_append dropWhile_append)
  then show ?thesis by (subst text_lines.simps) simp
qed

lemma text_lines_unlines: "list_all line_ok ls \<Longrightarrow> text_lines (unlines ls) = ls"
  by (induction ls) (simp_all add: unlines_def text_lines_line line_ok_def)

lemma unlines_ok: "list_all line_ok ls \<Longrightarrow> cstr_ok (unlines ls)"
  by (induction ls) (simp_all add: unlines_def line_ok_def)

lemma length_unlines: "length (unlines ls) = (\<Sum>l\<leftarrow>ls. length l + 1)"
  by (induction ls) (simp_all add: unlines_def)

lemma cut_at_append [simp]: "c \<notin> set u \<Longrightarrow> cut_at c (u @ c # v) = Some (u, v)"
proof -
  assume c: "c \<notin> set u"
  then have "takeWhile (\<lambda>x. x \<noteq> c) (u @ c # v) = u" by (auto simp: takeWhile_append)
  then show ?thesis using c by (simp add: cut_at_def)
qed

lemma starts_append [simp]: "starts p (p @ s)"
  by (simp add: starts_def)

lemma atoi_flag [simp]: "atoi (flag b) = Some (if b then 1 else 0)"
  by (cases b) (simp_all add: flag_def atoi_def acc_digit_def isspace_def isdigit_def digit_val_def uchar_def int32_ok_def)

lemma run_lines_append: "run_lines f i (ls @ ls') s =
  (case run_lines f i ls s of None \<Rightarrow> None | Some s' \<Rightarrow> run_lines f (i + length ls) ls' s')"
  by (induction ls arbitrary: i s) (auto split: option.splits)

lemma run_lines_keeps: "(\<And>i l s s'. f i l s = Some s' \<Longrightarrow> P s \<Longrightarrow> P s') \<Longrightarrow> run_lines f i ls s = Some s' \<Longrightarrow> P s \<Longrightarrow> P s'"
  by (induction ls arbitrary: i s) (auto split: option.splits)

lemma load_text_read:
  assumes "fs_read st path = Some (t, ARM_FS_TEXT)" and "cstr_ok t" and "length t < limit"
  shows "load_text st path limit = Some t"
proof -
  obtain e where e: "fs_find st path = Some e" "t = take (e_size e) (e_data e)" "e_type e = ARM_FS_TEXT"
    using assms(1) by (auto simp: fs_read_def)
  have "take (min (e_size e) (limit - 1)) (e_data e) = take (limit - 1) t"
    using e(2) by (simp add: min.commute)
  also have "\<dots> = t" using assms(3) by simp
  finally have "take (min (e_size e) (limit - 1)) (e_data e) = t" .
  moreover have "takeWhile (\<lambda>c. c \<noteq> NUL) t = t"
    using assms(2) by (auto simp: takeWhile_eq_all_conv cstr_ok_def)
  ultimately show ?thesis using e by (simp add: load_text_def)
qed

lemma load_text_absent: "fs_find st path = None \<Longrightarrow> load_text st path limit = None"
  by (simp add: load_text_def)

section \<open>The contract\<close>

text \<open>
  A component's settings: the lines it writes for a state, what it does with each line it
  reads, the state it starts reading with, and what of a state its lines keep. The law is
  that reading the lines written gives back exactly what is kept.
\<close>

locale line_store =
  fixes ok :: "'s \<Rightarrow> bool"
    and lines_of :: "'s \<Rightarrow> string list"
    and apply_line :: "nat \<Rightarrow> string \<Rightarrow> 's \<Rightarrow> 's option"
    and start :: "'s"
    and kept :: "'s \<Rightarrow> 's"
  assumes lines_ok: "ok s \<Longrightarrow> list_all line_ok (lines_of s)"
    and reread: "ok s \<Longrightarrow> run_lines apply_line 0 (lines_of s) start = Some (kept s)"
begin

lemma reload:
  assumes "ok s" and "save_text (lines_of s) limit = Some t" and "fs_read st path = Some (t, ARM_FS_TEXT)"
    and "limit \<le> limit'"
  shows "\<exists>t'. load_text st path limit' = Some t' \<and> run_lines apply_line 0 (text_lines t') start = Some (kept s)"
proof -
  have t: "t = unlines (lines_of s)" "length t < limit'"
    using assms(2,4) by (auto simp: save_text_def split: if_splits)
  have "load_text st path limit' = Some t"
    using assms(3) t unlines_ok [OF lines_ok [OF assms(1)]] by (intro load_text_read) simp_all
  then show ?thesis
    using t(1) text_lines_unlines [OF lines_ok [OF assms(1)]] reread [OF assms(1)] by simp
qed

lemma reload_written:
  assumes "ok s" and "save_text (lines_of s) limit = Some t" and "limit \<le> limit'"
    and "fs_ok (g_fs st)" and "fs_write st path t ARM_FS_TEXT = (st', True)"
  shows "\<exists>t'. load_text st' path limit' = Some t' \<and> run_lines apply_line 0 (text_lines t') start = Some (kept s)"
  using reload [OF assms(1,2) _ assms(3), of st' path] fs_read_write [OF assms(4,5)] by simp

lemma reload_changed:
  assumes "ok s" and "save_text (lines_of s) limit = Some t" and "limit \<le> limit'"
    and "fs_ok (g_fs st)" and "fs_write_if_changed st path t ARM_FS_TEXT = (st', True)"
  shows "\<exists>t'. load_text st' path limit' = Some t' \<and> run_lines apply_line 0 (text_lines t') start = Some (kept s)"
  using reload [OF assms(1,2) _ assms(3), of st' path] fs_read_write_if_changed [OF assms(4,5)] by simp

end



section \<open>Facts about the file system a text file is written to\<close>

lemma fs_read_write_other:
  assumes "fs_ok (g_fs st)" and "q \<noteq> path"
  shows "fs_read (fst (fs_write st path data type)) q = fs_read st q"
    and "fs_read (fst (fs_write_if_changed st path data type)) q = fs_read st q"
    and "fs_read (fst (fs_remove st path)) q = fs_read st q"
    and "fs_read (fst (fs_mkdir st path)) q = fs_read st q"
proof -
  obtain s1 b1 where w: "fs_write st path data type = (s1, b1)" by force
  obtain s2 b2 where c: "fs_write_if_changed st path data type = (s2, b2)" by force
  obtain s3 b3 where r: "fs_remove st path = (s3, b3)" by force
  obtain s4 b4 where m: "fs_mkdir st path = (s4, b4)" by force
  show "fs_read (fst (fs_write st path data type)) q = fs_read st q"
    using w fs_read_write [OF assms(1)] fs_write_False assms(2) by (cases b1) fastforce+
  show "fs_read (fst (fs_write_if_changed st path data type)) q = fs_read st q"
  proof (cases b2)
    case True
    then show ?thesis using c fs_read_write_if_changed [OF assms(1)] assms(2) by fastforce
  next
    case False
    from fs_write_if_changed_cases [OF assms(1) c] have "s2 = st"
      using False fs_write_False by cases auto
    then show ?thesis using c by simp
  qed
  show "fs_read (fst (fs_remove st path)) q = fs_read st q"
    using r fs_read_remove [OF assms(1)] fs_remove_False assms(2) by (cases b3) fastforce+
  show "fs_read (fst (fs_mkdir st path)) q = fs_read st q"
    using m fs_read_mkdir [OF assms(1)] fs_mkdir_False assms(2) by (cases b4) fastforce+
qed

lemma fs_ops_ok:
  assumes "fs_ok (g_fs st)"
  shows "fs_ok (g_fs (fst (fs_write st path data type)))" "fs_ok (g_fs (fst (fs_write_if_changed st path data type)))"
    "fs_ok (g_fs (fst (fs_remove st path)))" "fs_ok (g_fs (fst (fs_mkdir st path)))"
  using fs_write_ok [OF assms] fs_write_if_changed_ok [OF assms] fs_remove_ok [OF assms] fs_mkdir_ok [OF assms]
  by (metis prod.collapse)+

text \<open>A name that is not a directory's can be removed and, when it is there, overwritten.\<close>

definition not_dir :: "'a kernel_scheme \<Rightarrow> string \<Rightarrow> bool" where
  "not_dir st path \<longleftrightarrow> (case fs_read st path of None \<Rightarrow> True | Some (d, t) \<Rightarrow> t \<noteq> ARM_FS_DIR)"

lemma fs_read_find: "fs_read st path = None \<longleftrightarrow> fs_find st path = None"
  by (auto simp: fs_read_def)

lemma fs_remove_file:
  assumes ok: "fs_ok (g_fs st)" and nd: "not_dir st path" and f: "fs_find st path \<noteq> None" and root: "path \<noteq> ''/''"
  shows "fs_find (fst (fs_remove st path)) path = None"
proof -
  obtain e where e: "fs_find st path = Some e" using f by auto
  obtain i where i: "find_index path (g_fs st) = Some i" "g_fs st ! i = e" using e by (auto simp: fs_find_def)
  have "e_path e = path" "entry_ok e" using fs_find_mem [OF e] fs_ok_entry [OF ok] by auto
  then have p: "path \<noteq> []" "hd path = CHR ''/''" by (auto simp: entry_ok_def)
  have "e_type e \<noteq> ARM_FS_DIR" using nd e by (simp add: not_dir_def fs_read_def)
  then have "snd (fs_remove st path)" using i p root by (simp add: fs_remove_def)
  then obtain st' where "fs_remove st path = (st', True)" by (metis (full_types) prod.collapse)
  then show ?thesis using fs_read_remove [OF ok] by (simp flip: fs_read_find)
qed

text \<open>Writing a text that fits over a text file succeeds.\<close>

lemma fs_write_existing:
  assumes "fs_read st path = Some (old, ARM_FS_TEXT)" and "fs_ok (g_fs st)" and "length data \<le> FS_MAX_FILE_SIZE"
  shows "\<exists>st'. fs_write st path data ARM_FS_TEXT = (st', True)"
proof -
  obtain e where e: "fs_find st path = Some e" "e_type e = ARM_FS_TEXT" using assms(1) by (auto simp: fs_read_def)
  then obtain i where i: "find_index path (g_fs st) = Some i" "e_type (g_fs st ! i) = ARM_FS_TEXT"
    by (auto simp: fs_find_def)
  have "e \<in> set (g_fs st)" "e_path e = path" using fs_find_mem [OF e(1)] by auto
  then have "path \<noteq> []" "hd path = CHR ''/''" using fs_ok_entry [OF assms(2)] by (auto simp: entry_ok_def)
  then show ?thesis using i assms(3) by (simp add: fs_write_def ARM_FS_TEXT_def ARM_FS_DIR_def)
qed

text \<open>Any file, text or not, is overwritten when the new content fits.\<close>

lemma fs_write_file:
  assumes ok: "fs_ok (g_fs st)" and nd: "not_dir st path" and f: "fs_read st path \<noteq> None" and "length data \<le> FS_MAX_FILE_SIZE"
  shows "snd (fs_write st path data ARM_FS_TEXT)"
proof -
  obtain e where e: "fs_find st path = Some e" using f by (auto simp: fs_read_def)
  then obtain i where i: "find_index path (g_fs st) = Some i" "g_fs st ! i = e" by (auto simp: fs_find_def)
  have "e_path e = path" "entry_ok e" using fs_find_mem [OF e] fs_ok_entry [OF ok] by auto
  then have "path \<noteq> []" "hd path = CHR ''/''" by (auto simp: entry_ok_def)
  moreover have "e_type e \<noteq> ARM_FS_DIR" using nd e by (simp add: not_dir_def fs_read_def)
  ultimately show ?thesis using i assms(4) by (simp add: fs_write_def ARM_FS_TEXT_def ARM_FS_DIR_def)
qed

lemma fs_write_if_changed_file:
  assumes "fs_ok (g_fs st)" and "not_dir st path" and "fs_read st path \<noteq> None" and "length data \<le> FS_MAX_FILE_SIZE"
  shows "snd (fs_write_if_changed st path data ARM_FS_TEXT)"
  using fs_write_file [OF assms] by (auto simp: fs_write_if_changed_def split: option.split)

end
