(* ===== verification/Desktop.thy ===== *)
theory Desktop
  imports Settings
begin

text \<open>
  The desktop's preferences and the wireless profiles of \<open>src/arm64/kernel/main.c\<close>: the state
  \<open>g_desktop\<close>, the tables \<open>g_wifi_profiles\<close> and \<open>g_bluetooth_devices\<close>, their setters and
  queries, and the two text files they are kept in.
\<close>

unbundle bit_operations_syntax

section \<open>The desktop\<close>

datatype network_preference = NETWORK_PREF_AUTO | NETWORK_PREF_ETHERNET | NETWORK_PREF_WIFI | NETWORK_PREF_HOTSPOT

fun pref_code :: "network_preference \<Rightarrow> u32" where
  "pref_code NETWORK_PREF_AUTO = 0"
| "pref_code NETWORK_PREF_ETHERNET = 1"
| "pref_code NETWORK_PREF_WIFI = 2"
| "pref_code NETWORK_PREF_HOTSPOT = 3"

record desktop_state =
  dt_theme :: u32
  dt_welcome_seen :: bool
  dt_autosave :: bool
  dt_pointer_trail :: bool
  dt_wifi_enabled :: bool
  dt_bluetooth_enabled :: bool
  dt_network_autoconnect :: bool
  dt_launch_count :: u32
  dt_pointer_speed :: u32
  dt_network_preference :: u32
  dt_last_app :: string
  dt_hostname :: string
  dt_wifi_ssid :: string
  dt_hotspot_name :: string
  dt_status_line :: string

definition theme_names :: "string list" where
  "theme_names = [''OCEAN'', ''SUNRISE'', ''SLATE'', ''EMERALD'']"

definition desktop_set_status :: "string \<Rightarrow> desktop_state \<Rightarrow> desktop_state" where
  "desktop_set_status s d = d\<lparr>dt_status_line := strcopy_limit (dt_status_line d) s 128\<rparr>"

definition desktop_note_launch :: "string \<Rightarrow> string \<Rightarrow> desktop_state \<Rightarrow> desktop_state" where
  "desktop_note_launch app_name status d =
     (let d = d\<lparr>dt_last_app := strcopy_limit (dt_last_app d) app_name 32\<rparr>
      in if status \<noteq> [] then desktop_set_status status d else d)"

text \<open>The comparison loop: both strings end together, equal up to the case of their letters.\<close>

fun same_text :: "string \<Rightarrow> string \<Rightarrow> bool" where
  "same_text [] [] = True"
| "same_text (a # as) (b # bs) = (ascii_lower a = ascii_lower b \<and> same_text as bs)"
| "same_text as bs = False"

fun theme_index :: "string list \<Rightarrow> int \<Rightarrow> string \<Rightarrow> int" where
  "theme_index [] i value = -1"
| "theme_index (name # names) i value = (if same_text name value then i else theme_index names (i + 1) value)"

definition desktop_find_theme :: "string \<Rightarrow> int option" where
  "desktop_find_theme value =
     (if value = [] then Some (-1)
      else if isdigit (hd value)
      then map_option (\<lambda>index. if index \<ge> 0 \<and> index < int (length theme_names) then index else -1) (atoi value)
      else Some (theme_index theme_names 0 value))"

definition desktop_theme_name :: "desktop_state \<Rightarrow> string" where
  "desktop_theme_name d =
     (if dt_theme d \<ge> of_nat (length theme_names) then theme_names ! 0 else theme_names ! unat (dt_theme d))"

definition desktop_pointer_speed_name_for :: "u32 \<Rightarrow> string" where
  "desktop_pointer_speed_name_for speed =
     (if speed = 1 then ''SLOW'' else if speed = 2 then ''BALANCED'' else if speed = 3 then ''FAST''
      else if speed = 4 then ''FLUID'' else if speed = 5 then ''PRECISE'' else ''BALANCED'')"

definition desktop_network_mode_name :: "desktop_state \<Rightarrow> string" where
  "desktop_network_mode_name d =
     (if dt_network_preference d = pref_code NETWORK_PREF_ETHERNET then ''ETHERNET''
      else if dt_network_preference d = pref_code NETWORK_PREF_WIFI then ''WIFI''
      else if dt_network_preference d = pref_code NETWORK_PREF_HOTSPOT then ''HOTSPOT'' else ''AUTO'')"

definition desktop_cycle_network_mode :: "desktop_state \<Rightarrow> desktop_state" where
  "desktop_cycle_network_mode d = d\<lparr>dt_network_preference := (dt_network_preference d + 1) mod 4\<rparr>"

definition default_desktop :: desktop_state where
  "default_desktop = \<lparr>dt_theme = 0, dt_welcome_seen = False, dt_autosave = True, dt_pointer_trail = True,
     dt_wifi_enabled = True, dt_bluetooth_enabled = True, dt_network_autoconnect = True, dt_launch_count = 0,
     dt_pointer_speed = 2, dt_network_preference = pref_code NETWORK_PREF_AUTO, dt_last_app = ''WELCOME'',
     dt_hostname = ''SNSX'', dt_wifi_ssid = ''SNSX-LAB'', dt_hotspot_name = ''SNSX-HOTSPOT'',
     dt_status_line = ''SNSX desktop ready.''\<rparr>"

text \<open>Every field is set, so the old state does not matter.\<close>

definition desktop_set_default_preferences :: "desktop_state \<Rightarrow> desktop_state" where
  "desktop_set_default_preferences d = default_desktop"

text \<open>The lines of the file.\<close>

definition desktop_lines :: "desktop_state \<Rightarrow> string list" where
  "desktop_lines d =
     [''THEME='' @ u32_to_dec (dt_theme d),
      ''WELCOME='' @ flag (dt_welcome_seen d),
      ''AUTOSAVE='' @ flag (dt_autosave d),
      ''POINTERTRAIL='' @ flag (dt_pointer_trail d),
      ''WIFIEN='' @ flag (dt_wifi_enabled d),
      ''BTEN='' @ flag (dt_bluetooth_enabled d),
      ''NETAUTOCONNECT='' @ flag (dt_network_autoconnect d),
      ''LAUNCHES='' @ u32_to_dec (dt_launch_count d),
      ''POINTERSPEED='' @ u32_to_dec (dt_pointer_speed d),
      ''NETMODE='' @ u32_to_dec (dt_network_preference d),
      ''LASTAPP='' @ dt_last_app d,
      ''HOSTNAME='' @ dt_hostname d,
      ''WIFISSID='' @ dt_wifi_ssid d,
      ''HOTSPOT='' @ dt_hotspot_name d]"

text \<open>The body of the loading loop; \<open>None\<close> when \<open>atoi\<close> overflows.\<close>

definition with_int :: "string \<Rightarrow> (int \<Rightarrow> 's) \<Rightarrow> 's option" where
  "with_int s f = map_option f (atoi s)"

definition desktop_apply :: "nat \<Rightarrow> string \<Rightarrow> desktop_state \<Rightarrow> desktop_state option" where
  "desktop_apply i line d =
     (if starts ''THEME='' line
      then with_int (drop 6 line) (\<lambda>index. if index \<ge> 0 \<and> index < int (length theme_names) then d\<lparr>dt_theme := word_of_int index\<rparr> else d)
      else if starts ''WELCOME='' line then with_int (drop 8 line) (\<lambda>v. d\<lparr>dt_welcome_seen := v \<noteq> 0\<rparr>)
      else if starts ''AUTOSAVE='' line then with_int (drop 9 line) (\<lambda>v. d\<lparr>dt_autosave := v \<noteq> 0\<rparr>)
      else if starts ''POINTERTRAIL='' line then with_int (drop 13 line) (\<lambda>v. d\<lparr>dt_pointer_trail := v \<noteq> 0\<rparr>)
      else if starts ''WIFIEN='' line then with_int (drop 7 line) (\<lambda>v. d\<lparr>dt_wifi_enabled := v \<noteq> 0\<rparr>)
      else if starts ''BTEN='' line then with_int (drop 5 line) (\<lambda>v. d\<lparr>dt_bluetooth_enabled := v \<noteq> 0\<rparr>)
      else if starts ''NETAUTOCONNECT='' line then with_int (drop 15 line) (\<lambda>v. d\<lparr>dt_network_autoconnect := v \<noteq> 0\<rparr>)
      else if starts ''LAUNCHES='' line then with_int (drop 9 line) (\<lambda>v. d\<lparr>dt_launch_count := word_of_int v\<rparr>)
      else if starts ''POINTERSPEED='' line
      then with_int (drop 13 line) (\<lambda>speed. if speed \<ge> 1 \<and> speed \<le> 5 then d\<lparr>dt_pointer_speed := word_of_int speed\<rparr> else d)
      else if starts ''NETMODE='' line
      then with_int (drop 8 line) (\<lambda>mode. if mode \<ge> 0 \<and> mode \<le> 3 then d\<lparr>dt_network_preference := word_of_int mode\<rparr> else d)
      else if starts ''LASTAPP='' line then Some (d\<lparr>dt_last_app := strcopy_limit (dt_last_app d) (drop 8 line) 32\<rparr>)
      else if starts ''HOSTNAME='' line then Some (d\<lparr>dt_hostname := strcopy_limit (dt_hostname d) (drop 9 line) 32\<rparr>)
      else if starts ''WIFISSID='' line then Some (d\<lparr>dt_wifi_ssid := strcopy_limit (dt_wifi_ssid d) (drop 9 line) 32\<rparr>)
      else if starts ''HOTSPOT='' line then Some (d\<lparr>dt_hotspot_name := strcopy_limit (dt_hotspot_name d) (drop 8 line) 32\<rparr>)
      else Some d)"

section \<open>Wireless profiles\<close>

definition WIFI_PROFILE_MAX :: nat where "WIFI_PROFILE_MAX = 8"
definition BLUETOOTH_DEVICE_MAX :: nat where "BLUETOOTH_DEVICE_MAX = 8"

record wifi_profile =
  wf_used :: bool
  wf_auto_connect :: bool
  wf_remembered :: bool
  wf_connected :: bool
  wf_ssid :: string
  wf_password :: string

record bluetooth_device =
  bt_used :: bool
  bt_paired :: bool
  bt_connected :: bool
  bt_name :: string
  bt_kind :: string

definition no_wifi :: wifi_profile where
  "no_wifi = \<lparr>wf_used = False, wf_auto_connect = False, wf_remembered = False, wf_connected = False, wf_ssid = [], wf_password = []\<rparr>"

definition no_bluetooth :: bluetooth_device where
  "no_bluetooth = \<lparr>bt_used = False, bt_paired = False, bt_connected = False, bt_name = [], bt_kind = []\<rparr>"

text \<open>The slots in use, at most \<open>capacity\<close> of them.\<close>

definition wifi_collect_slots :: "wifi_profile list \<Rightarrow> nat \<Rightarrow> nat list" where
  "wifi_collect_slots ps capacity = take capacity (filter (\<lambda>i. wf_used (ps ! i)) [0 ..< length ps])"

definition bluetooth_collect_slots :: "bluetooth_device list \<Rightarrow> nat \<Rightarrow> nat list" where
  "bluetooth_collect_slots ds capacity = take capacity (filter (\<lambda>i. bt_used (ds ! i)) [0 ..< length ds])"

definition wifi_line :: "wifi_profile \<Rightarrow> string" where
  "wifi_line p = wf_ssid p @ ''|'' @ wf_password p @ ''|'' @ flag (wf_auto_connect p) @ ''|'' @ flag (wf_remembered p)"

definition wifi_lines :: "wifi_profile list \<Rightarrow> string list" where
  "wifi_lines ps = map wifi_line (filter wf_used ps)"

definition bluetooth_line :: "bluetooth_device \<Rightarrow> string" where
  "bluetooth_line d = bt_name d @ ''|'' @ bt_kind d @ ''|'' @ flag (bt_paired d)"

definition bluetooth_lines :: "bluetooth_device list \<Rightarrow> string list" where
  "bluetooth_lines ds = map bluetooth_line (filter bt_used ds)"

text \<open>One turn of each loading loop; the guard is the loop's bound on the index.\<close>

definition wifi_apply :: "nat \<Rightarrow> string \<Rightarrow> wifi_profile list \<Rightarrow> wifi_profile list option" where
  "wifi_apply index line ps =
     (if index \<ge> WIFI_PROFILE_MAX then Some ps
      else case cut_at (CHR ''|'') line of None \<Rightarrow> Some ps
      | Some (ssid, r1) \<Rightarrow>
        (case cut_at (CHR ''|'') r1 of None \<Rightarrow> Some ps
         | Some (password, r2) \<Rightarrow>
           (case cut_at (CHR ''|'') r2 of None \<Rightarrow> Some ps
            | Some (auto_connect, remembered) \<Rightarrow>
              (case (atoi auto_connect, atoi remembered) of
                 (Some a, Some r) \<Rightarrow> Some (ps[index := (ps ! index)\<lparr>wf_used := ssid \<noteq> [],
                   wf_ssid := strcopy_limit '''' ssid 32, wf_password := strcopy_limit '''' password 64,
                   wf_auto_connect := a \<noteq> 0, wf_remembered := r \<noteq> 0\<rparr>])
               | _ \<Rightarrow> None))))"

definition bluetooth_apply :: "nat \<Rightarrow> string \<Rightarrow> bluetooth_device list \<Rightarrow> bluetooth_device list option" where
  "bluetooth_apply index line ds =
     (if index \<ge> BLUETOOTH_DEVICE_MAX then Some ds
      else case cut_at (CHR ''|'') line of None \<Rightarrow> Some ds
      | Some (name, r1) \<Rightarrow>
        (case cut_at (CHR ''|'') r1 of None \<Rightarrow> Some ds
         | Some (kind, paired) \<Rightarrow>
           (case atoi paired of None \<Rightarrow> None
            | Some p \<Rightarrow> Some (ds[index := (ds ! index)\<lparr>bt_used := name \<noteq> [], bt_name := strcopy_limit '''' name 32,
                bt_kind := strcopy_limit '''' kind 24, bt_paired := p \<noteq> 0\<rparr>]))))"

section \<open>The kernel that keeps them\<close>

record 'w desktop_kernel = "'w disk_kernel" +
  g_desktop :: desktop_state
  g_wifi_profiles :: "wifi_profile list"
  g_bluetooth_devices :: "bluetooth_device list"

definition desktop_save_config :: "('w, 'a) desktop_kernel_scheme \<Rightarrow> ('w, 'a) desktop_kernel_scheme option" where
  "desktop_save_config st =
     map_option (\<lambda>t. fst (fs_write st ''/home/.SNSX_DESKTOP.TXT'' t ARM_FS_TEXT)) (save_text (desktop_lines (g_desktop st)) 640)"

definition desktop_load_config :: "('w, 'a) desktop_kernel_scheme \<Rightarrow> ('w, 'a) desktop_kernel_scheme option" where
  "desktop_load_config st =
     (let d = desktop_set_default_preferences (g_desktop st)
      in case (case load_text st ''/home/.SNSX_DESKTOP.TXT'' 768 of
                 None \<Rightarrow> Some d | Some t \<Rightarrow> run_lines desktop_apply 0 (text_lines t) d) of
           None \<Rightarrow> None
         | Some d \<Rightarrow> desktop_save_config (st\<lparr>g_desktop := d\<lparr>dt_launch_count := dt_launch_count d + 1\<rparr>\<rparr>))"

definition wireless_profiles_save :: "('w, 'a) desktop_kernel_scheme \<Rightarrow> ('w, 'a) desktop_kernel_scheme option" where
  "wireless_profiles_save st =
     (case (save_text (wifi_lines (g_wifi_profiles st)) 1024, save_text (bluetooth_lines (g_bluetooth_devices st)) 1024) of
        (Some wifi, Some bt) \<Rightarrow>
          let st = fst (fs_write st ''/home/.SNSX_WIFI.TXT'' wifi ARM_FS_TEXT)
          in Some (fst (fs_write st ''/home/.SNSX_BT.TXT'' bt ARM_FS_TEXT))
      | _ \<Rightarrow> None)"

definition load_lines :: "'a kernel_scheme \<Rightarrow> string \<Rightarrow> nat \<Rightarrow> (nat \<Rightarrow> string \<Rightarrow> 's \<Rightarrow> 's option) \<Rightarrow> 's \<Rightarrow> 's option" where
  "load_lines st path limit f s =
     (case load_text st path limit of None \<Rightarrow> Some s | Some t \<Rightarrow> run_lines f 0 (text_lines t) s)"

definition wireless_profiles_load :: "('w, 'a) desktop_kernel_scheme \<Rightarrow> ('w, 'a) desktop_kernel_scheme option" where
  "wireless_profiles_load st =
     (case (load_lines st ''/home/.SNSX_WIFI.TXT'' 1024 wifi_apply (replicate WIFI_PROFILE_MAX no_wifi),
            load_lines st ''/home/.SNSX_BT.TXT'' 1024 bluetooth_apply (replicate BLUETOOTH_DEVICE_MAX no_bluetooth)) of
        (Some ws, Some bs) \<Rightarrow> Some (st\<lparr>g_wifi_profiles := ws, g_bluetooth_devices := bs\<rparr>)
      | _ \<Rightarrow> None)"

definition desktop_commit_preferences :: "('w, 'a) desktop_kernel_scheme \<Rightarrow> ('w, 'a) desktop_kernel_scheme option" where
  "desktop_commit_preferences st = Option.bind (desktop_save_config st) wireless_profiles_save"

section \<open>Addresses of the device\<close>

definition network_compose_snsx_address :: "string \<Rightarrow> nat \<Rightarrow> string option" where
  "network_compose_snsx_address hostname n =
     (let out = strcopy_limit '''' ''snsx://device/'' n @ hostname in if length out + 1 > n then None else Some out)"

definition network_compose_session_address :: "string \<Rightarrow> bool \<Rightarrow> string \<Rightarrow> nat \<Rightarrow> string option" where
  "network_compose_session_address hostname configured ipv4 n =
     (let out = strcopy_limit '''' ''snsxnet://'' n @ hostname @ ''@'' @ (if configured then ipv4 else ''offline'')
      in if length out + 1 > n then None else Some out)"

definition network_compose_link_address :: "string \<Rightarrow> string \<Rightarrow> nat \<Rightarrow> string option" where
  "network_compose_link_address hostname mac n =
     (let suffix = strcopy_limit '''' (if length mac \<ge> 5 then drop (length mac - 5) mac else ''guest'') 16;
          out = strcopy_limit '''' ''snsx-id://'' n @ hostname @ ''-'' @ map (\<lambda>c. if c = CHR '':'' then CHR ''-'' else c) suffix
      in if length out + 1 > n then None else Some out)"

section \<open>Facts about the desktop's file\<close>

definition name_ok :: "nat \<Rightarrow> string \<Rightarrow> bool" where
  "name_ok n s \<longleftrightarrow> length s < n \<and> line_ok s"

definition desktop_ok :: "desktop_state \<Rightarrow> bool" where
  "desktop_ok d \<longleftrightarrow> unat (dt_theme d) < 4 \<and> unat (dt_launch_count d) < 2 ^ 31 \<and>
     1 \<le> unat (dt_pointer_speed d) \<and> unat (dt_pointer_speed d) \<le> 5 \<and> unat (dt_network_preference d) < 4 \<and>
     name_ok 32 (dt_last_app d) \<and> name_ok 32 (dt_hostname d) \<and> name_ok 32 (dt_wifi_ssid d) \<and> name_ok 32 (dt_hotspot_name d)"

text \<open>The status line is not kept.\<close>

definition desktop_kept :: "desktop_state \<Rightarrow> desktop_state" where
  "desktop_kept d = d\<lparr>dt_status_line := dt_status_line default_desktop\<rparr>"

lemma starts_Cons [simp]: "starts (c # p) (d # s) \<longleftrightarrow> c = d \<and> starts p s" "starts [] s" "\<not> starts (c # p) []"
  by (auto simp: starts_def)

lemma desktop_apply_simps:
  "desktop_apply i (''THEME='' @ s) d = with_int s (\<lambda>index. if index \<ge> 0 \<and> index < 4 then d\<lparr>dt_theme := word_of_int index\<rparr> else d)"
  "desktop_apply i (''WELCOME='' @ s) d = with_int s (\<lambda>v. d\<lparr>dt_welcome_seen := v \<noteq> 0\<rparr>)"
  "desktop_apply i (''AUTOSAVE='' @ s) d = with_int s (\<lambda>v. d\<lparr>dt_autosave := v \<noteq> 0\<rparr>)"
  "desktop_apply i (''POINTERTRAIL='' @ s) d = with_int s (\<lambda>v. d\<lparr>dt_pointer_trail := v \<noteq> 0\<rparr>)"
  "desktop_apply i (''WIFIEN='' @ s) d = with_int s (\<lambda>v. d\<lparr>dt_wifi_enabled := v \<noteq> 0\<rparr>)"
  "desktop_apply i (''BTEN='' @ s) d = with_int s (\<lambda>v. d\<lparr>dt_bluetooth_enabled := v \<noteq> 0\<rparr>)"
  "desktop_apply i (''NETAUTOCONNECT='' @ s) d = with_int s (\<lambda>v. d\<lparr>dt_network_autoconnect := v \<noteq> 0\<rparr>)"
  "desktop_apply i (''LAUNCHES='' @ s) d = with_int s (\<lambda>v. d\<lparr>dt_launch_count := word_of_int v\<rparr>)"
  "desktop_apply i (''POINTERSPEED='' @ s) d = with_int s (\<lambda>v. if v \<ge> 1 \<and> v \<le> 5 then d\<lparr>dt_pointer_speed := word_of_int v\<rparr> else d)"
  "desktop_apply i (''NETMODE='' @ s) d = with_int s (\<lambda>v. if v \<ge> 0 \<and> v \<le> 3 then d\<lparr>dt_network_preference := word_of_int v\<rparr> else d)"
  "desktop_apply i (''LASTAPP='' @ s) d = Some (d\<lparr>dt_last_app := strcopy_limit (dt_last_app d) s 32\<rparr>)"
  "desktop_apply i (''HOSTNAME='' @ s) d = Some (d\<lparr>dt_hostname := strcopy_limit (dt_hostname d) s 32\<rparr>)"
  "desktop_apply i (''WIFISSID='' @ s) d = Some (d\<lparr>dt_wifi_ssid := strcopy_limit (dt_wifi_ssid d) s 32\<rparr>)"
  "desktop_apply i (''HOTSPOT='' @ s) d = Some (d\<lparr>dt_hotspot_name := strcopy_limit (dt_hotspot_name d) s 32\<rparr>)"
  by (simp_all add: desktop_apply_def theme_names_def)

lemma with_int_u32: "unat v < 2 ^ 31 \<Longrightarrow> with_int (u32_to_dec v) f = Some (f (int (unat v)))"
  by (simp add: with_int_def atoi_u32_to_dec)

lemma with_int_flag: "with_int (flag b) f = Some (f (if b then 1 else 0))"
  by (simp add: with_int_def)

lemma name_ok_copy: "name_ok n s \<Longrightarrow> strcopy_limit old s n = s"
  by (simp add: name_ok_def strcopy_limit_fits)

lemma desktop_reread:
  assumes ok: "desktop_ok d"
  shows "run_lines desktop_apply 0 (desktop_lines d) default_desktop = Some (desktop_kept d)"
proof -
  have small: "unat v < 4 \<Longrightarrow> unat v < 2 ^ 31" "unat v \<le> 5 \<Longrightarrow> unat v < 2 ^ 31" for v :: u32 by simp_all
  have ints: "unat (dt_theme d) < 4" "unat (dt_launch_count d) < 2 ^ 31" "1 \<le> unat (dt_pointer_speed d)"
    "unat (dt_pointer_speed d) \<le> 5" "unat (dt_network_preference d) < 4"
    and names: "name_ok 32 (dt_last_app d)" "name_ok 32 (dt_hostname d)" "name_ok 32 (dt_wifi_ssid d)" "name_ok 32 (dt_hotspot_name d)"
    using ok unfolding desktop_ok_def by blast+
  have bounds: "int (unat (dt_theme d)) < 4" "1 \<le> int (unat (dt_pointer_speed d))"
    "int (unat (dt_pointer_speed d)) \<le> 5" "int (unat (dt_network_preference d)) \<le> 3"
    using ints by linarith+
  have word: "word_of_int (int (unat v)) = v" for v :: u32 by simp
  note steps = desktop_apply_simps with_int_flag names [THEN name_ok_copy]
    with_int_u32 [OF small(1) [OF ints(1)]] with_int_u32 [OF ints(2)]
    with_int_u32 [OF small(2) [OF ints(4)]] with_int_u32 [OF small(1) [OF ints(5)]]
  show ?thesis
    unfolding desktop_lines_def
    by (simp only: run_lines.simps steps option.case bounds word if_True simp_thms of_nat_0_le_iff)
       (simp add: desktop_kept_def default_desktop_def)
qed

lemma desktop_lines_ok: "desktop_ok d \<Longrightarrow> list_all line_ok (desktop_lines d)"
  by (simp add: desktop_lines_def desktop_ok_def name_ok_def)

interpretation desktop_file: line_store desktop_ok desktop_lines desktop_apply default_desktop desktop_kept
  by unfold_locales (simp_all add: desktop_lines_ok desktop_reread)

lemma length_flag [simp]: "length (flag b) = 1"
  by (simp add: flag_def)

lemma desktop_text_fits: "desktop_ok d \<Longrightarrow> \<exists>t. save_text (desktop_lines d) 640 = Some t"
  using u32_to_dec_length [of "dt_theme d"] u32_to_dec_length [of "dt_launch_count d"]
    u32_to_dec_length [of "dt_pointer_speed d"] u32_to_dec_length [of "dt_network_preference d"]
  by (simp add: save_text_def length_unlines desktop_lines_def desktop_ok_def name_ok_def)

section \<open>Facts about the profile files\<close>

definition wifi_ok :: "wifi_profile \<Rightarrow> bool" where
  "wifi_ok p \<longleftrightarrow> (wf_used p \<longrightarrow> wf_ssid p \<noteq> [] \<and> name_ok 32 (wf_ssid p) \<and> name_ok 64 (wf_password p) \<and>
     CHR ''|'' \<notin> set (wf_ssid p) \<and> CHR ''|'' \<notin> set (wf_password p))"

definition wifi_table_ok :: "wifi_profile list \<Rightarrow> bool" where
  "wifi_table_ok ps \<longleftrightarrow> length ps = WIFI_PROFILE_MAX \<and> list_all wifi_ok ps"

text \<open>The profiles in use move to the front, without their connections.\<close>

definition packed :: "('p \<Rightarrow> bool) \<Rightarrow> ('p \<Rightarrow> 'p) \<Rightarrow> 'p \<Rightarrow> 'p list \<Rightarrow> 'p list" where
  "packed used clean blank ps =
     (let us = map clean (filter used ps) in us @ replicate (length ps - length us) blank)"

definition wifi_kept :: "wifi_profile list \<Rightarrow> wifi_profile list" where
  "wifi_kept = packed wf_used (\<lambda>p. p\<lparr>wf_connected := False\<rparr>) no_wifi"

definition bluetooth_kept :: "bluetooth_device list \<Rightarrow> bluetooth_device list" where
  "bluetooth_kept = packed bt_used (\<lambda>d. d\<lparr>bt_connected := False\<rparr>) no_bluetooth"

text \<open>Lines that fill a table of blanks from the front.\<close>

lemma run_lines_fill:
  assumes "\<And>p done k. p \<in> set ps \<Longrightarrow> length done + Suc k \<le> n \<Longrightarrow>
      f (length done) (line p) (done @ replicate (Suc k) blank) = Some (done @ clean p # replicate k blank)"
    and "length done + length ps + k \<le> n"
  shows "run_lines f (length done) (map line ps) (done @ replicate (length ps + k) blank) =
    Some (done @ map clean ps @ replicate k blank)"
  using assms
proof (induction ps arbitrary: "done")
  case (Cons p ps)
  have "f (length done) (line p) (done @ replicate (Suc (length ps + k)) blank) = Some (done @ clean p # replicate (length ps + k) blank)"
    using Cons.prems by (intro Cons.prems(1)) simp_all
  moreover have "run_lines f (length (done @ [clean p])) (map line ps) ((done @ [clean p]) @ replicate (length ps + k) blank) =
      Some ((done @ [clean p]) @ map clean ps @ replicate k blank)"
    using Cons.prems by (intro Cons.IH) simp_all
  ultimately show ?case by simp
qed simp

lemma packed_reread:
  assumes "\<And>p done k. p \<in> set (filter used ps) \<Longrightarrow> length done + Suc k \<le> length ps \<Longrightarrow>
      f (length done) (line p) (done @ replicate (Suc k) blank) = Some (done @ clean p # replicate k blank)"
  shows "run_lines f 0 (map line (filter used ps)) (replicate (length ps) blank) = Some (packed used clean blank ps)"
proof -
  have "length (filter used ps) \<le> length ps" by (rule length_filter_le)
  then have "replicate (length ps) blank = replicate (length (filter used ps) + (length ps - length (filter used ps))) blank" by simp
  then show ?thesis
    using run_lines_fill [of "filter used ps" "length ps" f line blank clean "[]" "length ps - length (filter used ps)"] assms
    by (simp add: packed_def)
qed

lemma flag_no_bar [simp]: "CHR ''|'' \<notin> set (flag b)"
  by (simp add: flag_def)

lemma wifi_apply_line:
  assumes "wifi_ok p" "wf_used p" "length done < WIFI_PROFILE_MAX"
  shows "wifi_apply (length done) (wifi_line p) (done @ no_wifi # rest) = Some (done @ p\<lparr>wf_connected := False\<rparr> # rest)"
  using assms
  by (simp add: wifi_apply_def wifi_line_def wifi_ok_def name_ok_copy no_wifi_def nth_append)

definition bluetooth_ok :: "bluetooth_device \<Rightarrow> bool" where
  "bluetooth_ok d \<longleftrightarrow> (bt_used d \<longrightarrow> bt_name d \<noteq> [] \<and> name_ok 32 (bt_name d) \<and> name_ok 24 (bt_kind d) \<and>
     CHR ''|'' \<notin> set (bt_name d) \<and> CHR ''|'' \<notin> set (bt_kind d))"

definition bluetooth_table_ok :: "bluetooth_device list \<Rightarrow> bool" where
  "bluetooth_table_ok ds \<longleftrightarrow> length ds = BLUETOOTH_DEVICE_MAX \<and> list_all bluetooth_ok ds"

lemma bluetooth_apply_line:
  assumes "bluetooth_ok d" "bt_used d" "length done < BLUETOOTH_DEVICE_MAX"
  shows "bluetooth_apply (length done) (bluetooth_line d) (done @ no_bluetooth # rest) = Some (done @ d\<lparr>bt_connected := False\<rparr> # rest)"
  using assms
  by (simp add: bluetooth_apply_def bluetooth_line_def bluetooth_ok_def name_ok_copy no_bluetooth_def nth_append)

interpretation wifi_file: line_store wifi_table_ok wifi_lines wifi_apply "replicate WIFI_PROFILE_MAX no_wifi" wifi_kept
proof (unfold_locales, goal_cases)
  case (1 ps)
  then show ?case by (auto simp: wifi_table_ok_def wifi_lines_def list_all_iff wifi_line_def wifi_ok_def name_ok_def)
next
  case (2 ps)
  have "run_lines wifi_apply 0 (map wifi_line (filter wf_used ps)) (replicate (length ps) no_wifi) = Some (wifi_kept ps)"
    unfolding wifi_kept_def
    using 2 by (intro packed_reread) (auto simp: wifi_table_ok_def list_all_iff intro: wifi_apply_line)
  then show ?case using 2 by (simp add: wifi_lines_def wifi_table_ok_def)
qed

interpretation bluetooth_file: line_store bluetooth_table_ok bluetooth_lines bluetooth_apply
    "replicate BLUETOOTH_DEVICE_MAX no_bluetooth" bluetooth_kept
proof (unfold_locales, goal_cases)
  case (1 ds)
  then show ?case
    by (auto simp: bluetooth_table_ok_def bluetooth_lines_def list_all_iff bluetooth_line_def bluetooth_ok_def name_ok_def)
next
  case (2 ds)
  have "run_lines bluetooth_apply 0 (map bluetooth_line (filter bt_used ds)) (replicate (length ds) no_bluetooth) = Some (bluetooth_kept ds)"
    unfolding bluetooth_kept_def
    using 2 by (intro packed_reread) (auto simp: bluetooth_table_ok_def list_all_iff intro: bluetooth_apply_line)
  then show ?case using 2 by (simp add: bluetooth_lines_def bluetooth_table_ok_def)
qed

section \<open>Facts about the kernel that keeps them\<close>

lemma fs_write_desktop [simp]:
  "g_desktop (fst (fs_write st path data type)) = g_desktop st"
  "g_wifi_profiles (fst (fs_write st path data type)) = g_wifi_profiles st"
  "g_bluetooth_devices (fst (fs_write st path data type)) = g_bluetooth_devices st"
  by (auto simp: fs_write_def fs_push_def store_at_def persist_mark_dirty_def split: option.splits)

lemma save_text_eq: "save_text ls n = Some t \<Longrightarrow> t = unlines ls \<and> length t < n"
  by (auto simp: save_text_def split: if_splits)

lemma desktop_text_fits':
  "desktop_ok d \<Longrightarrow> \<exists>t. save_text (desktop_lines (desktop_kept d\<lparr>dt_launch_count := n\<rparr>)) 640 = Some t"
  using u32_to_dec_length [of "dt_theme d"] u32_to_dec_length [of n]
    u32_to_dec_length [of "dt_pointer_speed d"] u32_to_dec_length [of "dt_network_preference d"]
  by (simp add: save_text_def length_unlines desktop_lines_def desktop_ok_def name_ok_def desktop_kept_def)

text \<open>A count of launches that no longer fits \<open>int\<close> cannot be read back.\<close>

lemma launch_count_overflow:
  assumes "2 ^ 31 \<le> unat v"
  shows "desktop_apply i (''LAUNCHES='' @ u32_to_dec v) d = None"
proof -
  have "atoi (u32_to_dec v) = None"
    using assms u32_to_dec_reads [of v] by simp
  then show ?thesis by (simp only: desktop_apply_simps with_int_def option.map)
qed

text \<open>The files fit their buffers.\<close>

lemma sum_bounded: "(\<And>x. x \<in> set xs \<Longrightarrow> f x \<le> (b::nat)) \<Longrightarrow> (\<Sum>x\<leftarrow>xs. f x) \<le> b * length xs"
  by (induction xs) (auto simp: add_mono)

lemma wifi_text_fits:
  assumes "wifi_table_ok ps"
  shows "\<exists>t. save_text (wifi_lines ps) 1024 = Some t"
proof -
  have "(\<Sum>l\<leftarrow>wifi_lines ps. length l + 1) \<le> 100 * length (wifi_lines ps)"
    using assms by (intro sum_bounded) (auto simp: wifi_table_ok_def list_all_iff wifi_lines_def wifi_line_def wifi_ok_def name_ok_def)
  moreover have "length (wifi_lines ps) \<le> 8"
    using assms length_filter_le [of wf_used ps] by (simp add: wifi_lines_def wifi_table_ok_def WIFI_PROFILE_MAX_def)
  ultimately have "length (unlines (wifi_lines ps)) \<le> 800" unfolding length_unlines by linarith
  then show ?thesis by (simp add: save_text_def)
qed

lemma bluetooth_text_fits:
  assumes "bluetooth_table_ok ds"
  shows "\<exists>t. save_text (bluetooth_lines ds) 1024 = Some t"
proof -
  have "(\<Sum>l\<leftarrow>bluetooth_lines ds. length l + 1) \<le> 58 * length (bluetooth_lines ds)"
    using assms by (intro sum_bounded)
      (auto simp: bluetooth_table_ok_def list_all_iff bluetooth_lines_def bluetooth_line_def bluetooth_ok_def name_ok_def)
  moreover have "length (bluetooth_lines ds) \<le> 8"
    using assms length_filter_le [of bt_used ds] by (simp add: bluetooth_lines_def bluetooth_table_ok_def BLUETOOTH_DEVICE_MAX_def)
  ultimately have "length (unlines (bluetooth_lines ds)) \<le> 464" unfolding length_unlines by linarith
  then show ?thesis by (simp add: save_text_def)
qed

section \<open>Properties\<close>

text \<open>C28: Preferences survive a restart: with names that fit their fields and no line feed in them,
  what the desktop saves over its settings file is what the next start loads, whatever state that
  start begins from; only the status line is reset, and the launch count goes up by one.\<close>

theorem desktop_settings_survive:
  assumes "desktop_ok (g_desktop st)" and "fs_ok (g_fs st)"
    and "fs_read st ''/home/.SNSX_DESKTOP.TXT'' = Some (old, ARM_FS_TEXT)"
  shows "\<exists>st1 st2. desktop_save_config st = Some st1 \<and> desktop_load_config (st1\<lparr>g_desktop := d\<rparr>) = Some st2 \<and>
    g_desktop st2 = desktop_kept (g_desktop st)\<lparr>dt_launch_count := dt_launch_count (g_desktop st) + 1\<rparr>"
proof -
  let ?path = "''/home/.SNSX_DESKTOP.TXT''"
  obtain t where t: "save_text (desktop_lines (g_desktop st)) 640 = Some t" using desktop_text_fits [OF assms(1)] by blast
  then have "length t \<le> FS_MAX_FILE_SIZE" by (auto simp: FS_MAX_FILE_SIZE_def dest: save_text_eq)
  then obtain st1 where w: "fs_write st ?path t ARM_FS_TEXT = (st1, True)"
    using fs_write_existing [OF assms(3,2)] by blast
  have d1: "g_desktop st1 = g_desktop st" using fs_write_desktop(1) [of st ?path t ARM_FS_TEXT] w by simp
  let ?st = "st1\<lparr>g_desktop := d\<rparr>"
  have same: "load_text ?st ?path 768 = load_text st1 ?path 768" by (simp add: load_text_def fs_find_def)
  obtain t' where l: "load_text ?st ?path 768 = Some t'"
    "run_lines desktop_apply 0 (text_lines t') default_desktop = Some (desktop_kept (g_desktop st))"
    using desktop_file.reload_written [OF assms(1) t _ assms(2) w, of 768] same by auto
  obtain u where u: "save_text (desktop_lines (desktop_kept (g_desktop st)\<lparr>dt_launch_count := dt_launch_count (g_desktop st) + 1\<rparr>)) 640 = Some u"
    using desktop_text_fits' [OF assms(1)] by blast
  have "desktop_load_config ?st \<noteq> None \<and> (\<forall>st2. desktop_load_config ?st = Some st2 \<longrightarrow>
      g_desktop st2 = desktop_kept (g_desktop st)\<lparr>dt_launch_count := dt_launch_count (g_desktop st) + 1\<rparr>)"
    using l u by (auto simp: desktop_load_config_def desktop_set_default_preferences_def desktop_save_config_def desktop_kept_def)
  moreover have "desktop_save_config st = Some st1" using t w by (simp add: desktop_save_config_def)
  ultimately show ?thesis by auto
qed

definition demo_desktop :: "unit desktop_kernel" where
  "demo_desktop = \<lparr>g_fs = [dir_entry ''/home'', file_entry ''/home/.SNSX_DESKTOP.TXT'' ''old'',
      file_entry ''/home/.SNSX_WIFI.TXT'' ''old'', file_entry ''/home/.SNSX_BT.TXT'' ''old''],
     g_persist = no_disk, g_disks = (), g_persist_volumes = [],
     g_desktop = default_desktop\<lparr>dt_theme := 3, dt_hostname := ''LAB'', dt_launch_count := 41\<rparr>,
     g_wifi_profiles = [no_wifi, \<lparr>wf_used = True, wf_auto_connect = True, wf_remembered = False, wf_connected = True,
       wf_ssid = ''home net'', wf_password = ''secret''\<rparr>] @ replicate 6 no_wifi,
     g_bluetooth_devices = replicate 8 no_bluetooth\<rparr>"

lemma demo_desktop_ok: "fs_ok (g_fs demo_desktop)" "desktop_ok (g_desktop demo_desktop)"
  "fs_read demo_desktop ''/home/.SNSX_DESKTOP.TXT'' = Some (''old'', ARM_FS_TEXT)"
  "fs_read demo_desktop ''/home/.SNSX_WIFI.TXT'' = Some (''old'', ARM_FS_TEXT)"
  "fs_read demo_desktop ''/home/.SNSX_BT.TXT'' = Some (''old'', ARM_FS_TEXT)"
proof -
  show "desktop_ok (g_desktop demo_desktop)"
    by (simp add: demo_desktop_def desktop_ok_def default_desktop_def name_ok_def)
  show "fs_ok (g_fs demo_desktop)" by code_simp
qed code_simp+

theorem desktop_settings_survive_witness:
  "\<exists>st1 st2. desktop_save_config demo_desktop = Some st1 \<and>
     desktop_load_config (st1\<lparr>g_desktop := default_desktop\<rparr>) = Some st2 \<and>
     dt_hostname (g_desktop st2) = ''LAB'' \<and> dt_launch_count (g_desktop st2) = 42"
  using desktop_settings_survive [OF demo_desktop_ok(2,1,3), of default_desktop]
  by (auto simp: demo_desktop_def desktop_kept_def)

text \<open>The saved Wi-Fi profiles and Bluetooth devices come back as they were, packed to the front of
  their tables and disconnected, when their names are free of the separator and the line feed.\<close>

theorem wireless_profiles_survive:
  assumes "wifi_table_ok (g_wifi_profiles st)" and "bluetooth_table_ok (g_bluetooth_devices st)" and "fs_ok (g_fs st)"
    and "fs_read st ''/home/.SNSX_WIFI.TXT'' = Some (old, ARM_FS_TEXT)"
    and "fs_read st ''/home/.SNSX_BT.TXT'' = Some (old', ARM_FS_TEXT)"
  shows "\<exists>st1 st2. wireless_profiles_save st = Some st1 \<and> wireless_profiles_load st1 = Some st2 \<and>
    g_wifi_profiles st2 = wifi_kept (g_wifi_profiles st) \<and> g_bluetooth_devices st2 = bluetooth_kept (g_bluetooth_devices st)"
proof -
  obtain t u where t: "save_text (wifi_lines (g_wifi_profiles st)) 1024 = Some t"
    and u: "save_text (bluetooth_lines (g_bluetooth_devices st)) 1024 = Some u"
    using wifi_text_fits [OF assms(1)] bluetooth_text_fits [OF assms(2)] by blast
  obtain sa where w: "fs_write st ''/home/.SNSX_WIFI.TXT'' t ARM_FS_TEXT = (sa, True)"
    using fs_write_existing [OF assms(4,3), of t] save_text_eq [OF t] by (auto simp: FS_MAX_FILE_SIZE_def)
  have a: "fs_ok (g_fs sa)" "fs_read sa ''/home/.SNSX_BT.TXT'' = Some (old', ARM_FS_TEXT)"
    using fs_write_ok [OF assms(3) w] fs_read_write [OF assms(3) w] assms(5) by auto
  obtain sb where b: "fs_write sa ''/home/.SNSX_BT.TXT'' u ARM_FS_TEXT = (sb, True)"
    using fs_write_existing [OF a(2,1), of u] save_text_eq [OF u] by (auto simp: FS_MAX_FILE_SIZE_def)
  have rd: "fs_read sb ''/home/.SNSX_WIFI.TXT'' = Some (t, ARM_FS_TEXT)" "fs_read sb ''/home/.SNSX_BT.TXT'' = Some (u, ARM_FS_TEXT)"
    using fs_read_write [OF a(1) b] fs_read_write [OF assms(3) w] by auto
  have "wireless_profiles_save st = Some sb" using t u w b by (simp add: wireless_profiles_save_def)
  moreover have "load_lines sb ''/home/.SNSX_WIFI.TXT'' 1024 wifi_apply (replicate WIFI_PROFILE_MAX no_wifi) = Some (wifi_kept (g_wifi_profiles st))"
    using wifi_file.reload [OF assms(1) t rd(1), of 1024] by (auto simp: load_lines_def)
  moreover have "load_lines sb ''/home/.SNSX_BT.TXT'' 1024 bluetooth_apply (replicate BLUETOOTH_DEVICE_MAX no_bluetooth) =
      Some (bluetooth_kept (g_bluetooth_devices st))"
    using bluetooth_file.reload [OF assms(2) u rd(2), of 1024] by (auto simp: load_lines_def)
  ultimately show ?thesis by (auto simp: wireless_profiles_load_def)
qed

theorem wireless_profiles_survive_witness:
  "\<exists>st1 st2. wireless_profiles_save demo_desktop = Some st1 \<and> wireless_profiles_load st1 = Some st2 \<and>
     map wf_ssid (g_wifi_profiles st2) = ''home net'' # replicate 7 ''''"
proof -
  have "wifi_table_ok (g_wifi_profiles demo_desktop)" "bluetooth_table_ok (g_bluetooth_devices demo_desktop)"
    by code_simp+
  from wireless_profiles_survive [OF this demo_desktop_ok(1,4,5)] show ?thesis
    by (auto simp: wifi_kept_def packed_def demo_desktop_def no_wifi_def)
qed

end
