(* ===== verification/Store.thy ===== *)
theory Store
  imports Desktop
begin

text \<open>
  The app store of \<open>src/arm64/kernel/main.c\<close>: the catalogue of packages, which of them are
  installed, the asset file each installed package has in the file system, and the text file
  the selection is kept in. \<open>store_load_state\<close> cuts its buffer in place and looks for the
  separator before it has cut the line; \<open>store_loop\<close> follows it character for character, and
  \<open>store_loop_lines\<close> shows when it is a loop over the lines.
\<close>

section \<open>The catalogue\<close>

record store_package_manifest =
  pk_id :: string
  pk_name :: string
  pk_category :: string
  pk_summary :: string
  pk_asset_path :: string
  pk_essential :: bool
  pk_installed_by_default :: bool

definition STORE_PACKAGE_MAX :: nat where "STORE_PACKAGE_MAX = 8"

definition store_catalog :: "store_package_manifest list" where
  "store_catalog =
   [\<lparr>pk_id = ''browser-suite'', pk_name = ''SNSX Browser Suite'', pk_category = ''APP'',
      pk_summary = ''Core browser app, SNSX protocol pages, bookmarks, and plain HTTP browsing shell.'',
      pk_asset_path = ''/apps/BROWSER-SUITE.TXT'', pk_essential = True, pk_installed_by_default = True\<rparr>,
    \<lparr>pk_id = ''snake-arcade'', pk_name = ''Snake Arcade'', pk_category = ''GAME'',
      pk_summary = ''Retro Snake arcade package with keyboard controls and score tracking.'',
      pk_asset_path = ''/games/SNAKE-ARCADE.TXT'', pk_essential = True, pk_installed_by_default = True\<rparr>,
    \<lparr>pk_id = ''intel-82540em'', pk_name = ''Intel 82540EM Driver'', pk_category = ''DRIVER'',
      pk_summary = ''Native VirtualBox Ethernet path for NAT or bridged wired networking on supported ARM64 targets.'',
      pk_asset_path = ''/drivers/INTEL-82540EM.TXT'', pk_essential = True, pk_installed_by_default = True\<rparr>,
    \<lparr>pk_id = ''baremetal-kit'', pk_name = ''Bare-Metal Install Kit'', pk_category = ''KIT'',
      pk_summary = ''Guides and files for running SNSX from a bootable USB stick or an internal UEFI disk.'',
      pk_asset_path = ''/kits/PRIMARY-OS.TXT'', pk_essential = False, pk_installed_by_default = False\<rparr>,
    \<lparr>pk_id = ''wifi-driver-lab'', pk_name = ''Wi-Fi Driver Lab'', pk_category = ''DRIVER'',
      pk_summary = ''Driver-pack framework for future real-hardware USB and PCIe Wi-Fi adapters.'',
      pk_asset_path = ''/drivers/WIFI-LAB.TXT'', pk_essential = False, pk_installed_by_default = False\<rparr>,
    \<lparr>pk_id = ''bluetooth-driver-lab'', pk_name = ''Bluetooth Driver Lab'', pk_category = ''DRIVER'',
      pk_summary = ''Pairing and discovery framework for future guest-visible Bluetooth controllers and dongles.'',
      pk_asset_path = ''/drivers/BLUETOOTH-LAB.TXT'', pk_essential = False, pk_installed_by_default = False\<rparr>,
    \<lparr>pk_id = ''printer-driver-kit'', pk_name = ''Printer Driver Kit'', pk_category = ''DRIVER'',
      pk_summary = ''SNSX spooler notes, printer-driver layout, and future device package hooks.'',
      pk_asset_path = ''/drivers/PRINTER-KIT.TXT'', pk_essential = False, pk_installed_by_default = False\<rparr>,
    \<lparr>pk_id = ''dev-starter'', pk_name = ''Developer Starter'', pk_category = ''APP'',
      pk_summary = ''SNSX app, driver, and protocol development starter notes for extending the OS.'',
      pk_asset_path = ''/apps/DEV-STARTER.TXT'', pk_essential = False, pk_installed_by_default = False\<rparr>]"

definition store_bodies :: "string list" where
  "store_bodies =
   [unlines [''SNSX Browser Suite'',
      ''=================='',
      ''This package represents the built-in SNSX Browser app.'',
      ''Routes: snsx://home, snsx://network, snsx://store, snsx://baremetal,'',
      ''snsxdiag://network, and plain http:// URLs over the current SNSX stack.''],
    unlines [''SNSX Snake Arcade'',
      ''================='',
      ''Run snake from the desktop or shell.'',
      ''Controls: Arrow keys or WASD, Space pause, R restart, ESC back.''],
    unlines [''SNSX Intel 82540EM Driver'',
      ''========================='',
      ''This is the native Ethernet driver path for the VirtualBox 82540EM NIC.'',
      ''It backs the DHCP, IPv4, DNS, and plain HTTP foundation when firmware'',
      ''network protocols are not exposed to SNSX.''],
    unlines [''SNSX Bare-Metal Install Kit'',
      ''==========================='',
      ''Use /docs/BAREMETAL.TXT for the full USB and internal-disk procedure.'',
      ''This kit prepares the file layout and guidance for making SNSX the'',
      ''primary UEFI OS on supported ARM64 hardware.''],
    unlines [''SNSX Wi-Fi Driver Lab'',
      ''====================='',
      ''This package seeds the development notes and layout for future real'',
      ''Wi-Fi drivers. Nearby SSID discovery still needs chipset-specific code.''],
    unlines [''SNSX Bluetooth Driver Lab'',
      ''========================='',
      ''This package seeds the development notes and layout for future real'',
      ''Bluetooth controller support, pairing, and nearby device discovery.''],
    unlines [''SNSX Printer Driver Kit'',
      ''======================='',
      ''This package outlines the SNSX spooler and driver hooks for USB and'',
      ''network printers on future hardware-backed builds.''],
    unlines [''SNSX Developer Starter'',
      ''======================'',
      ''This package seeds SNSX Code Studio, the host-backed dev bridge, and'',
      ''example workspaces for SNSX, Python, JavaScript, C, C++, HTML, and CSS.'']]"

definition store_asset_body :: "nat \<Rightarrow> string option" where
  "store_asset_body index = (if index < length store_bodies then Some (store_bodies ! index) else None)"

fun package_index :: "string \<Rightarrow> nat \<Rightarrow> store_package_manifest list \<Rightarrow> nat" where
  "package_index name i [] = STORE_PACKAGE_MAX"
| "package_index name i (p # ps) = (if pk_id p = name then i else package_index name (i + 1) ps)"

definition store_find_package_index :: "string \<Rightarrow> nat" where
  "store_find_package_index name = (if name = [] then STORE_PACKAGE_MAX else package_index name 0 store_catalog)"

definition store_status_label :: "bool list \<Rightarrow> nat \<Rightarrow> string" where
  "store_status_label installed index =
     (if index \<ge> length store_catalog then ''UNKNOWN''
      else if pk_essential (store_catalog ! index) then ''ESSENTIAL''
      else if installed ! index then ''INSTALLED'' else ''AVAILABLE'')"

section \<open>The state and its files\<close>

record 'w store_kernel = "'w desktop_kernel" +
  g_store_installed :: "bool list"

definition sync_file :: "nat \<Rightarrow> ('w, 'a) store_kernel_scheme \<Rightarrow> ('w, 'a) store_kernel_scheme" where
  "sync_file i st =
     (let path = pk_asset_path (store_catalog ! i)
      in case store_asset_body i of
           None \<Rightarrow> st
         | Some body \<Rightarrow>
             if g_store_installed st ! i then fst (fs_write_if_changed st path body ARM_FS_TEXT)
             else if fs_find st path \<noteq> None then fst (fs_remove st path) else st)"

definition store_directories :: "string list" where
  "store_directories = [''/apps'', ''/drivers'', ''/games'', ''/kits'']"

definition store_sync_files :: "('w, 'a) store_kernel_scheme \<Rightarrow> ('w, 'a) store_kernel_scheme" where
  "store_sync_files st =
     fold sync_file [0 ..< length store_catalog] (fold (\<lambda>d st. fst (fs_mkdir st d)) store_directories st)"

definition store_lines :: "bool list \<Rightarrow> string list" where
  "store_lines installed =
     map (\<lambda>i. pk_id (store_catalog ! i) @ ''|'' @ flag (installed ! i)) [0 ..< length store_catalog]"

definition store_save_state :: "('w, 'a) store_kernel_scheme \<Rightarrow> ('w, 'a) store_kernel_scheme option" where
  "store_save_state st =
     map_option (\<lambda>t. fst (fs_write_if_changed st ''/home/.SNSX_STORE.TXT'' t ARM_FS_TEXT))
       (save_text (store_lines (g_store_installed st)) 1024)"

section \<open>Loading\<close>

definition set_installed :: "string \<Rightarrow> string \<Rightarrow> bool list \<Rightarrow> bool list option" where
  "set_installed name value installed =
     (let index = store_find_package_index name
      in if index < length store_catalog \<and> \<not> pk_essential (store_catalog ! index)
         then map_option (\<lambda>v. installed[index := v \<noteq> 0]) (atoi value) else Some installed)"

lemma rest_shorter: "s \<noteq> [] \<Longrightarrow> length (tl (dropWhile (\<lambda>c. c \<noteq> LF) s)) < length s"
  using length_dropWhile_le [of "\<lambda>c. c \<noteq> LF" "tl s"] by (cases s) (auto split: if_splits)

text \<open>
  The loop on the rest \<open>s\<close> of the buffer. The separator is looked for in the whole rest: when the
  line has none, that of a later line is taken, its text is the value, and the octet of the
  separator becomes a terminator that ends the buffer there.
\<close>

function store_loop :: "string \<Rightarrow> bool list \<Rightarrow> bool list option" where
  "store_loop s installed =
     (if s = [] then Some installed
      else let line = takeWhile (\<lambda>c. c \<noteq> LF) s; rest = tl (dropWhile (\<lambda>c. c \<noteq> LF) s)
      in case cut_at (CHR ''|'') s of
        None \<Rightarrow> store_loop rest installed
      | Some (before, after) \<Rightarrow>
          if length before < length line
          then (case set_installed before (takeWhile (\<lambda>c. c \<noteq> LF) after) installed of
                  None \<Rightarrow> None | Some installed' \<Rightarrow> store_loop rest installed')
          else (case set_installed line after installed of
                  None \<Rightarrow> None
                | Some installed' \<Rightarrow> store_loop (takeWhile (\<lambda>c. c \<noteq> CHR ''|'') rest) installed'))"
  by auto
termination
proof (relation "measure (\<lambda>(s, installed). length s)", goal_cases)
  case (2 s installed line rest)
  then show ?case using rest_shorter [of s] by simp
next
  case (3 s installed line rest)
  then show ?case using rest_shorter [of s] by simp
next
  case (4 s installed line rest)
  have "length (takeWhile (\<lambda>c. c \<noteq> CHR ''|'') rest) \<le> length rest" by (rule length_takeWhile_le)
  then show ?case using rest_shorter [of s] 4 by simp
qed simp

declare store_loop.simps [simp del]

definition store_defaults :: "bool list" where
  "store_defaults = map pk_installed_by_default store_catalog"

definition with_essentials :: "bool list \<Rightarrow> bool list" where
  "with_essentials installed = map2 (\<lambda>p b. b \<or> pk_essential p) store_catalog installed"

definition store_load_state :: "('w, 'a) store_kernel_scheme \<Rightarrow> ('w, 'a) store_kernel_scheme option" where
  "store_load_state st =
     (let file = load_text st ''/home/.SNSX_STORE.TXT'' 1024
      in case (case file of None \<Rightarrow> Some store_defaults | Some t \<Rightarrow> store_loop t store_defaults) of
           None \<Rightarrow> None
         | Some installed \<Rightarrow>
             let st = store_sync_files (st\<lparr>g_store_installed := with_essentials installed\<rparr>)
             in if file = None then store_save_state st else Some st)"

section \<open>Operations\<close>

definition store_commit_state ::
    "('w, 'h) efi_fs \<Rightarrow> ('w, 'a) store_kernel_scheme \<Rightarrow> ('w, 'a) store_kernel_scheme option" where
  "store_commit_state fw st =
     (case store_save_state (store_sync_files st) of
        None \<Rightarrow> None
      | Some st \<Rightarrow>
          Some (if dt_autosave (g_desktop st) \<and> p_available (g_persist st)
                then persist_flush_state fw (set_persist (\<lambda>p. p\<lparr>p_dirty := True\<rparr>) st) else st))"

text \<open>The status text; \<open>None\<close> when the \<open>strcat\<close>s overrun it.\<close>

definition status_text :: "string \<Rightarrow> string \<Rightarrow> nat \<Rightarrow> string option" where
  "status_text verb name n =
     (let s = strcopy_limit '''' verb n @ name @ ''.'' in if length s + 1 > n then None else Some s)"

definition store_install_package_index ::
    "('w, 'h) efi_fs \<Rightarrow> nat \<Rightarrow> nat \<Rightarrow> ('w, 'a) store_kernel_scheme \<Rightarrow>
     (('w, 'a) store_kernel_scheme \<times> string \<times> bool) option" where
  "store_install_package_index fw index n st =
     (if index \<ge> length store_catalog then Some (st, strcopy_limit '''' ''Package not found.'' n, False)
      else if g_store_installed st ! index then Some (st, strcopy_limit '''' ''Package already installed.'' n, True)
      else case store_commit_state fw (st\<lparr>g_store_installed := (g_store_installed st)[index := True]\<rparr>) of
        None \<Rightarrow> None
      | Some st \<Rightarrow> map_option (\<lambda>s. (st, s, True)) (status_text ''Installed '' (pk_name (store_catalog ! index)) n))"

definition store_remove_package_index ::
    "('w, 'h) efi_fs \<Rightarrow> nat \<Rightarrow> nat \<Rightarrow> ('w, 'a) store_kernel_scheme \<Rightarrow>
     (('w, 'a) store_kernel_scheme \<times> string \<times> bool) option" where
  "store_remove_package_index fw index n st =
     (if index \<ge> length store_catalog then Some (st, strcopy_limit '''' ''Package not found.'' n, False)
      else if pk_essential (store_catalog ! index)
      then Some (st, strcopy_limit '''' ''Core SNSX packages cannot be removed.'' n, False)
      else if \<not> g_store_installed st ! index then Some (st, strcopy_limit '''' ''Package is not installed.'' n, False)
      else case store_commit_state fw (st\<lparr>g_store_installed := (g_store_installed st)[index := False]\<rparr>) of
        None \<Rightarrow> None
      | Some st \<Rightarrow> map_option (\<lambda>s. (st, s, True)) (status_text ''Removed '' (pk_name (store_catalog ! index)) n))"

definition store_install_package_by_id ::
    "('w, 'h) efi_fs \<Rightarrow> string \<Rightarrow> nat \<Rightarrow> ('w, 'a) store_kernel_scheme \<Rightarrow>
     (('w, 'a) store_kernel_scheme \<times> string \<times> bool) option" where
  "store_install_package_by_id fw name n st = store_install_package_index fw (store_find_package_index name) n st"

definition store_remove_package_by_id ::
    "('w, 'h) efi_fs \<Rightarrow> string \<Rightarrow> nat \<Rightarrow> ('w, 'a) store_kernel_scheme \<Rightarrow>
     (('w, 'a) store_kernel_scheme \<times> string \<times> bool) option" where
  "store_remove_package_by_id fw name n st = store_remove_package_index fw (store_find_package_index name) n st"

section \<open>Facts about the selection's file\<close>

definition store_apply :: "nat \<Rightarrow> string \<Rightarrow> bool list \<Rightarrow> bool list option" where
  "store_apply i line installed =
     (case cut_at (CHR ''|'') line of None \<Rightarrow> Some installed | Some (name, value) \<Rightarrow> set_installed name value installed)"

lemma cut_at_cases: "c \<in> set s \<Longrightarrow> \<exists>u v. s = u @ c # v \<and> c \<notin> set u \<and> cut_at c s = Some (u, v)"
  by (metis split_list_first cut_at_append)

lemma store_loop_line:
  assumes "CHR ''|'' \<notin> set u" and "LF \<notin> set u" and "LF \<notin> set v"
  shows "store_loop (u @ CHR ''|'' # v @ LF # rest) installed =
    (case set_installed u v installed of None \<Rightarrow> None | Some s \<Rightarrow> store_loop rest s)"
proof -
  let ?t = "u @ CHR ''|'' # v @ LF # rest"
  have "takeWhile (\<lambda>c. c \<noteq> LF) ?t = u @ CHR ''|'' # v" "tl (dropWhile (\<lambda>c. c \<noteq> LF) ?t) = rest"
    "takeWhile (\<lambda>c. c \<noteq> LF) (v @ LF # rest) = v" "cut_at (CHR ''|'') ?t = Some (u, v @ LF # rest)" "?t \<noteq> []"
    using assms by (auto simp: takeWhile_append dropWhile_append)
  then show ?thesis by (subst store_loop.simps) (simp add: Let_def)
qed

text \<open>When every line has a separator, the loop in place is the loop over the lines.\<close>

lemma store_loop_lines:
  "list_all (\<lambda>l. line_ok l \<and> CHR ''|'' \<in> set l) ls \<Longrightarrow>
   store_loop (unlines ls) installed = run_lines store_apply i ls installed"
proof (induction ls arbitrary: i installed)
  case Nil
  then show ?case by (simp add: unlines_def store_loop.simps)
next
  case (Cons l ls)
  then obtain u v where l: "l = u @ CHR ''|'' # v" "CHR ''|'' \<notin> set u" "LF \<notin> set u" "LF \<notin> set v"
    using split_list_first [of "CHR ''|''" l] by (auto simp: line_ok_def)
  have "unlines (l # ls) = u @ CHR ''|'' # v @ LF # unlines ls" by (simp add: l unlines_def)
  moreover have "store_apply i l installed = set_installed u v installed" using l by (simp add: store_apply_def)
  ultimately show ?case
    using Cons store_loop_line [OF l(2-4)] by (simp split: option.split)
qed

text \<open>A line without a separator takes the value of the next one, which is lost.\<close>

lemma store_line_without_separator:
  "store_loop (''note'' @ LF # ''dev-starter|1'' @ [LF]) store_defaults = Some store_defaults"
  "store_loop (''dev-starter|1'' @ [LF]) store_defaults \<noteq> Some store_defaults"
  by code_simp+

lemma index_of_id:
  "list_all (\<lambda>i. store_find_package_index (pk_id (store_catalog ! i)) = i \<and> CHR ''|'' \<notin> set (pk_id (store_catalog ! i)) \<and>
     line_ok (pk_id (store_catalog ! i))) [0 ..< length store_catalog]"
  by code_simp

lemma length_catalog [simp]: "length store_catalog = 8"
  by (simp add: store_catalog_def)

lemma id_facts:
  assumes "i < 8"
  shows "store_find_package_index (pk_id (store_catalog ! i)) = i" "CHR ''|'' \<notin> set (pk_id (store_catalog ! i))"
    "line_ok (pk_id (store_catalog ! i))"
  using index_of_id assms by (auto simp: list_all_iff)

definition selection_ok :: "bool list \<Rightarrow> bool" where
  "selection_ok installed \<longleftrightarrow> length installed = 8"

lemma store_apply_line:
  assumes "i < 8"
  shows "store_apply n (pk_id (store_catalog ! i) @ ''|'' @ flag b) s =
    Some (if pk_essential (store_catalog ! i) then s else s[i := b])"
  using id_facts [OF assms] assms by (simp add: store_apply_def set_installed_def)

lemma store_lines_fold:
  "k + n \<le> 8 \<Longrightarrow> length s = 8 \<Longrightarrow> length installed = 8 \<Longrightarrow>
   run_lines store_apply m (map (\<lambda>i. pk_id (store_catalog ! i) @ ''|'' @ flag (installed ! i)) [k ..< k + n]) s =
     Some (map (\<lambda>i. if k \<le> i \<and> i < k + n \<and> \<not> pk_essential (store_catalog ! i) then installed ! i else s ! i) [0 ..< 8])"
proof (induction n arbitrary: k m s)
  case 0
  then show ?case by (auto intro!: nth_equalityI)
next
  case (Suc n)
  have upt: "[k ..< k + Suc n] = k # [Suc k ..< Suc k + n]" using upt_conv_Cons [of k "k + Suc n"] by simp
  define s' where "s' = (if pk_essential (store_catalog ! k) then s else s[k := installed ! k])"
  have "store_apply m (pk_id (store_catalog ! k) @ ''|'' @ flag (installed ! k)) s = Some s'"
    unfolding s'_def using Suc.prems by (intro store_apply_line) simp
  moreover have "length s' = 8" using Suc.prems by (simp add: s'_def)
  ultimately have "run_lines store_apply m (map (\<lambda>i. pk_id (store_catalog ! i) @ ''|'' @ flag (installed ! i)) [k ..< k + Suc n]) s =
      Some (map (\<lambda>i. if Suc k \<le> i \<and> i < Suc k + n \<and> \<not> pk_essential (store_catalog ! i) then installed ! i else s' ! i) [0 ..< 8])"
    using Suc.IH [of "Suc k" s' "m + 1"] Suc.prems upt by simp
  also have "map (\<lambda>i. if Suc k \<le> i \<and> i < Suc k + n \<and> \<not> pk_essential (store_catalog ! i) then installed ! i else s' ! i) [0 ..< 8] =
      map (\<lambda>i. if k \<le> i \<and> i < k + Suc n \<and> \<not> pk_essential (store_catalog ! i) then installed ! i else s ! i) [0 ..< 8]"
    using Suc.prems by (intro map_cong) (auto simp: s'_def nth_list_update le_Suc_eq Suc_le_eq not_less order.strict_iff_order)
  finally show ?case .
qed

lemma essential_default: "i < 8 \<Longrightarrow> pk_essential (store_catalog ! i) \<Longrightarrow> store_defaults ! i"
proof -
  have "list_all (\<lambda>i. pk_essential (store_catalog ! i) \<longrightarrow> store_defaults ! i) [0 ..< 8]" by code_simp
  then show "i < 8 \<Longrightarrow> pk_essential (store_catalog ! i) \<Longrightarrow> store_defaults ! i" by (auto simp: list_all_iff)
qed

lemma with_essentials_nth: "length s = 8 \<Longrightarrow> i < 8 \<Longrightarrow> with_essentials s ! i = (s ! i \<or> pk_essential (store_catalog ! i))"
  by (simp add: with_essentials_def)

lemma length_with_essentials: "length s = 8 \<Longrightarrow> length (with_essentials s) = 8"
  by (simp add: with_essentials_def)

interpretation store_file: line_store selection_ok store_lines store_apply store_defaults with_essentials
proof (unfold_locales, goal_cases)
  case (1 s)
  then show ?case using id_facts by (auto simp: store_lines_def list_all_iff)
next
  case (2 s)
  then have s: "length s = 8" by (simp add: selection_ok_def)
  have d: "length store_defaults = 8" by (simp add: store_defaults_def)
  have "run_lines store_apply 0 (store_lines s) store_defaults =
      Some (map (\<lambda>i. if 0 \<le> i \<and> i < 0 + 8 \<and> \<not> pk_essential (store_catalog ! i) then s ! i else store_defaults ! i) [0 ..< 8])"
    using store_lines_fold [of 0 8 store_defaults s 0] s d by (simp add: store_lines_def)
  also have "map (\<lambda>i. if 0 \<le> i \<and> i < 0 + 8 \<and> \<not> pk_essential (store_catalog ! i) then s ! i else store_defaults ! i) [0 ..< 8] = with_essentials s"
    using s d by (intro nth_equalityI) (auto simp: length_with_essentials with_essentials_nth essential_default)
  finally show ?case .
qed

lemma store_text_fits:
  assumes "length s = 8"
  shows "\<exists>t. save_text (store_lines s) 1024 = Some t"
proof -
  have "list_all (\<lambda>i. length (pk_id (store_catalog ! i)) \<le> 20) [0 ..< 8]" by code_simp
  then have "(\<Sum>l\<leftarrow>store_lines s. length l + 1) \<le> 23 * length (store_lines s)"
    by (intro sum_bounded) (auto simp: store_lines_def list_all_iff)
  then have "length (unlines (store_lines s)) \<le> 184" unfolding length_unlines by (simp add: store_lines_def)
  then show ?thesis by (simp add: save_text_def)
qed

section \<open>Facts about the asset files\<close>

lemma fs_ops_store [simp]:
  "g_store_installed (fst (fs_write st path data type)) = g_store_installed st"
  "g_store_installed (fst (fs_write_if_changed st path data type)) = g_store_installed st"
  "g_store_installed (fst (fs_remove st path)) = g_store_installed st"
  "g_store_installed (fst (fs_mkdir st path)) = g_store_installed st"
  by (auto simp: fs_write_def fs_write_if_changed_def fs_remove_def fs_mkdir_def fs_push_def store_at_def persist_mark_dirty_def
      split: option.splits)

lemma flush_store [simp]: "g_store_installed (persist_flush_state fw st) = g_store_installed st"
  by (auto simp: persist_flush_state_def persist_set_status_def set_persist_def Let_def split: option.splits prod.splits)

definition asset :: "nat \<Rightarrow> string" where "asset i = pk_asset_path (store_catalog ! i)"

lemma asset_facts:
  "distinct (map asset [0 ..< 8])"
  "list_all (\<lambda>i. asset i \<notin> set store_directories \<and> asset i \<noteq> ''/'' \<and> asset i \<noteq> ''/home/.SNSX_STORE.TXT'' \<and>
     length (store_bodies ! i) \<le> FS_MAX_FILE_SIZE) [0 ..< 8]"
  "length store_bodies = 8"
  by code_simp+

lemma asset_apart: "i < 8 \<Longrightarrow> j < 8 \<Longrightarrow> i \<noteq> j \<Longrightarrow> asset i \<noteq> asset j"
  using asset_facts(1) by (auto simp: distinct_map inj_on_def)

lemma sync_file_facts:
  assumes "fs_ok (g_fs st)" and "j < 8"
  shows "fs_ok (g_fs (sync_file j st))" and "g_store_installed (sync_file j st) = g_store_installed st"
    and "q \<noteq> asset j \<Longrightarrow> fs_read (sync_file j st) q = fs_read st q"
  using fs_ops_ok [OF assms(1)] fs_read_write_other [OF assms(1), of q "asset j"] assms(1)
  by (auto simp: sync_file_def Let_def asset_def split: option.splits)

text \<open>What synchronising leaves in the asset file of a package.\<close>

definition synced :: "nat \<Rightarrow> ('w, 'a) store_kernel_scheme \<Rightarrow> bool" where
  "synced i st \<longleftrightarrow> \<not> g_store_installed st ! i \<longrightarrow> fs_read st (asset i) = None"

lemma sync_file_synced:
  assumes "fs_ok (g_fs st)" and "j < 8" and "not_dir st (asset j)"
  shows "synced j (sync_file j st)"
    and "g_store_installed st ! j \<Longrightarrow> fs_read st (asset j) \<noteq> None \<Longrightarrow>
      fs_read (sync_file j st) (asset j) = Some (store_bodies ! j, ARM_FS_TEXT)"
proof -
  have a: "asset j \<noteq> ''/''" "length (store_bodies ! j) \<le> FS_MAX_FILE_SIZE" "j < length store_bodies"
    using asset_facts(2,3) assms(2) by (auto simp: list_all_iff)
  show "synced j (sync_file j st)"
    using fs_remove_file [OF assms(1,3)] a
    by (auto simp: synced_def sync_file_def Let_def store_asset_body_def fs_read_find asset_def [symmetric])
  assume i: "g_store_installed st ! j" and f: "fs_read st (asset j) \<noteq> None"
  obtain st' b where w: "fs_write_if_changed st (asset j) (store_bodies ! j) ARM_FS_TEXT = (st', b)" by force
  have b using fs_write_if_changed_file [OF assms(1,3) f a(2)] w by simp
  then have "fs_read st' (asset j) = Some (store_bodies ! j, ARM_FS_TEXT)"
    using fs_read_write_if_changed [OF assms(1)] w by simp
  then show "fs_read (sync_file j st) (asset j) = Some (store_bodies ! j, ARM_FS_TEXT)"
    using i w a by (simp add: sync_file_def Let_def store_asset_body_def asset_def)
qed

lemma fold_sync_facts:
  assumes "fs_ok (g_fs st)" and "set js \<subseteq> {..<8}" and "distinct js"
  shows "fs_ok (g_fs (fold sync_file js st)) \<and> g_store_installed (fold sync_file js st) = g_store_installed st \<and>
    (\<forall>q. q \<notin> asset ` set js \<longrightarrow> fs_read (fold sync_file js st) q = fs_read st q) \<and>
    (\<forall>i\<in>set js. not_dir st (asset i) \<longrightarrow> synced i (fold sync_file js st) \<and>
       (g_store_installed st ! i \<and> fs_read st (asset i) \<noteq> None \<longrightarrow>
        fs_read (fold sync_file js st) (asset i) = Some (store_bodies ! i, ARM_FS_TEXT)))"
  using assms
proof (induction js arbitrary: st)
  case (Cons j js)
  let ?s = "sync_file j st" and ?e = "fold sync_file js (sync_file j st)"
  have j: "j < 8" "j \<notin> set js" "set js \<subseteq> {..<8}" "distinct js" using Cons.prems by auto
  note s = sync_file_facts [OF Cons.prems(1) j(1)]
  have IH: "fs_ok (g_fs ?e)" "g_store_installed ?e = g_store_installed ?s"
    "\<And>q. q \<notin> asset ` set js \<Longrightarrow> fs_read ?e q = fs_read ?s q"
    "\<And>i. i \<in> set js \<Longrightarrow> not_dir ?s (asset i) \<Longrightarrow> synced i ?e \<and>
       (g_store_installed ?s ! i \<and> fs_read ?s (asset i) \<noteq> None \<longrightarrow> fs_read ?e (asset i) = Some (store_bodies ! i, ARM_FS_TEXT))"
    using Cons.IH [OF s(1) j(3,4)] by blast+
  have jnot: "asset j \<notin> asset ` set js" using j asset_apart by fastforce
  have other: "asset i \<noteq> asset j" if "i \<in> set js" for i using that jnot by (metis imageI)
  have nd: "not_dir ?s (asset i) = not_dir st (asset i)" "fs_read ?s (asset i) = fs_read st (asset i)" if "i \<in> set js" for i
    using s(3) [OF other [OF that]] by (simp_all add: not_dir_def)
  have "synced j ?e \<and> (g_store_installed st ! j \<and> fs_read st (asset j) \<noteq> None \<longrightarrow>
      fs_read ?e (asset j) = Some (store_bodies ! j, ARM_FS_TEXT))" if "not_dir st (asset j)"
    using sync_file_synced [OF Cons.prems(1) j(1) that] IH(2) IH(3) [OF jnot] by (simp add: synced_def)
  then show ?case using IH s nd by (auto simp: s(2))
qed simp

lemma mkdirs_facts:
  assumes "fs_ok (g_fs st)"
  shows "fs_ok (g_fs (fold (\<lambda>d st. fst (fs_mkdir st d)) ds st)) \<and>
    g_store_installed (fold (\<lambda>d st. fst (fs_mkdir st d)) ds st) = g_store_installed st \<and>
    (\<forall>q. q \<notin> set ds \<longrightarrow> fs_read (fold (\<lambda>d st. fst (fs_mkdir st d)) ds st) q = fs_read st q)"
  using assms
proof (induction ds arbitrary: st)
  case (Cons d ds)
  then show ?case
    using Cons.IH [OF fs_ops_ok(4) [OF Cons.prems]] fs_read_write_other(4) [OF Cons.prems] by auto
qed simp

lemma store_sync_facts:
  assumes "fs_ok (g_fs st)"
  shows "fs_ok (g_fs (store_sync_files st))" "g_store_installed (store_sync_files st) = g_store_installed st"
    "i < 8 \<Longrightarrow> not_dir st (asset i) \<Longrightarrow> synced i (store_sync_files st) \<and>
       (g_store_installed st ! i \<and> fs_read st (asset i) \<noteq> None \<longrightarrow>
        fs_read (store_sync_files st) (asset i) = Some (store_bodies ! i, ARM_FS_TEXT))"
proof -
  let ?m = "fold (\<lambda>d st. fst (fs_mkdir st d)) store_directories st"
  note m = mkdirs_facts [OF assms, of store_directories]
  note f = fold_sync_facts [of ?m "[0 ..< 8]"]
  show "fs_ok (g_fs (store_sync_files st))" "g_store_installed (store_sync_files st) = g_store_installed st"
    using m f by (simp_all add: store_sync_files_def atLeast0LessThan)
  assume i: "i < 8" "not_dir st (asset i)"
  then have "asset i \<notin> set store_directories" using asset_facts(2) by (auto simp: list_all_iff)
  then have "fs_read ?m (asset i) = fs_read st (asset i)" using m by blast
  then show "synced i (store_sync_files st) \<and> (g_store_installed st ! i \<and> fs_read st (asset i) \<noteq> None \<longrightarrow>
      fs_read (store_sync_files st) (asset i) = Some (store_bodies ! i, ARM_FS_TEXT))"
    using i m f by (simp add: store_sync_files_def atLeast0LessThan not_dir_def)
qed

section \<open>Reachable states\<close>

text \<open>The states the operations lead to from a start, whatever the arguments and the firmware.\<close>

inductive store_reach :: "('w, 'h) efi_fs \<Rightarrow> ('w, 'a) store_kernel_scheme \<Rightarrow> ('w, 'a) store_kernel_scheme \<Rightarrow> bool"
  for fw start where
  boot: "store_load_state start = Some st \<Longrightarrow> store_reach fw start st"
| install: "store_reach fw start st \<Longrightarrow> store_install_package_by_id fw name n st = Some (st', s, b) \<Longrightarrow> store_reach fw start st'"
| remove: "store_reach fw start st \<Longrightarrow> store_remove_package_by_id fw name n st = Some (st', s, b) \<Longrightarrow> store_reach fw start st'"

inductive_cases store_reachE: "store_reach fw start st"

definition store_inv :: "('w, 'a) store_kernel_scheme \<Rightarrow> bool" where
  "store_inv st \<longleftrightarrow> fs_ok (g_fs st) \<and> length (g_store_installed st) = 8 \<and>
     (\<forall>i<8. pk_essential (store_catalog ! i) \<longrightarrow> g_store_installed st ! i)"

lemma store_save_facts:
  assumes "store_save_state st = Some st'" and "fs_ok (g_fs st)"
  shows "fs_ok (g_fs st') \<and> g_store_installed st' = g_store_installed st \<and>
    (\<forall>q. q \<noteq> ''/home/.SNSX_STORE.TXT'' \<longrightarrow> fs_read st' q = fs_read st q)"
  using assms fs_ops_ok(2) [OF assms(2)] fs_read_write_other(2) [OF assms(2)]
  by (auto simp: store_save_state_def)

lemma fs_read_cong: "g_fs st = g_fs st' \<Longrightarrow> fs_read st = fs_read st'"
  by (simp add: fs_read_def fs_find_def fun_eq_iff)

lemma store_commit_facts:
  assumes "store_commit_state fw st = Some st'" and "fs_ok (g_fs st)"
  shows "fs_ok (g_fs st') \<and> g_store_installed st' = g_store_installed st \<and>
    (\<forall>i<8. not_dir st (asset i) \<longrightarrow> synced i st')"
proof -
  obtain s1 where s1: "store_save_state (store_sync_files st) = Some s1"
    and st': "g_fs st' = g_fs s1" "g_store_installed st' = g_store_installed s1"
    using assms(1) by (auto simp: store_commit_state_def set_persist_def split: option.splits if_splits)
  note y = store_sync_facts [OF assms(2)]
  note f = store_save_facts [OF s1 y(1)]
  have "synced i st'" if i: "i < 8" "not_dir st (asset i)" for i
  proof -
    have "asset i \<noteq> ''/home/.SNSX_STORE.TXT''" using asset_facts(2) i(1) by (auto simp: list_all_iff)
    then have "fs_read st' (asset i) = fs_read (store_sync_files st) (asset i)"
      using f fs_read_cong [OF st'(1)] by simp
    then show ?thesis using y(3) [OF i] f st'(2) by (simp add: synced_def)
  qed
  then show ?thesis using f y st' by simp
qed

lemma length_store_defaults: "length store_defaults = 8"
  by (simp add: store_defaults_def)

lemma set_installed_length: "set_installed name v s = Some s' \<Longrightarrow> length s' = length s"
  by (auto simp: set_installed_def Let_def split: if_splits)

lemma store_loop_length: "store_loop t s = Some s' \<Longrightarrow> length s' = length s"
proof (induction t s rule: store_loop.induct)
  case (1 t s)
  let ?line = "takeWhile (\<lambda>c. c \<noteq> LF) t" and ?rest = "tl (dropWhile (\<lambda>c. c \<noteq> LF) t)"
  show ?case
  proof (cases "t = []")
    case True
    then show ?thesis using "1.prems" by (simp add: store_loop.simps)
  next
    case ne: False
    show ?thesis
    proof (cases "cut_at (CHR ''|'') t")
      case None
      then have "store_loop ?rest s = Some s'" using "1.prems" ne by (subst (asm) store_loop.simps) (simp add: Let_def)
      then show ?thesis using "1.IH"(1) [OF ne refl refl None] by simp
    next
      case (Some p)
      obtain u v where p: "cut_at (CHR ''|'') t = Some (u, v)" using Some by (cases p) simp
      show ?thesis
      proof (cases "length u < length ?line")
        case lt: True
        then obtain x where x: "set_installed u (takeWhile (\<lambda>c. c \<noteq> LF) v) s = Some x" "store_loop ?rest x = Some s'"
          using "1.prems" ne p by (subst (asm) store_loop.simps) (auto simp: Let_def split: option.splits)
        then show ?thesis using "1.IH"(2) [OF ne refl refl p refl lt x(1)] set_installed_length by metis
      next
        case ge: False
        then obtain x where x: "set_installed ?line v s = Some x" "store_loop (takeWhile (\<lambda>c. c \<noteq> CHR ''|'') ?rest) x = Some s'"
          using "1.prems" ne p by (subst (asm) store_loop.simps) (auto simp: Let_def split: option.splits)
        then show ?thesis using "1.IH"(3) [OF ne refl refl p refl ge x(1)] set_installed_length by metis
      qed
    qed
  qed
qed

lemma store_load_inv:
  assumes "store_load_state st = Some st'" and "fs_ok (g_fs st)"
  shows "store_inv st'"
proof -
  obtain s where s: "length s = 8" and st': "g_store_installed st' = with_essentials s" "fs_ok (g_fs st')"
  proof -
    let ?f = "load_text st ''/home/.SNSX_STORE.TXT'' 1024"
    obtain s where r: "(case ?f of None \<Rightarrow> Some store_defaults | Some t \<Rightarrow> store_loop t store_defaults) = Some s"
      using assms(1) by (auto simp: store_load_state_def Let_def split: option.splits)
    then have "length s = 8" by (auto simp: length_store_defaults split: option.splits dest: store_loop_length)
    moreover have "g_store_installed st' = with_essentials s \<and> fs_ok (g_fs st')"
      using assms r store_sync_facts(1,2) [of "st\<lparr>g_store_installed := with_essentials s\<rparr>"]
        store_save_facts [of "store_sync_files (st\<lparr>g_store_installed := with_essentials s\<rparr>)" st']
      by (auto simp: store_load_state_def Let_def split: if_splits)
    ultimately show thesis using that by blast
  qed
  then show ?thesis by (simp add: store_inv_def length_with_essentials with_essentials_nth)
qed

lemma store_change_inv:
  assumes "store_commit_state fw (st\<lparr>g_store_installed := (g_store_installed st)[index := b]\<rparr>) = Some st'"
    and "store_inv st" and "b \<or> \<not> pk_essential (store_catalog ! index)"
  shows "store_inv st'"
proof -
  have "(g_store_installed st)[index := b] ! i" if "i < 8" "pk_essential (store_catalog ! i)" for i
    using that assms(2,3) by (cases "i = index") (auto simp: store_inv_def)
  then show ?thesis
    using store_commit_facts [OF assms(1)] assms(2) by (simp add: store_inv_def)
qed

lemma store_install_inv:
  "store_install_package_index fw i n st = Some (st', s, b) \<Longrightarrow> store_inv st \<Longrightarrow> store_inv st'"
  by (auto simp: store_install_package_index_def split: if_splits option.splits dest: store_change_inv)

lemma store_remove_inv:
  "store_remove_package_index fw i n st = Some (st', s, b) \<Longrightarrow> store_inv st \<Longrightarrow> store_inv st'"
  by (auto simp: store_remove_package_index_def split: if_splits option.splits dest: store_change_inv)

section \<open>Properties\<close>

text \<open>C26: In every state the store reaches from a start on a well-formed file table, whatever is
  installed and removed and whatever the settings file said, the essential packages are installed and
  the table is well formed.\<close>

theorem store_essentials_stay:
  assumes "store_reach fw start st" and "fs_ok (g_fs start)"
  shows "fs_ok (g_fs st) \<and> length (g_store_installed st) = 8 \<and>
    (\<forall>i<8. pk_essential (store_catalog ! i) \<longrightarrow> g_store_installed st ! i)"
proof -
  from assms have "store_inv st"
  proof (induction rule: store_reach.induct)
    case (boot st)
    then show ?case by (auto intro: store_load_inv)
  next
    case (install st name n st' s b)
    then show ?case by (auto simp: store_install_package_by_id_def intro: store_install_inv)
  next
    case (remove st name n st' s b)
    then show ?case by (auto simp: store_remove_package_by_id_def intro: store_remove_inv)
  qed
  then show ?thesis by (simp add: store_inv_def)
qed

definition demo_store :: "unit store_kernel" where
  "demo_store = desktop_kernel.extend (demo_desktop\<lparr>g_fs :=
      [dir_entry ''/home'', dir_entry ''/apps'', file_entry ''/apps/DEV-STARTER.TXT'' ''mine'',
       file_entry ''/home/.SNSX_STORE.TXT'' (unlines [''dev-starter|1'', ''snake-arcade|0''])]\<rparr>)
     \<lparr>g_store_installed = replicate 8 False\<rparr>"

text \<open>A firmware that opens nothing, for the runs without a disk.\<close>

definition no_firmware :: "(unit, nat) efi_fs" where
  "no_firmware = \<lparr>f_root = (\<lambda>w h. (w, None)), f_open = (\<lambda>w h p m a. (w, None)), f_close = (\<lambda>w h. w),
     f_read = (\<lambda>w h n. (w, None)), f_write = (\<lambda>w h d. (w, False)), f_rewind = (\<lambda>w h. w),
     f_info = (\<lambda>w h. None), f_set_size = (\<lambda>w h i n. w), f_flush = (\<lambda>w h. w), f_read_only = (\<lambda>w h. None)\<rparr>"

lemma demo_store_ok: "fs_ok (g_fs demo_store)"
  "load_text demo_store ''/home/.SNSX_STORE.TXT'' 1024 = Some (unlines [''dev-starter|1'', ''snake-arcade|0''])"
  "store_loop (unlines [''dev-starter|1'', ''snake-arcade|0'']) store_defaults = Some (replicate 3 True @ replicate 4 False @ [True])"
  by code_simp+

theorem store_essentials_stay_witness:
  "\<exists>st. store_reach no_firmware demo_store st \<and> g_store_installed st ! 7 \<and>
     (\<forall>i<8. pk_essential (store_catalog ! i) \<longrightarrow> g_store_installed st ! i)"
proof -
  let ?s = "with_essentials (replicate 3 True @ replicate 4 False @ [True])"
  let ?st = "store_sync_files (demo_store\<lparr>g_store_installed := ?s\<rparr>)"
  have "store_load_state demo_store = Some ?st"
    using demo_store_ok by (simp add: store_load_state_def Let_def)
  then have r: "store_reach no_firmware demo_store ?st" by (rule store_reach.boot)
  have "g_store_installed ?st ! 7"
    using store_sync_facts(2) [of "demo_store\<lparr>g_store_installed := ?s\<rparr>"] demo_store_ok(1)
    by (simp add: with_essentials_nth nth_append)
  then show ?thesis using store_essentials_stay [OF r demo_store_ok(1)] r by blast
qed

text \<open>Removing an installed package that is not essential turns exactly its flag off and leaves no asset
  file of it, provided no directory stands under that name.\<close>

theorem store_remove_deletes:
  assumes "store_remove_package_index fw index n st = Some (st', status, True)" and "fs_ok (g_fs st)"
    and "length (g_store_installed st) = 8" and "not_dir st (pk_asset_path (store_catalog ! index))"
  shows "index < 8 \<and> \<not> pk_essential (store_catalog ! index) \<and>
    g_store_installed st' = (g_store_installed st)[index := False] \<and>
    fs_find st' (pk_asset_path (store_catalog ! index)) = None"
proof -
  let ?st = "st\<lparr>g_store_installed := (g_store_installed st)[index := False]\<rparr>"
  have c: "store_commit_state fw ?st = Some st'" and i: "index < 8" "\<not> pk_essential (store_catalog ! index)"
    using assms(1) by (auto simp: store_remove_package_index_def split: if_splits option.splits)
  have "not_dir ?st (asset index)"
    using assms(4) fs_read_cong [of ?st st] by (simp add: not_dir_def asset_def)
  then have "synced index st'" "g_store_installed st' = (g_store_installed st)[index := False]"
    using store_commit_facts [OF c] assms(2) i(1) by auto
  then show ?thesis using i assms(3) by (simp add: synced_def fs_read_find asset_def)
qed

lemma store_commit_returns:
  assumes "fs_ok (g_fs st)" and "length (g_store_installed st) = 8"
  shows "\<exists>st'. store_commit_state fw st = Some st'"
  using store_text_fits [OF assms(2)] store_sync_facts(2) [OF assms(1)]
  by (auto simp: store_commit_state_def store_save_state_def)

theorem store_remove_deletes_witness:
  "\<exists>st' status. store_remove_package_index no_firmware 7 64 (demo_store\<lparr>g_store_installed := replicate 7 False @ [True]\<rparr>) =
       Some (st', status, True) \<and> fs_find st' ''/apps/DEV-STARTER.TXT'' = None"
proof -
  let ?st = "demo_store\<lparr>g_store_installed := replicate 7 False @ [True]\<rparr>"
  have a: "fs_ok (g_fs ?st)" "not_dir ?st (pk_asset_path (store_catalog ! 7))"
    "pk_asset_path (store_catalog ! 7) = ''/apps/DEV-STARTER.TXT''" "\<not> pk_essential (store_catalog ! 7)"
    "pk_name (store_catalog ! 7) = ''Developer Starter''"
    by code_simp+
  obtain st' where "store_commit_state no_firmware (?st\<lparr>g_store_installed := (g_store_installed ?st)[7 := False]\<rparr>) = Some st'"
    using store_commit_returns [of "?st\<lparr>g_store_installed := (g_store_installed ?st)[7 := False]\<rparr>" no_firmware] a(1) by auto
  then obtain status where r: "store_remove_package_index no_firmware 7 64 ?st = Some (st', status, True)"
    using a(4,5) by (simp add: store_remove_package_index_def status_text_def strcopy_limit_fits nth_append)
  from store_remove_deletes [OF r a(1) _ a(2)] r a(3) show ?thesis by simp
qed

text \<open>C27: The selection survives a restart: what is saved over the store's file is what the next start
  loads, with the essential packages installed in any case.\<close>

theorem store_selection_survives:
  assumes "length (g_store_installed st) = 8" and "fs_ok (g_fs st)"
    and "fs_read st ''/home/.SNSX_STORE.TXT'' = Some (old, ARM_FS_TEXT)"
  shows "\<exists>st1 st2. store_save_state st = Some st1 \<and> store_load_state (st1\<lparr>g_store_installed := s\<rparr>) = Some st2 \<and>
    g_store_installed st2 = with_essentials (g_store_installed st)"
proof -
  let ?path = "''/home/.SNSX_STORE.TXT''"
  obtain t where t: "save_text (store_lines (g_store_installed st)) 1024 = Some t" using store_text_fits [OF assms(1)] by blast
  have tl: "t = unlines (store_lines (g_store_installed st))" "length t \<le> FS_MAX_FILE_SIZE"
    using save_text_eq [OF t] by (auto simp: FS_MAX_FILE_SIZE_def)
  have nd: "not_dir st ?path" using assms(3) by (simp add: not_dir_def ARM_FS_TEXT_def ARM_FS_DIR_def)
  obtain st1 b where w: "fs_write_if_changed st ?path t ARM_FS_TEXT = (st1, b)" by force
  have b: b using fs_write_if_changed_file [OF assms(2) nd _ tl(2)] assms(3) w by simp
  let ?st = "st1\<lparr>g_store_installed := s\<rparr>"
  have sel: "selection_ok (g_store_installed st)" using assms(1) by (simp add: selection_ok_def)
  have rd: "fs_read ?st ?path = Some (t, ARM_FS_TEXT)"
    using fs_read_write_if_changed [OF assms(2)] w b fs_read_cong [of ?st st1] by simp
  have "load_text ?st ?path 1024 = Some t"
    using unlines_ok [OF store_file.lines_ok [OF sel]] save_text_eq [OF t] by (intro load_text_read [OF rd]) auto
  moreover have "store_loop t store_defaults = Some (with_essentials (g_store_installed st))"
    using store_loop_lines [of "store_lines (g_store_installed st)" store_defaults 0] store_file.reread [OF sel]
      store_file.lines_ok [OF sel] tl(1) by (auto simp: store_lines_def list_all_iff)
  moreover have "with_essentials (with_essentials (g_store_installed st)) = with_essentials (g_store_installed st)"
    using assms(1) by (intro nth_equalityI) (auto simp: length_with_essentials with_essentials_nth)
  moreover have "fs_ok (g_fs st1)" using fs_write_if_changed_ok [OF assms(2) w] by simp
  moreover have "store_save_state st = Some st1" using t w by (simp add: store_save_state_def)
  ultimately show ?thesis
    by (intro exI conjI) (auto simp: store_load_state_def Let_def store_sync_facts(2))
qed

theorem store_selection_survives_witness:
  "\<exists>st1 st2. store_save_state (demo_store\<lparr>g_store_installed := replicate 7 False @ [True]\<rparr>) = Some st1 \<and>
     store_load_state (st1\<lparr>g_store_installed := []\<rparr>) = Some st2 \<and>
     g_store_installed st2 = [True, True, True, False, False, False, False, True]"
proof -
  let ?st = "demo_store\<lparr>g_store_installed := replicate 7 False @ [True]\<rparr>"
  have a: "fs_ok (g_fs ?st)" "with_essentials (replicate 7 False @ [True]) = [True, True, True, False, False, False, False, True]"
    by code_simp+
  have "fs_read ?st ''/home/.SNSX_STORE.TXT'' = Some (unlines [''dev-starter|1'', ''snake-arcade|0''], ARM_FS_TEXT)" by code_simp
  from store_selection_survives [OF _ a(1) this, of "[]"] a(2) show ?thesis by simp
qed

end
