(* ===== verification/Browser.thy ===== *)
theory Browser
  imports Store NetText
begin

text \<open>
  The browser's state in \<open>src/arm64/kernel/main.c\<close>: tabs, bookmarks, history and downloads, the
  address line, their text file, and page snapshots. An array of the C structure with its count
  is the list of its entries in use; moving entries along the array is an operation on that list.
  Every entry was stored through \<open>strcopy_limit\<close> with the size of its slot, so a move between slots
  keeps it. A function whose save overruns its 4096-octet buffer is \<open>None\<close>.
\<close>

definition BROWSER_TAB_MAX :: nat where "BROWSER_TAB_MAX = 4"
definition BROWSER_BOOKMARK_MAX :: nat where "BROWSER_BOOKMARK_MAX = 12"
definition BROWSER_HISTORY_MAX :: nat where "BROWSER_HISTORY_MAX = 16"
definition BROWSER_DOWNLOAD_MAX :: nat where "BROWSER_DOWNLOAD_MAX = 12"

record browser_state =
  br_active_tab :: nat
  br_tabs :: "string list"
  br_bookmarks :: "string list"
  br_history :: "string list"
  br_downloads :: "string list"

record 'w browser_kernel = "'w store_kernel" +
  g_browser :: browser_state
  g_browser_address :: string

definition slot :: "string \<Rightarrow> string" where
  "slot s = strcopy_limit '''' s BROWSER_ADDRESS_MAX"

section \<open>Keeping the state\<close>

definition default_browser :: browser_state where
  "default_browser = \<lparr>br_active_tab = 0,
     br_tabs = [''snsx://home'', ''snsxnet://status'', ''snsx://store'', ''https://example.com/''],
     br_bookmarks = [''snsx://home'', ''snsxnet://status'', ''snsx://store'', ''snsx://browser'', ''http://example.com/'',
       ''https://example.com/''],
     br_history = [], br_downloads = []\<rparr>"

definition browser_set_default_state :: "('w, 'a) browser_kernel_scheme \<Rightarrow> ('w, 'a) browser_kernel_scheme" where
  "browser_set_default_state st =
     st\<lparr>g_browser := default_browser, g_browser_address := slot (br_tabs default_browser ! 0)\<rparr>"

definition browser_lines :: "browser_state \<Rightarrow> string list" where
  "browser_lines b =
     [''ACTIVE='' @ u32_to_dec (of_nat (br_active_tab b))] @
     map (\<lambda>s. ''TAB='' @ s) (br_tabs b) @
     map (\<lambda>s. ''BOOKMARK='' @ s) (br_bookmarks b) @
     map (\<lambda>s. ''HISTORY='' @ s) (br_history b) @
     map (\<lambda>s. ''DOWNLOAD='' @ s) (br_downloads b)"

definition BROWSER_FILE :: string where "BROWSER_FILE = ''/home/.SNSX_BROWSER.TXT''"

definition browser_state_save :: "('w, 'a) browser_kernel_scheme \<Rightarrow> ('w, 'a) browser_kernel_scheme option" where
  "browser_state_save st =
     map_option (\<lambda>t. fst (fs_write_if_changed st BROWSER_FILE t ARM_FS_TEXT)) (save_text (browser_lines (g_browser st)) 4096)"

definition browser_apply :: "nat \<Rightarrow> string \<Rightarrow> browser_state \<Rightarrow> browser_state option" where
  "browser_apply i line b =
     (if starts ''ACTIVE='' line
      then map_option (\<lambda>v. b\<lparr>br_active_tab := nat (v mod 2 ^ 64)\<rparr>) (atoi (drop 7 line))
      else if starts ''TAB='' line
      then Some (if length (br_tabs b) < BROWSER_TAB_MAX then b\<lparr>br_tabs := br_tabs b @ [slot (drop 4 line)]\<rparr> else b)
      else if starts ''BOOKMARK='' line
      then Some (if length (br_bookmarks b) < BROWSER_BOOKMARK_MAX
                 then b\<lparr>br_bookmarks := br_bookmarks b @ [slot (drop 9 line)]\<rparr> else b)
      else if starts ''HISTORY='' line
      then Some (if length (br_history b) < BROWSER_HISTORY_MAX
                 then b\<lparr>br_history := br_history b @ [slot (drop 8 line)]\<rparr> else b)
      else if starts ''DOWNLOAD='' line
      then Some (if length (br_downloads b) < BROWSER_DOWNLOAD_MAX
                 then b\<lparr>br_downloads := br_downloads b @ [strcopy_limit '''' (drop 9 line) FS_PATH_MAX]\<rparr> else b)
      else Some b)"

definition empty_browser :: browser_state where
  "empty_browser = \<lparr>br_active_tab = 0, br_tabs = [], br_bookmarks = [], br_history = [], br_downloads = []\<rparr>"

definition clamp_active :: "browser_state \<Rightarrow> browser_state" where
  "clamp_active b = (if br_active_tab b \<ge> length (br_tabs b) then b\<lparr>br_active_tab := 0\<rparr> else b)"

definition browser_state_load :: "('w, 'a) browser_kernel_scheme \<Rightarrow> ('w, 'a) browser_kernel_scheme option" where
  "browser_state_load st =
     (let st = browser_set_default_state st
      in case load_text st BROWSER_FILE 4096 of
           None \<Rightarrow> browser_state_save st
         | Some t \<Rightarrow>
             (case run_lines browser_apply 0 (text_lines t) empty_browser of
                None \<Rightarrow> None
              | Some b \<Rightarrow>
                  let save_defaults = (br_tabs b = []);
                      b = clamp_active (if save_defaults then default_browser else b);
                      st = st\<lparr>g_browser := b, g_browser_address := slot (br_tabs b ! br_active_tab b)\<rparr>
                  in if save_defaults then browser_state_save st else Some st))"

section \<open>History and bookmarks\<close>

definition browser_record_visit ::
    "string \<Rightarrow> ('w, 'a) browser_kernel_scheme \<Rightarrow> ('w, 'a) browser_kernel_scheme option" where
  "browser_record_visit address st =
     (let b = g_browser st
      in if address = [] then Some st
         else if br_history b \<noteq> [] \<and> hd (br_history b) = address then Some st
         else browser_state_save
                (st\<lparr>g_browser := b\<lparr>br_history := take BROWSER_HISTORY_MAX (slot address # br_history b)\<rparr>\<rparr>))"

definition browser_is_bookmarked :: "string \<Rightarrow> browser_state \<Rightarrow> bool" where
  "browser_is_bookmarked address b \<longleftrightarrow> address \<noteq> [] \<and> address \<in> set (br_bookmarks b)"

text \<open>The new list and whether the address was added.\<close>

definition toggled :: "string \<Rightarrow> string list \<Rightarrow> string list \<times> bool" where
  "toggled address bs =
     (if address \<in> set bs then (remove1 address bs, False)
      else if length bs \<ge> BROWSER_BOOKMARK_MAX then (slot address # take (BROWSER_BOOKMARK_MAX - 1) bs, True)
      else (slot address # bs, True))"

definition browser_toggle_bookmark ::
    "string \<Rightarrow> ('w, 'a) browser_kernel_scheme \<Rightarrow> (('w, 'a) browser_kernel_scheme \<times> bool \<times> bool) option" where
  "browser_toggle_bookmark address st =
     (if address = [] then Some (st, False, False)
      else let (bs, added) = toggled address (br_bookmarks (g_browser st))
           in map_option (\<lambda>st. (st, added, True)) (browser_state_save (st\<lparr>g_browser := (g_browser st)\<lparr>br_bookmarks := bs\<rparr>\<rparr>)))"

section \<open>Tabs\<close>

definition browser_sync_active_tab :: "('w, 'a) browser_kernel_scheme \<Rightarrow> ('w, 'a) browser_kernel_scheme option" where
  "browser_sync_active_tab st =
     (let st = (if br_tabs (g_browser st) = [] then browser_set_default_state st else st);
          b = clamp_active (g_browser st)
      in browser_state_save
           (st\<lparr>g_browser := b\<lparr>br_tabs := (br_tabs b)[br_active_tab b := slot (g_browser_address st)]\<rparr>\<rparr>))"

definition browser_activate_tab ::
    "nat \<Rightarrow> ('w, 'a) browser_kernel_scheme \<Rightarrow> ('w, 'a) browser_kernel_scheme option" where
  "browser_activate_tab index st =
     (let b = g_browser st
      in if index \<ge> length (br_tabs b) then Some st
         else let st = st\<lparr>g_browser := b\<lparr>br_active_tab := index\<rparr>, g_browser_address := slot (br_tabs b ! index)\<rparr>
              in Option.bind (browser_record_visit (g_browser_address st) st) browser_state_save)"

definition browser_navigate_to ::
    "string \<Rightarrow> ('w, 'a) browser_kernel_scheme \<Rightarrow> ('w, 'a) browser_kernel_scheme option" where
  "browser_navigate_to address st =
     (if address = [] then Some st
      else Option.bind (browser_sync_active_tab (st\<lparr>g_browser_address := slot address\<rparr>))
             (\<lambda>st. browser_record_visit (g_browser_address st) st))"

definition browser_open_tab ::
    "string \<Rightarrow> ('w, 'a) browser_kernel_scheme \<Rightarrow> ('w, 'a) browser_kernel_scheme option" where
  "browser_open_tab address st =
     (let b = g_browser st
      in if address = [] then Some st
         else if length (br_tabs b) < BROWSER_TAB_MAX then
           let st = st\<lparr>g_browser := b\<lparr>br_active_tab := length (br_tabs b), br_tabs := br_tabs b @ [slot address]\<rparr>,
                       g_browser_address := slot address\<rparr>
           in Option.bind (browser_record_visit (g_browser_address st) st) browser_state_save
         else browser_navigate_to address st)"

text \<open>Following a link of the current page; the links are those of the page shown.\<close>

definition browser_open_link_index ::
    "string list \<Rightarrow> nat \<Rightarrow> ('w, 'a) browser_kernel_scheme \<Rightarrow> (('w, 'a) browser_kernel_scheme \<times> bool) option" where
  "browser_open_link_index links index st =
     (if index \<ge> length links then Some (st, False)
      else map_option (\<lambda>st. (st, True)) (browser_navigate_to (links ! index) st))"

definition browser_compose_link_label :: "string list \<Rightarrow> nat \<Rightarrow> nat \<Rightarrow> string option" where
  "browser_compose_link_label links index label_size =
     (if index \<ge> length links then Some (strcopy_limit '''' ''LINK'' label_size)
      else let label = strcopy_limit '''' ''['' label_size @ u32_to_dec (of_nat (index + 1)) @ ''] ''; used = length label
           in if used + 1 > label_size then None
              else if used + length (links ! index) + 1 < label_size then Some (label @ links ! index)
              else if label_size \<le> used + 4 then Some label
              else Some (label @ take (label_size - used - 4) (links ! index) @ ''...''))"

section \<open>Snapshots\<close>

definition snapshot_path :: "nat \<Rightarrow> string" where
  "snapshot_path index =
     strcopy_limit '''' ''/downloads/PAGE-'' FS_PATH_MAX @ u32_to_dec (of_nat index) @ ''.TXT''"

text \<open>The loop \<open>for (;;)\<close> from an index on.\<close>

partial_function (option) snapshot_index :: "'a kernel_scheme \<Rightarrow> nat \<Rightarrow> nat option" where
  "snapshot_index st index =
     (if fs_find st (snapshot_path index) = None then Some index else snapshot_index st (index + 1))"

declare snapshot_index.simps [code]

definition browser_save_page_snapshot ::
    "('w, 'h) efi_fs \<Rightarrow> string \<Rightarrow> ('w, 'a) browser_kernel_scheme \<Rightarrow> (('w, 'a) browser_kernel_scheme \<times> string option) option" where
  "browser_save_page_snapshot fw content st =
     (let st = fst (fs_mkdir st ''/downloads'')
      in case snapshot_index st (length (br_downloads (g_browser st)) + 1) of
           None \<Rightarrow> None
         | Some index \<Rightarrow>
             let path = snapshot_path index
             in (case fs_write st path content ARM_FS_TEXT of
                   (st, False) \<Rightarrow> Some (st, None)
                 | (st, True) \<Rightarrow>
                     let b = g_browser st;
                         ds = (if length (br_downloads b) < BROWSER_DOWNLOAD_MAX
                               then br_downloads b @ [strcopy_limit '''' path FS_PATH_MAX]
                               else drop 1 (br_downloads b) @ [strcopy_limit '''' path FS_PATH_MAX])
                     in map_option (\<lambda>st. (persist_flush_state fw st, Some path))
                          (browser_state_save (st\<lparr>g_browser := b\<lparr>br_downloads := ds\<rparr>\<rparr>))))"

section \<open>Facts about the file\<close>

definition address_ok :: "string \<Rightarrow> bool" where
  "address_ok s \<longleftrightarrow> length s < BROWSER_ADDRESS_MAX \<and> line_ok s"

definition browser_ok :: "browser_state \<Rightarrow> bool" where
  "browser_ok b \<longleftrightarrow> br_active_tab b < length (br_tabs b) \<and> length (br_tabs b) \<le> BROWSER_TAB_MAX \<and>
     length (br_bookmarks b) \<le> BROWSER_BOOKMARK_MAX \<and> length (br_history b) \<le> BROWSER_HISTORY_MAX \<and>
     length (br_downloads b) \<le> BROWSER_DOWNLOAD_MAX \<and>
     list_all (\<lambda>s. length s < BROWSER_ADDRESS_MAX) (br_tabs b @ br_bookmarks b @ br_history b) \<and>
     list_all (\<lambda>s. length s < FS_PATH_MAX) (br_downloads b)"

definition browser_text_ok :: "browser_state \<Rightarrow> bool" where
  "browser_text_ok b \<longleftrightarrow> browser_ok b \<and> list_all line_ok (br_tabs b @ br_bookmarks b @ br_history b @ br_downloads b)"

lemma browser_apply_simps:
  "browser_apply i (''ACTIVE='' @ s) b = map_option (\<lambda>v. b\<lparr>br_active_tab := nat (v mod 2 ^ 64)\<rparr>) (atoi s)"
  "browser_apply i (''TAB='' @ s) b = Some (if length (br_tabs b) < BROWSER_TAB_MAX then b\<lparr>br_tabs := br_tabs b @ [slot s]\<rparr> else b)"
  "browser_apply i (''BOOKMARK='' @ s) b = Some (if length (br_bookmarks b) < BROWSER_BOOKMARK_MAX
     then b\<lparr>br_bookmarks := br_bookmarks b @ [slot s]\<rparr> else b)"
  "browser_apply i (''HISTORY='' @ s) b = Some (if length (br_history b) < BROWSER_HISTORY_MAX
     then b\<lparr>br_history := br_history b @ [slot s]\<rparr> else b)"
  "browser_apply i (''DOWNLOAD='' @ s) b = Some (if length (br_downloads b) < BROWSER_DOWNLOAD_MAX
     then b\<lparr>br_downloads := br_downloads b @ [strcopy_limit '''' s FS_PATH_MAX]\<rparr> else b)"
  by (simp_all add: browser_apply_def)

text \<open>Lines that append to a field of bounded length.\<close>

lemma run_lines_append_field:
  assumes "\<And>i s b. length (get b) < cap \<Longrightarrow> f i (key @ s) b = Some (upd (\<lambda>xs. xs @ [copy s]) b)"
    and "\<And>xs b. get (upd (\<lambda>ys. ys @ xs) b) = get b @ xs"
    and "\<And>xs ys b. upd (\<lambda>zs. zs @ ys) (upd (\<lambda>zs. zs @ xs) b) = upd (\<lambda>zs. zs @ xs @ ys) b"
    and "\<And>b. upd (\<lambda>zs. zs @ []) b = b"
    and "list_all (\<lambda>s. copy s = s) ss" and "length (get b) + length ss \<le> cap"
  shows "run_lines f i (map (\<lambda>s. key @ s) ss) b = Some (upd (\<lambda>xs. xs @ ss) b)"
  using assms(5,6)
proof (induction ss arbitrary: i b)
  case Nil
  then show ?case using assms(4) by simp
next
  case (Cons s ss)
  have "f i (key @ s) b = Some (upd (\<lambda>xs. xs @ [s]) b)" using assms(1) Cons.prems by simp
  moreover have "run_lines f (i + 1) (map (\<lambda>s. key @ s) ss) (upd (\<lambda>xs. xs @ [s]) b) =
      Some (upd (\<lambda>xs. xs @ ss) (upd (\<lambda>xs. xs @ [s]) b))"
    using Cons by (intro Cons.IH) (simp_all add: assms(2))
  ultimately show ?case using assms(3) by simp
qed

lemma slot_fits: "length s < BROWSER_ADDRESS_MAX \<Longrightarrow> slot s = s"
  by (simp add: slot_def strcopy_limit_fits)

lemma slot_length [simp]: "length (slot s) < BROWSER_ADDRESS_MAX"
  by (simp add: slot_def strcopy_limit_length BROWSER_ADDRESS_MAX_def)

lemma browser_reread:
  assumes ok: "browser_text_ok b"
  shows "run_lines browser_apply 0 (browser_lines b) empty_browser = Some b"
proof -
  have lens: "length (br_tabs b) \<le> BROWSER_TAB_MAX" "length (br_bookmarks b) \<le> BROWSER_BOOKMARK_MAX"
    "length (br_history b) \<le> BROWSER_HISTORY_MAX" "length (br_downloads b) \<le> BROWSER_DOWNLOAD_MAX"
    and act: "br_active_tab b < length (br_tabs b)"
    and slots: "list_all (\<lambda>s. slot s = s) (br_tabs b)" "list_all (\<lambda>s. slot s = s) (br_bookmarks b)"
      "list_all (\<lambda>s. slot s = s) (br_history b)" "list_all (\<lambda>s. strcopy_limit '''' s FS_PATH_MAX = s) (br_downloads b)"
    using ok by (auto simp: browser_text_ok_def browser_ok_def list_all_iff slot_fits strcopy_limit_fits)
  have a: "br_active_tab b < 4" using act lens(1) by (simp add: BROWSER_TAB_MAX_def)
  have "unat (of_nat (br_active_tab b) :: u32) = br_active_tab b"
    using a by (simp add: unsigned_of_nat take_bit_nat_eq_self)
  then have "atoi (u32_to_dec (of_nat (br_active_tab b))) = Some (int (br_active_tab b))"
    using a by (subst atoi_u32_to_dec) simp_all
  then have 0: "browser_apply 0 (''ACTIVE='' @ u32_to_dec (of_nat (br_active_tab b))) empty_browser =
      Some (empty_browser\<lparr>br_active_tab := br_active_tab b\<rparr>)"
    unfolding browser_apply_simps using a by simp
  note field = run_lines_append_field [where f = browser_apply]
  have 1: "run_lines browser_apply i (map (\<lambda>s. ''TAB='' @ s) (br_tabs b)) c = Some (br_tabs_update (\<lambda>xs. xs @ br_tabs b) c)"
    if "br_tabs c = []" for i c
    by (rule field [where get = br_tabs and cap = BROWSER_TAB_MAX and copy = slot])
       (use that lens slots in \<open>simp_all only: browser_apply_simps if_True\<close>, simp_all)
  have 2: "run_lines browser_apply i (map (\<lambda>s. ''BOOKMARK='' @ s) (br_bookmarks b)) c =
      Some (br_bookmarks_update (\<lambda>xs. xs @ br_bookmarks b) c)" if "br_bookmarks c = []" for i c
    by (rule field [where get = br_bookmarks and cap = BROWSER_BOOKMARK_MAX and copy = slot])
       (use that lens slots in \<open>simp_all only: browser_apply_simps if_True\<close>, simp_all)
  have 3: "run_lines browser_apply i (map (\<lambda>s. ''HISTORY='' @ s) (br_history b)) c =
      Some (br_history_update (\<lambda>xs. xs @ br_history b) c)" if "br_history c = []" for i c
    by (rule field [where get = br_history and cap = BROWSER_HISTORY_MAX and copy = slot])
       (use that lens slots in \<open>simp_all only: browser_apply_simps if_True\<close>, simp_all)
  have 4: "run_lines browser_apply i (map (\<lambda>s. ''DOWNLOAD='' @ s) (br_downloads b)) c =
      Some (br_downloads_update (\<lambda>xs. xs @ br_downloads b) c)" if "br_downloads c = []" for i c
    by (rule field [where get = br_downloads and cap = BROWSER_DOWNLOAD_MAX and copy = "\<lambda>s. strcopy_limit '''' s FS_PATH_MAX"])
       (use that lens slots in \<open>simp_all only: browser_apply_simps if_True\<close>, simp_all)
  have e: "br_tabs empty_browser = []" "br_bookmarks empty_browser = []" "br_history empty_browser = []" "br_downloads empty_browser = []"
    by (simp_all add: empty_browser_def)
  show ?thesis
    unfolding browser_lines_def run_lines_append run_lines.simps 0 option.case
    by (simp add: 1 2 3 4 e)
qed

interpretation browser_file: line_store browser_text_ok browser_lines browser_apply empty_browser id
proof (unfold_locales, goal_cases)
  case (1 b)
  then show ?case by (auto simp: browser_text_ok_def browser_lines_def list_all_iff)
next
  case (2 b)
  then show ?case by (simp add: browser_reread)
qed

section \<open>Facts about the operations\<close>

lemma fs_ops_browser [simp]:
  "g_browser (fst (fs_write st path data type)) = g_browser st"
  "g_browser (fst (fs_write_if_changed st path data type)) = g_browser st"
  "g_browser (fst (fs_mkdir st path)) = g_browser st"
  "g_browser_address (fst (fs_write_if_changed st path data type)) = g_browser_address st"
  by (auto simp: fs_write_def fs_write_if_changed_def fs_mkdir_def fs_push_def store_at_def persist_mark_dirty_def
      split: option.splits)

lemma flush_browser [simp]: "g_browser (persist_flush_state fw st) = g_browser st"
  by (auto simp: persist_flush_state_def persist_set_status_def set_persist_def Let_def split: option.splits prod.splits)

lemma save_browser:
  "browser_state_save st = Some st' \<Longrightarrow> g_browser st' = g_browser st \<and> g_browser_address st' = g_browser_address st"
  by (auto simp: browser_state_save_def)

lemma default_browser_ok: "browser_ok default_browser"
  by code_simp

lemma default_tabs: "br_tabs default_browser \<noteq> []"
  by (simp add: default_browser_def)

text \<open>The bounds alone, as they hold while the file is read.\<close>

definition browser_bounded :: "browser_state \<Rightarrow> bool" where
  "browser_bounded b \<longleftrightarrow> length (br_tabs b) \<le> BROWSER_TAB_MAX \<and> length (br_bookmarks b) \<le> BROWSER_BOOKMARK_MAX \<and>
     length (br_history b) \<le> BROWSER_HISTORY_MAX \<and> length (br_downloads b) \<le> BROWSER_DOWNLOAD_MAX \<and>
     list_all (\<lambda>s. length s < BROWSER_ADDRESS_MAX) (br_tabs b @ br_bookmarks b @ br_history b) \<and>
     list_all (\<lambda>s. length s < FS_PATH_MAX) (br_downloads b)"

lemma browser_apply_bounded: "browser_apply i l b = Some b' \<Longrightarrow> browser_bounded b \<Longrightarrow> browser_bounded b'"
  using strcopy_limit_length [of FS_PATH_MAX]
  by (auto simp: browser_apply_def browser_bounded_def FS_PATH_MAX_def split: if_splits)

lemma clamp_active_ok: "br_tabs b \<noteq> [] \<Longrightarrow> browser_bounded b \<Longrightarrow> browser_ok (clamp_active b)"
  by (auto simp: clamp_active_def browser_ok_def browser_bounded_def)

lemma load_browser_ok:
  assumes "browser_state_load st = Some st'"
  shows "browser_ok (g_browser st')"
proof -
  let ?st = "browser_set_default_state st"
  have d: "g_browser ?st = default_browser" by (simp add: browser_set_default_state_def)
  show ?thesis
  proof (cases "load_text ?st BROWSER_FILE 4096")
    case None
    then show ?thesis using assms d default_browser_ok by (auto simp: browser_state_load_def Let_def dest!: save_browser)
  next
    case (Some t)
    then obtain b where b: "run_lines browser_apply 0 (text_lines t) empty_browser = Some b"
      using assms by (auto simp: browser_state_load_def Let_def split: option.splits)
    let ?b = "clamp_active (if br_tabs b = [] then default_browser else b)"
    have "browser_ok ?b"
    proof (cases "br_tabs b = []")
      case True
      then show ?thesis using default_browser_ok by (simp add: clamp_active_def browser_ok_def)
    next
      case False
      have "browser_ok (clamp_active b)"
        using run_lines_keeps [where P = browser_bounded, OF browser_apply_bounded b] False
        by (intro clamp_active_ok) (simp_all add: empty_browser_def browser_bounded_def)
      then show ?thesis using False by simp
    qed
    moreover have "g_browser st' = ?b"
      using assms Some b save_browser by (fastforce simp: browser_state_load_def Let_def split: if_splits)
    ultimately show ?thesis by simp
  qed
qed

lemma record_visit_ok:
  assumes "browser_record_visit a st = Some st'" and "browser_ok (g_browser st)"
  shows "browser_ok (g_browser st')"
proof (cases "a = [] \<or> br_history (g_browser st) \<noteq> [] \<and> hd (br_history (g_browser st)) = a")
  case False
  let ?h = "take BROWSER_HISTORY_MAX (slot a # br_history (g_browser st))"
  have "g_browser st' = g_browser st\<lparr>br_history := ?h\<rparr>"
    using assms(1) False by (auto simp: browser_record_visit_def Let_def dest!: save_browser split: if_splits)
  moreover have "set ?h \<subseteq> insert (slot a) (set (br_history (g_browser st)))" by (auto dest!: in_set_takeD)
  then have "\<forall>s\<in>set ?h. length s < BROWSER_ADDRESS_MAX"
    using assms(2) slot_length [of a] by (fastforce simp: browser_ok_def list_all_iff)
  ultimately show ?thesis using assms(2) by (simp add: browser_ok_def list_all_iff ball_Un)
next
  case True
  then have "st' = st" using assms(1) by (auto simp: browser_record_visit_def Let_def split: if_splits)
  then show ?thesis using assms(2) by simp
qed

lemma toggle_ok:
  assumes "browser_toggle_bookmark a st = Some (st', added, r)" and "browser_ok (g_browser st)"
  shows "browser_ok (g_browser st')"
proof (cases "a = []")
  case False
  obtain bs x where t: "toggled a (br_bookmarks (g_browser st)) = (bs, x)" by force
  have "set bs \<subseteq> insert (slot a) (set (br_bookmarks (g_browser st)))"
    using t set_remove1_subset [of a "br_bookmarks (g_browser st)"]
    by (auto simp: toggled_def split: if_splits dest: in_set_takeD)
  then have "\<forall>s\<in>set bs. length s < BROWSER_ADDRESS_MAX"
    using assms(2) slot_length [of a] by (auto simp: browser_ok_def list_all_iff)
  moreover have "length bs \<le> BROWSER_BOOKMARK_MAX"
    using assms(2) t by (auto simp: toggled_def browser_ok_def length_remove1 BROWSER_BOOKMARK_MAX_def split: if_splits)
  moreover have "g_browser st' = g_browser st\<lparr>br_bookmarks := bs\<rparr>"
    using assms(1) False t by (auto simp: browser_toggle_bookmark_def dest: save_browser)
  ultimately show ?thesis using assms(2) by (auto simp: browser_ok_def list_all_iff)
qed (use assms in \<open>simp add: browser_toggle_bookmark_def\<close>)

lemma set_tab_ok:
  assumes "browser_ok b"
  shows "browser_ok (b\<lparr>br_tabs := (br_tabs b)[i := slot s]\<rparr>)"
proof -
  have "length x < BROWSER_ADDRESS_MAX" if "x \<in> set ((br_tabs b)[i := slot s])" for x
    using that set_update_subset_insert [of "br_tabs b" i "slot s"] assms by (auto simp: browser_ok_def list_all_iff)
  then show ?thesis using assms by (auto simp: browser_ok_def list_all_iff)
qed

lemma sync_tab_ok:
  assumes "browser_sync_active_tab st = Some st'" and "browser_ok (g_browser st)"
  shows "browser_ok (g_browser st')"
proof -
  have "br_tabs (g_browser st) \<noteq> []" "clamp_active (g_browser st) = g_browser st"
    using assms(2) by (auto simp: browser_ok_def clamp_active_def)
  then show ?thesis
    using assms set_tab_ok [OF assms(2)] by (auto simp: browser_sync_active_tab_def Let_def dest!: save_browser)
qed

lemma activate_ok:
  assumes "browser_activate_tab i st = Some st'" and "browser_ok (g_browser st)"
  shows "browser_ok (g_browser st')"
proof (cases "i < length (br_tabs (g_browser st))")
  case True
  let ?st = "st\<lparr>g_browser := g_browser st\<lparr>br_active_tab := i\<rparr>, g_browser_address := slot (br_tabs (g_browser st) ! i)\<rparr>"
  obtain s where s: "browser_record_visit (g_browser_address ?st) ?st = Some s" "browser_state_save s = Some st'"
    using assms(1) True by (auto simp: browser_activate_tab_def Let_def Option.bind_eq_Some_conv)
  have "browser_ok (g_browser ?st)" using assms(2) True by (simp add: browser_ok_def)
  then have "browser_ok (g_browser s)" by (rule record_visit_ok [OF s(1)])
  then show ?thesis using save_browser [OF s(2)] by simp
qed (use assms in \<open>simp add: browser_activate_tab_def Let_def\<close>)

lemma navigate_ok:
  assumes "browser_navigate_to a st = Some st'" and "browser_ok (g_browser st)"
  shows "browser_ok (g_browser st')"
proof (cases "a = []")
  case False
  obtain s where s: "browser_sync_active_tab (st\<lparr>g_browser_address := slot a\<rparr>) = Some s"
    "browser_record_visit (g_browser_address s) s = Some st'"
    using assms(1) False by (auto simp: browser_navigate_to_def Option.bind_eq_Some_conv)
  have "browser_ok (g_browser s)" using sync_tab_ok [OF s(1)] assms(2) by simp
  then show ?thesis by (rule record_visit_ok [OF s(2)])
qed (use assms in \<open>simp add: browser_navigate_to_def\<close>)

lemma open_tab_ok:
  assumes "browser_open_tab a st = Some st'" and "browser_ok (g_browser st)"
  shows "browser_ok (g_browser st')"
proof (cases "a \<noteq> [] \<and> length (br_tabs (g_browser st)) < BROWSER_TAB_MAX")
  case True
  let ?b = "g_browser st"
  let ?st = "st\<lparr>g_browser := ?b\<lparr>br_active_tab := length (br_tabs ?b), br_tabs := br_tabs ?b @ [slot a]\<rparr>, g_browser_address := slot a\<rparr>"
  obtain s where s: "browser_record_visit (g_browser_address ?st) ?st = Some s" "browser_state_save s = Some st'"
    using assms(1) True by (auto simp: browser_open_tab_def Let_def Option.bind_eq_Some_conv)
  have "browser_ok (g_browser ?st)" using assms(2) True by (simp add: browser_ok_def)
  then have "browser_ok (g_browser s)" by (rule record_visit_ok [OF s(1)])
  then show ?thesis using save_browser [OF s(2)] by simp
next
  case False
  then show ?thesis using assms navigate_ok by (auto simp: browser_open_tab_def Let_def split: if_splits)
qed

lemma u32_to_dec_inj: "unat v < 2 ^ 31 \<Longrightarrow> unat w < 2 ^ 31 \<Longrightarrow> u32_to_dec v = u32_to_dec w \<Longrightarrow> v = w"
  using atoi_u32_to_dec [of v] atoi_u32_to_dec [of w] by (auto simp: word_uint_eq_iff)

lemma snapshot_path_eq: "snapshot_path i = ''/downloads/PAGE-'' @ u32_to_dec (of_nat i) @ ''.TXT''"
  by (simp add: snapshot_path_def strcopy_limit_fits FS_PATH_MAX_def)

lemma snapshot_path_inj:
  assumes "snapshot_path i = snapshot_path j" and "i < 2 ^ 31" and "j < 2 ^ 31"
  shows "i = j"
proof -
  have u: "unat (of_nat k :: u32) = k" if "k < 2 ^ 31" for k
    using that by (simp add: unsigned_of_nat take_bit_nat_eq_self)
  have "u32_to_dec (of_nat i) = u32_to_dec (of_nat j)" using assms(1) by (simp add: snapshot_path_eq)
  then have "(of_nat i :: u32) = of_nat j" using u [OF assms(2)] u [OF assms(3)] assms(2,3) by (intro u32_to_dec_inj) simp_all
  then show ?thesis using u [OF assms(2)] u [OF assms(3)] by metis
qed

lemma snapshot_path_length: "length (snapshot_path i) < FS_PATH_MAX"
  using u32_to_dec_length [of "of_nat i"] by (simp add: snapshot_path_eq FS_PATH_MAX_def)

text \<open>More names than the table has entries: one is free.\<close>

lemma free_snapshot:
  assumes "n + length (g_fs st) < 2 ^ 31"
  shows "\<exists>i. n \<le> i \<and> i \<le> n + length (g_fs st) \<and> fs_find st (snapshot_path i) = None"
proof (rule ccontr)
  assume "\<not> ?thesis"
  then have "snapshot_path ` {n .. n + length (g_fs st)} \<subseteq> e_path ` set (g_fs st)"
    by (auto simp: fs_find_eq_None)
  then have "card (snapshot_path ` {n .. n + length (g_fs st)}) \<le> card (e_path ` set (g_fs st))"
    by (intro card_mono) auto
  moreover have "inj_on snapshot_path {n .. n + length (g_fs st)}"
    using assms by (intro inj_onI) (auto intro: snapshot_path_inj)
  then have "card (snapshot_path ` {n .. n + length (g_fs st)}) = length (g_fs st) + 1"
    by (simp add: card_image)
  moreover have "card (e_path ` set (g_fs st)) \<le> length (g_fs st)"
    by (metis card_length length_map set_map)
  ultimately show False by simp
qed

lemma snapshot_index_finds:
  assumes "n \<le> i" and "fs_find st (snapshot_path i) = None"
  shows "\<exists>k. snapshot_index st n = Some k \<and> n \<le> k \<and> k \<le> i \<and> fs_find st (snapshot_path k) = None"
  using assms
proof (induction "i - n" arbitrary: n)
  case 0
  then show ?case by (auto simp: snapshot_index.simps)
next
  case (Suc d)
  show ?case
  proof (cases "fs_find st (snapshot_path n) = None")
    case True
    then show ?thesis using Suc.prems by (auto simp: snapshot_index.simps)
  next
    case False
    have "\<exists>k. snapshot_index st (n + 1) = Some k \<and> n + 1 \<le> k \<and> k \<le> i \<and> fs_find st (snapshot_path k) = None"
      using Suc.hyps(2) Suc.prems by (intro Suc.hyps(1)) simp_all
    then show ?thesis using False by (subst snapshot_index.simps) auto
  qed
qed

lemma snapshot_ok:
  assumes "browser_save_page_snapshot fw content st = Some (st', r)" and "browser_ok (g_browser st)"
  shows "browser_ok (g_browser st')"
proof -
  let ?s = "fst (fs_mkdir st ''/downloads'')"
  obtain i where i: "snapshot_index ?s (length (br_downloads (g_browser ?s)) + 1) = Some i"
    using assms(1) by (auto simp: browser_save_page_snapshot_def Let_def split: option.splits)
  obtain s2 b where w: "fs_write ?s (snapshot_path i) content ARM_FS_TEXT = (s2, b)" by force
  have g: "g_browser s2 = g_browser st"
    using fs_ops_browser(1) [of ?s "snapshot_path i" content ARM_FS_TEXT] w by simp
  show ?thesis
  proof (cases b)
    case False
    then show ?thesis using assms i w g by (simp add: browser_save_page_snapshot_def Let_def)
  next
    case True
    let ?b = "g_browser st"
    let ?ds = "(if length (br_downloads ?b) < BROWSER_DOWNLOAD_MAX
        then br_downloads ?b @ [strcopy_limit '''' (snapshot_path i) FS_PATH_MAX]
        else drop 1 (br_downloads ?b) @ [strcopy_limit '''' (snapshot_path i) FS_PATH_MAX])"
    have "g_browser st' = ?b\<lparr>br_downloads := ?ds\<rparr>"
      using assms(1) i w True g by (auto simp: browser_save_page_snapshot_def Let_def dest!: save_browser)
    moreover have "length ?ds \<le> BROWSER_DOWNLOAD_MAX" "\<forall>s\<in>set ?ds. length s < FS_PATH_MAX"
      using assms(2) strcopy_limit_length [of FS_PATH_MAX "''''" "snapshot_path i"]
      by (auto simp: browser_ok_def list_all_iff FS_PATH_MAX_def BROWSER_DOWNLOAD_MAX_def dest: in_set_dropD)
    ultimately show ?thesis using assms(2) by (auto simp: browser_ok_def list_all_iff)
  qed
qed

lemma snapshot_index_None: "snapshot_index st n = Some i \<Longrightarrow> fs_find st (snapshot_path i) = None"
proof (induction rule: snapshot_index.raw_induct [rotated 1, consumes 1])
  case (1 snapshot_index st n i)
  then show ?case by (auto split: if_splits)
qed

text \<open>Full tables of long addresses are within the bounds and overrun the buffer of the save.\<close>

lemma browser_save_overflow:
  assumes "length (br_history (g_browser st)) = BROWSER_HISTORY_MAX" and "length (br_bookmarks (g_browser st)) = BROWSER_BOOKMARK_MAX"
    and "\<forall>s\<in>set (br_history (g_browser st)) \<union> set (br_bookmarks (g_browser st)). 150 \<le> length s"
  shows "browser_state_save st = None"
proof -
  let ?b = "g_browser st"
  have mono: "(\<forall>s\<in>set ss. n \<le> length s) \<Longrightarrow> n * length ss \<le> (\<Sum>s\<leftarrow>ss. length (k @ s) + 1)" for n ss and k :: string
    by (induction ss) auto
  have "150 * length (br_history ?b) \<le> (\<Sum>s\<leftarrow>br_history ?b. length (''HISTORY='' @ s) + 1)"
    "150 * length (br_bookmarks ?b) \<le> (\<Sum>s\<leftarrow>br_bookmarks ?b. length (''BOOKMARK='' @ s) + 1)"
    using assms(3) by (intro mono; blast)+
  then have "150 * 16 + 150 * 12 \<le> (\<Sum>s\<leftarrow>br_history ?b. length (''HISTORY='' @ s) + 1) + (\<Sum>s\<leftarrow>br_bookmarks ?b. length (''BOOKMARK='' @ s) + 1)"
    using assms(1,2) by (simp add: BROWSER_HISTORY_MAX_def BROWSER_BOOKMARK_MAX_def)
  also have "\<dots> \<le> length (unlines (browser_lines ?b))"
    unfolding length_unlines browser_lines_def by (simp add: comp_def)
  finally show ?thesis by (simp add: browser_state_save_def save_text_def)
qed

section \<open>Reachable states\<close>

text \<open>What the browser does to its state from a start: loading, and any sequence of user actions.\<close>

inductive browser_reach :: "('w, 'h) efi_fs \<Rightarrow> ('w, 'a) browser_kernel_scheme \<Rightarrow> ('w, 'a) browser_kernel_scheme \<Rightarrow> bool"
  for fw start where
  load: "browser_state_load start = Some st \<Longrightarrow> browser_reach fw start st"
| visit: "browser_reach fw start st \<Longrightarrow> browser_record_visit a st = Some st' \<Longrightarrow> browser_reach fw start st'"
| toggle: "browser_reach fw start st \<Longrightarrow> browser_toggle_bookmark a st = Some (st', added, r) \<Longrightarrow> browser_reach fw start st'"
| activate: "browser_reach fw start st \<Longrightarrow> browser_activate_tab i st = Some st' \<Longrightarrow> browser_reach fw start st'"
| navigate: "browser_reach fw start st \<Longrightarrow> browser_navigate_to a st = Some st' \<Longrightarrow> browser_reach fw start st'"
| open_tab: "browser_reach fw start st \<Longrightarrow> browser_open_tab a st = Some st' \<Longrightarrow> browser_reach fw start st'"
| snapshot: "browser_reach fw start st \<Longrightarrow> browser_save_page_snapshot fw t st = Some (st', p) \<Longrightarrow> browser_reach fw start st'"

inductive_simps browser_reach_iff: "browser_reach fw start st"

section \<open>Properties\<close>


definition demo_browser :: "unit browser_kernel" where
  "demo_browser = store_kernel.extend (demo_store\<lparr>g_fs :=
      [dir_entry ''/home'', dir_entry ''/downloads'', file_entry ''/downloads/PAGE-1.TXT'' ''keep me'',
       file_entry ''/home/.SNSX_BROWSER.TXT'' (unlines [''ACTIVE=9'', ''TAB=snsx://home''])]\<rparr>)
     \<lparr>g_browser = empty_browser, g_browser_address = ''''\<rparr>"

lemma demo_browser_load:
  "load_text (browser_set_default_state demo_browser) BROWSER_FILE 4096 = Some (unlines [''ACTIVE=9'', ''TAB=snsx://home''])"
  "run_lines browser_apply 0 (text_lines (unlines [''ACTIVE=9'', ''TAB=snsx://home''])) empty_browser =
     Some (empty_browser\<lparr>br_active_tab := 9, br_tabs := [''snsx://home'']\<rparr>)"
  by code_simp+


text \<open>Saving a page always comes to an end: the search for an unused name stops within as many steps as
  the table has entries, at the first free number.\<close>

theorem snapshot_name_found:
  assumes "n + length (g_fs st) < 2 ^ 31"
  shows "\<exists>i. snapshot_index st n = Some i \<and> n \<le> i \<and> i \<le> n + length (g_fs st) \<and>
    fs_find st (snapshot_path i) = None"
  using free_snapshot [OF assms] snapshot_index_finds [of n _ st] by fastforce

theorem snapshot_name_found_witness: "\<exists>i. snapshot_index demo_browser 1 = Some i \<and> 1 < i \<and> i \<le> 5"
proof -
  have "length (g_fs demo_browser) = 4" "fs_find demo_browser (snapshot_path 1) \<noteq> None" by code_simp+
  with snapshot_name_found [of 1 demo_browser] show ?thesis by (auto simp: le_less)
qed

text \<open>A page saved is found under the name returned with exactly its text, that name was not in use,
  and no other file but the browser's own settings file has changed.\<close>

theorem snapshot_saves_page:
  assumes "browser_save_page_snapshot fw content st = Some (st', Some path)" and "fs_ok (g_fs st)"
  shows "fs_find st path = None \<and> fs_read st' path = Some (content, ARM_FS_TEXT) \<and>
    (\<forall>q. q \<noteq> path \<and> q \<noteq> ''/downloads'' \<and> q \<noteq> BROWSER_FILE \<longrightarrow> fs_read st' q = fs_read st q)"
proof -
  let ?s = "fst (fs_mkdir st ''/downloads'')"
  obtain i where i: "snapshot_index ?s (length (br_downloads (g_browser ?s)) + 1) = Some i"
    using assms(1) by (auto simp: browser_save_page_snapshot_def Let_def split: option.splits)
  obtain s2 b where w: "fs_write ?s (snapshot_path i) content ARM_FS_TEXT = (s2, b)" by force
  have b: b "path = snapshot_path i" using assms(1) i w
    by (auto simp: browser_save_page_snapshot_def Let_def split: bool.splits)
  let ?s3 = "s2\<lparr>g_browser := g_browser s2\<lparr>br_downloads := (if length (br_downloads (g_browser s2)) < BROWSER_DOWNLOAD_MAX
        then br_downloads (g_browser s2) @ [strcopy_limit '''' (snapshot_path i) FS_PATH_MAX]
        else drop 1 (br_downloads (g_browser s2)) @ [strcopy_limit '''' (snapshot_path i) FS_PATH_MAX])\<rparr>\<rparr>"
  obtain s4 where s4: "browser_state_save ?s3 = Some s4" "st' = persist_flush_state fw s4"
    using assms(1) i w b by (auto simp: browser_save_page_snapshot_def Let_def)
  have ok: "fs_ok (g_fs ?s)" "fs_ok (g_fs s2)"
    using fs_ops_ok(4) [OF assms(2)] fs_write_ok [OF fs_ops_ok(4) [OF assms(2)]] w by blast+
  have rd: "fs_read s2 = (fs_read ?s)(path \<mapsto> (content, ARM_FS_TEXT))"
    using fs_read_write [OF ok(1)] w b by simp
  have save: "fs_read st' q = fs_read s2 q" if "q \<noteq> BROWSER_FILE" for q
  proof -
    have "fs_read st' q = fs_read s4 q" using fs_read_cong [of st' s4] s4(2) by simp
    also have "\<dots> = fs_read ?s3 q"
      using s4(1) fs_read_write_other(2) [of ?s3 q BROWSER_FILE] that ok(2) by (auto simp: browser_state_save_def)
    also have "\<dots> = fs_read s2 q" using fs_read_cong [of ?s3 s2] by simp
    finally show ?thesis .
  qed
  have free: "fs_find ?s path = None" using snapshot_index_None [OF i] b by simp
  have names: "path \<noteq> BROWSER_FILE" "path \<noteq> ''/downloads''"
    by (simp_all add: b(2) snapshot_path_eq BROWSER_FILE_def)
  have "fs_read ?s q = fs_read st q" if "q \<noteq> ''/downloads''" for q
    using fs_read_write_other(4) [OF assms(2) that] .
  then show ?thesis using rd save free names by (auto simp flip: fs_read_find)
qed

theorem snapshot_saves_page_witness:
  "\<exists>st' path. browser_save_page_snapshot no_firmware ''hello'' demo_browser = Some (st', Some path) \<and>
     fs_read st' ''/downloads/PAGE-1.TXT'' = Some (''keep me'', ARM_FS_TEXT) \<and> fs_read st' path = Some (''hello'', ARM_FS_TEXT)"
proof -
  have "map_option snd (browser_save_page_snapshot no_firmware ''hello'' demo_browser) = Some (Some ''/downloads/PAGE-2.TXT'')"
    by code_simp
  then obtain st' where s: "browser_save_page_snapshot no_firmware ''hello'' demo_browser = Some (st', Some ''/downloads/PAGE-2.TXT'')"
    by auto
  have "fs_ok (g_fs demo_browser)" "fs_read demo_browser ''/downloads/PAGE-1.TXT'' = Some (''keep me'', ARM_FS_TEXT)" by code_simp+
  with snapshot_saves_page [OF s] s show ?thesis by (simp add: BROWSER_FILE_def)
qed

text \<open>Toggling a bookmark that fits its slot turns its being bookmarked round, adds it in front or takes
  only it out, and toggling twice gives the same list back when there was room and it was not bookmarked.\<close>

theorem bookmark_toggle:
  assumes "length address < BROWSER_ADDRESS_MAX" and "distinct bs" and "toggled address bs = (bs', added)"
  shows "(address \<in> set bs' \<longleftrightarrow> address \<notin> set bs) \<and> added = (address \<in> set bs') \<and> distinct bs' \<and>
    set bs' - {address} \<subseteq> set bs \<and>
    (address \<notin> set bs \<and> length bs < BROWSER_BOOKMARK_MAX \<longrightarrow> toggled address bs' = (bs, False))"
proof -
  have s: "slot address = address" using assms(1) by (rule slot_fits)
  show ?thesis
    using assms(2,3) in_set_takeD [of _ "BROWSER_BOOKMARK_MAX - 1" bs] set_remove1_subset [of address bs]
    by (auto simp: toggled_def s split: if_splits)
qed

theorem bookmark_toggle_witness:
  "toggled ''a'' [''b'', ''c''] = ([''a'', ''b'', ''c''], True) \<and> toggled ''a'' [''a'', ''b'', ''c''] = ([''b'', ''c''], False)"
proof -
  have t: "toggled ''a'' [''b'', ''c''] = ([''a'', ''b'', ''c''], True)" by code_simp
  with bookmark_toggle [OF _ _ t] show ?thesis by (simp add: BROWSER_ADDRESS_MAX_def BROWSER_BOOKMARK_MAX_def)
qed

text \<open>A browser state within its bounds, with no line feed in an entry, whose text fits the buffer comes
  back entirely after it is saved over its file.\<close>

theorem browser_state_survives:
  assumes "browser_text_ok (g_browser st)" and "length (unlines (browser_lines (g_browser st))) < 4096"
    and "fs_ok (g_fs st)" and "fs_read st BROWSER_FILE = Some (old, ARM_FS_TEXT)"
  shows "\<exists>st1 st2. browser_state_save st = Some st1 \<and> browser_state_load (st1\<lparr>g_browser := b\<rparr>) = Some st2 \<and>
    g_browser st2 = g_browser st"
proof -
  let ?t = "unlines (browser_lines (g_browser st))"
  have t: "save_text (browser_lines (g_browser st)) 4096 = Some ?t" using assms(2) by (simp add: save_text_def)
  have nd: "not_dir st BROWSER_FILE" using assms(4) by (simp add: not_dir_def ARM_FS_TEXT_def ARM_FS_DIR_def)
  obtain st1 r where w: "fs_write_if_changed st BROWSER_FILE ?t ARM_FS_TEXT = (st1, r)" by force
  have r: r using fs_write_if_changed_file [OF assms(3) nd, of ?t] assms(2,4) w by (simp add: FS_MAX_FILE_SIZE_def)
  let ?st = "browser_set_default_state (st1\<lparr>g_browser := b\<rparr>)"
  have same: "load_text ?st BROWSER_FILE 4096 = load_text st1 BROWSER_FILE 4096"
    by (simp add: load_text_def fs_find_def browser_set_default_state_def)
  obtain t' where l: "load_text ?st BROWSER_FILE 4096 = Some t'"
    "run_lines browser_apply 0 (text_lines t') empty_browser = Some (g_browser st)"
    using browser_file.reload_changed [OF assms(1) t _ assms(3), of 4096 BROWSER_FILE st1] w r same by auto
  have "br_tabs (g_browser st) \<noteq> []" "clamp_active (g_browser st) = g_browser st"
    using assms(1) by (auto simp: browser_text_ok_def browser_ok_def clamp_active_def)
  then have "\<exists>st2. browser_state_load (st1\<lparr>g_browser := b\<rparr>) = Some st2 \<and> g_browser st2 = g_browser st"
    using l by (simp add: browser_state_load_def Let_def)
  moreover have "browser_state_save st = Some st1" using t w by (simp add: browser_state_save_def)
  ultimately show ?thesis by blast
qed

theorem browser_state_survives_witness:
  "\<exists>st1 st2. browser_state_save (demo_browser\<lparr>g_browser := default_browser\<rparr>) = Some st1 \<and>
     browser_state_load (st1\<lparr>g_browser := empty_browser\<rparr>) = Some st2 \<and> g_browser st2 = default_browser"
proof -
  let ?st = "demo_browser\<lparr>g_browser := default_browser\<rparr>"
  have ok: "browser_text_ok (g_browser ?st)"
    using default_browser_ok by (simp add: browser_text_ok_def default_browser_def)
  have len: "length (unlines (browser_lines (g_browser ?st))) < 4096"
    using u32_to_dec_length [of 0] by (simp add: length_unlines browser_lines_def default_browser_def)
  have rd: "fs_ok (g_fs ?st)" "fs_read ?st BROWSER_FILE = Some (unlines [''ACTIVE=9'', ''TAB=snsx://home''], ARM_FS_TEXT)"
    by code_simp+
  from browser_state_survives [OF ok len rd, of empty_browser] show ?thesis by simp
qed

end
