(* ===== verification/Studio.thy ===== *)
theory Studio
  imports Browser NetHttp
begin

text \<open>
  Code Studio in \<open>src/arm64/kernel/main.c\<close>: the language of a file, the workspace it seeds, its
  text file, and running a source through the host's bridge with a POST request. A composition
  into a fixed array that overruns it is \<open>None\<close>. The end of the theory puts the load functions
  together in the order \<open>efi_main\<close> calls them.
\<close>

record code_studio_state =
  su_active_path :: string
  su_language :: string
  su_status :: string
  su_last_action :: string
  su_output :: string

record 'w studio_kernel = "'w browser_kernel" +
  g_studio :: code_studio_state

definition STUDIO_OUTPUT_MAX :: nat where "STUDIO_OUTPUT_MAX = 4096"

section \<open>Languages\<close>

definition studio_language_for_path :: "string \<Rightarrow> string" where
  "studio_language_for_path path =
     (case last_index (CHR ''.'') path of
        None \<Rightarrow> ''text''
      | Some i \<Rightarrow>
          let dot = drop i path
          in if dot = ''.py'' then ''python''
             else if dot = ''.js'' then ''javascript''
             else if dot = ''.c'' then ''c''
             else if dot = ''.cpp'' \<or> dot = ''.cc'' \<or> dot = ''.cxx'' then ''cpp''
             else if dot = ''.html'' \<or> dot = ''.htm'' then ''html''
             else if dot = ''.css'' then ''css''
             else if dot = ''.snsx'' then ''snsx'' else ''text'')"

section \<open>Its file\<close>

definition studio_lines :: "code_studio_state \<Rightarrow> string list" where
  "studio_lines s = [''PATH='' @ su_active_path s, ''LANG='' @ su_language s, ''ACTION='' @ su_last_action s]"

definition STUDIO_FILE :: string where "STUDIO_FILE = ''/home/.SNSX_STUDIO.TXT''"

definition studio_state_save :: "('w, 'a) studio_kernel_scheme \<Rightarrow> ('w, 'a) studio_kernel_scheme option" where
  "studio_state_save st =
     map_option (\<lambda>t. fst (fs_write_if_changed st STUDIO_FILE t ARM_FS_TEXT)) (save_text (studio_lines (g_studio st)) 512)"

definition studio_start :: code_studio_state where
  "studio_start = \<lparr>su_active_path = ''/projects/main.snsx'', su_language = ''snsx'',
     su_status = ''SNSX Code Studio is ready.'', su_last_action = ''idle'',
     su_output = ''Use EDIT to change the current file, RUN to execute it through the host bridge, and BUILD for compiled targets.'' @ [LF]\<rparr>"

definition studio_apply :: "nat \<Rightarrow> string \<Rightarrow> code_studio_state \<Rightarrow> code_studio_state option" where
  "studio_apply i line s =
     Some (if starts ''PATH='' line then s\<lparr>su_active_path := strcopy_limit (su_active_path s) (drop 5 line) FS_PATH_MAX\<rparr>
           else if starts ''LANG='' line then s\<lparr>su_language := strcopy_limit (su_language s) (drop 5 line) 16\<rparr>
           else if starts ''ACTION='' line then s\<lparr>su_last_action := strcopy_limit (su_last_action s) (drop 7 line) 24\<rparr>
           else s)"

definition studio_state_load :: "('w, 'a) studio_kernel_scheme \<Rightarrow> ('w, 'a) studio_kernel_scheme option" where
  "studio_state_load st =
     (case load_text st STUDIO_FILE 512 of
        None \<Rightarrow> studio_state_save (st\<lparr>g_studio := studio_start\<rparr>)
      | Some t \<Rightarrow> map_option (\<lambda>s. st\<lparr>g_studio := s\<rparr>) (run_lines studio_apply 0 (text_lines t) studio_start))"

section \<open>The workspace\<close>

definition workspace :: "(string \<times> string) list" where
  "workspace =
   [(''/projects/main.snsx'',
     unlines [''bring <module/std.io> as io'',
      ''bring <module/std.ai> as ai'',
      '''',
      ''mind summarize'',
      ''    takes text: String'',
      ''    gives String'',
      ''    from '' @ [CHR 0x22] @ ''Summarize this text'' @ [CHR 0x22],
      '''',
      ''entry'',
      ''    show '' @ [CHR 0x22] @ ''hello from SNSX Code Studio'' @ [CHR 0x22],
      ''    hold summary = '' @ [CHR 0x22] @ ''Edit this file, then run it from the Studio app.'' @ [CHR 0x22] @ '' |> summarize'',
      ''    show summary'',
      ''    0'']),
    (''/projects/main.py'',
     unlines [''print('' @ [CHR 0x27] @ ''hello from SNSX Python bridge'' @ [CHR 0x27] @ '')'']),
    (''/projects/main.js'',
     unlines [''console.log('' @ [CHR 0x27] @ ''hello from SNSX JavaScript bridge'' @ [CHR 0x27] @ '');'']),
    (''/projects/main.c'',
     unlines [''#include <stdio.h>'',
      ''int main(void) {'',
      ''    puts('' @ [CHR 0x22] @ ''hello from SNSX C bridge'' @ [CHR 0x22] @ '');'',
      ''    return 0;'',
      ''}'']),
    (''/projects/main.cpp'',
     unlines [''#include <iostream>'',
      ''int main() {'',
      ''    std::cout << '' @ [CHR 0x22] @ ''hello from SNSX C++ bridge'' @ [CHR 0x22] @ '' << std::endl;'',
      ''    return 0;'',
      ''}'']),
    (''/projects/index.html'',
     unlines [''<!doctype html>'',
      ''<html><head><title>SNSX Preview</title></head><body><h1>SNSX HTML Workspace</h1><p>Edit this file in Code Studio.</p></body></html>'']),
    (''/projects/style.css'',
     unlines [''body { font-family: sans-serif; background: #eef3f8; color: #223; }'',
      ''h1 { color: #0b5bd3; }''])]"

definition studio_seed_workspace :: "'a kernel_scheme \<Rightarrow> 'a kernel_scheme" where
  "studio_seed_workspace st =
     fold (\<lambda>(path, body) st. fst (fs_write_if_changed st path body ARM_FS_TEXT)) workspace
       (fst (fs_mkdir (fst (fs_mkdir st ''/projects'')) ''/downloads''))"

definition studio_set_status :: "string \<Rightarrow> code_studio_state \<Rightarrow> code_studio_state" where
  "studio_set_status s u = u\<lparr>su_status := strcopy_limit (su_status u) s 128\<rparr>"

definition studio_set_output :: "string \<Rightarrow> code_studio_state \<Rightarrow> code_studio_state" where
  "studio_set_output s u = u\<lparr>su_output := strcopy_limit (su_output u) s STUDIO_OUTPUT_MAX\<rparr>"

definition studio_select_path :: "string \<Rightarrow> ('w, 'a) studio_kernel_scheme \<Rightarrow> ('w, 'a) studio_kernel_scheme option" where
  "studio_select_path path st =
     (if path = [] then Some st
      else let u = g_studio st;
               u = u\<lparr>su_active_path := strcopy_limit (su_active_path u) path FS_PATH_MAX,
                     su_language := strcopy_limit (su_language u) (studio_language_for_path path) 16\<rparr>
           in studio_state_save (st\<lparr>g_studio := studio_set_status ''Selected the active workspace file.'' u\<rparr>))"

definition studio_resolve_input_path :: "string \<Rightarrow> code_studio_state \<Rightarrow> string option" where
  "studio_resolve_input_path input u =
     (if input = [] then Some (strcopy_limit '''' (su_active_path u) FS_PATH_MAX)
      else if hd input = CHR ''/'' then Some (strcopy_limit '''' input FS_PATH_MAX)
      else let path = strcopy_limit '''' ''/projects/'' FS_PATH_MAX @ input
           in if length path + 1 > FS_PATH_MAX then None else Some path)"

definition studio_ensure_path_exists :: "string \<Rightarrow> 'a kernel_scheme \<Rightarrow> 'a kernel_scheme" where
  "studio_ensure_path_exists path st =
     (if path = [] then st
      else let st = fst (fs_mkdir st ''/projects'')
           in if fs_find st path = None then fst (fs_write st path [] ARM_FS_TEXT) else st)"

definition studio_collect_source ::
    "string \<Rightarrow> ('w, 'a) studio_kernel_scheme \<Rightarrow> ('w, 'a) studio_kernel_scheme \<times> bytes option" where
  "studio_collect_source path st =
     (case fs_find st path of
        Some e \<Rightarrow>
          if e_type e = ARM_FS_TEXT then (st, Some (take (e_size e) (e_data e)))
          else (st\<lparr>g_studio := studio_set_output (''The selected workspace file does not exist yet.'' @ [LF])
                  (studio_set_status ''Studio could not find that source file.'' (g_studio st))\<rparr>, None)
      | None \<Rightarrow> (st\<lparr>g_studio := studio_set_output (''The selected workspace file does not exist yet.'' @ [LF])
                  (studio_set_status ''Studio could not find that source file.'' (g_studio st))\<rparr>, None))"

section \<open>The bridge\<close>

definition studio_route :: "string \<Rightarrow> code_studio_state \<Rightarrow> string option" where
  "studio_route action u =
     (let route = strcopy_limit '''' action NET_URL_MAX @ ''?lang='' @ su_language u @ ''&path='' @ su_active_path u
      in if length route + 1 > NET_URL_MAX then None else Some route)"

definition saved_outcome ::
    "'h \<Rightarrow> bool \<Rightarrow> ('w, 'a) studio_kernel_scheme \<Rightarrow> (('w, 'a) studio_kernel_scheme \<times> 'h \<times> bool) outcome" where
  "saved_outcome h r st = (case studio_state_save st of None \<Rightarrow> Undefined | Some st \<Rightarrow> Done (st, h, r))"

definition BRIDGE_DOWN :: string where
  "BRIDGE_DOWN = ''SNSX could not reach the host dev bridge.'' @ [LF] @ ''Run `make dev-bridge` on the host Mac and try again.'' @ [LF]"

definition studio_execute_bridge ::
    "nat \<Rightarrow> 'd nic \<Rightarrow> (('d, 'b) http_host_scheme \<Rightarrow> ('d, 'b) http_host_scheme) \<Rightarrow> string \<Rightarrow>
     ('w, 'a) studio_kernel_scheme \<Rightarrow> ('d, 'b) http_host_scheme \<Rightarrow>
     (('w, 'a) studio_kernel_scheme \<times> ('d, 'b) http_host_scheme \<times> bool) outcome" where
  "studio_execute_bridge fuel nic refresh action st h =
     (if action = [] then Done (st, h, False)
      else case studio_collect_source (su_active_path (g_studio st)) st of
        (st, None) \<Rightarrow> saved_outcome h False st
      | (st, Some source) \<Rightarrow>
          (case studio_route action (g_studio st) of
             None \<Rightarrow> Undefined
           | Some route \<Rightarrow>
               (case netstack_build_dev_bridge_url route NET_URL_MAX of
                  None \<Rightarrow> saved_outcome h False (st\<lparr>g_studio :=
                    studio_set_output (''SNSX could not build the host bridge request URL.'' @ [LF])
                      (studio_set_status ''Dev bridge request URL is too long.'' (g_studio st))\<rparr>)
                | Some bridge_url \<Rightarrow>
                    (case netstack_http_request_text fuel nic refresh ''POST'' bridge_url
                            (Some ''text/plain; charset=utf-8'') source STUDIO_OUTPUT_MAX h of
                       Undefined \<Rightarrow> Undefined
                     | OutOfFuel \<Rightarrow> OutOfFuel
                     | Done (h, out, ok) \<Rightarrow>
                         let u = (g_studio st)\<lparr>su_output := out\<rparr>;
                             u = (if ok then studio_set_status (if action = ''run'' then ''Run completed through the host dev bridge.''
                                                                else ''Build completed through the host dev bridge.'') u
                                  else studio_set_status ''The host dev bridge is offline or returned an error.''
                                         (if out = [] then studio_set_output BRIDGE_DOWN u else u));
                             u = u\<lparr>su_last_action := strcopy_limit (su_last_action u) action 24\<rparr>
                         in saved_outcome h ok (st\<lparr>g_studio := u\<rparr>)))))"

section \<open>Loading a session\<close>

text \<open>The part of \<open>efi_main\<close> between the discovery of the disk and the network: what the file
  table says is loaded component by component.\<close>

definition load_session :: "('w, 'a) studio_kernel_scheme \<Rightarrow> ('w, 'a) studio_kernel_scheme option" where
  "load_session st =
     Option.bind (desktop_load_config st) (\<lambda>st.
     Option.bind (wireless_profiles_load st) (\<lambda>st.
     Option.bind (store_load_state st) (\<lambda>st.
     Option.bind (browser_state_load st) (\<lambda>st.
     studio_state_load (studio_seed_workspace st)))))"

section \<open>Facts about the studio\<close>

definition studio_ok :: "code_studio_state \<Rightarrow> bool" where
  "studio_ok s \<longleftrightarrow> name_ok FS_PATH_MAX (su_active_path s) \<and> name_ok 16 (su_language s) \<and> name_ok 24 (su_last_action s)"

definition studio_kept :: "code_studio_state \<Rightarrow> code_studio_state" where
  "studio_kept s = s\<lparr>su_status := su_status studio_start, su_output := su_output studio_start\<rparr>"

lemma studio_apply_simps:
  "studio_apply i (''PATH='' @ t) s = Some (s\<lparr>su_active_path := strcopy_limit (su_active_path s) t FS_PATH_MAX\<rparr>)"
  "studio_apply i (''LANG='' @ t) s = Some (s\<lparr>su_language := strcopy_limit (su_language s) t 16\<rparr>)"
  "studio_apply i (''ACTION='' @ t) s = Some (s\<lparr>su_last_action := strcopy_limit (su_last_action s) t 24\<rparr>)"
  by (simp_all add: studio_apply_def)

lemma studio_reread: "studio_ok s \<Longrightarrow> run_lines studio_apply 0 (studio_lines s) studio_start = Some (studio_kept s)"
  unfolding studio_lines_def run_lines.simps studio_apply_simps option.case
  by (simp add: studio_ok_def name_ok_copy studio_kept_def studio_start_def)

interpretation studio_file: line_store studio_ok studio_lines studio_apply studio_start studio_kept
  by unfold_locales (simp_all add: studio_reread, simp add: studio_lines_def studio_ok_def name_ok_def)

lemma studio_text_fits: "studio_ok s \<Longrightarrow> save_text (studio_lines s) 512 = Some (unlines (studio_lines s))"
  by (simp add: save_text_def length_unlines studio_lines_def studio_ok_def name_ok_def FS_PATH_MAX_def)

text \<open>A relative name is accepted exactly when it leaves room for \<open>/projects/\<close>; a longer one
  overruns the path.\<close>

lemma studio_resolve_relative:
  assumes "input \<noteq> []" and "hd input \<noteq> CHR ''/''"
  shows "studio_resolve_input_path input u = (if length input \<le> 85 then Some (''/projects/'' @ input) else None)"
  using assms by (simp add: studio_resolve_input_path_def strcopy_limit_fits FS_PATH_MAX_def)

lemma saved_outcome_fuel [simp]: "saved_outcome h r st \<noteq> OutOfFuel"
  by (simp add: saved_outcome_def split: option.split)

lemma studio_returns: "studio_execute_bridge (Suc fuel) nic refresh action st h \<noteq> OutOfFuel"
proof -
  have post: "netstack_http_request_text (Suc fuel) nic refresh ''POST'' u c b n h \<noteq> OutOfFuel" for u c b n
    by (rule not_get_returns) simp
  show ?thesis
    unfolding studio_execute_bridge_def
    by (simp add: Let_def post del: netstack_http_request_text.simps split: option.split prod.split outcome.split)
qed

section \<open>Facts about the workspace\<close>

lemma workspace_facts:
  "distinct (map fst workspace)"
  "list_all (\<lambda>(p, b). length b \<le> FS_MAX_FILE_SIZE \<and> p \<noteq> ''/projects'' \<and> p \<noteq> ''/downloads'') workspace"
  by code_simp+

lemma fold_write_facts:
  assumes "fs_ok (g_fs st)" and "distinct (map fst ws)" and "list_all (\<lambda>(p, b). length b \<le> FS_MAX_FILE_SIZE) ws"
  shows "fs_ok (g_fs (fold (\<lambda>(p, b) st. fst (fs_write_if_changed st p b ARM_FS_TEXT)) ws st)) \<and>
    (\<forall>q. q \<notin> fst ` set ws \<longrightarrow> fs_read (fold (\<lambda>(p, b) st. fst (fs_write_if_changed st p b ARM_FS_TEXT)) ws st) q = fs_read st q) \<and>
    (\<forall>(p, b)\<in>set ws. not_dir st p \<and> fs_read st p \<noteq> None \<longrightarrow>
       fs_read (fold (\<lambda>(p, b) st. fst (fs_write_if_changed st p b ARM_FS_TEXT)) ws st) p = Some (b, ARM_FS_TEXT))"
  using assms
proof (induction ws arbitrary: st)
  case (Cons w ws)
  obtain p b where w: "w = (p, b)" by force
  let ?s = "fst (fs_write_if_changed st p b ARM_FS_TEXT)"
  let ?e = "fold (\<lambda>(p, b) st. fst (fs_write_if_changed st p b ARM_FS_TEXT)) ws ?s"
  have ok: "fs_ok (g_fs ?s)" using fs_ops_ok(2) [OF Cons.prems(1)] .
  have IH: "fs_ok (g_fs ?e)" "\<And>q. q \<notin> fst ` set ws \<Longrightarrow> fs_read ?e q = fs_read ?s q"
    "\<And>p b. (p, b) \<in> set ws \<Longrightarrow> not_dir ?s p \<Longrightarrow> fs_read ?s p \<noteq> None \<Longrightarrow> fs_read ?e p = Some (b, ARM_FS_TEXT)"
    using Cons.IH [OF ok] Cons.prems(2,3) w by fastforce+
  note other = fs_read_write_other(2) [OF Cons.prems(1)]
  have p: "p \<notin> fst ` set ws" using Cons.prems(2) w by simp
  have "fs_read ?e p = Some (b, ARM_FS_TEXT)" if "not_dir st p" "fs_read st p \<noteq> None"
  proof -
    have "snd (fs_write_if_changed st p b ARM_FS_TEXT)"
      using fs_write_if_changed_file [OF Cons.prems(1) that] Cons.prems(3) w by simp
    then have "fs_read ?s p = Some (b, ARM_FS_TEXT)"
      using fs_read_write_if_changed [OF Cons.prems(1), of p b ARM_FS_TEXT ?s] by (simp add: prod_eq_iff)
    then show ?thesis using IH(2) [OF p] by simp
  qed
  moreover have "fs_read ?e q = Some (c, ARM_FS_TEXT)" if "(q, c) \<in> set ws" "not_dir st q" "fs_read st q \<noteq> None" for q c
  proof -
    have "q \<noteq> p" using that(1) p by force
    then show ?thesis using IH(3) [OF that(1)] that(2,3) other by (simp add: not_dir_def)
  qed
  ultimately show ?case using IH(1,2) other w by auto
qed simp

lemma seed_facts:
  assumes "fs_ok (g_fs st)"
  shows "fs_ok (g_fs (studio_seed_workspace st))"
    and "(p, b) \<in> set workspace \<Longrightarrow> not_dir st p \<Longrightarrow> fs_read st p \<noteq> None \<Longrightarrow>
      fs_read (studio_seed_workspace st) p = Some (b, ARM_FS_TEXT)"
    and "q \<notin> fst ` set workspace \<Longrightarrow> q \<noteq> ''/projects'' \<Longrightarrow> q \<noteq> ''/downloads'' \<Longrightarrow>
      fs_read (studio_seed_workspace st) q = fs_read st q"
proof -
  let ?m = "fst (fs_mkdir (fst (fs_mkdir st ''/projects'')) ''/downloads'')"
  have ok: "fs_ok (g_fs (fst (fs_mkdir st ''/projects'')))" "fs_ok (g_fs ?m)"
    using fs_ops_ok(4) [OF assms] fs_ops_ok(4) [OF fs_ops_ok(4) [OF assms]] by blast+
  have sizes: "list_all (\<lambda>(p, b). length b \<le> FS_MAX_FILE_SIZE) workspace"
    using workspace_facts(2) by (auto simp: list_all_iff)
  note f = fold_write_facts [OF ok(2) workspace_facts(1) sizes]
  have m: "fs_read ?m q = fs_read st q" if "q \<noteq> ''/projects''" "q \<noteq> ''/downloads''" for q
    using fs_read_write_other(4) [OF ok(1) that(2)] fs_read_write_other(4) [OF assms that(1)] by simp
  show "fs_ok (g_fs (studio_seed_workspace st))" using f by (simp add: studio_seed_workspace_def)
  show "fs_read (studio_seed_workspace st) q = fs_read st q"
    if "q \<notin> fst ` set workspace" "q \<noteq> ''/projects''" "q \<noteq> ''/downloads''"
    using f m that by (simp add: studio_seed_workspace_def)
  assume a: "(p, b) \<in> set workspace" "not_dir st p" "fs_read st p \<noteq> None"
  then have "p \<noteq> ''/projects''" "p \<noteq> ''/downloads''" using workspace_facts(2) by (auto simp: list_all_iff)
  then have "not_dir ?m p" "fs_read ?m p \<noteq> None" using m a by (simp_all add: not_dir_def)
  then show "fs_read (studio_seed_workspace st) p = Some (b, ARM_FS_TEXT)"
    using f a(1) by (auto simp: studio_seed_workspace_def)
qed

section \<open>Facts about loading a session\<close>

text \<open>The file operations leave the settings in memory alone.\<close>

definition desktop_view :: "('w, 'a) desktop_kernel_scheme \<Rightarrow> desktop_state \<times> wifi_profile list \<times> bluetooth_device list" where
  "desktop_view st = (g_desktop st, g_wifi_profiles st, g_bluetooth_devices st)"

lemma desktop_view_ops [simp]:
  "desktop_view (fst (fs_write_if_changed st p d t)) = desktop_view st"
  "desktop_view (fst (fs_remove st p)) = desktop_view st"
  "desktop_view (fst (fs_mkdir st p)) = desktop_view st"
  by (auto simp: desktop_view_def fs_write_def fs_write_if_changed_def fs_remove_def fs_mkdir_def fs_push_def store_at_def
      persist_mark_dirty_def split: option.splits)

lemma desktop_view_sync [simp]: "desktop_view (sync_file j st) = desktop_view st"
  by (auto simp: sync_file_def Let_def split: option.splits)

lemma fold_keeps: "(\<And>x st. P (f x st) = P st) \<Longrightarrow> P (fold f xs st) = P st"
  by (induction xs arbitrary: st) simp_all

lemma desktop_view_store_sync [simp]: "desktop_view (store_sync_files st) = desktop_view st"
  by (simp add: store_sync_files_def fold_keeps [where P = desktop_view])

lemma desktop_view_more [simp]:
  "desktop_view (st\<lparr>g_store_installed := s\<rparr>) = desktop_view st"
  "desktop_view (br\<lparr>g_browser := b\<rparr>) = desktop_view br"
  "desktop_view (br\<lparr>g_browser_address := a\<rparr>) = desktop_view br"
  "desktop_view (su\<lparr>g_studio := u\<rparr>) = desktop_view su"
  by (simp_all add: desktop_view_def)

lemma desktop_view_store_save: "store_save_state st = Some st' \<Longrightarrow> desktop_view st' = desktop_view st"
  by (auto simp: store_save_state_def)

lemma desktop_view_store_load: "store_load_state st = Some st' \<Longrightarrow> desktop_view st' = desktop_view st"
  by (auto simp: store_load_state_def Let_def split: option.splits if_splits dest: desktop_view_store_save)

text \<open>What the later loads keep of the earlier ones: the settings, and the file table's invariant.\<close>

definition keeps_settings :: "('w, 'a) store_kernel_scheme \<Rightarrow> ('w, 'a) store_kernel_scheme \<Rightarrow> bool" where
  "keeps_settings st st' \<longleftrightarrow> desktop_view st' = desktop_view st \<and> g_store_installed st' = g_store_installed st \<and>
     (fs_ok (g_fs st) \<longrightarrow> fs_ok (g_fs st'))"

lemma keeps_trans: "keeps_settings a b \<Longrightarrow> keeps_settings b c \<Longrightarrow> keeps_settings a c"
  by (simp add: keeps_settings_def)

lemma keeps_ops:
  "keeps_settings st (fst (fs_write_if_changed st p d t))" "keeps_settings st (fst (fs_mkdir st p))"
  by (auto simp: keeps_settings_def intro: fs_ops_ok)

lemma keeps_browser_save: "browser_state_save st = Some st' \<Longrightarrow> keeps_settings st st'"
  by (auto simp: browser_state_save_def keeps_ops)

lemma keeps_browser_set:
  "keeps_settings st (st\<lparr>g_browser := b, g_browser_address := a\<rparr>)" "keeps_settings st (browser_set_default_state st)"
  by (simp_all add: keeps_settings_def browser_set_default_state_def)

lemma keeps_browser_load:
  assumes "browser_state_load st = Some st'"
  shows "keeps_settings st st'"
proof -
  have d: "keeps_settings st (browser_set_default_state st)" by (rule keeps_browser_set)
  have s: "keeps_settings st (browser_set_default_state st\<lparr>g_browser := b, g_browser_address := a\<rparr>)" for b a
    by (rule keeps_trans [OF d keeps_browser_set(1)])
  show ?thesis
    using assms
    by (auto simp: browser_state_load_def Let_def split: option.splits if_splits
        intro: keeps_trans [OF d keeps_browser_save] keeps_trans [OF s keeps_browser_save] s)
qed

lemma keeps_seed:
  fixes st :: "('w, 'a) store_kernel_scheme"
  shows "keeps_settings st (studio_seed_workspace st)"
proof -
  have fold: "keeps_settings s (fold (\<lambda>(p, b) st. fst (fs_write_if_changed st p b ARM_FS_TEXT)) ws s)" for ws and s :: "('w, 'a) store_kernel_scheme"
    by (induction ws arbitrary: s) (auto simp: keeps_settings_def fs_ops_ok)
  show ?thesis
    unfolding studio_seed_workspace_def
    by (rule keeps_trans [OF keeps_trans [OF keeps_ops(2) keeps_ops(2)] fold])
qed

lemma seed_browser:
  fixes st :: "('w, 'a) browser_kernel_scheme"
  shows "g_browser (studio_seed_workspace st) = g_browser st"
proof -
  have "g_browser (fold (\<lambda>(p, b) st. fst (fs_write_if_changed st p b ARM_FS_TEXT)) ws s) = g_browser s" for ws and s :: "('w, 'a) browser_kernel_scheme"
    by (induction ws arbitrary: s) auto
  then show ?thesis by (simp add: studio_seed_workspace_def)
qed

lemma keeps_studio_load: "studio_state_load st = Some st' \<Longrightarrow> keeps_settings st st' \<and> g_browser st' = g_browser st"
  by (auto simp: studio_state_load_def studio_state_save_def keeps_settings_def fs_ops_ok split: option.splits)

text \<open>The preferences are always within their ranges after a load.\<close>

definition desktop_bounded :: "desktop_state \<Rightarrow> bool" where
  "desktop_bounded d \<longleftrightarrow> unat (dt_theme d) < 4 \<and> 1 \<le> unat (dt_pointer_speed d) \<and> unat (dt_pointer_speed d) \<le> 5 \<and>
     unat (dt_network_preference d) < 4 \<and> length (dt_last_app d) < 32 \<and> length (dt_hostname d) < 32 \<and>
     length (dt_wifi_ssid d) < 32 \<and> length (dt_hotspot_name d) < 32"

lemma small_word: "0 \<le> v \<Longrightarrow> v < 2 ^ 31 \<Longrightarrow> unat (word_of_int v :: u32) = nat v"
  by (simp add: unat_eq_nat_uint word_of_int_inverse uint_word_of_int)

lemma desktop_apply_bounded: "desktop_apply i l d = Some d' \<Longrightarrow> desktop_bounded d \<Longrightarrow> desktop_bounded d'"
  using strcopy_limit_length [of 32]
  by (auto simp: desktop_apply_def with_int_def desktop_bounded_def theme_names_def small_word split: if_splits)

lemma desktop_load_facts:
  assumes "desktop_load_config st = Some st'"
  shows "desktop_bounded (g_desktop st')" and "fs_ok (g_fs st) \<Longrightarrow> fs_ok (g_fs st')"
proof -
  obtain d where d: "(case load_text st ''/home/.SNSX_DESKTOP.TXT'' 768 of
      None \<Rightarrow> Some default_desktop | Some t \<Rightarrow> run_lines desktop_apply 0 (text_lines t) default_desktop) = Some d"
    and s: "desktop_save_config (st\<lparr>g_desktop := d\<lparr>dt_launch_count := dt_launch_count d + 1\<rparr>\<rparr>) = Some st'"
    using assms by (auto simp: desktop_load_config_def desktop_set_default_preferences_def Let_def split: option.splits)
  have "desktop_bounded default_desktop" by (simp add: desktop_bounded_def default_desktop_def)
  then have "desktop_bounded d"
    using d run_lines_keeps [where P = desktop_bounded and f = desktop_apply, OF desktop_apply_bounded]
    by (auto split: option.splits)
  then show "desktop_bounded (g_desktop st')" using s by (auto simp: desktop_save_config_def desktop_bounded_def)
  show "fs_ok (g_fs st')" if "fs_ok (g_fs st)"
    using s that by (auto simp: desktop_save_config_def intro!: fs_ops_ok)
qed

lemma wifi_apply_length: "wifi_apply i l ps = Some ps' \<Longrightarrow> length ps = 8 \<Longrightarrow> length ps' = 8"
  by (auto simp: wifi_apply_def split: if_splits option.splits prod.splits)

lemma bluetooth_apply_length: "bluetooth_apply i l ps = Some ps' \<Longrightarrow> length ps = 8 \<Longrightarrow> length ps' = 8"
  by (auto simp: bluetooth_apply_def split: if_splits option.splits prod.splits)

lemma wireless_load_facts:
  assumes "wireless_profiles_load st = Some st'"
  shows "g_fs st' = g_fs st \<and> g_desktop st' = g_desktop st \<and> length (g_wifi_profiles st') = 8 \<and> length (g_bluetooth_devices st') = 8"
proof -
  obtain ws bs where l: "load_lines st ''/home/.SNSX_WIFI.TXT'' 1024 wifi_apply (replicate 8 no_wifi) = Some ws"
    "load_lines st ''/home/.SNSX_BT.TXT'' 1024 bluetooth_apply (replicate 8 no_bluetooth) = Some bs"
    and st': "st' = st\<lparr>g_wifi_profiles := ws, g_bluetooth_devices := bs\<rparr>"
    using assms by (auto simp: wireless_profiles_load_def WIFI_PROFILE_MAX_def BLUETOOTH_DEVICE_MAX_def split: option.splits)
  have "length ws = 8"
    using l(1) run_lines_keeps [where P = "\<lambda>ps. length ps = 8", OF wifi_apply_length]
    by (auto simp: load_lines_def split: option.splits)
  moreover have "length bs = 8"
    using l(2) run_lines_keeps [where P = "\<lambda>ps. length ps = 8", OF bluetooth_apply_length]
    by (auto simp: load_lines_def split: option.splits)
  ultimately show ?thesis using st' by simp
qed

section \<open>The first start\<close>

definition settings_files :: "string list" where
  "settings_files = [''/home/.SNSX_DESKTOP.TXT'', ''/home/.SNSX_WIFI.TXT'', ''/home/.SNSX_BT.TXT'',
     ''/home/.SNSX_STORE.TXT'', BROWSER_FILE, STUDIO_FILE]"

lemma load_text_none: "fs_read st q = None \<Longrightarrow> load_text st q n = None"
  by (simp add: load_text_def fs_read_find)

lemma settings_apart:
  "BROWSER_FILE \<notin> asset ` {..<8} \<union> set store_directories" "STUDIO_FILE \<notin> asset ` {..<8} \<union> set store_directories"
  "BROWSER_FILE \<notin> fst ` set workspace" "STUDIO_FILE \<notin> fst ` set workspace"
proof -
  have "list_all (\<lambda>i. asset i \<noteq> BROWSER_FILE \<and> asset i \<noteq> STUDIO_FILE) [0 ..< 8]" by code_simp
  then show "BROWSER_FILE \<notin> asset ` {..<8} \<union> set store_directories" "STUDIO_FILE \<notin> asset ` {..<8} \<union> set store_directories"
    by (auto simp: list_all_iff store_directories_def BROWSER_FILE_def STUDIO_FILE_def)
  have "list_all (\<lambda>(p, b). p \<noteq> BROWSER_FILE \<and> p \<noteq> STUDIO_FILE) workspace" by code_simp
  then show "BROWSER_FILE \<notin> fst ` set workspace" "STUDIO_FILE \<notin> fst ` set workspace"
    by (auto simp: list_all_iff)
qed

lemma store_sync_other:
  assumes "fs_ok (g_fs st)" and "q \<notin> asset ` {..<8} \<union> set store_directories"
  shows "fs_read (store_sync_files st) q = fs_read st q"
  using mkdirs_facts [OF assms(1), of store_directories] assms(2)
    fold_sync_facts [of "fold (\<lambda>d st. fst (fs_mkdir st d)) store_directories st" "[0 ..< 8]"]
  by (auto simp: store_sync_files_def atLeast0LessThan)

text \<open>A start without any settings file reaches the desktop.\<close>

lemma first_boot:
  assumes ok: "fs_ok (g_fs st)" and none: "\<forall>q\<in>set settings_files. fs_read st q = None"
  shows "\<exists>st'. load_session st = Some st'"
proof -
  have files: "fs_read st ''/home/.SNSX_DESKTOP.TXT'' = None" "fs_read st ''/home/.SNSX_WIFI.TXT'' = None"
    "fs_read st ''/home/.SNSX_BT.TXT'' = None" "fs_read st ''/home/.SNSX_STORE.TXT'' = None"
    "fs_read st BROWSER_FILE = None" "fs_read st STUDIO_FILE = None"
    using none by (simp_all add: settings_files_def)
  let ?d = "default_desktop\<lparr>dt_launch_count := dt_launch_count default_desktop + 1\<rparr>"
  have "desktop_ok default_desktop" by (simp add: desktop_ok_def default_desktop_def name_ok_def)
  moreover have "desktop_kept default_desktop = default_desktop" by (simp add: desktop_kept_def)
  ultimately obtain t where t: "save_text (desktop_lines ?d) 640 = Some t"
    using desktop_text_fits' [of default_desktop "dt_launch_count default_desktop + 1"] by auto
  let ?a = "fst (fs_write (st\<lparr>g_desktop := ?d\<rparr>) ''/home/.SNSX_DESKTOP.TXT'' t ARM_FS_TEXT)"
  have a: "desktop_load_config st = Some ?a"
    using t load_text_none [OF files(1), of 768]
    by (simp add: desktop_load_config_def Let_def desktop_set_default_preferences_def desktop_save_config_def)
  have oka: "fs_ok (g_fs ?a)" using fs_ops_ok(1) [of "st\<lparr>g_desktop := ?d\<rparr>"] ok by simp
  have ra: "fs_read ?a q = fs_read st q" if "q \<noteq> ''/home/.SNSX_DESKTOP.TXT''" for q
    using fs_read_write_other(1) [of "st\<lparr>g_desktop := ?d\<rparr>" q] ok that fs_read_cong [of "st\<lparr>g_desktop := ?d\<rparr>" st] by simp
  let ?b = "?a\<lparr>g_wifi_profiles := replicate WIFI_PROFILE_MAX no_wifi, g_bluetooth_devices := replicate BLUETOOTH_DEVICE_MAX no_bluetooth\<rparr>"
  have b: "wireless_profiles_load ?a = Some ?b"
    using ra [of "''/home/.SNSX_WIFI.TXT''"] ra [of "''/home/.SNSX_BT.TXT''"] files(2,3)
      load_text_none [of ?a "''/home/.SNSX_WIFI.TXT''" 1024] load_text_none [of ?a "''/home/.SNSX_BT.TXT''" 1024]
    by (simp add: wireless_profiles_load_def load_lines_def)
  have okb: "fs_ok (g_fs ?b)" and rb: "\<And>q. fs_read ?b q = fs_read ?a q"
    using oka fs_read_cong [of ?b ?a] by simp_all
  let ?c0 = "store_sync_files (?b\<lparr>g_store_installed := with_essentials store_defaults\<rparr>)"
  have okc0: "fs_ok (g_fs ?c0)" "g_store_installed ?c0 = with_essentials store_defaults"
    using store_sync_facts [of "?b\<lparr>g_store_installed := with_essentials store_defaults\<rparr>"] okb by simp_all
  have "\<exists>c. store_save_state ?c0 = Some c"
    using store_text_fits [of "with_essentials store_defaults"] okc0(2) length_store_defaults
    by (auto simp: store_save_state_def length_with_essentials)
  then obtain c where c0: "store_save_state ?c0 = Some c" by blast
  have "load_text ?b ''/home/.SNSX_STORE.TXT'' 1024 = None"
    using rb ra files(4) by (intro load_text_none) simp
  then have c: "store_load_state ?b = Some c" using c0 by (simp add: store_load_state_def Let_def)
  note cf = store_save_facts [OF c0 okc0(1)]
  have rc: "fs_read c q = fs_read ?a q" if "q \<notin> asset ` {..<8} \<union> set store_directories" "q \<noteq> ''/home/.SNSX_STORE.TXT''" for q
    using cf that store_sync_other [of "?b\<lparr>g_store_installed := with_essentials store_defaults\<rparr>" q] okb
      fs_read_cong [of "?b\<lparr>g_store_installed := with_essentials store_defaults\<rparr>" ?a] by simp
  let ?d0 = "browser_set_default_state c"
  have rd0: "fs_read ?d0 = fs_read c" by (rule fs_read_cong) (simp add: browser_set_default_state_def)
  have "fs_read ?d0 BROWSER_FILE = None"
    using rd0 rc [OF settings_apart(1)] ra files(5) by (simp add: BROWSER_FILE_def)
  moreover have "save_text (browser_lines default_browser) 4096 = Some (unlines (browser_lines default_browser))"
    using u32_to_dec_length [of 0] by (simp add: save_text_def length_unlines browser_lines_def default_browser_def)
  ultimately have d: "browser_state_load c = Some (fst (fs_write_if_changed ?d0 BROWSER_FILE (unlines (browser_lines default_browser)) ARM_FS_TEXT))"
    (is "_ = Some ?d1")
    using load_text_none [of ?d0 BROWSER_FILE 4096]
    by (simp add: browser_state_load_def Let_def browser_state_save_def browser_set_default_state_def)
  have okd: "fs_ok (g_fs ?d0)" using cf by (simp add: browser_set_default_state_def)
  have okd1: "fs_ok (g_fs ?d1)" using fs_ops_ok(2) [OF okd] .
  have "fs_read ?d1 STUDIO_FILE = fs_read ?d0 STUDIO_FILE"
    by (rule fs_read_write_other(2) [OF okd]) (simp add: BROWSER_FILE_def STUDIO_FILE_def)
  also have "\<dots> = None" using rd0 rc [OF settings_apart(2)] ra files(6) by (simp add: STUDIO_FILE_def)
  finally have "fs_read (studio_seed_workspace ?d1) STUDIO_FILE = None"
    using seed_facts(3) [OF okd1 settings_apart(4)] by (simp add: STUDIO_FILE_def)
  then have "load_text (studio_seed_workspace ?d1) STUDIO_FILE 512 = None" by (rule load_text_none)
  moreover have "studio_ok studio_start" by (simp add: studio_ok_def studio_start_def name_ok_def FS_PATH_MAX_def)
  ultimately have "\<exists>e. studio_state_load (studio_seed_workspace ?d1) = Some e"
    using studio_text_fits [of studio_start]
    by (simp add: studio_state_load_def studio_state_save_def)
  then show ?thesis using a b c d by (auto simp: load_session_def)
qed

definition demo_studio :: "unit studio_kernel" where
  "demo_studio = browser_kernel.extend (demo_browser\<lparr>g_fs :=
      [dir_entry ''/home'', dir_entry ''/projects'', file_entry ''/projects/main.py'' ''edited'',
       file_entry ''/home/.SNSX_DESKTOP.TXT'' (unlines [''THEME=77'', ''POINTERSPEED=9'', ''HOSTNAME=LAB''])]\<rparr>)
     \<lparr>g_studio = studio_start\<rparr>"

lemma demo_studio_ok: "fs_ok (g_fs demo_studio)"
  "load_text demo_studio ''/home/.SNSX_DESKTOP.TXT'' 768 = Some (unlines [''THEME=77'', ''POINTERSPEED=9'', ''HOSTNAME=LAB''])"
  "run_lines desktop_apply 0 (text_lines (unlines [''THEME=77'', ''POINTERSPEED=9'', ''HOSTNAME=LAB''])) default_desktop =
     Some (default_desktop\<lparr>dt_hostname := ''LAB''\<rparr>)"
  "fs_read demo_studio ''/projects/main.py'' = Some (''edited'', ARM_FS_TEXT)"
  by code_simp+

section \<open>Properties\<close>





text \<open>Running or building always comes back with an answer of the bridge, an error text or undefined
  behaviour: the POST it sends follows no redirect, so one activation of the HTTP client is enough.\<close>

theorem studio_bridge_returns:
  "studio_execute_bridge (Suc fuel) nic refresh action st h \<noteq> OutOfFuel"
  by (rule studio_returns)

text \<open>Loading a session on a machine that has none of the settings files always succeeds.\<close>

theorem first_session_loads:
  assumes "fs_ok (g_fs st)" and "\<forall>q\<in>set settings_files. fs_read st q = None"
  shows "\<exists>st'. load_session st = Some st'"
  using assms by (rule first_boot)

theorem first_session_loads_witness:
  "\<exists>st'. load_session (demo_studio\<lparr>g_fs := [dir_entry ''/home'']\<rparr>) = Some st'"
proof -
  have "fs_ok (g_fs (demo_studio\<lparr>g_fs := [dir_entry ''/home'']\<rparr>))"
    "\<forall>q\<in>set settings_files. fs_read (demo_studio\<lparr>g_fs := [dir_entry ''/home'']\<rparr>) q = None"
    by (simp add: fs_ok_def dir_entry_def entry_ok_def FS_MAX_ENTRIES_def FS_PATH_MAX_def FS_MAX_FILE_SIZE_def has_parent_in_def parent_directory_def)
       (simp add: settings_files_def fs_read_def fs_find_def dir_entry_def BROWSER_FILE_def STUDIO_FILE_def)
  then show ?thesis by (rule first_session_loads)
qed

end
