(* ===== verification/Connection.thy ===== *)
theory Connection
  imports E1000Wire Studio "HOL-Library.Monad_Syntax"
begin

text \<open>
  Connecting to the network, \<open>src/arm64/kernel/main.c\<close>: finding the firmware's network protocol, the survey of
  the network hardware, bringing the wired adapter up and the texts about all this that the screens show. The state
  is the rest of \<open>g_network\<close> with \<open>g_netdiag\<close>, on top of the stack and the driver. What the firmware offers is
  the record \<open>net_firmware\<close>. A result \<open>None\<close> means that a text outgrows its array.
\<close>

unbundle bit_operations_syntax

section \<open>The firmware\<close>

text \<open>The mode block of a network protocol, which its functions may change.\<close>

record snp_mode =
  md_state :: u32
  md_hw_address_size :: u32
  md_max_packet_size :: u32
  md_if_type :: u32
  md_current_address :: "u8 list"
  md_permanent_address :: "u8 list"
  md_media_present_supported :: bool
  md_media_present :: bool

record 'd snp =
  snp_frames :: "'d simple_network"
  snp_mode_block :: "('d card \<Rightarrow> snp_mode) option"
  snp_start :: "('d card \<Rightarrow> 'd card \<times> bool) option"
  snp_initialize :: "('d card \<Rightarrow> 'd card \<times> bool) option"
  snp_receive_filters :: "('d card \<Rightarrow> 'd card) option"

datatype guid = GUID_SIMPLE_NETWORK | GUID_PXE_BASE_CODE | GUID_IP4 | GUID_UDP4 | GUID_TCP4 | GUID_DHCP4

text \<open>
  The protocols of the handles that have one (None: the search fails), the answer of \<open>locate_protocol\<close>, the
  number of handles with a protocol, and the place of the adapter behind a handle.
\<close>

record 'd net_firmware =
  platform :: "'d firmware"
  snp_search :: "'d snp option list option"
  snp_located :: "'d snp option"
  handle_search :: "guid \<Rightarrow> nat option"
  pci_location :: "nat \<Rightarrow> (u32 \<times> u32 \<times> u32 \<times> u32) option"

record net_diagnostics =
  nd_snp :: u32
  nd_pxe :: u32
  nd_ip4 :: u32
  nd_udp4 :: u32
  nd_tcp4 :: u32
  nd_dhcp4 :: u32
  nd_pci_network :: u32
  nd_firmware_stack :: string
  nd_hardware :: string
  nd_wireless :: string

record 'd network = "'d e1000_driver http_host" +
  nw_available :: bool
  nw_native_available :: bool
  nw_media_present :: bool
  nw_media_present_supported :: bool
  nw_started :: bool
  nw_dhcp_ready :: bool
  nw_internet_ready :: bool
  nw_services_ready :: bool
  nw_wifi_profile_ready :: bool
  nw_hotspot_profile_ready :: bool
  nw_mode_state :: u32
  nw_max_packet_size :: u32
  nw_if_type :: u32
  nw_hw_address_size :: u32
  nw_preference :: u32
  nw_protocol :: "'d snp option"
  nw_driver_name :: string
  nw_mac :: string
  nw_permanent_mac :: string
  nw_transport :: string
  nw_preferred_transport :: string
  nw_hostname :: string
  nw_profile :: string
  nw_internet :: string
  nw_capabilities :: string
  nw_status :: string
  g_netdiag :: net_diagnostics

definition put :: "nat \<Rightarrow> string \<Rightarrow> string" where "put limit t = strcopy_limit '''' t limit"

text \<open>What \<open>strcat\<close> makes of an array of that size.\<close>

definition cat :: "nat \<Rightarrow> string \<Rightarrow> string \<Rightarrow> string option" where
  "cat limit s t = (if length s + length t + 1 > limit then None else Some (s @ t))"

text \<open>Parts that follow each other.\<close>

fun cat_all :: "nat \<Rightarrow> string \<Rightarrow> string list \<Rightarrow> string option" where
  "cat_all limit s [] = Some s"
| "cat_all limit s (t # ts) = Option.bind (cat limit s t) (\<lambda>s. cat_all limit s ts)"

definition on_card :: "('d card \<Rightarrow> 'd card) \<Rightarrow> ('d, 'a) network_scheme \<Rightarrow> ('d, 'a) network_scheme" where
  "on_card f h = h\<lparr>net_device := on_pci f (net_device h)\<rparr>"

definition network_locate_protocol :: "'d net_firmware \<Rightarrow> 'd snp option" where
  "network_locate_protocol fw =
     (case snp_search fw of
        None \<Rightarrow> snp_located fw
      | Some found \<Rightarrow>
          (case find (\<lambda>p. Option.bind p snp_mode_block \<noteq> None) found of None \<Rightarrow> snp_located fw | Some p \<Rightarrow> p))"

section \<open>The survey of the hardware\<close>

definition hex4_digits :: string where "hex4_digits = ''0123456789ABCDEF''"

definition u16_to_hex4 :: "u16 \<Rightarrow> string" where
  "u16_to_hex4 v =
     [hex4_digits ! unat (drop_bit 12 v AND 0x0F), hex4_digits ! unat (drop_bit 8 v AND 0x0F),
      hex4_digits ! unat (drop_bit 4 v AND 0x0F), hex4_digits ! unat (v AND 0x0F)]"

definition network_append_diag_count :: "nat \<Rightarrow> string \<Rightarrow> u32 \<Rightarrow> string \<Rightarrow> string option" where
  "network_append_diag_count output_size label value out =
     cat output_size out ((if out \<noteq> [] then ''  '' else []) @ label @ '' '' @ u32_to_dec value)"

definition firmware_protocol_handle_count :: "'d net_firmware \<Rightarrow> guid \<Rightarrow> u32" where
  "firmware_protocol_handle_count fw g = (case handle_search fw g of None \<Rightarrow> 0 | Some n \<Rightarrow> of_nat n)"

definition network_pci_model_name :: "u16 \<Rightarrow> u16 \<Rightarrow> string option" where
  "network_pci_model_name vendor device =
     (if vendor = 0x8086 \<and> device = 0x100E then Some ''Intel 82540EM''
      else if vendor = 0x8086 \<and> device = 0x100F then Some ''Intel 82545EM''
      else if vendor = 0x8086 \<and> device = 0x1019 then Some ''Intel 82547EI''
      else if vendor = 0x1022 \<and> device = 0x2000 then Some ''AMD PCnet''
      else if vendor = 0x1AF4 then Some ''Virtio network''
      else if vendor = 0x80EE then Some ''VirtualBox virtual NIC''
      else None)"

definition hardware_text :: "bytes \<Rightarrow> (u32 \<times> u32 \<times> u32 \<times> u32) option \<Rightarrow> string option" where
  "hardware_text config location =
     do {
       hw \<leftarrow> (case network_pci_model_name (le16 config 0) (le16 config 2) of
                Some model_name \<Rightarrow> Some (put 128 model_name)
              | None \<Rightarrow> cat 128 (put 128 ''PCI NIC '') (u16_to_hex4 (le16 config 0) @ '':'' @ u16_to_hex4 (le16 config 2)));
       (case location of
          None \<Rightarrow> Some hw
        | Some (segment, bus, device, function) \<Rightarrow>
            cat 128 hw ('' @ '' @ u32_to_dec segment @ '':'' @ u32_to_dec bus @ ''.'' @ u32_to_dec device @ ''.'' @ u32_to_dec function))
     }"

fun survey :: "'d net_firmware \<Rightarrow> nat \<Rightarrow> 'd pci_io option list \<Rightarrow> net_diagnostics \<Rightarrow> 'd card \<Rightarrow> (net_diagnostics \<times> 'd card) option" where
  "survey fw i [] nd c = Some (nd, c)"
| "survey fw i (p # ps) nd c =
     (case Option.bind p config_read of
        None \<Rightarrow> survey fw (i + 1) ps nd c
      | Some rd \<Rightarrow>
          (case rd 0 64 c of
             (c, None) \<Rightarrow> survey fw (i + 1) ps nd c
           | (c, Some config) \<Rightarrow>
               if filled 64 config ! 11 \<noteq> CHR 0x02 then survey fw (i + 1) ps nd c
               else let nd = nd\<lparr>nd_pci_network := nd_pci_network nd + 1\<rparr>
               in if nd_pci_network nd \<noteq> 1 then survey fw (i + 1) ps nd c
                  else do {
                    hw \<leftarrow> hardware_text (filled 64 config) (pci_location fw i);
                    survey fw (i + 1) ps (nd\<lparr>nd_hardware := hw\<rparr>) c
                  }))"

definition WIRELESS_NOTE :: string where
  "WIRELESS_NOTE = ''VirtualBox routes host Wi-Fi to this guest as Ethernet. Nearby Wi-Fi and Bluetooth discovery need guest-visible radios or passthrough.''"

definition stack_counts :: "net_diagnostics \<Rightarrow> (string \<times> u32) list" where
  "stack_counts nd = [(''SNP'', nd_snp nd), (''PXE'', nd_pxe nd), (''IP4'', nd_ip4 nd), (''UDP4'', nd_udp4 nd), (''TCP4'', nd_tcp4 nd),
     (''DHCP4'', nd_dhcp4 nd)]"

fun stack_text :: "(string \<times> u32) list \<Rightarrow> string \<Rightarrow> string option" where
  "stack_text [] out = Some out"
| "stack_text ((label, value) # counts) out = Option.bind (network_append_diag_count 160 label value out) (stack_text counts)"

definition counted :: "'d net_firmware \<Rightarrow> net_diagnostics" where
  "counted fw =
     (let count = firmware_protocol_handle_count fw
      in \<lparr>nd_snp = count GUID_SIMPLE_NETWORK, nd_pxe = count GUID_PXE_BASE_CODE, nd_ip4 = count GUID_IP4,
          nd_udp4 = count GUID_UDP4, nd_tcp4 = count GUID_TCP4, nd_dhcp4 = count GUID_DHCP4, nd_pci_network = 0,
          nd_firmware_stack = [], nd_hardware = [], nd_wireless = []\<rparr>)"

definition network_collect_diagnostics :: "'d net_firmware \<Rightarrow> ('d, 'a) network_scheme \<Rightarrow> ('d, 'a) network_scheme option" where
  "network_collect_diagnostics fw h =
     do {
       stack \<leftarrow> stack_text (stack_counts (counted fw)) [];
       nd \<leftarrow> Some ((counted fw)\<lparr>nd_firmware_stack := stack, nd_hardware := put 128 ''No PCI network controller detected.'',
                       nd_wireless := put 160 WIRELESS_NOTE\<rparr>);
       (nd, c) \<leftarrow> (case pci_handles (platform fw) of
                     None \<Rightarrow> Some (nd, card (net_device h))
                   | Some ps \<Rightarrow> survey fw 0 ps nd (card (net_device h)));
       Some ((on_card (\<lambda>_. c) h)\<lparr>g_netdiag := nd\<rparr>)
     }"

section \<open>Bringing the adapter up\<close>

text \<open>The address the stack takes from the driver, or else from the protocol.\<close>

definition hardware_address :: "('d, 'a) network_scheme \<Rightarrow> bytes option" where
  "hardware_address h =
     (let g = net_device h
      in if initialized g then Some (map octet (mac g))
         else map_option (\<lambda>m. map octet (take 6 (md_current_address (m (card g))))) (Option.bind (nw_protocol h) snp_mode_block))"

type_synonym 'd drainer = "'d e1000_driver \<Rightarrow> 'd e1000_driver"

definition network_nic :: "'d net_firmware \<Rightarrow> 'd drainer \<Rightarrow> ('d, 'a) network_scheme \<Rightarrow> 'd e1000_driver nic" where
  "network_nic fw drained h = driver_nic (map_option snp_frames (nw_protocol h)) (platform fw) drained"

definition renew_lease :: "'d net_firmware \<Rightarrow> 'd drainer \<Rightarrow> desktop_state \<Rightarrow> ('d, 'a) network_scheme \<Rightarrow> (('d, 'a) network_scheme \<times> bool) option" where
  "renew_lease fw drained d h = netstack_renew_dhcp (network_nic fw drained h) (dt_hostname d) (hardware_address h) h"

text \<open>A lease, or else the fixed profile, unless the stack has its addresses already.\<close>

definition obtain_addresses :: "'d net_firmware \<Rightarrow> 'd drainer \<Rightarrow> desktop_state \<Rightarrow> ('d, 'a) network_scheme \<Rightarrow> ('d, 'a) network_scheme option" where
  "obtain_addresses fw drained d h =
     (if ns_configured h then Some h
      else map_option (\<lambda>(h, ok). if ok then h else fst (netstack_apply_virtualbox_nat_profile h)) (renew_lease fw drained d h))"

definition connected :: "('d, 'a) network_scheme \<Rightarrow> ('d, 'a) network_scheme \<times> bool" where
  "connected h =
     (let h = netstack_sync_strings (h\<lparr>nw_dhcp_ready := (ns_configured h \<and> \<not> ns_static_profile h), nw_internet_ready := ns_configured h\<rparr>)
      in (h, nw_internet_ready h))"

definition connect_native :: "'d net_firmware \<Rightarrow> 'd drainer \<Rightarrow> desktop_state \<Rightarrow> ('d, 'a) network_scheme \<Rightarrow> (('d, 'a) network_scheme \<times> bool) option" where
  "connect_native fw drained d h =
     (case e1000_initialize (platform fw) (net_device h) of
        (g, False) \<Rightarrow> Some (h\<lparr>net_device := g\<rparr>, False)
      | (g, True) \<Rightarrow>
          map_option connected (obtain_addresses fw drained d
            (h\<lparr>net_device := g, nw_started := True, net_initialized := True, nw_services_ready := True,
               nw_media_present_supported := link_up g, nw_media_present := (link_up g \<or> initialized g)\<rparr>)))"

text \<open>A call of the protocol that may be missing, and whether it succeeded.\<close>

definition snp_call :: "('d card \<Rightarrow> 'd card \<times> bool) option \<Rightarrow> ('d, 'a) network_scheme \<Rightarrow> ('d, 'a) network_scheme \<times> bool" where
  "snp_call f h =
     (case f of None \<Rightarrow> (h, False) | Some f \<Rightarrow> (case f (card (net_device h)) of (c, ok) \<Rightarrow> (on_card (\<lambda>_. c) h, ok)))"

text \<open>One of the two steps up: the call where the adapter is not that far yet, the mark when it succeeds or was not needed.\<close>

definition advance ::
  "bool \<Rightarrow> ('d card \<Rightarrow> 'd card \<times> bool) option \<Rightarrow> (('d, 'a) network_scheme \<Rightarrow> ('d, 'a) network_scheme) \<Rightarrow>
   ('d, 'a) network_scheme \<Rightarrow> ('d, 'a) network_scheme" where
  "advance low f mark h =
     (if low \<and> f \<noteq> None then (case snp_call f h of (h, ok) \<Rightarrow> if ok then mark h else h)
      else if low then h else mark h)"

definition start_protocol :: "'d snp \<Rightarrow> ('d card \<Rightarrow> snp_mode) \<Rightarrow> ('d, 'a) network_scheme \<Rightarrow> ('d, 'a) network_scheme" where
  "start_protocol np mode h =
     (let state = (\<lambda>h. md_state (mode (card (net_device h))));
          h = advance (state h = 0) (snp_start np) (\<lambda>h. h\<lparr>nw_started := True\<rparr>) h;
          h = advance (state h < 2) (snp_initialize np) (\<lambda>h. h\<lparr>net_initialized := True\<rparr>) h;
          h = (if net_initialized h then (case snp_receive_filters np of None \<Rightarrow> h | Some f \<Rightarrow> on_card f h) else h)
      in case snp_get_status (snp_frames np) of None \<Rightarrow> h | Some f \<Rightarrow> on_card f h)"

definition connect_protocol ::
  "'d net_firmware \<Rightarrow> 'd drainer \<Rightarrow> desktop_state \<Rightarrow> 'd snp \<Rightarrow> ('d card \<Rightarrow> snp_mode) \<Rightarrow> ('d, 'a) network_scheme \<Rightarrow>
   (('d, 'a) network_scheme \<times> bool) option" where
  "connect_protocol fw drained d np mode h =
     (let h = start_protocol np mode h; m = mode (card (net_device h));
          h = h\<lparr>nw_mode_state := md_state m, nw_media_present := md_media_present m, nw_media_present_supported := md_media_present_supported m,
                nw_services_ready := (nw_started h \<and> net_initialized h)\<rparr>
      in map_option connected
           (if nw_services_ready h \<and> (\<not> nw_media_present_supported h \<or> nw_media_present h) then obtain_addresses fw drained d h else Some h))"

definition network_connect_wired ::
  "'d net_firmware \<Rightarrow> 'd drainer \<Rightarrow> desktop_state \<Rightarrow> ('d, 'a) network_scheme \<Rightarrow> (('d, 'a) network_scheme \<times> bool) option" where
  "network_connect_wired fw drained d h =
     (if nw_native_available h then connect_native fw drained d h
      else case nw_protocol h of
        None \<Rightarrow> Some (h, False)
      | Some np \<Rightarrow> (case snp_mode_block np of None \<Rightarrow> Some (h, False) | Some mode \<Rightarrow> connect_protocol fw drained d np mode h))"

section \<open>The texts about the connection\<close>

definition wifi_radio_available :: bool where "wifi_radio_available = False"
definition bluetooth_controller_available :: bool where "bluetooth_controller_available = False"

definition announce :: "string \<Rightarrow> string \<Rightarrow> ('d, 'a) network_scheme \<Rightarrow> ('d, 'a) network_scheme" where
  "announce status internet h = h\<lparr>nw_status := put 128 status, nw_internet := put 128 internet\<rparr>"

definition prefers_air :: "desktop_state \<Rightarrow> bool" where
  "prefers_air d \<longleftrightarrow> dt_network_preference d = pref_code NETWORK_PREF_WIFI \<or> dt_network_preference d = pref_code NETWORK_PREF_HOTSPOT"

definition wired_fallback :: "desktop_state \<Rightarrow> ('d, 'a) network_scheme \<Rightarrow> bool" where
  "wired_fallback d h \<longleftrightarrow> prefers_air d \<and> nw_available h \<and> \<not> wifi_radio_available"

definition FALLBACK_NOTE :: string where "FALLBACK_NOTE = '' (wired fallback)''"

definition set_profile :: "string \<Rightarrow> string list \<Rightarrow> ('d, 'a) network_scheme \<Rightarrow> ('d, 'a) network_scheme option" where
  "set_profile s ts h = map_option (\<lambda>p. h\<lparr>nw_profile := p\<rparr>) (cat_all 96 (put 96 s) ts)"

definition air_off :: "string \<Rightarrow> string \<Rightarrow> ('d, 'a) network_scheme \<Rightarrow> ('d, 'a) network_scheme" where
  "air_off status internet h = (announce status internet h)\<lparr>nw_internet_ready := False\<rparr>"

text \<open>The status and the text about the internet over the wire.\<close>

definition wired_texts :: "bool \<Rightarrow> ('d, 'a) network_scheme \<Rightarrow> string \<times> string" where
  "wired_texts connect_attempted h =
     (if \<not> nw_available h then
        (if nd_pci_network (g_netdiag h) > 0
         then (''SNSX found a PCI network controller, but firmware exposed no usable UEFI network protocol.'',
               ''SNSX needs a native NIC driver on this ARM64 VirtualBox target before DHCP, DNS, and the browser can reach the outside network.'')
         else (''No firmware network protocol or PCI network controller detected.'',
               ''SNSX cannot reach the outside network until the VM exposes network hardware or firmware services.''))
      else if ns_configured h then
        (if ns_static_profile h
         then (''Wired Ethernet is initialized and SNSX is using the VirtualBox NAT fallback address profile.'',
               ''SNSX can reach host-backed internet services through VirtualBox NAT while the host Mac stays on Wi-Fi or Ethernet.'')
         else (''Wired Ethernet is initialized and DHCP supplied an IPv4 lease.'',
               ''SNSX can resolve DNS, browse plain HTTP directly, and reach HTTPS plus Code Studio through the host bridges when they are running.''))
      else if nw_services_ready h then
        (''The wired adapter is initialized, but SNSX does not have a DHCP lease yet.'', ''Run CONNECT to retry DHCP on the wired LAN path.'')
      else if connect_attempted then
        (''SNSX attempted to initialize the wired adapter, but the firmware kept it offline.'',
         ''Retry CONNECT after the VM finishes exposing its network device.'')
      else if nw_media_present h then
        (''A wired link is visible. Press CONNECT to initialize the firmware adapter.'',
         ''The cable path looks ready, but the adapter has not been brought online yet.'')
      else
        (''Network adapter detected. Wired link is not active yet.'',
         ''VirtualBox networking is present, but SNSX has not confirmed a live Ethernet path yet.''))"

definition wired_status :: "bool \<Rightarrow> desktop_state \<Rightarrow> ('d, 'a) network_scheme \<Rightarrow> ('d, 'a) network_scheme option" where
  "wired_status connect_attempted d h =
     map_option (\<lambda>h. announce (fst (wired_texts connect_attempted h)) (snd (wired_texts connect_attempted h)) h)
       (set_profile ''Host '' [dt_hostname d, '' using '', if nw_available h then nw_transport h else ''firmware network discovery''] h)"

definition network_apply_profile_status :: "bool \<Rightarrow> desktop_state \<Rightarrow> ('d, 'a) network_scheme \<Rightarrow> ('d, 'a) network_scheme option" where
  "network_apply_profile_status connect_attempted d h =
     (let fallback = wired_fallback d h; note = (if fallback then [FALLBACK_NOTE] else []);
          h = netstack_sync_strings
            (h\<lparr>nw_preference := dt_network_preference d, nw_wifi_profile_ready := (dt_wifi_ssid d \<noteq> []),
               nw_hotspot_profile_ready := (dt_hotspot_name d \<noteq> []), nw_dhcp_ready := (ns_configured h \<and> \<not> ns_static_profile h),
               nw_hostname := put 32 (dt_hostname d), nw_preferred_transport := put 24 (desktop_network_mode_name d)\<rparr>)
      in if dt_network_preference d = pref_code NETWORK_PREF_WIFI then
           do {
             h \<leftarrow> set_profile ''Wi-Fi profile: '' (dt_wifi_ssid d # note) h;
             if fallback then wired_status connect_attempted d h
             else if \<not> dt_wifi_enabled d then
               Some (air_off ''Wi-Fi mode is selected, but the SNSX Wi-Fi switch is turned off.''
                 ''Turn Wi-Fi on inside the SNSX Wi-Fi dashboard to activate that profile.'' h)
             else
               Some (air_off ''Wi-Fi is selected, but this VirtualBox guest only exposes Ethernet to SNSX.''
                 ''Nearby hotspot discovery needs a guest-visible Wi-Fi adapter. Host Wi-Fi can still back guest Ethernet once SNSX has a native NIC path.'' h)
           }
         else if dt_network_preference d = pref_code NETWORK_PREF_HOTSPOT then
           do {
             h \<leftarrow> set_profile ''Hotspot profile: '' (dt_hotspot_name d # note) h;
             if fallback then wired_status connect_attempted d h
             else if \<not> dt_wifi_enabled d then
               Some (air_off ''Hotspot mode is configured, but the SNSX wireless switch is turned off.''
                 ''Turn Wi-Fi back on to prepare the hotspot profile.'' h)
             else
               Some (air_off ''Hotspot mode is configured, but SNSX does not yet provide a software AP backend.''
                 ''Hotspot routing will become available after the SNSX networking stack grows beyond firmware transport.'' h)
           }
         else wired_status connect_attempted d h)"

section \<open>Refreshing\<close>

text \<open>After its \<open>memset\<close> and the survey, the state says that nothing was found.\<close>

definition nothing_found :: "desktop_state \<Rightarrow> ('d, 'a) network_scheme \<Rightarrow> ('d, 'a) network_scheme" where
  "nothing_found d h =
     (let pci = nd_pci_network (g_netdiag h) > 0
      in netstack_sync_strings
        (h\<lparr>nw_mac := put 32 ''Unavailable'', nw_permanent_mac := put 32 ''Unavailable'', nw_driver_name := put 40 ''None'',
           nw_transport := put 40 (if pci then ''PCI network controller detected'' else ''Unavailable''),
           nw_preferred_transport := put 24 (desktop_network_mode_name d), nw_hostname := put 32 (dt_hostname d),
           nw_profile := put 96 ''No active network profile.'',
           nw_internet := put 128 (if pci then ''SNSX sees a PCI NIC, but it still needs a native driver before DHCP can run.''
                                   else ''Internet stack is waiting on DHCP and the wired firmware adapter.''),
           nw_capabilities := put 128
             (if pci then ''SNSX found PCI network hardware. The current blocker is firmware transport: no usable UEFI network protocol is exposed yet.''
              else ''Wired LAN supports DHCP, IPv4, DNS, and plain HTTP once firmware transport is exposed. Wi-Fi and Bluetooth still need device drivers.''),
           nw_status := put 128 (if pci then ''PCI network controller detected, but no firmware network protocol is available.''
                                 else ''No firmware network protocol detected.'')\<rparr>))"

definition cleared :: "('d, 'a) network_scheme \<Rightarrow> ('d, 'a) network_scheme" where
  "cleared h =
     h\<lparr>net_ipv4 := [], net_subnet_mask := [], net_gateway := [], net_dns_server := [], net_initialized := False,
       nw_available := False, nw_native_available := False, nw_media_present := False, nw_media_present_supported := False,
       nw_started := False, nw_dhcp_ready := False, nw_internet_ready := False, nw_services_ready := False,
       nw_wifi_profile_ready := False, nw_hotspot_profile_ready := False, nw_mode_state := 0, nw_max_packet_size := 0,
       nw_if_type := 0, nw_hw_address_size := 0, nw_preference := 0, nw_protocol := None, nw_driver_name := [], nw_mac := [],
       nw_permanent_mac := [], nw_transport := [], nw_preferred_transport := [], nw_hostname := [], nw_profile := [],
       nw_internet := [], nw_capabilities := [], nw_status := []\<rparr>"

text \<open>The preferences under which a refresh may connect.\<close>

definition may_connect :: "desktop_state \<Rightarrow> bool" where
  "may_connect d \<longleftrightarrow> dt_network_preference d = pref_code NETWORK_PREF_AUTO \<or> dt_network_preference d = pref_code NETWORK_PREF_ETHERNET \<or>
     (prefers_air d \<and> \<not> wifi_radio_available)"

text \<open>The state and whether connecting was tried.\<close>

definition try_connecting ::
  "bool \<Rightarrow> 'd net_firmware \<Rightarrow> 'd drainer \<Rightarrow> desktop_state \<Rightarrow> ('d, 'a) network_scheme \<Rightarrow> (('d, 'a) network_scheme \<times> bool) option" where
  "try_connecting try_connect fw drained d h =
     (if try_connect \<and> may_connect d then map_option (\<lambda>(h, ok). (h, True)) (network_connect_wired fw drained d h) else Some (h, False))"

definition refresh_protocol ::
  "bool \<Rightarrow> 'd net_firmware \<Rightarrow> 'd drainer \<Rightarrow> desktop_state \<Rightarrow> 'd snp \<Rightarrow> snp_mode \<Rightarrow> ('d, 'a) network_scheme \<Rightarrow> (('d, 'a) network_scheme \<times> bool) option" where
  "refresh_protocol try_connect fw drained d np m h =
     (let address = map octet (take 6 (md_current_address m));
          h = h\<lparr>nw_available := True, nw_protocol := Some np, nw_driver_name := put 40 ''UEFI SNP'',
                nw_media_present := md_media_present m, nw_media_present_supported := md_media_present_supported m,
                nw_mode_state := md_state m, nw_max_packet_size := md_max_packet_size m, nw_if_type := md_if_type m,
                nw_hw_address_size := md_hw_address_size m\<rparr>;
          h = (if md_hw_address_size m \<ge> 6 \<and> ns_client_mac h \<noteq> address then (netstack_reset h)\<lparr>ns_client_mac := address\<rparr> else h);
          h = h\<lparr>nw_mac := format_mac_address (Some (md_current_address m)) (unat (md_hw_address_size m)) 32,
                nw_permanent_mac := format_mac_address (Some (md_permanent_address m)) (unat (md_hw_address_size m)) 32,
                nw_transport := put 40 (if md_if_type m = 1 then ''Ethernet / LAN (VirtualBox NAT)'' else ''Firmware-managed network adapter''),
                nw_started := md_state m \<ge> 1, net_initialized := md_state m \<ge> 2\<rparr>
      in try_connecting try_connect fw drained d (h\<lparr>nw_services_ready := (nw_started h \<and> net_initialized h)\<rparr>))"

definition native_found :: "bool \<Rightarrow> 'd e1000_driver \<Rightarrow> ('d, 'a) network_scheme \<Rightarrow> ('d, 'a) network_scheme" where
  "native_found stale g h =
     (if stale then netstack_reset h else h)
       \<lparr>net_device := g, nw_available := True, nw_native_available := True, nw_driver_name := put 40 ''SNSX 82540EM'',
        nw_transport := put 40 ''Native Intel 82540EM Ethernet'',
        nw_capabilities := put 128 ''SNSX native 82540EM Ethernet driver is active on this target. DHCP, IPv4, DNS, and plain HTTP can run without UEFI SNP.'',
        nw_media_present_supported := link_up g, nw_hw_address_size := 6, nw_max_packet_size := 1518,
        nw_started := initialized g, net_initialized := initialized g, nw_services_ready := initialized g\<rparr>"

definition report_address :: "('d, 'a) network_scheme \<Rightarrow> ('d, 'a) network_scheme" where
  "report_address h =
     (let g = net_device h; address = format_mac_address (Some (mac g)) 6 32
      in if present g
         then h\<lparr>nw_mac := address, nw_permanent_mac := address, ns_client_mac := map octet (mac g), nw_media_present := (link_up g \<or> initialized g)\<rparr>
         else h)"

definition refresh_native ::
  "bool \<Rightarrow> 'd net_firmware \<Rightarrow> 'd drainer \<Rightarrow> desktop_state \<Rightarrow> bool \<Rightarrow> bytes \<Rightarrow> ('d, 'a) network_scheme \<Rightarrow> (('d, 'a) network_scheme \<times> bool) option" where
  "refresh_native try_connect fw drained d previous_configured previous_mac h =
     (case e1000_read_mac (platform fw) (net_device h) of (g, m) \<Rightarrow>
      let g = g\<lparr>mac := (if e1000_mac_is_valid m then m else e1000_build_fallback_mac g)\<rparr>;
          stale = (\<not> previous_configured \<or> previous_mac \<noteq> map octet (mac g))
      in map_option (\<lambda>(h, attempted). (report_address h, attempted)) (try_connecting try_connect fw drained d (native_found stale g h)))"

text \<open>The firmware's protocol, or else the native driver.\<close>

definition find_adapter ::
  "bool \<Rightarrow> 'd net_firmware \<Rightarrow> 'd drainer \<Rightarrow> desktop_state \<Rightarrow> bool \<Rightarrow> bytes \<Rightarrow> ('d, 'a) network_scheme \<Rightarrow> (('d, 'a) network_scheme \<times> bool) option" where
  "find_adapter try_connect fw drained d previous_configured previous_mac h =
     (case Option.bind (network_locate_protocol fw) (\<lambda>np. map_option (Pair np) (snp_mode_block np)) of
        Some (np, mode) \<Rightarrow> refresh_protocol try_connect fw drained d np (mode (card (net_device h))) h
      | None \<Rightarrow>
          (case e1000_probe (platform fw) (net_device h) of
             (g, True) \<Rightarrow> refresh_native try_connect fw drained d previous_configured previous_mac (h\<lparr>net_device := g\<rparr>)
           | (g, False) \<Rightarrow> Some (netstack_reset (h\<lparr>net_device := g\<rparr>), False)))"

definition network_refresh :: "'d net_firmware \<Rightarrow> 'd drainer \<Rightarrow> desktop_state \<Rightarrow> bool \<Rightarrow> ('d, 'a) network_scheme \<Rightarrow> ('d, 'a) network_scheme option" where
  "network_refresh fw drained d try_connect h =
     do {
       surveyed \<leftarrow> network_collect_diagnostics fw (cleared h);
       (found, attempted) \<leftarrow> find_adapter try_connect fw drained d (ns_configured h) (ns_client_mac h) (nothing_found d surveyed);
       network_apply_profile_status attempted d found
     }"

section \<open>What the texts need\<close>

lemma put_length [simp]: "0 < limit \<Longrightarrow> length (put limit t) < limit"
  by (simp add: put_def strcopy_limit_length)

lemma put_fits: "length t < limit \<Longrightarrow> put limit t = t"
  by (simp add: put_def strcopy_limit_fits)

lemma cat_fits: "length s + length t < limit \<Longrightarrow> cat limit s t = Some (s @ t)"
  by (simp add: cat_def)

lemma cat_length: "cat limit s t = Some u \<Longrightarrow> length u < limit"
  by (auto simp: cat_def split: if_splits)

lemma cat_all_fits: "length s + length (concat ts) < limit \<Longrightarrow> cat_all limit s ts = Some (s @ concat ts)"
  by (induction ts arbitrary: s) (simp_all add: cat_fits)

lemma cat_all_result: "cat_all limit s ts = Some t \<Longrightarrow> t = s @ concat ts \<and> (ts \<noteq> [] \<longrightarrow> length t < limit)"
  by (induction ts arbitrary: s) (fastforce simp: cat_def split: bind_splits if_splits)+

lemma mac_loop_length: "length out < limit \<Longrightarrow> length (mac_loop addr hw_size i limit out) < limit"
  by (induction addr hw_size i limit out rule: mac_loop.induct) auto

lemma format_mac_length: "12 \<le> limit \<Longrightarrow> length (format_mac_address m hw_size limit) < limit"
  by (simp add: format_mac_address_def mac_loop_length strcopy_limit_fits split: option.split)

lemma hex4_length [simp]: "length (u16_to_hex4 v) = 4"
  by (simp add: u16_to_hex4_def)

lemma stack_text_fits:
  "length out + sum_list (map (\<lambda>(l, v). length l + 13) counts) < 160 \<Longrightarrow> \<exists>t. stack_text counts out = Some t"
proof (induction counts arbitrary: out)
  case (Cons lv counts)
  obtain l v where lv: "lv = (l, v)" by fastforce
  let ?part = "(if out \<noteq> [] then ''  '' else []) @ l @ '' '' @ u32_to_dec v"
  have p: "length ?part \<le> length l + 13" using u32_to_dec_length [of v] by simp
  then have "network_append_diag_count 160 l v out = Some (out @ ?part)"
    using Cons.prems lv unfolding network_append_diag_count_def by (intro cat_fits) simp
  moreover have "\<exists>t. stack_text counts (out @ ?part) = Some t"
    by (rule Cons.IH) (use p Cons.prems lv in simp)
  ultimately show ?case by (simp add: lv)
qed simp

lemma model_name_length: "network_pci_model_name v d = Some m \<Longrightarrow> length m \<le> 22"
  by (auto simp: network_pci_model_name_def split: if_splits)

lemma hardware_text_total: "\<exists>t. hardware_text config location = Some t \<and> length t < 128"
proof -
  let ?v = "le16 config 0" and ?d = "le16 config 2"
  obtain hw where hw: "(case network_pci_model_name ?v ?d of Some m \<Rightarrow> Some (put 128 m)
      | None \<Rightarrow> cat 128 (put 128 ''PCI NIC '') (u16_to_hex4 ?v @ '':'' @ u16_to_hex4 ?d)) = Some hw" "length hw \<le> 22"
  proof (cases "network_pci_model_name ?v ?d")
    case None
    then show thesis using that by (simp add: put_fits cat_def)
  next
    case (Some m)
    then show thesis using that model_name_length [OF Some] by (simp add: put_fits)
  qed
  have part: "length ('' @ '' @ u32_to_dec a @ '':'' @ u32_to_dec b @ ''.'' @ u32_to_dec c @ ''.'' @ u32_to_dec d) \<le> 46" for a b c d
    using u32_to_dec_length [of a] u32_to_dec_length [of b] u32_to_dec_length [of c] u32_to_dec_length [of d] by simp
  show ?thesis
  proof (cases location)
    case None
    then show ?thesis using hw by (simp add: hardware_text_def)
  next
    case (Some l)
    obtain a b c d where l: "l = (a, b, c, d)" by (metis prod_cases4)
    have fits: "length hw + length ('' @ '' @ u32_to_dec a @ '':'' @ u32_to_dec b @ ''.'' @ u32_to_dec c @ ''.'' @ u32_to_dec d) < 128"
      using hw(2) part [of a b c d] by linarith
    then show ?thesis
      using hw(1) cat_fits [OF fits] by (simp add: hardware_text_def Some l)
  qed
qed

definition survey_ok :: "net_diagnostics \<Rightarrow> (net_diagnostics \<times> 'd card) option \<Rightarrow> bool" where
  "survey_ok nd r \<longleftrightarrow> (\<exists>nd' c'. r = Some (nd', c') \<and> length (nd_hardware nd') < 128 \<and>
     nd_firmware_stack nd' = nd_firmware_stack nd \<and> nd_wireless nd' = nd_wireless nd)"

lemma survey_total: "length (nd_hardware nd) < 128 \<Longrightarrow> survey_ok nd (survey fw i ps nd c)"
proof (induction ps arbitrary: i nd c)
  case (Cons p ps)
  show ?case
  proof (cases "Option.bind p config_read")
    case None
    then show ?thesis using Cons by simp
  next
    case (Some rd)
    obtain c' r where rd: "rd 0 64 c = (c', r)" by fastforce
    show ?thesis
    proof (cases r)
      case None
      then show ?thesis using Cons Some rd by simp
    next
      case config: (Some config)
      let ?nd = "nd\<lparr>nd_pci_network := nd_pci_network nd + 1\<rparr>"
      obtain t where t: "hardware_text (filled 64 config) (pci_location fw i) = Some t" "length t < 128"
        using hardware_text_total by blast
      have "survey_ok ?nd (survey fw (i + 1) ps ?nd c')" "survey_ok (?nd\<lparr>nd_hardware := t\<rparr>) (survey fw (i + 1) ps (?nd\<lparr>nd_hardware := t\<rparr>) c')"
        "survey_ok nd (survey fw (i + 1) ps nd c')"
        by (rule Cons.IH; use Cons.prems t in simp)+
      then show ?thesis using Some rd config t(1) by (auto simp: survey_ok_def Let_def)
    qed
  qed
qed (simp add: survey_ok_def)

section \<open>What the network stack leaves alone\<close>

text \<open>What \<open>g_network\<close> and \<open>g_netdiag\<close> add to the stack's host.\<close>

abbreviation outer :: "('d, 'a) net_host_scheme \<Rightarrow> 'a" where "outer \<equiv> net_host.more"

lemma receive_rest [simp]: "outer (fst (receive nic h)) = outer h"
  by (simp add: receive_def split: prod.split option.split)

lemma transmit_rest [simp]: "outer (fst (transmit nic frame h)) = outer h"
  by (simp add: transmit_def split: prod.split)

lemma sync_rest [simp]: "outer (netstack_sync_strings h) = outer h"
  by (simp add: netstack_sync_strings_def)

lemma dhcp_wait_rest: "outer (fst (dhcp_wait n nic xid t offer h)) = outer h"
proof (induction n arbitrary: offer h)
  case (Suc n)
  obtain h' r where "receive nic h = (h', r)" by fastforce
  then show ?case using receive_rest [of nic h] Suc by (simp add: Let_def split: option.split)
qed simp

lemma payload_fits:
  "\<exists>p. netstack_build_dhcp_payload n hostname 320 t xid ip server = Some p \<and> length p \<le> 320"
  by (auto simp: netstack_build_dhcp_payload_def dhcp_option_def Let_def net_write_be32_def)

lemma exchange_result:
  "\<exists>h' r. dhcp_exchange nic hostname t reply xid ip server h = Some (h', r) \<and> outer h' = outer h"
proof -
  obtain p where p: "netstack_build_dhcp_payload h hostname 320 t xid ip server = Some p" "length p \<le> 320"
    using payload_fits by blast
  obtain h1 f where f: "net_build_udp_frame h None 0 0xFFFFFFFF 68 67 p = Some (h1, f)" "outer h1 = outer h"
    using p(2) by (auto simp: net_build_udp_frame_def Let_def NET_FRAME_MAX_def)
  obtain h2 ok where t: "transmit nic f (drain nic h1) = (h2, ok)" by fastforce
  have "outer (fst (transmit nic f (drain nic h1))) = outer h" by (simp add: drain_def f(2))
  then have "outer h2 = outer h" by (simp only: t fst_conv)
  then show ?thesis
    using p(1) f(1) t dhcp_wait_rest [of 220 nic xid reply no_offer h2]
    by (cases ok; cases "netstack_wait_for_dhcp nic xid reply h2") (simp_all add: dhcp_exchange_def netstack_wait_for_dhcp_def)
qed

lemma renew_result: "\<exists>h' ok. netstack_renew_dhcp nic hostname m h = Some (h', ok) \<and> outer h' = outer h"
proof (cases "net_initialized h \<and> m \<noteq> None")
  case True
  then obtain a where a: "m = Some a" "net_initialized h" by blast
  obtain h1 xid where x: "netstack_random_next (h\<lparr>ns_client_mac := a\<rparr>) = (h1, xid)" by fastforce
  then have r1: "outer h1 = outer h" by (auto simp: netstack_random_next_def Let_def)
  obtain h2 r where e1: "dhcp_exchange nic hostname 1 2 xid 0 0 h1 = Some (h2, r)" "outer h2 = outer h1"
    using exchange_result by metis
  show ?thesis
  proof (cases r)
    case None
    then show ?thesis using a x e1 r1 by (auto simp: netstack_renew_dhcp_def Let_def)
  next
    case (Some offer)
    obtain h3 r' where "dhcp_exchange nic hostname 3 5 xid (d_your_ip offer) (d_server_id offer) h2 = Some (h3, r')" "outer h3 = outer h2"
      using exchange_result by metis
    then show ?thesis using a x e1 r1 Some by (cases r') (auto simp: netstack_renew_dhcp_def Let_def)
  qed
qed (auto simp: netstack_renew_dhcp_def)

lemma nat_profile_rest: "outer (fst (netstack_apply_virtualbox_nat_profile h)) = outer h"
  by (simp add: netstack_apply_virtualbox_nat_profile_def)

text \<open>What the survey and the search for an adapter have found, which connecting does not change.\<close>

definition labels where
  "labels h = ((nw_available h, nw_native_available h, nw_protocol h), nw_driver_name h, nw_mac h, nw_permanent_mac h, nw_transport h,
     nw_capabilities h, g_netdiag h)"

lemma labels_rest: "outer h' = outer h \<Longrightarrow> labels h' = labels h"
  by (cases h; cases h') (simp add: labels_def)

lemma labels_updates [simp]:
  "labels (h\<lparr>net_device := g\<rparr>) = labels h" "labels (on_card f h) = labels h" "labels (h\<lparr>nw_started := b\<rparr>) = labels h"
  "labels (h\<lparr>net_initialized := b\<rparr>) = labels h" "labels (netstack_sync_strings h) = labels h"
  "labels (h\<lparr>nw_dhcp_ready := b, nw_internet_ready := b'\<rparr>) = labels h"
  by (simp_all add: labels_def on_card_def netstack_sync_strings_def)

lemma addresses_result: "\<exists>h'. obtain_addresses fw drained d h = Some h' \<and> labels h' = labels h"
proof -
  obtain h1 ok where "renew_lease fw drained d h = Some (h1, ok)" "outer h1 = outer h"
    unfolding renew_lease_def using renew_result by metis
  then show ?thesis
    using labels_rest [of h1 h] labels_rest [OF nat_profile_rest [of h1]] by (simp add: obtain_addresses_def)
qed

lemma connected_labels: "labels (fst (connected h)) = labels h"
  by (simp add: connected_def Let_def)

lemma snp_call_labels: "labels (fst (snp_call f h)) = labels h"
  by (simp add: snp_call_def split: option.split prod.split)

lemma advance_labels: "(\<And>h. labels (mark h) = labels h) \<Longrightarrow> labels (advance low f mark h) = labels h"
  using snp_call_labels [of f h] by (cases "snp_call f h") (simp add: advance_def)

lemma start_labels: "labels (start_protocol np mode h) = labels h"
  by (simp add: start_protocol_def Let_def advance_labels split: option.split)

lemma connect_result: "\<exists>h' ok. network_connect_wired fw drained d h = Some (h', ok) \<and> labels h' = labels h"
proof -
  have native: "\<exists>h' ok. connect_native fw drained d h = Some (h', ok) \<and> labels h' = labels h"
  proof -
    obtain g ok where g: "e1000_initialize (platform fw) (net_device h) = (g, ok)" by fastforce
    let ?h = "h\<lparr>net_device := g, nw_started := True, net_initialized := True, nw_services_ready := True,
      nw_media_present_supported := link_up g, nw_media_present := (link_up g \<or> initialized g)\<rparr>"
    obtain h1 where "obtain_addresses fw drained d ?h = Some h1" "labels h1 = labels ?h"
      using addresses_result by metis
    then show ?thesis
      using g connected_labels [of h1] by (cases ok; cases "connected h1") (auto simp: connect_native_def labels_def)
  qed
  have firmware: "\<exists>h' ok. connect_protocol fw drained d np mode h = Some (h', ok) \<and> labels h' = labels h" for np mode
  proof -
    let ?s = "start_protocol np mode h"
    let ?m = "mode (card (net_device ?s))"
    let ?h = "?s\<lparr>nw_mode_state := md_state ?m, nw_media_present := md_media_present ?m,
      nw_media_present_supported := md_media_present_supported ?m, nw_services_ready := (nw_started ?s \<and> net_initialized ?s)\<rparr>"
    have h: "labels ?h = labels h" using start_labels [of np mode h] by (simp add: labels_def)
    obtain h1 where "obtain_addresses fw drained d ?h = Some h1" "labels h1 = labels ?h"
      using addresses_result by metis
    then show ?thesis
      using h connected_labels [of h1] connected_labels [of ?h]
      by (cases "connected h1"; cases "connected ?h") (auto simp: connect_protocol_def Let_def)
  qed
  show ?thesis
    using native firmware by (auto simp: network_connect_wired_def split: option.split)
qed

section \<open>What a refresh leaves\<close>

definition names_ok where
  "names_ok h \<longleftrightarrow> length (nw_driver_name h) < 40 \<and> length (nw_mac h) < 32 \<and> length (nw_permanent_mac h) < 32 \<and>
     length (nw_transport h) < 40 \<and> length (nw_capabilities h) < 128"

lemma names_labels: "labels h' = labels h \<Longrightarrow> names_ok h' = names_ok h"
  by (simp add: labels_def names_ok_def)

text \<open>Every text within its array, and the texts in step with the stack and the preferences.\<close>

definition addresses_shown where
  "addresses_shown h \<longleftrightarrow>
     (if ns_configured h
      then net_ipv4 h = net_ip_to_string (ns_client_ip h) 24 \<and> net_subnet_mask h = net_ip_to_string (ns_subnet_mask h) 24 \<and>
        net_gateway h = net_ip_to_string (ns_gateway_ip h) 24 \<and> net_dns_server h = net_ip_to_string (ns_dns_ip h) 24
      else net_ipv4 h = ''Unassigned'' \<and> net_subnet_mask h = ''-'' \<and> net_gateway h = ''-'' \<and> net_dns_server h = ''-'')"

definition link_ok :: "desktop_state \<Rightarrow> ('d, 'a) network_scheme \<Rightarrow> bool" where
  "link_ok d h \<longleftrightarrow> names_ok h \<and> length (nw_status h) < 128 \<and> length (nw_internet h) < 128 \<and> length (nw_profile h) < 96 \<and>
     addresses_shown h \<and> nw_dhcp_ready h = (ns_configured h \<and> \<not> ns_static_profile h) \<and>
     nw_hostname h = dt_hostname d \<and> nw_preferred_transport h = desktop_network_mode_name d \<and>
     nw_preference h = dt_network_preference d \<and> nw_wifi_profile_ready h = (dt_wifi_ssid d \<noteq> []) \<and>
     nw_hotspot_profile_ready h = (dt_hotspot_name d \<noteq> [])"

lemma addresses_sync: "addresses_shown (netstack_sync_strings h)"
  by (simp add: addresses_shown_def netstack_sync_strings_def)

lemma mode_name_length: "length (desktop_network_mode_name d) < 24"
  by (simp add: desktop_network_mode_name_def)

definition settled :: "desktop_state \<Rightarrow> ('d, 'a) network_scheme \<Rightarrow> ('d, 'a) network_scheme" where
  "settled d h = netstack_sync_strings
     (h\<lparr>nw_preference := dt_network_preference d, nw_wifi_profile_ready := (dt_wifi_ssid d \<noteq> []),
        nw_hotspot_profile_ready := (dt_hotspot_name d \<noteq> []), nw_dhcp_ready := (ns_configured h \<and> \<not> ns_static_profile h),
        nw_hostname := put 32 (dt_hostname d), nw_preferred_transport := put 24 (desktop_network_mode_name d)\<rparr>)"

lemma settled_fields:
  "names_ok (settled d h) = names_ok h"
  "nw_dhcp_ready (settled d h) = (ns_configured (settled d h) \<and> \<not> ns_static_profile (settled d h))"
  "nw_hostname (settled d h) = put 32 (dt_hostname d)" "nw_preferred_transport (settled d h) = put 24 (desktop_network_mode_name d)"
  "nw_preference (settled d h) = dt_network_preference d" "nw_wifi_profile_ready (settled d h) = (dt_wifi_ssid d \<noteq> [])"
  "nw_hotspot_profile_ready (settled d h) = (dt_hotspot_name d \<noteq> [])"
  "nw_available (settled d h) = nw_available h" "nw_transport (settled d h) = nw_transport h"
  by (simp_all add: settled_def netstack_sync_strings_def names_ok_def)

lemma addresses_settled: "addresses_shown (settled d h)"
  by (simp add: settled_def addresses_sync)

lemma settled_ok:
  assumes "names_ok h" "length (dt_hostname d) < 32"
  shows "link_ok d (announce s i ((settled d h)\<lparr>nw_profile := p\<rparr>)) = (length p < 96)"
    and "link_ok d (air_off s i ((settled d h)\<lparr>nw_profile := p\<rparr>)) = (length p < 96)"
  using assms settled_fields [of d h] addresses_settled [of d h] put_fits [OF mode_name_length [of d]] put_fits [OF assms(2)]
  by (simp_all add: link_ok_def announce_def air_off_def names_ok_def addresses_shown_def)

text \<open>The state over the wire, once the profile is written.\<close>

definition wired_profile :: "desktop_state \<Rightarrow> ('d, 'a) network_scheme \<Rightarrow> string" where
  "wired_profile d h = ''Host '' @ dt_hostname d @ '' using '' @ (if nw_available h then nw_transport h else ''firmware network discovery'')"

definition over_wire :: "bool \<Rightarrow> desktop_state \<Rightarrow> ('d, 'a) network_scheme \<Rightarrow> ('d, 'a) network_scheme" where
  "over_wire a d h =
     (let h' = (settled d h)\<lparr>nw_profile := wired_profile d h\<rparr> in announce (fst (wired_texts a h')) (snd (wired_texts a h')) h')"

lemma wired_profile_length: "names_ok h \<Longrightarrow> length (dt_hostname d) < 32 \<Longrightarrow> length (wired_profile d h) < 96"
  by (simp add: wired_profile_def names_ok_def)

lemma wired_status_result:
  assumes "names_ok h" "length (dt_hostname d) < 32"
  shows "wired_status a d ((settled d h)\<lparr>nw_profile := q\<rparr>) = Some (over_wire a d h)"
    and "wired_status a d (settled d h) = Some (over_wire a d h)"
proof -
  note k = settled_fields(8,9) [of d h] and p = wired_profile_length [OF assms]
  have "cat_all 96 (put 96 ''Host '') [dt_hostname d, '' using '', if nw_available h then nw_transport h else ''firmware network discovery''] = Some (wired_profile d h)"
    using p by (subst cat_all_fits) (simp_all add: wired_profile_def put_fits)
  then show "wired_status a d ((settled d h)\<lparr>nw_profile := q\<rparr>) = Some (over_wire a d h)"
    and "wired_status a d (settled d h) = Some (over_wire a d h)"
    unfolding wired_status_def set_profile_def over_wire_def Let_def
    by (cases "nw_available h"; simp add: k del: cat_all.simps)+
qed

lemma over_wire_ok: "names_ok h \<Longrightarrow> length (dt_hostname d) < 32 \<Longrightarrow> link_ok d (over_wire a d h)"
  by (simp add: over_wire_def Let_def settled_ok wired_profile_length)

text \<open>
  The texts name the profile a preference stands for only where nothing is connected over the wire: with a wired
  adapter at hand, the profile is overwritten and the note about the fallback is lost.
\<close>

lemma apply_status_cases:
  assumes "names_ok h" "desktop_bounded d"
  shows "\<exists>h'. network_apply_profile_status a d h = Some h' \<and> link_ok d h'"
    and "\<not> prefers_air d \<or> nw_available h \<Longrightarrow> network_apply_profile_status a d h = Some (over_wire a d h)"
proof -
  have d: "length (dt_hostname d) < 32" "length (dt_wifi_ssid d) < 32" "length (dt_hotspot_name d) < 32"
    using assms(2) by (simp_all add: desktop_bounded_def)
  have tail: "length (concat (if b then [FALLBACK_NOTE] else [])) \<le> 17" for b by (simp add: FALLBACK_NOTE_def)
  obtain w where w: "cat_all 96 (put 96 ''Wi-Fi profile: '') (dt_wifi_ssid d # (if wired_fallback d h then [FALLBACK_NOTE] else [])) = Some w"
      "length w < 96"
    using tail [of "wired_fallback d h"] d by (subst (asm) cat_all_fits) (simp_all add: put_fits)
  obtain s where s: "cat_all 96 (put 96 ''Hotspot profile: '') (dt_hotspot_name d # (if wired_fallback d h then [FALLBACK_NOTE] else [])) = Some s"
      "length s < 96"
    using tail [of "wired_fallback d h"] d by (subst (asm) cat_all_fits) (simp_all add: put_fits)
  note wire = wired_status_result [OF assms(1) d(1)] and ok = over_wire_ok [OF assms(1) d(1)] settled_ok [OF assms(1) d(1)]
  define note' where "note' = (if wired_fallback d h then [FALLBACK_NOTE] else [])"
  note w = w [folded note'_def] and s = s [folded note'_def]
  have distinct: "pref_code NETWORK_PREF_HOTSPOT \<noteq> pref_code NETWORK_PREF_WIFI" by simp
  have wifi: "network_apply_profile_status a d h =
      (if wired_fallback d h then Some (over_wire a d h)
       else Some (if \<not> dt_wifi_enabled d
         then air_off ''Wi-Fi mode is selected, but the SNSX Wi-Fi switch is turned off.''
           ''Turn Wi-Fi on inside the SNSX Wi-Fi dashboard to activate that profile.'' ((settled d h)\<lparr>nw_profile := w\<rparr>)
         else air_off ''Wi-Fi is selected, but this VirtualBox guest only exposes Ethernet to SNSX.''
           ''Nearby hotspot discovery needs a guest-visible Wi-Fi adapter. Host Wi-Fi can still back guest Ethernet once SNSX has a native NIC path.''
           ((settled d h)\<lparr>nw_profile := w\<rparr>)))"
    if "dt_network_preference d = pref_code NETWORK_PREF_WIFI"
    unfolding network_apply_profile_status_def Let_def settled_def [symmetric] set_profile_def note'_def [symmetric]
    by (simp add: that w(1) wire del: cat_all.simps pref_code.simps)
  have hotspot: "network_apply_profile_status a d h =
      (if wired_fallback d h then Some (over_wire a d h)
       else Some (if \<not> dt_wifi_enabled d
         then air_off ''Hotspot mode is configured, but the SNSX wireless switch is turned off.''
           ''Turn Wi-Fi back on to prepare the hotspot profile.'' ((settled d h)\<lparr>nw_profile := s\<rparr>)
         else air_off ''Hotspot mode is configured, but SNSX does not yet provide a software AP backend.''
           ''Hotspot routing will become available after the SNSX networking stack grows beyond firmware transport.''
           ((settled d h)\<lparr>nw_profile := s\<rparr>)))"
    if "dt_network_preference d = pref_code NETWORK_PREF_HOTSPOT"
    unfolding network_apply_profile_status_def Let_def settled_def [symmetric] set_profile_def note'_def [symmetric]
    by (simp add: that distinct s(1) wire del: cat_all.simps pref_code.simps)
  have neither: "network_apply_profile_status a d h = Some (over_wire a d h)" if "\<not> prefers_air d"
    using that unfolding network_apply_profile_status_def Let_def settled_def [symmetric] prefers_air_def
    by (simp add: wire del: pref_code.simps)
  show "\<exists>h'. network_apply_profile_status a d h = Some h' \<and> link_ok d h'"
  proof (cases "dt_network_preference d = pref_code NETWORK_PREF_WIFI")
    case True
    then show ?thesis using w(2) by (simp add: wifi [OF True] ok del: pref_code.simps)
  next
    case no_wifi: False
    show ?thesis
    proof (cases "dt_network_preference d = pref_code NETWORK_PREF_HOTSPOT")
      case True
      then show ?thesis using s(2) by (simp add: hotspot [OF True] ok del: pref_code.simps)
    next
      case False
      then show ?thesis using no_wifi neither ok by (simp add: prefers_air_def)
    qed
  qed
  show "network_apply_profile_status a d h = Some (over_wire a d h)" if "\<not> prefers_air d \<or> nw_available h"
    using that wifi hotspot neither
    by (cases "dt_network_preference d = pref_code NETWORK_PREF_WIFI"; cases "dt_network_preference d = pref_code NETWORK_PREF_HOTSPOT";
        simp add: wired_fallback_def wifi_radio_available_def prefers_air_def del: pref_code.simps)
qed

lemma diagnostics_result: "\<exists>nd c. network_collect_diagnostics fw h = Some ((on_card (\<lambda>_. c) h)\<lparr>g_netdiag := nd\<rparr>)"
proof -
  obtain t where t: "stack_text (stack_counts (counted fw)) [] = Some t"
    using stack_text_fits [of "[]" "stack_counts (counted fw)"] by (auto simp: stack_counts_def)
  let ?nd = "(counted fw)\<lparr>nd_firmware_stack := t, nd_hardware := put 128 ''No PCI network controller detected.'', nd_wireless := put 160 WIRELESS_NOTE\<rparr>"
  have found: "\<exists>nd c. (case pci_handles (platform fw) of None \<Rightarrow> Some (?nd, card (net_device h))
      | Some ps \<Rightarrow> survey fw 0 ps ?nd (card (net_device h))) = Some (nd, c)"
    using survey_total [of ?nd fw 0 "the (pci_handles (platform fw))" "card (net_device h)"]
    by (cases "pci_handles (platform fw)") (auto simp: survey_ok_def)
  have "\<exists>nd' c'. on_card (\<lambda>_. c) h\<lparr>g_netdiag := nd\<rparr> = on_card (\<lambda>_. c') h\<lparr>g_netdiag := nd'\<rparr>" for nd c by blast
  then show ?thesis using found unfolding network_collect_diagnostics_def t by auto
qed

lemma nothing_found_names: "names_ok (nothing_found d h)"
  by (simp add: nothing_found_def names_ok_def netstack_sync_strings_def Let_def)

lemma try_result: "\<exists>h' a. try_connecting tc fw drained d h = Some (h', a) \<and> labels h' = labels h"
  using connect_result [of fw drained d h] by (auto simp: try_connecting_def)

lemma protocol_result:
  assumes "names_ok h"
  shows "\<exists>h' a. refresh_protocol tc fw drained d np m h = Some (h', a) \<and> names_ok h' \<and> nw_available h'"
proof -
  have *: "\<exists>h' a. try_connecting tc fw drained d k = Some (h', a) \<and> names_ok h' \<and> nw_available h'" if "names_ok k" "nw_available k" for k
    using try_result [of tc fw drained d k] that names_labels [of _ k] by (auto simp: labels_def)
  show ?thesis
    unfolding refresh_protocol_def Let_def
    by (rule *) (use assms in \<open>simp_all add: names_ok_def netstack_reset_def netstack_sync_strings_def format_mac_length\<close>)
qed

lemma native_found_fields:
  "nw_available (native_found stale g h)" "nw_native_available (native_found stale g h)" "net_device (native_found stale g h) = g"
  "nw_protocol (native_found stale g h) = nw_protocol h" "names_ok h \<Longrightarrow> names_ok (native_found stale g h)"
  "ns_configured (native_found stale g h) = (\<not> stale \<and> ns_configured h)"
  "\<not> stale \<Longrightarrow> ns_static_profile (native_found stale g h) = ns_static_profile h"
  by (cases stale; simp add: native_found_def netstack_reset_def netstack_sync_strings_def names_ok_def)+

lemma report_fields:
  "nw_available (report_address h) = nw_available h" "nw_native_available (report_address h) = nw_native_available h"
  "net_device (report_address h) = net_device h" "nw_protocol (report_address h) = nw_protocol h"
  "names_ok h \<Longrightarrow> names_ok (report_address h)" "ns_configured (report_address h) = ns_configured h"
  "ns_static_profile (report_address h) = ns_static_profile h"
  by (simp_all add: report_address_def Let_def names_ok_def format_mac_length)

lemma native_result:
  assumes "names_ok h"
  shows "\<exists>h' a. refresh_native tc fw drained d b prev h = Some (h', a) \<and> names_ok h' \<and> nw_available h'"
proof -
  obtain g m where g: "e1000_read_mac (platform fw) (net_device h) = (g, m)" by fastforce
  have "\<exists>h' a. try_connecting tc fw drained d (native_found s g h) = Some (h', a) \<and> names_ok h' \<and> nw_available h'" for s g
    using try_result [of tc fw drained d "native_found s g h"] native_found_fields(1) [of s g h] native_found_fields(5) [OF assms, of s g]
      names_labels [of _ "native_found s g h"] by (fastforce simp: labels_def)
  then show ?thesis
    unfolding refresh_native_def Let_def g prod.case using report_fields(1,5) by fastforce
qed

lemma names_changes [simp]: "names_ok (h\<lparr>net_device := g\<rparr>) = names_ok h" "names_ok (netstack_reset h) = names_ok h"
  by (simp_all add: names_ok_def netstack_reset_def netstack_sync_strings_def)

lemma find_result:
  assumes "names_ok h"
  shows "\<exists>h' a. find_adapter tc fw drained d pc pm h = Some (h', a) \<and> names_ok h'"
proof (cases "Option.bind (network_locate_protocol fw) (\<lambda>np. map_option (Pair np) (snp_mode_block np))")
  case (Some pm)
  obtain np mode where "pm = (np, mode)" by fastforce
  then show ?thesis
    using protocol_result [OF assms, of tc fw drained d np "mode (card (net_device h))"] Some by (auto simp: find_adapter_def)
next
  case None
  obtain g ok where p: "e1000_probe (platform fw) (net_device h) = (g, ok)" by fastforce
  then show ?thesis
    using native_result [of "h\<lparr>net_device := g\<rparr>" tc fw drained d pc pm] None assms by (cases ok) (auto simp: find_adapter_def)
qed

lemma refresh_steps:
  obtains nd c h1 a where
    "find_adapter tc fw drained d (ns_configured h) (ns_client_mac h) (nothing_found d ((on_card (\<lambda>_. c) (cleared h))\<lparr>g_netdiag := nd\<rparr>)) = Some (h1, a)"
    "names_ok h1" "network_refresh fw drained d tc h = network_apply_profile_status a d h1"
proof -
  obtain nd c where dg: "network_collect_diagnostics fw (cleared h) = Some ((on_card (\<lambda>_. c) (cleared h))\<lparr>g_netdiag := nd\<rparr>)"
    using diagnostics_result by metis
  let ?h = "nothing_found d ((on_card (\<lambda>_. c) (cleared h))\<lparr>g_netdiag := nd\<rparr>)"
  obtain h1 a where f: "find_adapter tc fw drained d (ns_configured h) (ns_client_mac h) ?h = Some (h1, a)" "names_ok h1"
    using find_result [OF nothing_found_names] by metis
  show thesis by (rule that [OF f]) (simp add: network_refresh_def dg f(1))
qed

section \<open>What a refresh without connecting does to the driver\<close>

lemma initialized_access [simp]:
  "initialized (fst (e1000_reg_read32 off g)) = initialized g" "initialized (e1000_reg_write32 off v g) = initialized g"
  "initialized (stall fw us g) = initialized g"
  by (auto simp: e1000_reg_read32_def e1000_reg_write32_def stall_def split: option.split prod.split)

lemma poll_initialized: "initialized (fst (eeprom_poll n fw g)) = initialized g"
proof (induction n arbitrary: g)
  case (Suc n)
  then show ?case using initialized_access(1) [of E1000_EERD g] by (simp add: split_beta)
qed simp

lemma eeprom_initialized [simp]: "initialized (fst (e1000_eeprom_read fw a g)) = initialized g"
  by (simp add: e1000_eeprom_read_def poll_initialized)

lemma read_mac_initialized: "initialized (fst (e1000_read_mac fw g)) = initialized g"
  by (simp add: e1000_read_mac_def split_beta)

lemma probe_loop_initialized: "initialized (probe_loop handles g) = initialized g"
  by (induction handles g rule: probe_loop.induct) (auto simp: adopt_def Let_def split: option.split prod.split)

lemma probe_initialized: "\<not> initialized (fst (e1000_probe fw g))"
  by (simp add: e1000_probe_def Let_def probe_loop_initialized no_adapter_def split: option.split)

lemma over_wire_fields:
  "net_device (over_wire a d h) = net_device h" "net_initialized (over_wire a d h) = net_initialized h"
  "nw_native_available (over_wire a d h) = nw_native_available h" "nw_protocol (over_wire a d h) = nw_protocol h"
  "ns_configured (over_wire a d h) = ns_configured h" "ns_static_profile (over_wire a d h) = ns_static_profile h"
  "nw_services_ready (over_wire a d h) = nw_services_ready h" "nw_available (over_wire a d h) = nw_available h"
  by (simp_all add: over_wire_def Let_def announce_def settled_def netstack_sync_strings_def)

lemma over_wire_status: "nw_available h \<Longrightarrow> ns_configured h \<Longrightarrow> \<not> ns_static_profile h \<Longrightarrow>
    nw_status (over_wire a d h) = ''Wired Ethernet is initialized and DHCP supplied an IPv4 lease.''"
  by (simp add: over_wire_def Let_def announce_def settled_def netstack_sync_strings_def wired_texts_def put_def strcopy_limit_fits)

lemma protocol_no_native:
  "refresh_protocol tc fw drained d np m h = Some (h', a) \<Longrightarrow> nw_native_available h' = nw_native_available h"
proof -
  assume r: "refresh_protocol tc fw drained d np m h = Some (h', a)"
  have "nw_native_available h' = nw_native_available k" if "try_connecting tc fw drained d k = Some (h', a)" for k
    using try_result [of tc fw drained d k] that by (auto simp: labels_def)
  from this [OF r [unfolded refresh_protocol_def Let_def]] show ?thesis
    by (auto simp: netstack_reset_def netstack_sync_strings_def split: if_splits)
qed

lemma native_idle:
  assumes "refresh_native False fw drained d pc pm h = Some (h', a)"
  shows "initialized (net_device h') = initialized (net_device h)" "nw_protocol h' = nw_protocol h" "nw_available h'"
    "ns_configured h' = (ns_configured h \<and> pc \<and> pm = map octet (mac (net_device h')))"
    "ns_configured h' \<Longrightarrow> ns_static_profile h' = ns_static_profile h"
proof -
  obtain g m where g: "e1000_read_mac (platform fw) (net_device h) = (g, m)" by fastforce
  have i: "initialized g = initialized (net_device h)" using read_mac_initialized [of "platform fw" "net_device h"] g by simp
  show "initialized (net_device h') = initialized (net_device h)" "nw_protocol h' = nw_protocol h" "nw_available h'"
    "ns_configured h' = (ns_configured h \<and> pc \<and> pm = map octet (mac (net_device h')))"
    "ns_configured h' \<Longrightarrow> ns_static_profile h' = ns_static_profile h"
    using assms g i
    by (auto simp: refresh_native_def Let_def try_connecting_def native_found_fields report_fields)
qed

text \<open>Nothing was found before the search.\<close>

lemma nothing_fields:
  "nw_native_available (nothing_found d (g_netdiag_update f (on_card c (cleared h)))) = False"
  "nw_protocol (nothing_found d (g_netdiag_update f (on_card c (cleared h)))) = None"
  "ns_configured (nothing_found d (g_netdiag_update f (on_card c (cleared h)))) = ns_configured h"
  "ns_static_profile (nothing_found d (g_netdiag_update f (on_card c (cleared h)))) = ns_static_profile h"
  by (simp_all add: nothing_found_def Let_def netstack_sync_strings_def on_card_def cleared_def)

lemma find_native:
  assumes "find_adapter False fw drained d pc pm h = Some (h', a)" "nw_native_available h'" "\<not> nw_native_available h"
  shows "\<not> initialized (net_device h')" "nw_protocol h' = nw_protocol h" "nw_available h'"
    "ns_configured h' = (ns_configured h \<and> pc \<and> pm = map octet (mac (net_device h')))"
    "ns_configured h' \<Longrightarrow> ns_static_profile h' = ns_static_profile h"
proof -
  have none: "Option.bind (network_locate_protocol fw) (\<lambda>np. map_option (Pair np) (snp_mode_block np)) = None"
    using assms protocol_no_native [of False fw drained d _ _ h h' a] by (fastforce simp: find_adapter_def split: option.splits)
  obtain g ok where p: "e1000_probe (platform fw) (net_device h) = (g, ok)" by fastforce
  have ok: ok
    using assms none p by (cases ok) (auto simp: find_adapter_def netstack_reset_def netstack_sync_strings_def)
  then have r: "refresh_native False fw drained d pc pm (h\<lparr>net_device := g\<rparr>) = Some (h', a)"
    using assms(1) none p by (simp add: find_adapter_def)
  show "\<not> initialized (net_device h')" using native_idle(1) [OF r] probe_initialized [of "platform fw" "net_device h"] p by simp
  show "nw_protocol h' = nw_protocol h" "nw_available h'"
    "ns_configured h' = (ns_configured h \<and> pc \<and> pm = map octet (mac (net_device h')))"
    "ns_configured h' \<Longrightarrow> ns_static_profile h' = ns_static_profile h"
    using native_idle(2-) [OF r] by simp_all
qed

lemma bind_SomeE: "Option.bind x f = Some y \<Longrightarrow> (\<And>z. x = Some z \<Longrightarrow> f z = Some y \<Longrightarrow> P) \<Longrightarrow> P"
  by (cases x) auto

lemma set_profile_native: "set_profile s ts h = Some h' \<Longrightarrow> nw_native_available h' = nw_native_available h"
  by (auto simp: set_profile_def)

lemma wired_native: "wired_status a d h = Some h' \<Longrightarrow> nw_native_available h' = nw_native_available h"
  by (auto simp: wired_status_def announce_def dest: set_profile_native)

lemma air_native:
  assumes "Option.bind (set_profile s ts k) (\<lambda>h. if b then wired_status a d h else if c then Some (air_off x y h) else Some (air_off x' y' h)) = Some h'"
  shows "nw_native_available h' = nw_native_available k"
proof -
  obtain z where z: "set_profile s ts k = Some z"
    "(if b then wired_status a d z else if c then Some (air_off x y z) else Some (air_off x' y' z)) = Some h'"
    using assms by (rule bind_SomeE)
  show ?thesis
    using z(2) set_profile_native [OF z(1)] by (auto simp: air_off_def announce_def dest: wired_native split: if_splits)
qed

lemma apply_native:
  assumes "network_apply_profile_status a d h = Some h'"
  shows "nw_native_available h' = nw_native_available h"
proof -
  have "nw_native_available (settled d h) = nw_native_available h" by (simp add: settled_def netstack_sync_strings_def)
  then show ?thesis
    using assms air_native [of _ _ "settled d h"] wired_native [of a d "settled d h"]
    unfolding network_apply_profile_status_def Let_def settled_def [symmetric] by (simp split: if_split_asm)
qed

section \<open>Properties\<close>



section \<open>An example\<close>

definition demo_platform :: "demo net_firmware" where
  "demo_platform = \<lparr>platform = E1000Wire.demo_firmware, snp_search = Some [None], snp_located = None, handle_search = (\<lambda>_. None), pci_location = (\<lambda>_. None)\<rparr>"

text \<open>The adapter of the driver's example, up and with a lease.\<close>

definition demo_link :: "demo network" where
  "demo_link = net_host.extend (adapter_host\<lparr>ns_configured := True, ns_client_mac := map octet ([0x08, 0x00, 0x27, 0x00, 0x01, 0x02] :: u8 list)\<rparr>)
     \<lparr>h_links = [], nw_available = True, nw_native_available = True, nw_media_present = True, nw_media_present_supported = False,
      nw_started = True, nw_dhcp_ready = True, nw_internet_ready = True, nw_services_ready = True, nw_wifi_profile_ready = True,
      nw_hotspot_profile_ready = True, nw_mode_state = 0, nw_max_packet_size = 1518, nw_if_type = 0, nw_hw_address_size = 6,
      nw_preference = 0, nw_protocol = None, nw_driver_name = ''SNSX 82540EM'', nw_mac = ''08:00:27:00:01:02'',
      nw_permanent_mac = ''08:00:27:00:01:02'', nw_transport = ''Native Intel 82540EM Ethernet'', nw_preferred_transport = ''AUTO'',
      nw_hostname = ''SNSX'', nw_profile = ''Host SNSX using Native Intel 82540EM Ethernet'', nw_internet = [], nw_capabilities = [],
      nw_status = [], g_netdiag = counted demo_platform\<rparr>"

lemma demo_probe:
  obtains g' where "e1000_probe E1000Wire.demo_firmware g = (g', True)" "demo_path g'"
proof -
  let ?g = "(no_adapter (card g))\<lparr>present := True, pci := Some demo_pci, vendor_id := le16 demo_config 0,
    device_id := le16 demo_config 2, use_mmio := True, bar_index := 0\<rparr>"
  have "e1000_probe E1000Wire.demo_firmware g = (?g, True)"
    unfolding e1000_probe_def using demo_supported
    by (simp add: E1000Wire.demo_firmware_def demo_pci_def no_adapter_def adopt_def Let_def)
  then show thesis by (rule that) (simp add: demo_path_def)
qed

lemma demo_reads_mac: "demo_path g \<Longrightarrow> e1000_read_mac E1000Wire.demo_firmware g = (g, [0x08, 0x00, 0x27, 0x00, 0x01, 0x02])"
proof -
  assume g: "demo_path g"
  have regs: "mac_of_registers 0x00270008 0x0201 = [0x08, 0x00, 0x27, 0x00, 0x01, 0x02]" by (simp add: mac_of_registers_def)
  have "e1000_reg_read32 E1000_RAL g = (g, 0x00270008)" "e1000_reg_read32 E1000_RAH g = (g, 0x0201)"
    unfolding demo_access(2) [OF g] by (simp_all add: E1000_RAL_def E1000_RAH_def)
  then show ?thesis by (simp add: e1000_read_mac_def regs zero_mac_def ff_mac_def)
qed

lemma demo_found_native:
  assumes "find_adapter False demo_platform drained d pc pm h = Some (h', a)"
  shows "nw_native_available h'" "mac (net_device h') = [0x08, 0x00, 0x27, 0x00, 0x01, 0x02]"
proof -
  obtain g where g: "e1000_probe E1000Wire.demo_firmware (net_device h) = (g, True)" "demo_path g" by (rule demo_probe)
  have v: "e1000_mac_is_valid [0x08, 0x00, 0x27, 0x00, 0x01, 0x02]" by (simp add: e1000_mac_is_valid_def zero_mac_def ff_mac_def)
  have "refresh_native False demo_platform drained d pc pm (h\<lparr>net_device := g\<rparr>) = Some (h', a)"
    using assms g(1) by (simp add: find_adapter_def network_locate_protocol_def demo_platform_def)
  then show "nw_native_available h'" "mac (net_device h') = [0x08, 0x00, 0x27, 0x00, 0x01, 0x02]"
    using demo_reads_mac [OF g(2)] v
    by (auto simp: refresh_native_def Let_def try_connecting_def demo_platform_def native_found_fields report_fields)
qed

lemma demo_bounded: "desktop_bounded default_desktop"
  by (simp add: desktop_bounded_def default_desktop_def)


lemma demo_refreshed:
  obtains h' where "network_refresh demo_platform id default_desktop False demo_link = Some h'" "nw_native_available h'"
    "mac (net_device h') = [0x08, 0x00, 0x27, 0x00, 0x01, 0x02]"
proof -
  obtain nd c h1 a where f: "find_adapter False demo_platform id default_desktop (ns_configured demo_link) (ns_client_mac demo_link)
      (nothing_found default_desktop ((on_card (\<lambda>_. c) (cleared demo_link))\<lparr>g_netdiag := nd\<rparr>)) = Some (h1, a)"
    and h1: "names_ok h1" "network_refresh demo_platform id default_desktop False demo_link = network_apply_profile_status a default_desktop h1"
    using refresh_steps by metis
  note n = demo_found_native [OF f]
  have "\<not> prefers_air default_desktop" by (simp add: prefers_air_def default_desktop_def)
  then have "network_refresh demo_platform id default_desktop False demo_link = Some (over_wire a default_desktop h1)"
    unfolding h1(2) using apply_status_cases(2) [OF h1(1) demo_bounded] by blast
  then show thesis by (rule that) (simp_all add: over_wire_fields n)
qed

end
