(* ===== verification/Spec2Isabelle.thy ===== *)
theory Spec2Isabelle
  imports LegacySession Connection
begin

text \<open>
  Verification development for SNSX OS.

  The repository holds two kernels written in C. \<open>src/arm64/kernel/main.c\<close> is the ARM64 UEFI system: a
  RAM file system that is saved to a firmware volume, a TCP/IP stack over a network device, and desktop
  applications (store, browser, code studio, calculator) whose state lives in text files of that file system.
  \<open>src/kernel\<close> and \<open>src/drivers\<close> are the x86 system: descriptor tables, interrupts, paging, timer, keyboard,
  text screen, disk driver, tasks, system calls, a RAM file system of its own and a shell. Both link
  \<open>src/lib/string.c\<close>.

  \<^bold>\<open>Conventions.\<close> Definitions carry the names of the code. A structure is a record, an enumeration a
  datatype, a machine integer a word where it may wrap and a natural number where the code keeps it small; an
  octet is a \<open>char\<close> and a C string the list of the octets before its terminator. State is passed and
  returned. \<open>None\<close> is undefined behaviour (an array overrun, a signed overflow), a loop that does not end, or
  a wait for something that never comes; the text of each theory says which. Recursion that is
  neither structural nor bounded by a measure has fuel and the result type \<open>outcome\<close>: \<open>Done\<close>, \<open>Undefined\<close> or
  \<open>OutOfFuel\<close>, and more fuel never changes a result. Code outside the repository (firmware protocols, the
  network adapter, the disk drive, the processor, the programs that are run, the linker's addresses) is an
  argument of the definitions that use it.

  \<^bold>\<open>Shared theories.\<close>
  \<^item> Prelude: machine types, C strings, \<open>outcome\<close>, lemmas on lists, words and paths.
  \<^item> Interfaces: the contracts, as locales. \<open>file_table\<close> is a store whose operations take their whole effect on a
    finite map or none; both file systems interpret it (\<open>arm_table\<close>, \<open>x86_table\<close>). \<open>field_codec\<close> is a pair
    of a writer and a reader of a field (\<open>be16\<close>, \<open>be32\<close>). \<open>bounded_queue\<close> is a queue that drops what does not
    fit (\<open>keyboard_queue\<close>). \<open>frame_carrier\<close>, in NetHttp, is a
    device that carries frames in order (\<open>log_wire\<close>; \<open>driver_carries\<close> shows it of the adapter's driver). \<open>line_store\<close>, in Settings, is a pair of save and load over lines of text, interpreted by
    the five components that keep such files.
  \<^item> CString: \<open>src/lib/string.c\<close>, the memory routines over addresses, related to the list reading of strings that the
    other theories use, and the number conversions.

  \<^bold>\<open>The ARM64 kernel\<close>, all of \<open>src/arm64/kernel/main.c\<close>.
  \<^item> ArmPath: \<open>strcopy_limit\<close>, the line editor, the tokenizer, \<open>resolve_path_from\<close>. A resolved path is
    canonical; resolving in the root overruns an array when the argument is long.
  \<^item> ArmFs: the table \<open>g_fs\<close> and every \<open>fs_\<close> operation, with the dirty flag. Runs of operations keep the table well
    formed (unique names, parents before children, sizes in bounds) and act on it as on a finite map; \<open>fs_move\<close> moves a
    subtree, and is \<open>None\<close> exactly where its concatenation overruns a path.
  \<^item> Persist: snapshot format, firmware files, volume search, load, save, install. Writing and reading a
    snapshot is the identity on every table that fits; reading any image keeps the table well formed; the dirty flag
    falls only after a successful write.
  \<^item> NetBytes, NetFrames, NetText, NetHttp: checksums and address text; UDP and TCP frames, ARP and DHCP; DNS, the
    page renderer, URLs; the HTTP client. Frames round-trip, a checksummed block verifies, a stream arrives whole and
    in order at a peer that acknowledges, a rendered page fits its array and scripts leave no trace in it.
  \<^item> E1000, E1000Wire: the driver of the network adapter and the choice between it and the firmware's protocol. Over
    any hardware that does not resize the shared memory the driver stays inside its rings; over an adapter that works as its
    manual says frames leave and arrive in order, and the stream of the HTTP client goes through whole.
  \<^item> Settings, Desktop, Store, Browser, Studio: the text files and the state of the applications. What is saved is loaded
    again, tables stay in bounds, core packages stay installed, and the loads \<open>efi_main\<close> performs
    (\<open>load_session\<close>) keep the invariants of all components together.
  \<^item> Calc: the calculator. Four units of fuel a character are enough; what it prints for the text of an expression is
    the value of the expression.

  \<^bold>\<open>The x86 kernel.\<close>
  \<^item> LegacyFs, LegacyFsOps: \<open>kernel/fs.c\<close>, with the entry pointers its readers go through. Operations act as on a
    finite map; the entries show their nodes until a removal, which leaves them pointing at the wrong slots.
  \<^item> Terminal, Keyboard, Ata: \<open>drivers/vga.c\<close>, \<open>drivers/keyboard.c\<close>, \<open>drivers/ata.c\<close>. The screen shows the last
    25 rows of what was written; the keyboard delivers what was typed while its ring has room; the disk driver gives
    no command that writes, makes a bounded number of accesses, and delivers the sectors asked for.
  \<^item> Tasks, LegacyKernel: \<open>kernel/task.c\<close> and the core (\<open>gdt.c\<close>, \<open>idt.c\<close>, \<open>paging.c\<close>, \<open>timer.c\<close>, \<open>interrupts.c\<close>,
    \<open>syscall.c\<close>, \<open>kmain.c\<close>) as a machine that takes one trap after another. The task table keeps its type, every tick is
    charged, interrupts are routed and acknowledged, system calls type what they are given.
  \<^item> LegacyText, LegacyCalc, LegacyShell, LegacySession: \<open>kernel/shell.c\<close>. LegacyText has the path resolver, LegacyCalc the
    calculator (equal to Calc's), LegacyShell every command and application, LegacySession the theorems on whole
    sessions: a line is read once it is typed, every command keeps the kernel's invariant, the editor saves what
    is typed, and what goes wrong after a removal.

  \<^bold>\<open>How they interact.\<close> A trap changes the machine through the dispatcher (timer, keyboard, system call); the
  shell waits by taking traps until the keyboard has a character, and reads and writes the file table of the same
  machine. On the ARM64 side every application writes through the \<open>fs_\<close> operations, which set the dirty flag that
  \<open>persist_flush_state\<close> looks at, and the browser and the studio fetch through the HTTP client.

  \<^bold>\<open>Bounds and fuel.\<close> The calculators take 4 units of fuel a character and 3 (\<open>enough_fuel\<close>). A fetch takes one
  unit a redirect; a request that is not a GET takes one. The polls of the disk driver are the
  100000 of the code, those of the network driver its 1000. Loops
  over input that may never come (\<open>read_loop\<close>, \<open>editor_loop\<close>, \<open>manager_loop\<close>, \<open>walk_list\<close>, \<open>line_read\<close>) are partial
  functions, and the theorems say when they return.

  \<^bold>\<open>Not modelled.\<close> The ARM64 kernel's pixels, widgets and event loops (\<open>gfx_\<close>, \<open>ui_\<close>, \<open>app_\<close> functions), its
  firmware console and pointer input and the text of its information pages: layout over a frame buffer whose state
  changes go through the operations above. Its shell, and the search for and reporting on its
  network interfaces. The declarations of
  the firmware interface (\<open>src/arm64/include/efi.h\<close>): the services are parameters. Assembly stubs, boot code, build
  scripts and the sample programs are outside the implementation language.
\<close>

end
